(* ===== verification/EC_Prelude.thy ===== *)
theory EC_Prelude
  imports Main "HOL-Library.Word"
begin

text \<open>
  Shared vocabulary of the development: fixed-width integers, byte-addressed packet memory
  with little-endian loads and stores (the x86 and eBPF hosts the sources are built for),
  byte-order conversions, and the arithmetic modulo \<open>2^16 - 1\<close> in which Internet checksums
  live.  The collections \<open>mem_simps\<close> (reads over writes) and \<open>oc_intros\<close> (congruences
  modulo 65535) and \<open>shift_intros\<close> (effect of a store on the sum of a byte range) carry
  the proofs of the component theories.
\<close>

unbundle bit_operations_syntax

named_theorems mem_simps \<open>reads over writes in packet memory\<close>
named_theorems oc_intros \<open>introduction rules for congruence modulo 65535\<close>
named_theorems shift_intros \<open>how stores shift the checksum sum of a byte range\<close>

type_synonym u8 = "8 word"
type_synonym u16 = "16 word"
type_synonym u32 = "32 word"
type_synonym u64 = "64 word"

text \<open>Packet memory: byte \<open>i\<close> after the start of the frame.\<close>

type_synonym mem = "nat \<Rightarrow> u8"

text \<open>Offsets stay in the form \<open>pointer + numeral\<close>.\<close>

declare add_2_eq_Suc [simp del] add_2_eq_Suc' [simp del]

section \<open>Words as bytes\<close>

definition byte :: "nat \<Rightarrow> 'a::len word \<Rightarrow> u8" where
  "byte k x = ucast (drop_bit (8 * k) x)"

definition mk16 :: "u8 \<Rightarrow> u8 \<Rightarrow> u16" where
  "mk16 b0 b1 = ucast b0 + 0x100 * ucast b1"

definition mk32 :: "u8 \<Rightarrow> u8 \<Rightarrow> u8 \<Rightarrow> u8 \<Rightarrow> u32" where
  "mk32 b0 b1 b2 b3 =
     ucast b0 + 0x100 * ucast b1 + 0x10000 * ucast b2 + 0x1000000 * ucast b3"

definition mk64 :: "u32 \<Rightarrow> u32 \<Rightarrow> u64" where
  "mk64 lo hi = ucast lo + 0x100000000 * ucast hi"

definition bytes32 :: "u32 \<Rightarrow> u8 list" where
  "bytes32 v = [byte 0 v, byte 1 v, byte 2 v, byte 3 v]"

text \<open>
  On a little-endian host \<open>ntohs\<close>, \<open>htons\<close>, \<open>ntohl\<close> and \<open>htonl\<close> (and their
  \<open>bpf_\<close> variants) are byte swaps.
\<close>

definition bswap16 :: "u16 \<Rightarrow> u16" where
  "bswap16 x = mk16 (byte 1 x) (byte 0 x)"

definition bswap32 :: "u32 \<Rightarrow> u32" where
  "bswap32 x = mk32 (byte 3 x) (byte 2 x) (byte 1 x) (byte 0 x)"

abbreviation (input) ntohs :: "u16 \<Rightarrow> u16" where "ntohs \<equiv> bswap16"
abbreviation (input) htons :: "u16 \<Rightarrow> u16" where "htons \<equiv> bswap16"
abbreviation (input) ntohl :: "u32 \<Rightarrow> u32" where "ntohl \<equiv> bswap32"
abbreviation (input) htonl :: "u32 \<Rightarrow> u32" where "htonl \<equiv> bswap32"

section \<open>Loads and stores\<close>

definition ld16 :: "mem \<Rightarrow> nat \<Rightarrow> u16" where
  "ld16 m a = mk16 (m a) (m (a + 1))"

definition ld32 :: "mem \<Rightarrow> nat \<Rightarrow> u32" where
  "ld32 m a = mk32 (m a) (m (a + 1)) (m (a + 2)) (m (a + 3))"

definition ld64 :: "mem \<Rightarrow> nat \<Rightarrow> u64" where
  "ld64 m a = mk64 (ld32 m a) (ld32 m (a + 4))"

definition st8 :: "mem \<Rightarrow> nat \<Rightarrow> u8 \<Rightarrow> mem" where
  "st8 m a v = m(a := v)"

definition st16 :: "mem \<Rightarrow> nat \<Rightarrow> u16 \<Rightarrow> mem" where
  "st16 m a v = m(a := byte 0 v, a + 1 := byte 1 v)"

definition st32 :: "mem \<Rightarrow> nat \<Rightarrow> u32 \<Rightarrow> mem" where
  "st32 m a v = m(a := byte 0 v, a + 1 := byte 1 v, a + 2 := byte 2 v, a + 3 := byte 3 v)"

text \<open>\<open>copy m dst src n\<close>: \<open>memcpy\<close> of \<open>n\<close> bytes, with non-overlapping ranges.\<close>

definition copy :: "mem \<Rightarrow> nat \<Rightarrow> nat \<Rightarrow> nat \<Rightarrow> mem" where
  "copy m dst src n = (\<lambda>i. if dst \<le> i \<and> i < dst + n then m (src + (i - dst)) else m i)"

definition rd_bytes :: "mem \<Rightarrow> nat \<Rightarrow> nat \<Rightarrow> u8 list" where
  "rd_bytes m a n = map (\<lambda>i. m (a + i)) [0..<n]"

definition wr_bytes :: "mem \<Rightarrow> nat \<Rightarrow> u8 list \<Rightarrow> mem" where
  "wr_bytes m a bs = (\<lambda>i. if a \<le> i \<and> i < a + length bs then bs ! (i - a) else m i)"

lemma length_bytes32 [simp]: "length (bytes32 v) = 4"
  by (simp add: bytes32_def)

lemma length_rd_bytes [simp]: "length (rd_bytes m a n) = n"
  by (simp add: rd_bytes_def)

section \<open>Arithmetic of bytes\<close>

lemma unat_byte: "unat (byte k x) = (unat x div 256 ^ k) mod 256"
proof -
  have "unat (drop_bit (8 * k) x) = unat x div 256 ^ k"
    by (simp add: unsigned_drop_bit_eq drop_bit_eq_div [where 'a = nat] power_mult
        take_bit_nat_eq_self unsigned_less)
  then show ?thesis
    by (simp add: byte_def unsigned_ucast_eq take_bit_eq_mod)
qed

lemma unat_u8_less: "unat (b :: u8) < 256"
  using unsigned_less [of b] by simp

lemma unat_u16_less: "unat (b :: u16) < 65536"
  using unsigned_less [of b] by simp

lemma unat_u32_less: "unat (b :: u32) < 4294967296"
  using unsigned_less [of b] by simp

lemma unat_ucast_u8:
  "unat (ucast (b :: u8) :: u16) = unat b"
  "unat (ucast (b :: u8) :: u32) = unat b"
  "unat (ucast (b :: u8) :: u64) = unat b"
  by (simp_all add: unsigned_ucast_eq take_bit_eq_mod less_trans [OF unat_u8_less])

lemma unat_mk16: "unat (mk16 b0 b1) = unat b0 + 256 * unat b1"
proof -
  have "unat b0 + 256 * unat b1 < 65536"
    using unat_u8_less [of b0] unat_u8_less [of b1] by linarith
  then show ?thesis
    by (simp add: mk16_def unat_word_ariths unat_ucast_u8)
qed

lemma unat_mk32:
  "unat (mk32 b0 b1 b2 b3) = unat b0 + 256 * unat b1 + 65536 * unat b2 + 16777216 * unat b3"
proof -
  have "unat b0 + 256 * unat b1 + 65536 * unat b2 + 16777216 * unat b3 < 4294967296"
    using unat_u8_less [of b0] unat_u8_less [of b1] unat_u8_less [of b2] unat_u8_less [of b3]
    by linarith
  then show ?thesis
    by (simp add: mk32_def unat_word_ariths unat_ucast_u8)
qed

lemma byte_mk16 [simp]:
  "byte 0 (mk16 b0 b1) = b0" "byte 1 (mk16 b0 b1) = b1" "byte (Suc 0) (mk16 b0 b1) = b1"
  using unat_u8_less [of b0] unat_u8_less [of b1]
  by (simp_all add: word_unat_eq_iff unat_byte unat_mk16)

lemma digits_256:
  fixes b0 b1 b2 b3 :: nat
  assumes "b0 < 256" "b1 < 256" "b2 < 256" "b3 < 256"
  defines "n \<equiv> b0 + 256 * b1 + 65536 * b2 + 16777216 * b3"
  shows "n mod 256 = b0" "n div 256 mod 256 = b1" "n div 65536 mod 256 = b2"
    "n div 16777216 mod 256 = b3"
proof -
  have n: "n = b0 + 256 * (b1 + 256 * (b2 + 256 * b3))"
    by (simp add: n_def)
  show "n mod 256 = b0" unfolding n using assms(1) by (subst mod_mult_self2) simp
  have d1: "n div 256 = b1 + 256 * (b2 + 256 * b3)"
    unfolding n using assms(1) by (subst div_mult_self2) simp_all
  show "n div 256 mod 256 = b1" unfolding d1 using assms(2) by (subst mod_mult_self2) simp
  have "n div 65536 = n div 256 div 256"
    by (simp add: div_mult2_eq [symmetric])
  also have d2: "\<dots> = b2 + 256 * b3"
    unfolding d1 using assms(2) by (subst div_mult_self2) simp_all
  finally show "n div 65536 mod 256 = b2" using assms(3) by (simp only: mod_mult_self2) simp
  have "n div 16777216 = n div 256 div 256 div 256"
    by (simp add: div_mult2_eq [symmetric])
  also have "\<dots> = b3"
    unfolding d2 using assms(3) by (subst div_mult_self2) simp_all
  finally show "n div 16777216 mod 256 = b3" using assms(4) by simp
qed

lemma byte_mk32 [simp]:
  "byte 0 (mk32 b0 b1 b2 b3) = b0" "byte 1 (mk32 b0 b1 b2 b3) = b1"
  "byte (Suc 0) (mk32 b0 b1 b2 b3) = b1"
  "byte 2 (mk32 b0 b1 b2 b3) = b2" "byte 3 (mk32 b0 b1 b2 b3) = b3"
  by (simp_all add: word_unat_eq_iff unat_byte unat_mk32 digits_256 unat_u8_less del: div_mult_self1 div_mult_self2)

lemma mk16_byte [simp]: "mk16 (byte 0 x) (byte 1 x) = x" "mk16 (byte 0 x) (byte (Suc 0) x) = x"
  using unat_u16_less [of x]
  by (simp_all add: word_unat_eq_iff unat_byte unat_mk16)

lemma sum_digits_256_aux:
  fixes x q1 q2 q3 r0 r1 r2 :: nat
  assumes "x = q1 * 256 + r0" "q1 = q2 * 256 + r1" "q2 = q3 * 256 + r2"
  shows "r0 + 256 * r1 + 65536 * r2 + 16777216 * q3 = x"
  using assms by simp

lemma sum_digits_256:
  assumes "(x :: nat) < 4294967296"
  shows "x mod 256 + 256 * (x div 256 mod 256) + 65536 * (x div 65536 mod 256)
     + 16777216 * (x div 16777216 mod 256) = x"
proof -
  have q: "x div 65536 = x div 256 div 256" "x div 16777216 = x div 256 div 256 div 256"
    by (simp_all add: div_mult2_eq [symmetric])
  have "x div 256 div 256 div 256 < 256"
    using assms by (simp add: div_mult2_eq [symmetric] less_mult_imp_div_less)
  then have l: "x div 256 div 256 div 256 mod 256 = x div 256 div 256 div 256"
    by (rule mod_less)
  show ?thesis
    unfolding q l by (rule sum_digits_256_aux) (rule div_mult_mod_eq [symmetric])+
qed

lemma mk32_byte [simp]:
  "mk32 (byte 0 x) (byte 1 x) (byte 2 x) (byte 3 x) = x"
  "mk32 (byte 0 x) (byte (Suc 0) x) (byte 2 x) (byte 3 x) = x"
proof -
  have "unat (mk32 (byte 0 x) (byte 1 x) (byte 2 x) (byte 3 x)) = unat x"
    using sum_digits_256 [OF unat_u32_less [of x]] by (simp add: unat_mk32 unat_byte del: mod_less)
  then show "mk32 (byte 0 x) (byte 1 x) (byte 2 x) (byte 3 x) = x"
    "mk32 (byte 0 x) (byte (Suc 0) x) (byte 2 x) (byte 3 x) = x"
    by (simp_all add: word_unat_eq_iff)
qed

lemma bswap16_bswap16 [simp]: "bswap16 (bswap16 x) = x"
  by (simp add: bswap16_def)

lemma bswap32_bswap32 [simp]: "bswap32 (bswap32 x) = x"
  by (simp add: bswap32_def)

lemma bswap32_eq_iff: "bswap32 x = y \<longleftrightarrow> x = bswap32 y"
  by auto

lemma bswap32_inject [simp]: "bswap32 x = bswap32 y \<longleftrightarrow> x = y"
  by (simp add: bswap32_eq_iff)

section \<open>Reads over writes\<close>

lemma st8_other [mem_simps]:
  "i < a \<Longrightarrow> st8 m a v i = m i" "a < i \<Longrightarrow> st8 m a v i = m i"
  by (simp_all add: st8_def)

lemma st16_other [mem_simps]:
  "i < a \<Longrightarrow> st16 m a v i = m i" "a + 2 \<le> i \<Longrightarrow> st16 m a v i = m i"
  by (simp_all add: st16_def)

lemma st32_other [mem_simps]:
  "i < a \<Longrightarrow> st32 m a v i = m i" "a + 4 \<le> i \<Longrightarrow> st32 m a v i = m i"
  by (simp_all add: st32_def)

lemma copy_other [mem_simps]:
  "i < dst \<Longrightarrow> copy m dst src n i = m i" "dst + n \<le> i \<Longrightarrow> copy m dst src n i = m i"
  by (simp_all add: copy_def)

lemma wr_bytes_other [mem_simps]:
  "i < a \<Longrightarrow> wr_bytes m a bs i = m i" "a + length bs \<le> i \<Longrightarrow> wr_bytes m a bs i = m i"
  by (simp_all add: wr_bytes_def)

lemma st_same [mem_simps]:
  "st8 m a v a = v" "ld16 (st16 m a w) a = w" "ld32 (st32 m a x) a = x"
  by (simp_all add: st8_def st16_def st32_def ld16_def ld32_def)

lemma ld16_st8 [mem_simps]:
  "b + 2 \<le> a \<Longrightarrow> ld16 (st8 m a v) b = ld16 m b" "a < b \<Longrightarrow> ld16 (st8 m a v) b = ld16 m b"
  by (simp_all add: ld16_def mem_simps)

lemma ld16_st16 [mem_simps]:
  "b + 2 \<le> a \<Longrightarrow> ld16 (st16 m a v) b = ld16 m b"
  "a + 2 \<le> b \<Longrightarrow> ld16 (st16 m a v) b = ld16 m b"
  by (simp_all add: ld16_def mem_simps)

lemma st32_ld32: "st32 m a (ld32 m a) = m"
  by (auto simp: st32_def ld32_def)

lemma st32_cong: "(i < a \<or> a + 4 \<le> i \<Longrightarrow> m' i = m i) \<Longrightarrow> st32 m' a v i = st32 m a v i"
  by (cases "i < a \<or> a + 4 \<le> i") (auto simp: st32_def)

lemma ld16_st32 [mem_simps]:
  "b + 2 \<le> a \<Longrightarrow> ld16 (st32 m a v) b = ld16 m b"
  "a + 4 \<le> b \<Longrightarrow> ld16 (st32 m a v) b = ld16 m b"
  by (simp_all add: ld16_def mem_simps)

lemma ld32_st8 [mem_simps]:
  "b + 4 \<le> a \<Longrightarrow> ld32 (st8 m a v) b = ld32 m b" "a < b \<Longrightarrow> ld32 (st8 m a v) b = ld32 m b"
  by (simp_all add: ld32_def mem_simps)

lemma ld32_st16 [mem_simps]:
  "b + 4 \<le> a \<Longrightarrow> ld32 (st16 m a v) b = ld32 m b"
  "a + 2 \<le> b \<Longrightarrow> ld32 (st16 m a v) b = ld32 m b"
  by (simp_all add: ld32_def mem_simps)

lemma ld32_st32 [mem_simps]:
  "b + 4 \<le> a \<Longrightarrow> ld32 (st32 m a v) b = ld32 m b"
  "a + 4 \<le> b \<Longrightarrow> ld32 (st32 m a v) b = ld32 m b"
  by (simp_all add: ld32_def mem_simps)

lemma ld_copy [mem_simps]:
  "b + 2 \<le> dst \<Longrightarrow> ld16 (copy m dst src n) b = ld16 m b"
  "dst + n \<le> b \<Longrightarrow> ld16 (copy m dst src n) b = ld16 m b"
  "b + 4 \<le> dst \<Longrightarrow> ld32 (copy m dst src n) b = ld32 m b"
  "dst + n \<le> b \<Longrightarrow> ld32 (copy m dst src n) b = ld32 m b"
  by (simp_all add: ld16_def ld32_def mem_simps)

lemma ld_wr_bytes [mem_simps]:
  "b + 2 \<le> a \<Longrightarrow> ld16 (wr_bytes m a bs) b = ld16 m b"
  "a + length bs \<le> b \<Longrightarrow> ld16 (wr_bytes m a bs) b = ld16 m b"
  "b + 4 \<le> a \<Longrightarrow> ld32 (wr_bytes m a bs) b = ld32 m b"
  "a + length bs \<le> b \<Longrightarrow> ld32 (wr_bytes m a bs) b = ld32 m b"
  by (simp_all add: ld16_def ld32_def mem_simps)

section \<open>Ones-complement sums\<close>

lemma int_divmod_unique:
  fixes x y n k :: int
  assumes "x = y + n * k" "0 \<le> y" "y < n"
  shows "x mod n = y" "x div n = k"
  using assms by simp_all

text \<open>
  Two integers are the same Internet checksum accumulator when they agree modulo
  \<open>2^16 - 1\<close>: end-around carries and the choice between the two zeros do not matter.
\<close>

definition oc_eq :: "int \<Rightarrow> int \<Rightarrow> bool" where
  "oc_eq x y \<longleftrightarrow> x mod 65535 = y mod 65535"

lemma oc_eq_iff: "oc_eq x y \<longleftrightarrow> (\<exists>k. x = y + 65535 * k)"
proof -
  have "oc_eq x y \<longleftrightarrow> 65535 dvd x - y"
    by (simp add: oc_eq_def mod_eq_dvd_iff)
  also have "\<dots> \<longleftrightarrow> (\<exists>k. x - y = 65535 * k)"
    by (simp add: dvd_def)
  also have "\<dots> \<longleftrightarrow> (\<exists>k. x = y + 65535 * k)"
    by (simp add: algebra_simps)
  finally show ?thesis .
qed

lemma oc_eq_refl [simp, oc_intros]: "oc_eq x x"
  by (simp add: oc_eq_def)

lemma oc_eq_sym: "oc_eq x y \<Longrightarrow> oc_eq y x"
  by (simp add: oc_eq_def)

lemma oc_eq_trans [trans]: "oc_eq x y \<Longrightarrow> oc_eq y z \<Longrightarrow> oc_eq x z"
  by (simp add: oc_eq_def)

lemma oc_eq_add [oc_intros]: "oc_eq a b \<Longrightarrow> oc_eq c d \<Longrightarrow> oc_eq (a + c) (b + d)"
  unfolding oc_eq_def by (rule mod_add_cong)

lemma oc_eq_diff [oc_intros]: "oc_eq a b \<Longrightarrow> oc_eq c d \<Longrightarrow> oc_eq (a - c) (b - d)"
  unfolding oc_eq_def by (rule mod_diff_cong)

lemma oc_eq_uminus [oc_intros]: "oc_eq a b \<Longrightarrow> oc_eq (- a) (- b)"
  unfolding oc_eq_def by (metis mod_minus_eq)

lemma oc_eq_carry: "oc_eq (a + 65536 * b) (a + b)"
  by (auto simp: oc_eq_iff intro: exI [of _ b])

lemma oc_eq_mult: "oc_eq a b \<Longrightarrow> oc_eq (c * a) (c * b)"
  unfolding oc_eq_def by (rule mod_mult_cong) simp_all

text \<open>The sum of a byte sequence as little-endian 16-bit words.\<close>

definition wt :: "nat \<Rightarrow> int" where
  "wt i = (if even i then 1 else 256)"

definition bsum :: "(nat \<Rightarrow> u8) \<Rightarrow> nat \<Rightarrow> int" where
  "bsum f n = (\<Sum>i<n. wt i * uint (f i))"

definition msum :: "mem \<Rightarrow> nat \<Rightarrow> nat \<Rightarrow> int" where
  "msum m a n = bsum (\<lambda>i. m (a + i)) n"

definition lsum :: "u8 list \<Rightarrow> int" where
  "lsum bs = bsum (\<lambda>i. bs ! i) (length bs)"

lemma bsum_upd: "k < n \<Longrightarrow> bsum (f(k := b)) n = bsum f n + wt k * (uint b - uint (f k))"
proof -
  assume k: "k < n"
  have "bsum (f(k := b)) n = wt k * uint b + (\<Sum>i\<in>{..<n} - {k}. wt i * uint (f i))"
    using k unfolding bsum_def by (subst sum.remove [of _ k]) auto
  moreover have "bsum f n = wt k * uint (f k) + (\<Sum>i\<in>{..<n} - {k}. wt i * uint (f i))"
    using k unfolding bsum_def by (subst sum.remove [of _ k]) auto
  ultimately show ?thesis by (simp add: algebra_simps)
qed

lemma bsum_cong: "(\<And>i. i < n \<Longrightarrow> f i = g i) \<Longrightarrow> bsum f n = bsum g n"
  by (simp add: bsum_def)

lemma msum_upd:
  assumes "a \<le> x" "x < a + n"
  shows "msum (m(x := b)) a n = msum m a n + wt (x - a) * (uint b - uint (m x))"
proof -
  have "(\<lambda>i. (m(x := b)) (a + i)) = (\<lambda>i. m (a + i))(x - a := b)"
    using assms by (auto simp: fun_eq_iff)
  then show ?thesis
    using assms bsum_upd [of "x - a" n "\<lambda>i. m (a + i)" b] by (simp add: msum_def)
qed

lemma msum_cong: "(\<And>i. a \<le> i \<Longrightarrow> i < a + n \<Longrightarrow> m i = m' i) \<Longrightarrow> msum m a n = msum m' a n"
  unfolding msum_def by (rule bsum_cong) simp

lemma msum_upd_other: "x < a \<or> a + n \<le> x \<Longrightarrow> msum (m(x := b)) a n = msum m a n"
  by (rule msum_cong) auto

lemma uint_mk16: "uint (mk16 b0 b1) = uint b0 + 256 * uint b1"
  using arg_cong [OF unat_mk16 [of b0 b1], of int] by simp

lemma uint_mk32:
  "uint (mk32 b0 b1 b2 b3) = uint b0 + 256 * uint b1 + 65536 * uint b2 + 16777216 * uint b3"
  using arg_cong [OF unat_mk32 [of b0 b1 b2 b3], of int] by simp

lemma msum_st8:
  "a \<le> x \<Longrightarrow> x < a + n \<Longrightarrow>
   msum (st8 m x v) a n = msum m a n + wt (x - a) * (uint v - uint (m x))"
  unfolding st8_def by (rule msum_upd)

lemma msum_st16:
  assumes "a \<le> x" "x + 2 \<le> a + n" "even (x - a)"
  shows "msum (st16 m x v) a n = msum m a n + uint v - uint (ld16 m x)"
proof -
  have v: "uint v = uint (byte 0 v) + 256 * uint (byte 1 v)"
    by (simp flip: uint_mk16)
  have "wt (x - a) = 1" "wt (x + 1 - a) = 256"
    using assms by (simp_all add: wt_def Suc_diff_le)
  then show ?thesis
    using assms by (simp add: st16_def msum_upd ld16_def uint_mk16 v)
qed

lemma msum_st32:
  assumes "a \<le> x" "x + 4 \<le> a + n" "even (x - a)"
  shows "oc_eq (msum (st32 m x v) a n) (msum m a n + uint v - uint (ld32 m x))"
proof -
  have v: "uint v = uint (byte 0 v) + 256 * uint (byte 1 v) + 65536 * uint (byte 2 v)
      + 16777216 * uint (byte 3 v)"
    by (simp flip: uint_mk32)
  have w: "wt (x - a) = 1" "wt (x + 1 - a) = 256" "wt (x + 2 - a) = 1" "wt (x + 3 - a) = 256"
    using assms by (simp_all add: wt_def Suc_diff_le)
  have "msum (st32 m x v) a n = msum m a n + uint v - uint (ld32 m x) + 65535 *
      (uint (m (x + 2)) + 256 * uint (m (x + 3)) - uint (byte 2 v) - 256 * uint (byte 3 v))"
    using assms w by (simp add: st32_def msum_upd ld32_def uint_mk32 v algebra_simps)
  then show ?thesis
    unfolding oc_eq_iff by (rule exI)
qed

lemma msum_st_other:
  "x < a \<or> a + n \<le> x \<Longrightarrow> msum (st8 m x b) a n = msum m a n"
  "x + 2 \<le> a \<or> a + n \<le> x \<Longrightarrow> msum (st16 m x h) a n = msum m a n"
  "x + 4 \<le> a \<or> a + n \<le> x \<Longrightarrow> msum (st32 m x v) a n = msum m a n"
  by (auto intro!: msum_cong simp: mem_simps)

lemma uint_oc_bytes32: "oc_eq (lsum (bytes32 v)) (uint v)"
proof -
  have "uint v = uint (byte 0 v) + 256 * uint (byte 1 v) + 65536 * uint (byte 2 v)
      + 16777216 * uint (byte 3 v)"
    by (simp flip: uint_mk32)
  moreover have "lsum (bytes32 v) = uint (byte 0 v) + 256 * uint (byte 1 v)
      + uint (byte 2 v) + 256 * uint (byte 3 v)"
    by (simp add: lsum_def bytes32_def bsum_def wt_def lessThan_nat_numeral lessThan_Suc)
  ultimately show ?thesis
    unfolding oc_eq_iff
    by (intro exI [of _ "- (uint (byte 2 v) + 256 * uint (byte 3 v))"]) simp
qed

lemma lsum_Nil [simp]: "lsum [] = 0"
  by (simp add: lsum_def bsum_def)

lemma lsum_rd_bytes: "lsum (rd_bytes m a n) = msum m a n"
  by (auto simp: lsum_def msum_def rd_bytes_def intro!: bsum_cong)

lemma msum_0 [simp]: "msum m a 0 = 0"
  by (simp add: msum_def bsum_def)

lemma msum_Suc_0 [simp]: "msum m a (Suc 0) = uint (m a)"
  by (simp add: msum_def bsum_def wt_def)

lemma msum_2: "msum m a (n + 2) = uint (m a) + 256 * uint (m (a + 1)) + msum m (a + 2) n"
  by (simp add: msum_def bsum_def wt_def add_2_eq_Suc add_2_eq_Suc' sum.lessThan_Suc_shift
      del: sum.lessThan_Suc)

lemma msum_append: "even k \<Longrightarrow> msum m a (k + n) = msum m a k + msum m (a + k) n"
proof (induction k arbitrary: a rule: nat_induct2)
  case (step k)
  then have "msum m (a + 2) (k + n) = msum m (a + 2) k + msum m (a + 2 + k) n"
    by simp
  moreover have "k + 2 + n = k + n + 2" by simp
  ultimately show ?case
    by (simp only: msum_2) (simp add: ac_simps)
qed simp_all

lemma msum_nonneg: "0 \<le> msum m a n"
  by (auto simp: msum_def bsum_def wt_def intro!: sum_nonneg)

lemma lsum_Cons2 [simp]: "lsum (x # y # xs) = uint x + 256 * uint y + lsum xs"
  by (simp add: lsum_def bsum_def wt_def sum.lessThan_Suc_shift del: sum.lessThan_Suc)

lemma lsum_single [simp]: "lsum [x] = uint x"
  by (simp add: lsum_def bsum_def wt_def)

section \<open>Tracking the sum of a byte range through stores\<close>

definition sum_shift :: "mem \<Rightarrow> mem \<Rightarrow> nat \<Rightarrow> nat \<Rightarrow> int \<Rightarrow> bool" where
  "sum_shift m m' a n d \<longleftrightarrow> oc_eq (msum m' a n) (msum m a n + d)"

lemma sum_shift_refl [shift_intros]: "sum_shift m m a n 0"
  by (simp add: sum_shift_def)

lemma sum_shift_st32 [shift_intros]:
  assumes "sum_shift m m' a n d" "ld32 m' x = old" "a \<le> x" "x + 4 \<le> a + n" "even (x - a)"
  shows "sum_shift m (st32 m' x v) a n (d + (uint v - uint old))"
proof -
  have "oc_eq (msum (st32 m' x v) a n) (msum m' a n + uint v - uint old)"
    using assms(2-5) msum_st32 by blast
  also have "oc_eq \<dots> (msum m a n + d + uint v - uint old)"
    using assms(1) by (intro oc_intros) (simp add: sum_shift_def)
  finally show ?thesis by (simp add: sum_shift_def algebra_simps)
qed

lemma sum_shift_st16 [shift_intros]:
  assumes "sum_shift m m' a n d" "ld16 m' x = old" "a \<le> x" "x + 2 \<le> a + n" "even (x - a)"
  shows "sum_shift m (st16 m' x v) a n (d + (uint v - uint old))"
proof -
  have "oc_eq (msum m' a n + (uint v - uint old)) (msum m a n + d + (uint v - uint old))"
    using assms(1) by (intro oc_intros) (simp add: sum_shift_def)
  then show ?thesis
    using assms(2-5) by (simp add: sum_shift_def msum_st16 algebra_simps)
qed

lemma sum_shift_outside:
  assumes "sum_shift m m' a n d" "\<And>i. a \<le> i \<Longrightarrow> i < a + n \<Longrightarrow> m'' i = m' i"
  shows "sum_shift m m'' a n d"
  using assms msum_cong [of a n m'' m'] by (simp add: sum_shift_def)

section \<open>Functional refinement\<close>

text \<open>
  A machine with steps \<open>step\<close> implements a specification with steps \<open>spec\<close> under the abstraction
  \<open>abs\<close>, for the events that are \<open>ok\<close> in the state they find.
\<close>

fun run_ok :: "('e \<Rightarrow> 's \<Rightarrow> bool) \<Rightarrow> ('e \<Rightarrow> 's \<Rightarrow> 's) \<Rightarrow> 'e list \<Rightarrow> 's \<Rightarrow> bool" where
  "run_ok ok step [] s \<longleftrightarrow> True"
| "run_ok ok step (e # es) s \<longleftrightarrow> ok e s \<and> run_ok ok step es (step e s)"

locale simulation =
  fixes step :: "'e \<Rightarrow> 's \<Rightarrow> 's" and spec :: "'e \<Rightarrow> 'a \<Rightarrow> 'a" and abs :: "'s \<Rightarrow> 'a" and ok :: "'e \<Rightarrow> 's \<Rightarrow> bool"
  assumes sim: "ok e s \<Longrightarrow> abs (step e s) = spec e (abs s)"
begin

lemma run_sim: "run_ok ok step es s \<Longrightarrow> abs (fold step es s) = fold spec es (abs s)"
  by (induction es arbitrary: s) (simp_all add: sim)

end

end
