(* ===== verification/Packet.thy ===== *)
theory Packet
  imports EC_Prelude
begin

text \<open>
  Layout of the headers the agents parse and rewrite: Ethernet, IPv4 and TCP headers and the
  TCP timestamp option (\<open>struct tcp_opt_ts\<close> of \<open>examples/htscookie/server.h\<close> and
  \<open>examples/common/timestamp.h\<close>).  Header fields are loads and stores at fixed offsets of
  a header pointer; multi-byte fields are read in host order as the C code reads them, so a
  field that arrived in network order needs \<open>ntohs\<close> or \<open>ntohl\<close>.
\<close>

section \<open>Ethernet\<close>

abbreviation eth_proto :: "mem \<Rightarrow> nat \<Rightarrow> u16" where
  "eth_proto m eth \<equiv> ld16 m (eth + 12)"

text \<open>Swapping \<open>h_source\<close> and \<open>h_dest\<close> through a temporary, as the agents do.\<close>

definition swap_mac :: "mem \<Rightarrow> nat \<Rightarrow> mem" where
  "swap_mac m eth =
     (let mac_tmp = rd_bytes m (eth + 6) 6;
          m = copy m (eth + 6) eth 6
      in wr_bytes m eth mac_tmp)"

abbreviation (input) ETH_P_IP :: u16 where "ETH_P_IP \<equiv> 0x0800"
abbreviation (input) IPPROTO_TCP :: u8 where "IPPROTO_TCP \<equiv> 6"

section \<open>IPv4\<close>

abbreviation ip_ihl :: "mem \<Rightarrow> nat \<Rightarrow> nat" where
  "ip_ihl m ip \<equiv> unat (m ip AND 0x0f)"

abbreviation ip_tot_len :: "mem \<Rightarrow> nat \<Rightarrow> u16" where
  "ip_tot_len m ip \<equiv> ld16 m (ip + 2)"

abbreviation ip_protocol :: "mem \<Rightarrow> nat \<Rightarrow> u8" where
  "ip_protocol m ip \<equiv> m (ip + 9)"

abbreviation ip_check :: "mem \<Rightarrow> nat \<Rightarrow> u16" where
  "ip_check m ip \<equiv> ld16 m (ip + 10)"

abbreviation ip_saddr :: "mem \<Rightarrow> nat \<Rightarrow> u32" where
  "ip_saddr m ip \<equiv> ld32 m (ip + 12)"

abbreviation ip_daddr :: "mem \<Rightarrow> nat \<Rightarrow> u32" where
  "ip_daddr m ip \<equiv> ld32 m (ip + 16)"

section \<open>TCP\<close>

abbreviation tcp_source :: "mem \<Rightarrow> nat \<Rightarrow> u16" where
  "tcp_source m tcp \<equiv> ld16 m tcp"

abbreviation tcp_dest :: "mem \<Rightarrow> nat \<Rightarrow> u16" where
  "tcp_dest m tcp \<equiv> ld16 m (tcp + 2)"

abbreviation tcp_seq :: "mem \<Rightarrow> nat \<Rightarrow> u32" where
  "tcp_seq m tcp \<equiv> ld32 m (tcp + 4)"

abbreviation tcp_ack_seq :: "mem \<Rightarrow> nat \<Rightarrow> u32" where
  "tcp_ack_seq m tcp \<equiv> ld32 m (tcp + 8)"

abbreviation tcp_doff :: "mem \<Rightarrow> nat \<Rightarrow> nat" where
  "tcp_doff m tcp \<equiv> unat (drop_bit 4 (m (tcp + 12)))"

abbreviation tcp_window :: "mem \<Rightarrow> nat \<Rightarrow> u16" where
  "tcp_window m tcp \<equiv> ld16 m (tcp + 14)"

abbreviation tcp_check :: "mem \<Rightarrow> nat \<Rightarrow> u16" where
  "tcp_check m tcp \<equiv> ld16 m (tcp + 16)"

text \<open>The flag bits of byte 13, and the bit-field assignments \<open>tcp->syn = 1\<close> and so on.\<close>

abbreviation tcp_fin :: "mem \<Rightarrow> nat \<Rightarrow> bool" where "tcp_fin m tcp \<equiv> bit (m (tcp + 13)) 0"
abbreviation tcp_syn :: "mem \<Rightarrow> nat \<Rightarrow> bool" where "tcp_syn m tcp \<equiv> bit (m (tcp + 13)) 1"
abbreviation tcp_rst :: "mem \<Rightarrow> nat \<Rightarrow> bool" where "tcp_rst m tcp \<equiv> bit (m (tcp + 13)) 2"
abbreviation tcp_psh :: "mem \<Rightarrow> nat \<Rightarrow> bool" where "tcp_psh m tcp \<equiv> bit (m (tcp + 13)) 3"
abbreviation tcp_ack :: "mem \<Rightarrow> nat \<Rightarrow> bool" where "tcp_ack m tcp \<equiv> bit (m (tcp + 13)) 4"
abbreviation tcp_ece :: "mem \<Rightarrow> nat \<Rightarrow> bool" where "tcp_ece m tcp \<equiv> bit (m (tcp + 13)) 6"

definition set_flag :: "mem \<Rightarrow> nat \<Rightarrow> nat \<Rightarrow> bool \<Rightarrow> mem" where
  "set_flag m tcp k v =
     st8 m (tcp + 13)
       (if v then m (tcp + 13) OR push_bit k 1 else m (tcp + 13) AND NOT (push_bit k 1))"

abbreviation (input) FIN :: nat where "FIN \<equiv> 0"
abbreviation (input) SYN :: nat where "SYN \<equiv> 1"
abbreviation (input) RST :: nat where "RST \<equiv> 2"
abbreviation (input) ACK :: nat where "ACK \<equiv> 4"
abbreviation (input) ECE :: nat where "ECE \<equiv> 6"

section \<open>Timestamp option\<close>

abbreviation ts_tsval :: "mem \<Rightarrow> nat \<Rightarrow> u32" where "ts_tsval m ts \<equiv> ld32 m (ts + 2)"
abbreviation ts_tsecr :: "mem \<Rightarrow> nat \<Rightarrow> u32" where "ts_tsecr m ts \<equiv> ld32 m (ts + 6)"

text \<open>\<open>TS_START\<close>, the time stamp a SYN cookie answer carries, in network order.\<close>

abbreviation (input) TS_START :: u32 where "TS_START \<equiv> ntohl 0x01010000"

section \<open>Exchanging two fields by three exclusive ors\<close>

definition swap32 :: "mem \<Rightarrow> nat \<Rightarrow> nat \<Rightarrow> mem" where
  "swap32 m a b =
     (let m = st32 m a (ld32 m a XOR ld32 m b);
          m = st32 m b (ld32 m b XOR ld32 m a)
      in st32 m a (ld32 m a XOR ld32 m b))"

definition swap16 :: "mem \<Rightarrow> nat \<Rightarrow> nat \<Rightarrow> mem" where
  "swap16 m a b =
     (let m = st16 m a (ld16 m a XOR ld16 m b);
          m = st16 m b (ld16 m b XOR ld16 m a)
      in st16 m a (ld16 m a XOR ld16 m b))"

section \<open>Lemmas\<close>

lemma xor_swap:
  fixes x y :: "'a::len word"
  shows "y XOR (x XOR y) = x" "x XOR y XOR x = y" "(x XOR y) XOR x = y" "x XOR (x XOR y) = y"
    "(x XOR y) XOR y = x"
  by (simp_all add: ac_simps)

lemma swap32_eq:
  assumes "a + 4 \<le> b \<or> b + 4 \<le> a"
  shows "swap32 m a b = st32 (st32 m b (ld32 m a)) a (ld32 m b)"
proof -
  have o: "ld32 (st32 m' a v) b = ld32 m' b" "ld32 (st32 m' b v) a = ld32 m' a" for m' v
    using assms by (auto simp: mem_simps)
  have c: "st32 (st32 (st32 m' a u) b v) a w = st32 (st32 m' b v) a w" for m' u v w
    using assms by (auto simp: st32_def fun_eq_iff)
  show ?thesis
    by (simp add: swap32_def Let_def o mem_simps xor_swap c)
qed

lemma swap16_eq:
  assumes "a + 2 \<le> b \<or> b + 2 \<le> a"
  shows "swap16 m a b = st16 (st16 m b (ld16 m a)) a (ld16 m b)"
proof -
  have o: "ld16 (st16 m' a v) b = ld16 m' b" "ld16 (st16 m' b v) a = ld16 m' a" for m' v
    using assms by (auto simp: mem_simps)
  have c: "st16 (st16 (st16 m' a u) b v) a w = st16 (st16 m' b v) a w" for m' u v w
    using assms by (auto simp: st16_def fun_eq_iff)
  show ?thesis
    by (simp add: swap16_def Let_def o mem_simps xor_swap c)
qed

lemma set_flag_flag [simp]:
  "k < 8 \<Longrightarrow> bit (set_flag m tcp k v (tcp + 13)) j = (if j = k then v else bit (m (tcp + 13)) j)"
  by (auto simp: set_flag_def mem_simps bit_simps dest: bit_imp_le_length)

lemma set_flag_other [mem_simps]:
  "i < tcp + 13 \<Longrightarrow> set_flag m tcp k v i = m i" "tcp + 13 < i \<Longrightarrow> set_flag m tcp k v i = m i"
  by (simp_all add: set_flag_def mem_simps)

lemma ld_set_flag [mem_simps]:
  "b + 2 \<le> tcp + 13 \<Longrightarrow> ld16 (set_flag m tcp k v) b = ld16 m b"
  "tcp + 13 < b \<Longrightarrow> ld16 (set_flag m tcp k v) b = ld16 m b"
  "b + 4 \<le> tcp + 13 \<Longrightarrow> ld32 (set_flag m tcp k v) b = ld32 m b"
  "tcp + 13 < b \<Longrightarrow> ld32 (set_flag m tcp k v) b = ld32 m b"
  by (simp_all add: set_flag_def mem_simps)

lemma swap_mac_other [mem_simps]: "eth + 12 \<le> i \<Longrightarrow> swap_mac m eth i = m i"
  by (simp add: swap_mac_def Let_def mem_simps rd_bytes_def)

lemma ld_swap_mac [mem_simps]:
  "eth + 12 \<le> b \<Longrightarrow> ld16 (swap_mac m eth) b = ld16 m b"
  "eth + 12 \<le> b \<Longrightarrow> ld32 (swap_mac m eth) b = ld32 m b"
  by (simp_all add: ld16_def ld32_def mem_simps)

lemma doff_less: "tcp_doff m tcp < 16"
proof -
  have "unat (drop_bit 4 (b :: u8)) < 16" for b
    using unat_u8_less [of b] by (simp add: unsigned_drop_bit_eq drop_bit_eq_div [where 'a = nat]
        take_bit_nat_eq_self)
  then show ?thesis .
qed

lemma ihl_less: "ip_ihl m ip < 16"
proof -
  have "unat (b AND 0x0f :: u8) \<le> 15" for b
    using word_and_le1 [of b 15] by (simp add: word_le_nat_alt)
  then show ?thesis using order_le_less_trans by fastforce
qed

end
