(* ===== verification/Csum.thy ===== *)
theory Csum
  imports Packet
begin

text \<open>
  Internet checksums: the user-space routines of \<open>examples/common/csum.c\<close> used by the
  switch agent and the inline helpers of \<open>examples/htscookie/server.h\<close> used by the eBPF
  programs.  The lemmas place every routine in the arithmetic modulo 65535: folding keeps
  the accumulator, \<open>csum_add\<close> adds, a full recomputation yields a checksum the receiver
  accepts.
\<close>

section \<open>User space: csum.c\<close>

function CalSum_loop :: "mem \<Rightarrow> nat \<Rightarrow> int \<Rightarrow> u32 \<Rightarrow> u32" where
  "CalSum_loop m p len s =
     (if len > 1 then CalSum_loop m (p + 2) (len - 2) (s + (push_bit 8 (ucast (m p)) + ucast (m (p + 1))))
      else if len = 1 then s + push_bit 8 (ucast (m p))
      else s)"
  by pat_completeness auto
termination
  by (relation "measure (\<lambda>(m, p, len, s). nat len)") auto

definition CalSum :: "mem \<Rightarrow> nat \<Rightarrow> int \<Rightarrow> u32" where
  "CalSum m buf len = CalSum_loop m buf len 0"

text \<open>\<open>struct PseudoHead\<close>: zero, type, length in network order, source and destination.\<close>

definition CalPseudoHeadSum :: "mem \<Rightarrow> nat \<Rightarrow> u8 \<Rightarrow> u32" where
  "CalPseudoHeadSum m ip type =
     (let len = htons (ntohs (ip_tot_len m ip) - of_nat (ip_ihl m ip * 4));
          head = [0, type, byte 0 len, byte 1 len]
            @ bytes32 (ip_saddr m ip) @ bytes32 (ip_daddr m ip)
      in CalSum (wr_bytes (\<lambda>_. 0) 0 head) 0 12)"

definition cksumIp :: "mem \<Rightarrow> nat \<Rightarrow> mem \<times> u16" where
  "cksumIp m ip =
     (let m = st16 m (ip + 10) 0;
          ckSum = CalSum m ip (int (ip_ihl m ip * 4));
          ckSum = drop_bit 16 ckSum + (ckSum AND 0xffff);
          ckSum = ckSum + drop_bit 16 ckSum
      in (m, htons (ucast (NOT ckSum))))"

definition cksumTcp :: "mem \<Rightarrow> nat \<Rightarrow> nat \<Rightarrow> mem \<times> u16" where
  "cksumTcp m ip tcp =
     (let m = st16 m (tcp + 16) 0;
          ckSum = CalPseudoHeadSum m ip 6;
          ckSum = ckSum + CalSum m tcp (int (unat (ntohs (ip_tot_len m ip))) - int (ip_ihl m ip * 4));
          ckSum = drop_bit 16 ckSum + (ckSum AND 0xffff);
          ckSum = ckSum + drop_bit 16 ckSum
      in (m, htons (ucast (NOT ckSum))))"

definition csum_fold :: "u32 \<Rightarrow> u16" where
  "csum_fold csum =
     (let csum = (csum AND 0xffff) + drop_bit 16 csum;
          csum = (csum AND 0xffff) + drop_bit 16 csum
      in ucast csum)"

definition csum_unfold :: "u16 \<Rightarrow> u32" where
  "csum_unfold n = ucast n"

definition csum_add :: "u32 \<Rightarrow> u32 \<Rightarrow> u32" where
  "csum_add csum addend =
     (let csum = csum + addend in csum + (if csum < addend then 1 else 0))"

section \<open>eBPF: the helpers of server.h\<close>

fun csum_fold_loop :: "nat \<Rightarrow> u64 \<Rightarrow> u64" where
  "csum_fold_loop 0 csum = csum"
| "csum_fold_loop (Suc i) csum =
     csum_fold_loop i
       (if drop_bit 16 csum \<noteq> 0 then (csum AND 0xffff) + drop_bit 16 csum else csum)"

definition csum_fold_helper_64 :: "u64 \<Rightarrow> u16" where
  "csum_fold_helper_64 csum = ucast (NOT (csum_fold_loop 4 csum))"

definition csum_fold_helper :: "u32 \<Rightarrow> u16" where
  "csum_fold_helper csum =
     (let sum = drop_bit 16 csum + (csum AND 0xffff);
          sum = sum + drop_bit 16 sum
      in ucast (NOT sum))"

text \<open>
  \<open>bpf_csum_diff\<close> is a kernel helper: a parameter \<open>cdiff from to seed\<close> of the model.
  Its arguments are the two buffers as byte lists (a null pointer of size 0 is the empty
  list) and the seed, which the kernel takes as a 32-bit value.
\<close>

type_synonym csum_diff_t = "u8 list \<Rightarrow> u8 list \<Rightarrow> u32 \<Rightarrow> u64"

definition ipv4_l4_csum :: "csum_diff_t \<Rightarrow> mem \<Rightarrow> nat \<Rightarrow> nat \<Rightarrow> u64 \<Rightarrow> nat \<Rightarrow> u64" where
  "ipv4_l4_csum cdiff m data_start data_size csum iph =
     (let csum = cdiff [] (bytes32 (ip_saddr m iph)) (ucast csum);
          csum = cdiff [] (bytes32 (ip_daddr m iph)) (ucast csum);
          tmp = bswap32 (ucast (ip_protocol m iph));
          csum = cdiff [] (bytes32 tmp) (ucast csum);
          tmp = bswap32 (of_nat data_size);
          csum = cdiff [] (bytes32 tmp) (ucast csum);
          csum = cdiff [] (rd_bytes m data_start data_size) (ucast csum)
      in ucast (csum_fold_helper_64 csum))"

definition ip_checksum_diff :: "csum_diff_t \<Rightarrow> mem \<Rightarrow> u16 \<Rightarrow> nat \<Rightarrow> nat \<Rightarrow> u16" where
  "ip_checksum_diff cdiff m seed iphdr_new iphdr_old =
     csum_fold_helper (ucast (cdiff (rd_bytes m iphdr_old 20) (rd_bytes m iphdr_new 20) (ucast seed)))"

text \<open>
  What the callers rely on: the documented result of \<open>bpf_csum_diff\<close> is the seed, minus
  the ones-complement sum of the first buffer, plus that of the second, as a non-negative
  value of the 32-bit checksum type.  Buffer sizes are multiples of four.
\<close>

definition csum_diff_law :: "csum_diff_t \<Rightarrow> bool" where
  "csum_diff_law cdiff \<longleftrightarrow>
     (\<forall>from to seed. length from mod 4 = 0 \<longrightarrow> length to mod 4 = 0 \<longrightarrow>
        oc_eq (uint (cdiff from to seed)) (uint seed + lsum to - lsum from)
        \<and> uint (cdiff from to seed) < 2 ^ 32)"

section \<open>Folding and adding\<close>

lemma and_ffff: "(c :: 'a::len word) AND 0xffff = take_bit 16 c"
  by (simp add: take_bit_eq_mask mask_eq_exp_minus_1)

lemma uint_take16: "uint (take_bit 16 (c :: 'a::len word)) = uint c mod 65536"
  by (simp add: unsigned_take_bit_eq take_bit_eq_mod [where 'a = int])

lemma uint_drop16: "uint (drop_bit 16 (c :: 'a::len word)) = uint c div 65536"
  by (simp add: unsigned_drop_bit_eq drop_bit_eq_div [where 'a = int] take_bit_int_eq_self
      unsigned_less)

lemma oc_eq_fold: "oc_eq (x div 65536 + x mod 65536) x"
  unfolding oc_eq_iff
  by (intro exI [of _ "- (x div 65536)"]) (use div_mult_mod_eq [of x 65536] in linarith)

lemma uint_fold_step32:
  "uint ((c AND 0xffff) + drop_bit 16 (c :: u32)) = uint c div 65536 + uint c mod 65536"
  "uint (drop_bit 16 (c :: u32) + (c AND 0xffff)) = uint c div 65536 + uint c mod 65536"
proof -
  have "uint c < 4294967296" using unsigned_less [of c] by simp
  then have "uint c div 65536 < 65536" by simp
  moreover have "uint c mod 65536 < 65536" by simp
  ultimately have "uint c div 65536 + uint c mod 65536 < 4294967296" by linarith
  then have "(uint c div 65536 + uint c mod 65536) mod 4294967296 = uint c div 65536 + uint c mod 65536"
    by (intro int_divmod_unique(1) [where k = 0]) (simp_all add: add_nonneg_nonneg pos_imp_zdiv_nonneg_iff)
  then show "uint ((c AND 0xffff) + drop_bit 16 (c :: u32)) = uint c div 65536 + uint c mod 65536"
    "uint (drop_bit 16 (c :: u32) + (c AND 0xffff)) = uint c div 65536 + uint c mod 65536"
    unfolding and_ffff by (simp_all add: uint_word_ariths uint_take16 uint_drop16 add.commute)
qed

lemma uint_fold_step64:
  "uint ((c AND 0xffff) + drop_bit 16 (c :: u64)) = uint c div 65536 + uint c mod 65536"
proof -
  have "uint c < 18446744073709551616" using unsigned_less [of c] by simp
  then have "uint c div 65536 < 281474976710656" by simp
  moreover have "uint c mod 65536 < 65536" by simp
  ultimately have "uint c div 65536 + uint c mod 65536 < 18446744073709551616" by linarith
  then have "(uint c div 65536 + uint c mod 65536) mod 18446744073709551616
      = uint c div 65536 + uint c mod 65536"
    by (intro int_divmod_unique(1) [where k = 0]) (simp_all add: add_nonneg_nonneg pos_imp_zdiv_nonneg_iff)
  then show ?thesis
    unfolding and_ffff by (simp add: uint_word_ariths uint_take16 uint_drop16 add.commute)
qed

text \<open>Adding the carry of a value that was folded once leaves a 16-bit value.\<close>

lemma fold_twice_bound:
  fixes x :: int
  assumes "0 \<le> x" "x < 4294967296"
  defines "y \<equiv> x div 65536 + x mod 65536"
  shows "0 \<le> y" "y \<le> 131070" "y div 65536 + y mod 65536 < 65536"
proof -
  have d: "0 \<le> x div 65536" "x div 65536 < 65536" "0 \<le> x mod 65536" "x mod 65536 < 65536"
    using assms(1,2) by simp_all
  then show y: "0 \<le> y" "y \<le> 131070" unfolding y_def by linarith+
  show "y div 65536 + y mod 65536 < 65536"
  proof (cases "y < 65536")
    case True
    with y show ?thesis by simp
  next
    case False
    with y have "y mod 65536 = y - 65536" "y div 65536 = 1"
      by (intro int_divmod_unique [where k = 1] int_divmod_unique(2) [where y = "y - 65536"]; simp)+
    with y show ?thesis by linarith
  qed
qed

lemma uint_ucast16: "uint (ucast (c :: 'a::len word) :: u16) = uint c mod 65536"
  by (simp add: unsigned_ucast_eq take_bit_eq_mod [where 'a = int])

lemma uint_u32_less: "uint (c :: u32) < 4294967296"
  using unsigned_less [of c] by simp

lemma uint_u16_less: "uint (c :: u16) < 65536"
  using unsigned_less [of c] by simp

lemma uint_csum_fold: "oc_eq (uint (csum_fold c)) (uint c)"
proof -
  define y where "y = uint c div 65536 + uint c mod 65536"
  have y: "y div 65536 + y mod 65536 < 65536" "0 \<le> y"
    using fold_twice_bound [of "uint c"] uint_u32_less [of c] by (simp_all add: y_def)
  then have "uint (csum_fold c) = y div 65536 + y mod 65536"
    by (simp add: csum_fold_def Let_def uint_ucast16 uint_fold_step32 flip: y_def)
  then have "oc_eq (uint (csum_fold c)) y"
    by (simp add: oc_eq_fold)
  also have "oc_eq y (uint c)"
    unfolding y_def by (rule oc_eq_fold)
  finally show ?thesis .
qed

lemma uint_csum_unfold [simp]: "uint (csum_unfold n) = uint n"
  using uint_u16_less [of n]
  by (simp add: csum_unfold_def unsigned_ucast_eq take_bit_int_eq_self)

lemma uint_csum_add: "oc_eq (uint (csum_add c a)) (uint c + uint a)"
proof (cases "uint c + uint a < 4294967296")
  case True
  then have s: "uint (c + a) = uint c + uint a" by (simp add: uint_word_ariths)
  then have "\<not> c + a < a" by (simp add: word_less_def)
  then show ?thesis by (simp add: csum_add_def s)
next
  case False
  then have s: "uint (c + a) = uint c + uint a - 4294967296"
    using uint_u32_less [of c] uint_u32_less [of a]
    by (simp add: uint_word_ariths) (intro int_divmod_unique(1) [where k = 1]; simp)
  then have l: "c + a < a"
    using uint_u32_less [of c] by (simp add: word_less_def)
  have "uint (c + a) + 1 < 4294967296"
    using s uint_u32_less [of c] uint_u32_less [of a] by linarith
  then have "uint (c + a + 1) = uint (c + a) + 1"
    by (subst uint_word_ariths(1)) simp
  then show ?thesis
    using l s by (auto simp: csum_add_def oc_eq_iff intro: exI [of _ "-65537"])
qed

lemma uint_not32: "oc_eq (uint (NOT (x :: u32))) (- uint x)"
proof -
  have "uint (NOT x) = (- uint x - 1) mod 4294967296"
    by (simp add: unsigned_not_eq take_bit_eq_mod [where 'a = int] not_int_def)
  also have "\<dots> = 4294967295 - uint x"
    using uint_u32_less [of x] by (intro int_divmod_unique(1) [where k = "-1"])
      (simp_all add: order.strict_trans2 [OF _ uint_ge_0])
  finally show ?thesis
    by (auto simp: oc_eq_iff intro: exI [of _ 65537])
qed

lemma uint_not16: "oc_eq (uint (NOT (x :: u16))) (- uint x)"
proof -
  have "uint (NOT x) = (- uint x - 1) mod 65536"
    by (simp add: unsigned_not_eq take_bit_eq_mod [where 'a = int] not_int_def)
  also have "\<dots> = 65535 - uint x"
    using uint_u16_less [of x] by (intro int_divmod_unique(1) [where k = "-1"])
      (simp_all add: order.strict_trans2 [OF _ uint_ge_0])
  finally show ?thesis
    by (auto simp: oc_eq_iff intro: exI [of _ 1])
qed

lemma ucast_not16: "(ucast (NOT (x :: 'a::len word)) :: u16) = NOT (ucast x)" if "16 \<le> LENGTH('a)"
  using that by (intro bit_word_eqI) (auto simp: bit_simps)

text \<open>One round of the unrolled loop, and the bound each round establishes.\<close>

lemma fold_round64:
  "uint (if drop_bit 16 c \<noteq> 0 then (c AND 0xffff) + drop_bit 16 (c :: u64) else c)
    = uint c div 65536 + uint c mod 65536"
proof (cases "drop_bit 16 c = 0")
  case True
  then have "uint c div 65536 = 0"
    using uint_drop16 [of c] by simp
  then have "uint c mod 65536 = uint c"
    using div_mult_mod_eq [of "uint c" 65536] by simp
  with True \<open>uint c div 65536 = 0\<close> show ?thesis by simp
next
  case False
  then show ?thesis by (simp add: uint_fold_step64)
qed

lemma fold_round_bound:
  fixes x :: int
  assumes "0 \<le> x" "x \<le> 65536 * q + 65534" "0 \<le> q"
  shows "0 \<le> x div 65536 + x mod 65536" "x div 65536 + x mod 65536 \<le> q + 65534"
proof -
  have d: "0 \<le> x div 65536" "0 \<le> x mod 65536" "x mod 65536 < 65536"
    using assms(1) by simp_all
  have x: "x = 65536 * (x div 65536) + x mod 65536"
    by simp
  show "0 \<le> x div 65536 + x mod 65536" using d by simp
  show "x div 65536 + x mod 65536 \<le> q + 65534"
    using assms d x by (cases "x div 65536 < q") linarith+
qed

lemma uint_csum_fold_loop4:
  "uint (csum_fold_loop 4 c) < 65536 \<and> oc_eq (uint (csum_fold_loop 4 c)) (uint c)"
proof -
  define F :: "int \<Rightarrow> int" where "F x = x div 65536 + x mod 65536" for x
  have "uint (csum_fold_loop n c) = (F ^^ n) (uint c)" for n
    by (induction n arbitrary: c) (simp_all only: csum_fold_loop.simps fold_round64 F_def [symmetric]
        funpow_Suc_right o_apply funpow_0)
  from this [of 4] have fold: "uint (csum_fold_loop 4 c) = F (F (F (F (uint c))))"
    by (simp add: numeral_eq_Suc)
  have F: "oc_eq (F x) x" for x
    unfolding F_def by (rule oc_eq_fold)
  have step: "0 \<le> F x \<and> F x \<le> q + 65534" if "0 \<le> x \<and> x \<le> 65536 * q + 65534" "0 \<le> q" for x q
    unfolding F_def using that fold_round_bound [of x q] by simp
  have c: "0 \<le> uint c" "uint c < 18446744073709551616"
    using unsigned_less [of c] by simp_all
  have "0 \<le> F (uint c) \<and> F (uint c) \<le> 65536 * 4294967296 + 65534"
  proof -
    have d: "0 \<le> uint c div 65536" "uint c div 65536 < 281474976710656"
      "0 \<le> uint c mod 65536" "uint c mod 65536 < 65536"
      using c by (simp_all add: pos_imp_zdiv_nonneg_iff)
    then show ?thesis unfolding F_def by linarith
  qed
  from step [OF this] have "0 \<le> F (F (uint c)) \<and> F (F (uint c)) \<le> 65536 * 65536 + 65534"
    by simp
  from step [OF this] have "0 \<le> F (F (F (uint c))) \<and> F (F (F (uint c))) \<le> 65536 * 1 + 65534"
    by simp
  from step [OF this] have "F (F (F (F (uint c)))) < 65536"
    by simp
  moreover have "oc_eq (F (F (F (F (uint c))))) (uint c)"
    by (intro oc_eq_trans [OF F] F)
  ultimately show ?thesis
    by (simp add: fold)
qed

lemma uint_csum_fold_helper_64: "oc_eq (uint (csum_fold_helper_64 c)) (- uint c)"
proof -
  let ?r = "csum_fold_loop 4 c"
  have r: "uint ?r < 65536" "oc_eq (uint ?r) (uint c)"
    using uint_csum_fold_loop4 [of c] by simp_all
  have "oc_eq (uint (csum_fold_helper_64 c)) (- uint (ucast ?r :: u16))"
    unfolding csum_fold_helper_64_def by (subst ucast_not16) (simp_all add: uint_not16)
  also have "uint (ucast ?r :: u16) = uint ?r"
    using r(1) by (simp add: uint_ucast16)
  also have "oc_eq (- uint ?r) (- uint c)"
    using r(2) by (rule oc_eq_uminus)
  finally show ?thesis .
qed

lemma carry16:
  assumes "uint (s :: u32) \<le> 131070"
  shows "oc_eq (uint (ucast (NOT (s + drop_bit 16 s)) :: u16)) (- uint s)"
proof -
  have y: "uint s div 65536 + uint s mod 65536 < 65536"
  proof (cases "uint s < 65536")
    case False
    then have "uint s mod 65536 = uint s - 65536" "uint s div 65536 = 1"
      using assms
      by (intro int_divmod_unique [where k = 1] int_divmod_unique(2) [where y = "uint s - 65536"]; simp)+
    then show ?thesis using assms by linarith
  qed simp
  have "uint (s + drop_bit 16 s) = uint s + uint s div 65536"
  proof -
    have "uint s div 65536 \<le> 1" using assms zdiv_mono1 [OF assms, of 65536] by simp
    then show ?thesis
      using assms unfolding uint_word_ariths(1) uint_drop16
      by (intro int_divmod_unique(1) [where k = 0]) (simp_all add: pos_imp_zdiv_nonneg_iff)
  qed
  then have "uint (ucast (s + drop_bit 16 s) :: u16) = (uint s + uint s div 65536) mod 65536"
    by (simp add: uint_ucast16)
  also have "\<dots> = uint s div 65536 + uint s mod 65536"
    using y by (intro int_divmod_unique(1) [where k = "uint s div 65536"])
      (simp_all add: pos_imp_zdiv_nonneg_iff add_nonneg_nonneg)
  also have "oc_eq \<dots> (uint s)"
    by (rule oc_eq_fold)
  finally have "oc_eq (- uint (ucast (s + drop_bit 16 s) :: u16)) (- uint s)"
    by (rule oc_eq_uminus)
  then show ?thesis
    by (subst ucast_not16) (auto intro: oc_eq_trans [OF uint_not16])
qed

lemma fold_carry16:
  "oc_eq (uint (ucast (NOT (drop_bit 16 c + (c AND 0xffff)
      + drop_bit 16 (drop_bit 16 c + (c AND 0xffff)))) :: u16)) (- uint (c :: u32))"
proof -
  let ?s = "drop_bit 16 c + (c AND 0xffff)"
  have s: "uint ?s = uint c div 65536 + uint c mod 65536"
    by (rule uint_fold_step32)
  then have "uint ?s \<le> 131070"
    using fold_twice_bound(2) [of "uint c"] uint_u32_less [of c] by simp
  then have "oc_eq (uint (ucast (NOT (?s + drop_bit 16 ?s)) :: u16)) (- uint ?s)"
    by (rule carry16)
  also have "oc_eq (- uint ?s) (- uint c)"
    unfolding s by (intro oc_eq_uminus oc_eq_fold)
  finally show ?thesis .
qed

lemma uint_csum_fold_helper: "oc_eq (uint (csum_fold_helper c)) (- uint c)"
  using fold_carry16 [of c] by (simp add: csum_fold_helper_def Let_def)

section \<open>Full recomputation\<close>

declare CalSum_loop.simps [simp del]

lemma uint_word_pair: "uint (push_bit 8 (ucast (a :: u8)) + ucast (b :: u8) :: u32) = 256 * uint a + uint b"
proof -
  have ab: "uint a < 256" "uint b < 256"
    using unsigned_less [of a] unsigned_less [of b] by simp_all
  have c: "uint (ucast a :: u32) = uint a" "uint (ucast b :: u32) = uint b"
    using ab by (simp_all add: unsigned_ucast_eq take_bit_int_eq_self)
  have p: "uint (push_bit 8 (ucast a) :: u32) = 256 * uint a"
    using ab c by (simp add: unsigned_push_bit_eq push_bit_eq_mult [where 'a = int]
        take_bit_int_eq_self)
  show ?thesis
    using ab unfolding uint_word_ariths(1) p c
    by (intro int_divmod_unique(1) [where k = 0]) simp_all
qed

lemma CalSum_loop_sum:
  assumes "0 \<le> len" "uint s + 32768 * (len + 1) < 4294967296"
  shows "uint (CalSum_loop m p len s) \<le> uint s + 32768 * (len + 1)
     \<and> oc_eq (uint (CalSum_loop m p len s)) (uint s + 256 * msum m p (nat len))"
  using assms
proof (induction m p len s rule: CalSum_loop.induct)
  case (1 m p len s)
  have b: "0 \<le> uint (m p)" "uint (m p) < 256" "0 \<le> uint (m (p + 1))" "uint (m (p + 1)) < 256"
    using unsigned_less [of "m p"] unsigned_less [of "m (p + 1)"] by simp_all
  consider "len > 1" | "len = 1" | "len = 0" using "1.prems"(1) by linarith
  then show ?case
  proof cases
    case 1
    define s' where "s' = s + (push_bit 8 (ucast (m p)) + ucast (m (p + 1)) :: u32)"
    have s': "uint s' = uint s + (256 * uint (m p) + uint (m (p + 1)))"
      unfolding s'_def uint_word_ariths(1) [of s] uint_word_pair
      using "1.prems" 1 b by (intro int_divmod_unique(1) [where k = 0]) simp_all
    have bd: "uint s' + 32768 * (len - 2 + 1) < 4294967296"
      unfolding s' using "1.prems"(2) b by (simp add: algebra_simps)
    have IH: "uint (CalSum_loop m (p + 2) (len - 2) s') \<le> uint s' + 32768 * (len - 2 + 1)
      \<and> oc_eq (uint (CalSum_loop m (p + 2) (len - 2) s'))
          (uint s' + 256 * msum m (p + 2) (nat (len - 2)))"
      by (rule "1.IH" [OF 1, folded s'_def]) (use 1 bd in simp_all)
    have l: "CalSum_loop m p len s = CalSum_loop m (p + 2) (len - 2) s'"
      using 1 by (simp add: CalSum_loop.simps [of m p len s] s'_def)
    have "nat len = nat (len - 2) + 2" using 1 by simp
    then have "uint s + 256 * msum m p (nat len) = uint s' + 256 * msum m (p + 2) (nat (len - 2))
        + 65535 * uint (m (p + 1))"
      by (simp add: msum_2 s')
    then have "oc_eq (uint s' + 256 * msum m (p + 2) (nat (len - 2))) (uint s + 256 * msum m p (nat len))"
      by (auto simp: oc_eq_iff intro: exI [of _ "- uint (m (p + 1))"])
    with IH b s' show ?thesis
      by (auto simp: l intro: oc_eq_trans)
  next
    case 2
    have "uint (s + push_bit 8 (ucast (m p))) = uint s + 256 * uint (m p)"
    proof -
      have p: "uint (push_bit 8 (ucast (m p)) :: u32) = 256 * uint (m p)"
        using uint_word_pair [of "m p" 0] by simp
      show ?thesis
        unfolding uint_word_ariths(1) p
        using "1.prems" 2 b by (intro int_divmod_unique(1) [where k = 0]) simp_all
    qed
    then show ?thesis using 2 b by (simp add: CalSum_loop.simps [of m p 1 s])
  next
    case 3
    then show ?thesis by (simp add: CalSum_loop.simps [of m p 0 s])
  qed
qed

text \<open>
  The receiver's view of a TCP segment: the sum of the pseudo header and of the whole
  segment, checksum field included, is a ones-complement zero.
\<close>

definition tcp_seg_len :: "mem \<Rightarrow> nat \<Rightarrow> nat" where
  "tcp_seg_len m ip = unat (ntohs (ip_tot_len m ip)) - ip_ihl m ip * 4"

definition pseudo_sum :: "mem \<Rightarrow> nat \<Rightarrow> int" where
  "pseudo_sum m ip =
     uint (ip_saddr m ip) + uint (ip_daddr m ip) + 1536
       + uint (htons (of_nat (tcp_seg_len m ip)))"

definition tcp_csum_ok :: "mem \<Rightarrow> nat \<Rightarrow> nat \<Rightarrow> bool" where
  "tcp_csum_ok m ip tcp \<longleftrightarrow> oc_eq (pseudo_sum m ip + msum m tcp (tcp_seg_len m ip)) 0"

lemma uint_bswap16: "oc_eq (uint (bswap16 x)) (256 * uint x)"
proof -
  have "uint x = uint (byte 0 x) + 256 * uint (byte 1 x)"
    by (simp flip: uint_mk16)
  moreover have "uint (bswap16 x) = uint (byte 1 x) + 256 * uint (byte 0 x)"
    by (simp add: bswap16_def uint_mk16)
  ultimately show ?thesis
    unfolding oc_eq_iff by (intro exI [of _ "- uint (byte 1 x)"]) simp
qed

lemma CalSum_sum:
  assumes "0 \<le> len" "len < 65536"
  shows "uint (CalSum m p len) \<le> 32768 * (len + 1)"
    "oc_eq (uint (CalSum m p len)) (256 * msum m p (nat len))"
  using CalSum_loop_sum [of len 0 m p] assms by (simp_all add: CalSum_def)

lemma tcp_seg_len_word:
  assumes "ip_ihl m ip * 4 \<le> unat (ntohs (ip_tot_len m ip))"
  shows "ntohs (ip_tot_len m ip) - of_nat (ip_ihl m ip * 4) = (of_nat (tcp_seg_len m ip) :: u16)"
  using assms by (simp add: tcp_seg_len_def of_nat_diff)

lemma CalPseudoHeadSum_sum:
  assumes "ip_ihl m ip * 4 \<le> unat (ntohs (ip_tot_len m ip))"
  shows "uint (CalPseudoHeadSum m ip 6) \<le> 425984"
    "oc_eq (uint (CalPseudoHeadSum m ip 6)) (256 * pseudo_sum m ip)"
proof -
  define len where "len = htons (of_nat (tcp_seg_len m ip) :: u16)"
  define head where "head = [0, 6, byte 0 len, byte 1 len]
     @ bytes32 (ip_saddr m ip) @ bytes32 (ip_daddr m ip)"
  have C: "CalPseudoHeadSum m ip 6 = CalSum (wr_bytes (\<lambda>_. 0) 0 head) 0 12"
    unfolding CalPseudoHeadSum_def Let_def tcp_seg_len_word [OF assms] len_def head_def ..
  have l: "length head = 12" by (simp add: head_def bytes32_def)
  have "msum (wr_bytes (\<lambda>_. 0) 0 head) 0 12 = lsum head"
    unfolding msum_def lsum_def l by (rule bsum_cong) (simp add: wr_bytes_def l)
  also have "\<dots> = 1536 + (uint (byte 0 len) + 256 * uint (byte 1 len))
      + lsum (bytes32 (ip_saddr m ip)) + lsum (bytes32 (ip_daddr m ip))"
    by (simp add: head_def lsum_def bytes32_def bsum_def wt_def lessThan_nat_numeral lessThan_Suc)
  also have "uint (byte 0 len) + 256 * uint (byte 1 len) = uint len"
    by (simp flip: uint_mk16)
  also have "oc_eq (1536 + uint len + lsum (bytes32 (ip_saddr m ip)) + lsum (bytes32 (ip_daddr m ip)))
      (1536 + uint len + uint (ip_saddr m ip) + uint (ip_daddr m ip))"
    by (intro oc_intros uint_oc_bytes32)
  also have "\<dots> = pseudo_sum m ip"
    by (simp add: pseudo_sum_def len_def)
  finally have "oc_eq (256 * msum (wr_bytes (\<lambda>_. 0) 0 head) 0 12) (256 * pseudo_sum m ip)"
    by (rule oc_eq_mult)
  then show "oc_eq (uint (CalPseudoHeadSum m ip 6)) (256 * pseudo_sum m ip)"
    unfolding C using CalSum_sum(2) [of 12 "wr_bytes (\<lambda>_. 0) 0 head" 0] by (auto intro: oc_eq_trans)
  show "uint (CalPseudoHeadSum m ip 6) \<le> 425984"
    unfolding C using CalSum_sum(1) [of 12] by simp
qed

text \<open>Storing what \<open>cksumTcp\<close> returns makes the segment acceptable to the receiver.\<close>

lemma cksumTcp_ok:
  assumes "ip + 20 \<le> tcp" "ip_ihl m ip * 4 + 18 \<le> unat (ntohs (ip_tot_len m ip))"
    and c: "cksumTcp m ip tcp = (m', c)"
  shows "tcp_csum_ok (st16 m' (tcp + 16) c) ip tcp"
proof -
  have m': "m' = st16 m (tcp + 16) 0"
    using c by (simp add: cksumTcp_def Let_def)
  have hdr: "ip_tot_len m' ip = ip_tot_len m ip" "m' ip = m ip" "tcp_seg_len m' ip = tcp_seg_len m ip"
    using assms(1) by (simp_all add: m' mem_simps tcp_seg_len_def)
  let ?n = "tcp_seg_len m ip"
  have len: "int (unat (ntohs (ip_tot_len m' ip))) - int (ip_ihl m' ip * 4) = int ?n"
    using assms(2) by (simp add: hdr tcp_seg_len_def)
  have "18 \<le> ?n" "?n < 65536"
    using assms(2) unat_u16_less [of "ntohs (ip_tot_len m ip)"]
    unfolding tcp_seg_len_def by linarith+
  then have n: "18 \<le> ?n" "int ?n < 65536"
    by simp_all
  define sum where "sum = CalPseudoHeadSum m' ip 6 + CalSum m' tcp (int ?n)"
  have P: "uint (CalPseudoHeadSum m' ip 6) \<le> 425984"
    "oc_eq (uint (CalPseudoHeadSum m' ip 6)) (256 * pseudo_sum m' ip)"
    using CalPseudoHeadSum_sum [of m' ip] assms(2) by (simp_all add: hdr)
  have M: "uint (CalSum m' tcp (int ?n)) \<le> 32768 * (int ?n + 1)"
    "oc_eq (uint (CalSum m' tcp (int ?n))) (256 * msum m' tcp ?n)"
    using CalSum_sum [of "int ?n" m' tcp] n by simp_all
  have "uint sum = uint (CalPseudoHeadSum m' ip 6) + uint (CalSum m' tcp (int ?n))"
    unfolding sum_def uint_word_ariths(1)
    using P(1) M(1) n(2) by (intro int_divmod_unique(1) [where k = 0]) simp_all
  also have "oc_eq \<dots> (256 * pseudo_sum m' ip + 256 * msum m' tcp ?n)"
    using P(2) M(2) by (rule oc_eq_add)
  finally have s: "oc_eq (uint sum) (256 * (pseudo_sum m' ip + msum m' tcp ?n))"
    by (simp add: distrib_left)
  have "c = htons (ucast (NOT (drop_bit 16 sum + (sum AND 0xffff)
      + drop_bit 16 (drop_bit 16 sum + (sum AND 0xffff)))))"
    using c by (simp only: cksumTcp_def Let_def m' [symmetric] len sum_def prod.inject)
  then have "oc_eq (uint c) (256 * - uint sum)"
    by (simp only:) (rule oc_eq_trans [OF uint_bswap16 oc_eq_mult [OF fold_carry16]])
  also have "oc_eq (256 * - uint sum) (256 * - (256 * (pseudo_sum m' ip + msum m' tcp ?n)))"
    by (intro oc_eq_mult oc_eq_uminus s)
  also have "oc_eq \<dots> (- (pseudo_sum m' ip + msum m' tcp ?n))"
    unfolding oc_eq_iff by (intro exI [of _ "- (pseudo_sum m' ip + msum m' tcp ?n)"]) simp
  finally have c': "oc_eq (uint c) (- (pseudo_sum m' ip + msum m' tcp ?n))" .
  let ?m = "st16 m' (tcp + 16) c"
  have ps: "pseudo_sum ?m ip = pseudo_sum m' ip" "tcp_seg_len ?m ip = ?n"
    using assms(1) by (simp_all add: pseudo_sum_def tcp_seg_len_def mem_simps hdr)
  have "msum ?m tcp ?n = msum m' tcp ?n + uint c"
    using n(1) by (subst msum_st16) (simp_all add: m' mem_simps)
  then have "oc_eq (pseudo_sum ?m ip + msum ?m tcp ?n)
      (pseudo_sum m' ip + msum m' tcp ?n + - (pseudo_sum m' ip + msum m' tcp ?n))"
    unfolding ps using c' by (simp only: add.assoc [symmetric]) (intro oc_intros)
  then show ?thesis
    by (simp add: tcp_csum_ok_def ps)
qed

section \<open>Rewriting a segment and its checksum\<close>

lemma sum_shift_set_flag [shift_intros]:
  assumes "sum_shift m m' tcp n d" "ld32 m' (tcp + 12) = old" "ld32 (set_flag m' tcp k v) (tcp + 12) = new"
    "14 \<le> n"
  shows "sum_shift m (set_flag m' tcp k v) tcp n (d + (uint new - uint old))"
proof -
  have "odd (tcp + 13 - tcp)" by simp
  then have "msum (set_flag m' tcp k v) tcp n = msum m' tcp n + (uint new - uint old)"
    using assms(4) unfolding set_flag_def assms(2,3) [symmetric]
    by (subst msum_st8) (simp_all add: wt_def ld32_def uint_mk32 mem_simps st8_def algebra_simps)
  moreover have "oc_eq (msum m' tcp n + (uint new - uint old)) (msum m tcp n + d + (uint new - uint old))"
    using assms(1) by (intro oc_intros) (simp add: sum_shift_def)
  ultimately show ?thesis by (simp add: sum_shift_def add.assoc)
qed

lemma sum_shift_set_flag16:
  assumes "sum_shift m m' tcp n d" "ld16 m' (tcp + 12) = old" "ld16 (set_flag m' tcp k v) (tcp + 12) = new"
    "14 \<le> n"
  shows "sum_shift m (set_flag m' tcp k v) tcp n (d + (uint new - uint old))"
proof -
  have e: "uint (ld32 x (tcp + 12)) = uint (ld16 x (tcp + 12)) + 65536 * uint (ld16 x (tcp + 14))" for x
    by (simp add: ld32_def ld16_def uint_mk32 uint_mk16 add.commute)
  have "uint (ld32 (set_flag m' tcp k v) (tcp + 12)) - uint (ld32 m' (tcp + 12)) = uint new - uint old"
    by (simp add: e assms(2,3) mem_simps)
  then show ?thesis
    using sum_shift_set_flag [OF assms(1) refl refl assms(4), of k v] by simp
qed

text \<open>
  A handler first rewrites fields, which shifts the sum of the segment by \<open>d\<close>, and then
  stores the old checksum less \<open>d\<close>.
\<close>

lemma tcp_csum_rewrite:
  assumes ok: "tcp_csum_ok m ip tcp" and lay: "ip + 20 \<le> tcp" "18 \<le> tcp_seg_len m ip"
    and keep: "tcp_seg_len m' ip = tcp_seg_len m ip" "pseudo_sum m' ip = pseudo_sum m ip"
      "tcp_check m' tcp = tcp_check m tcp"
    and d: "sum_shift m m' tcp (tcp_seg_len m ip) d"
    and c: "oc_eq (uint c) (uint (tcp_check m tcp) - d)"
  shows "tcp_csum_ok (st16 m' (tcp + 16) c) ip tcp"
proof -
  let ?m = "st16 m' (tcp + 16) c" and ?n = "tcp_seg_len m ip"
  have ps: "pseudo_sum ?m ip = pseudo_sum m ip" "tcp_seg_len ?m ip = ?n"
    using lay(1) keep(1,2) by (simp_all add: pseudo_sum_def tcp_seg_len_def mem_simps)
  have "sum_shift m ?m tcp ?n (d + (uint c - uint (tcp_check m tcp)))"
    using lay(2) by (intro shift_intros d) (simp_all add: keep(3))
  then have "oc_eq (pseudo_sum ?m ip + msum ?m tcp ?n)
      (pseudo_sum m ip + (msum m tcp ?n + (d + (uint c - uint (tcp_check m tcp)))))"
    unfolding ps by (intro oc_intros) (simp add: sum_shift_def)
  also have "oc_eq \<dots> (pseudo_sum m ip + (msum m tcp ?n
      + (d + (uint (tcp_check m tcp) - d - uint (tcp_check m tcp)))))"
    by (intro oc_intros c)
  also have "\<dots> = pseudo_sum m ip + msum m tcp ?n" by simp
  also have "oc_eq \<dots> 0" using ok by (simp add: tcp_csum_ok_def)
  finally show ?thesis by (simp add: tcp_csum_ok_def ps)
qed

lemma pseudo_sum_cong:
  assumes "\<And>i. ip \<le> i \<Longrightarrow> i < ip + 20 \<Longrightarrow> m' i = m i"
  shows "tcp_seg_len m' ip = tcp_seg_len m ip" "pseudo_sum m' ip = pseudo_sum m ip"
  using assms by (simp_all add: pseudo_sum_def tcp_seg_len_def ld32_def ld16_def)

lemma tcp_csum_ok_cong:
  assumes "tcp_csum_ok m ip tcp" "ip + 20 \<le> tcp" "\<And>i. ip \<le> i \<Longrightarrow> m' i = m i"
  shows "tcp_csum_ok m' ip tcp"
proof -
  have "tcp_seg_len m' ip = tcp_seg_len m ip" "pseudo_sum m' ip = pseudo_sum m ip"
    using assms(3) by (auto intro!: pseudo_sum_cong)
  moreover have "msum m' tcp n = msum m tcp n" for n
    using assms(2,3) by (intro msum_cong) simp
  ultimately show ?thesis
    using assms(1) by (simp add: tcp_csum_ok_def)
qed

text \<open>The checksum of an IPv4 header, as the receiver checks it.\<close>

definition ip_csum_ok :: "mem \<Rightarrow> nat \<Rightarrow> bool" where
  "ip_csum_ok m ip \<longleftrightarrow> oc_eq (msum m ip (ip_ihl m ip * 4)) 0"

lemma ip_csum_rewrite:
  assumes "ip_csum_ok m ip" "ip_ihl m ip = 5" "m' ip = m ip" "ip_check m' ip = ip_check m ip"
    and d: "sum_shift m m' ip 20 d" and c: "oc_eq (uint c) (uint (ip_check m ip) - d)"
  shows "ip_csum_ok (st16 m' (ip + 10) c) ip"
proof -
  have "sum_shift m (st16 m' (ip + 10) c) ip 20 (d + (uint c - uint (ip_check m ip)))"
    by (intro shift_intros d) (simp_all add: assms(4))
  then have "oc_eq (msum (st16 m' (ip + 10) c) ip 20) (msum m ip 20 + (d + (uint c - uint (ip_check m ip))))"
    by (simp add: sum_shift_def)
  also have "oc_eq \<dots> (msum m ip 20 + (d + (uint (ip_check m ip) - d - uint (ip_check m ip))))"
    by (intro oc_intros c)
  also have "\<dots> = msum m ip 20" by simp
  also have "oc_eq \<dots> 0" using assms(1,2) by (simp add: ip_csum_ok_def)
  finally show ?thesis
    using assms(2,3) by (simp add: ip_csum_ok_def mem_simps)
qed

lemma ip_csum_ok_shift:
  assumes "ip_csum_ok m ip" "ip_ihl m ip = 5" "m' ip = m ip" "sum_shift m m' ip 20 0"
  shows "ip_csum_ok m' ip"
  using assms by (auto simp: ip_csum_ok_def sum_shift_def intro: oc_eq_trans)

section \<open>Incremental update as an interface\<close>

text \<open>
  Replacing a 32-bit field \<open>old\<close> by \<open>new\<close> in a running checksum.  The packet handlers
  use two providers of this interface: user space adds the complement of the old value and
  then the new one with \<open>csum_add\<close>; the eBPF programs call \<open>bpf_csum_diff\<close>.
\<close>

locale csum_update =
  fixes upd :: "'c \<Rightarrow> u32 \<Rightarrow> u32 \<Rightarrow> 'c" and val :: "'c \<Rightarrow> int"
  assumes val_upd: "oc_eq (val (upd c old new)) (val c - uint old + uint new)"
begin

lemma val_updI: "oc_eq (val c) x \<Longrightarrow> oc_eq (val (upd c old new)) (x - uint old + uint new)"
  by (rule oc_eq_trans [OF val_upd]) (intro oc_intros)

lemma val_upds:
  "oc_eq (val (foldl (\<lambda>c (old, new). upd c old new) c ps))
     (val c + (\<Sum>(old, new)\<leftarrow>ps. uint new - uint old))"
proof (induction ps arbitrary: c)
  case (Cons p ps)
  obtain old new where p: "p = (old, new)" by force
  have "oc_eq (val (foldl (\<lambda>c (old, new). upd c old new) c (p # ps)))
      (val (upd c old new) + (\<Sum>(old, new)\<leftarrow>ps. uint new - uint old))"
    using Cons.IH [of "upd c old new"] by (simp add: p)
  also have "oc_eq \<dots> (val c - uint old + uint new + (\<Sum>(old, new)\<leftarrow>ps. uint new - uint old))"
    by (intro oc_intros val_upd)
  finally show ?case by (simp add: p algebra_simps)
qed simp

end

locale oc_accumulator =
  fixes add :: "'c \<Rightarrow> u32 \<Rightarrow> 'c" and val :: "'c \<Rightarrow> int"
  assumes val_add: "oc_eq (val (add c x)) (val c + uint x)"
begin

lemma val_addI: "oc_eq (val c) x \<Longrightarrow> oc_eq (val (add c a)) (x + uint a)"
  by (rule oc_eq_trans [OF val_add]) (intro oc_intros)

lemma val_add_not: "oc_eq (val (add c (NOT old))) (val c - uint old)"
proof -
  have "oc_eq (val (add c (NOT old))) (val c + uint (NOT old))" by (rule val_add)
  also have "oc_eq \<dots> (val c + - uint old)" by (intro oc_intros uint_not32)
  finally show ?thesis by simp
qed

lemma val_add_notI: "oc_eq (val c) x \<Longrightarrow> oc_eq (val (add c (NOT old))) (x - uint old)"
  by (rule oc_eq_trans [OF val_add_not]) (intro oc_intros)

end

sublocale oc_accumulator \<subseteq> csum_update "\<lambda>c old new. add (add c (NOT old)) new" val
proof
  fix c old new
  show "oc_eq (val (add (add c (NOT old)) new)) (val c - uint old + uint new)"
    by (intro val_addI val_add_not)
qed

interpretation user_csum: oc_accumulator csum_add uint
  by unfold_locales (rule uint_csum_add)

locale bpf_csum =
  fixes cdiff :: csum_diff_t
  assumes law: "csum_diff_law cdiff"
begin

lemma cdiff_less: "length from mod 4 = 0 \<Longrightarrow> length to mod 4 = 0 \<Longrightarrow>
    uint (ucast (cdiff from to seed) :: u32) = uint (cdiff from to seed)"
  using law by (simp add: csum_diff_law_def unsigned_ucast_eq take_bit_int_eq_self)

lemma cdiff_sum: "length from mod 4 = 0 \<Longrightarrow> length to mod 4 = 0 \<Longrightarrow>
    oc_eq (uint (cdiff from to seed)) (uint seed + lsum to - lsum from)"
  using law by (simp add: csum_diff_law_def)

lemma cdiff_out:
  assumes "length from mod 4 = 0" "length to mod 4 = 0"
    "oc_eq (uint (ucast c :: u32)) x" "oc_eq (lsum to) t" "oc_eq (lsum from) f"
  shows "oc_eq (uint (ucast (cdiff from to (ucast c)) :: u32)) (x + t - f)"
proof -
  have "oc_eq (uint (ucast (cdiff from to (ucast c)) :: u32))
      (uint (ucast c :: u32) + lsum to - lsum from)"
    using assms(1,2) by (simp add: cdiff_less cdiff_sum)
  also have "oc_eq \<dots> (x + t - f)"
    using assms(3-5) by (intro oc_intros)
  finally show ?thesis .
qed

text \<open>Summing up a buffer.\<close>

lemma cdiff_add:
  assumes "oc_eq (uint (ucast c :: u32)) x" "length to mod 4 = 0" "oc_eq (lsum to) t"
  shows "oc_eq (uint (ucast (cdiff [] to (ucast c)) :: u32)) (x + t)"
  using cdiff_out [of "[]" to c x t 0] assms by simp

text \<open>The final fold of a helper result yields the complement of the accumulated sum.\<close>

lemma fold_out:
  assumes "length from mod 4 = 0" "length to mod 4 = 0"
    "oc_eq (uint (ucast (cdiff from to s) :: u32)) x"
  shows "oc_eq (uint (csum_fold_helper_64 (cdiff from to s))) (- x)"
  using assms oc_eq_trans [OF uint_csum_fold_helper_64 oc_eq_uminus] by (simp add: cdiff_less)

end

text \<open>
  Recomputation from scratch with the helper: \<open>ipv4_l4_csum\<close> over a segment whose
  checksum field is zero yields the checksum the receiver expects.
\<close>

context bpf_csum
begin

lemma ipv4_l4_csum_sum:
  assumes "n mod 4 = 0" "n < 65536" "ip_protocol m ip = 6"
  shows "oc_eq (uint (ucast (ipv4_l4_csum cdiff m tcp n 0 ip) :: u16))
    (- (uint (ip_saddr m ip) + uint (ip_daddr m ip) + 1536 + uint (htons (of_nat n)) + msum m tcp n))"
proof -
  have b: "oc_eq (lsum (bytes32 (bswap32 (of_nat k)))) (uint (htons (of_nat k)))" if "k < 65536" for k :: nat
  proof -
    have u: "unat (of_nat k :: u32) = k" "unat (of_nat k :: u16) = k"
      using that by (simp_all add: unat_of_nat)
    have "uint (byte i (of_nat k :: u32)) = uint (byte i (of_nat k :: u16))" for i
      using unat_byte [of i "of_nat k :: u32"] unat_byte [of i "of_nat k :: u16"] u
      by (metis uint_nat)
    moreover have "byte 2 (of_nat k :: u32) = 0" "byte 3 (of_nat k :: u32) = 0"
      using that u(1) by (simp_all add: word_unat_eq_iff unat_byte)
    ultimately show ?thesis
      by (simp add: bytes32_def bswap32_def bswap16_def uint_mk16 del: of_nat_eq_0_iff)
  qed
  have p: "oc_eq (lsum (bytes32 (bswap32 6))) 1536"
    using b [of 6] by (simp add: bswap16_def byte_def mk16_def)
  let ?c = "cdiff [] (bytes32 (bswap32 (of_nat n))) (ucast (cdiff [] (bytes32 (bswap32 6)) (ucast
     (cdiff [] (bytes32 (ip_daddr m ip)) (ucast (cdiff [] (bytes32 (ip_saddr m ip)) (ucast (0 :: u64))))))))"
  have "oc_eq (uint (ucast (cdiff [] (rd_bytes m tcp n) (ucast ?c)) :: u32))
      (0 + uint (ip_saddr m ip) + uint (ip_daddr m ip) + 1536 + uint (htons (of_nat n)) + msum m tcp n)"
    using assms(1,2) p b
    by (intro cdiff_add) (simp_all add: uint_oc_bytes32 lsum_rd_bytes)
  note sum = fold_out [OF _ _ this]
  have "(ucast (ucast c :: u64) :: u16) = c" for c
    by (rule bit_word_eqI) (simp add: bit_simps)
  then show ?thesis
    using sum assms(1,3) by (simp add: ipv4_l4_csum_def Let_def)
qed

end

sublocale bpf_csum \<subseteq>
  csum_update "\<lambda>c old new. cdiff (bytes32 old) (bytes32 new) (ucast c)"
    "\<lambda>c. uint (ucast (c :: u64) :: u32)"
proof
  fix c :: u64 and old new
  have "oc_eq (uint (ucast (cdiff (bytes32 old) (bytes32 new) (ucast c)) :: u32))
      (uint (ucast c :: u32) + uint new - uint old)"
    by (rule cdiff_out) (simp_all add: uint_oc_bytes32)
  then show "oc_eq (uint (ucast (cdiff (bytes32 old) (bytes32 new) (ucast c)) :: u32))
      (uint (ucast c :: u32) - uint old + uint new)"
    by (simp add: algebra_simps)
qed

text \<open>
  A helper with exactly the documented result, for evaluating the programs on concrete
  packets.
\<close>

definition csum_diff_ref :: csum_diff_t where
  "csum_diff_ref from to seed = word_of_int ((uint seed + lsum to - lsum from) mod 65535)"

lemma csum_diff_ref_law: "csum_diff_law csum_diff_ref"
proof -
  have b: "0 \<le> x mod 65535 \<and> x mod 65535 < 4294967296" for x :: int
    using pos_mod_bound [of 65535 x] by simp
  have "uint (word_of_int (x mod 65535) :: u64) = x mod 65535" for x :: int
    using b [of x] by (simp add: unsigned_of_int take_bit_int_eq_self)
  then show ?thesis
    using b by (simp add: csum_diff_law_def csum_diff_ref_def oc_eq_def)
qed

interpretation ref_csum: bpf_csum csum_diff_ref
  by unfold_locales (rule csum_diff_ref_law)

end
