(* ===== verification/Bpf_Env.thy ===== *)
theory Bpf_Env
  imports Csum "HOL-Library.AList"
begin

text \<open>
  What the eBPF programs get from the kernel.  The helpers are not part of the repository,
  so they are parameters of the programs: the operations of a BPF map, \<open>bpf_csum_diff\<close>
  and \<open>bpf_probe_read_kernel\<close>, collected in a record.  The locales state the documented
  behaviour the programs rely on; a hash table with a capacity provides it.
\<close>

declare add_2_eq_Suc [simp del] add_2_eq_Suc' [simp del]

section \<open>Keys and values of the connection table\<close>

record map_key_t =
  src_ip :: u32
  dst_ip :: u32
  src_port :: u16
  dst_port :: u16

record map_val_t =
  hybrid_cookie :: u32
  hash_cookie :: u32
  cur_hash_seed :: u32
  ts_val_s :: u32
  delta :: u32
  cur_cookie_head :: u32

text \<open>A designated initialiser sets every field that it does not name to zero.\<close>

definition map_val_zero :: map_val_t where
  "map_val_zero = \<lparr>hybrid_cookie = 0, hash_cookie = 0, cur_hash_seed = 0, ts_val_s = 0,
     delta = 0, cur_cookie_head = 0\<rparr>"

section \<open>BPF maps\<close>

datatype map_flag = BPF_ANY | BPF_NOEXIST | BPF_EXIST

text \<open>\<open>update_elem\<close> returns \<open>None\<close> for a negative error code.\<close>

record ('m, 'k, 'v) map_ops =
  lookup_elem :: "'m \<Rightarrow> 'k \<Rightarrow> 'v option"
  update_elem :: "'m \<Rightarrow> 'k \<Rightarrow> 'v \<Rightarrow> map_flag \<Rightarrow> 'm option"

text \<open>The programs ignore the result of an update: a failed one leaves the map as it was.\<close>

definition map_update :: "('m, 'k, 'v) map_ops \<Rightarrow> 'm \<Rightarrow> 'k \<Rightarrow> 'v \<Rightarrow> map_flag \<Rightarrow> 'm" where
  "map_update ops m k v f = (case update_elem ops m k v f of None \<Rightarrow> m | Some m' \<Rightarrow> m')"

locale bpf_map =
  fixes ops :: "('m, 'k, 'v) map_ops"
  assumes upd_same: "update_elem ops m k v f = Some m' \<Longrightarrow> lookup_elem ops m' k = Some v"
    and upd_other: "update_elem ops m k v f = Some m' \<Longrightarrow> k' \<noteq> k \<Longrightarrow>
      lookup_elem ops m' k' = lookup_elem ops m k'"
    and exist_fails: "lookup_elem ops m k = None \<Longrightarrow> update_elem ops m k v BPF_EXIST = None"
    and exist_succeeds: "lookup_elem ops m k = Some v' \<Longrightarrow> update_elem ops m k v BPF_EXIST \<noteq> None"
begin

lemma lookup_update_exist:
  "lookup_elem ops m k = Some v' \<Longrightarrow> lookup_elem ops (map_update ops m k v BPF_EXIST) k = Some v"
  using exist_succeeds [of m k v' v] by (auto simp: map_update_def upd_same split: option.splits)

lemma lookup_update_other:
  "k' \<noteq> k \<Longrightarrow> lookup_elem ops (map_update ops m k v f) k' = lookup_elem ops m k'"
  by (auto simp: map_update_def upd_other split: option.splits)

lemma lookup_update_ok:
  "update_elem ops m k v f \<noteq> None \<Longrightarrow> lookup_elem ops (map_update ops m k v f) k = Some v"
  by (auto simp: map_update_def upd_same)

lemma update_absent: "lookup_elem ops m k = None \<Longrightarrow> map_update ops m k v BPF_EXIST = m"
  by (simp add: map_update_def exist_fails)

end

text \<open>A hash table of at most \<open>max_entries\<close> entries, as an association list.\<close>

definition htab_update :: "nat \<Rightarrow> ('k \<times> 'v) list \<Rightarrow> 'k \<Rightarrow> 'v \<Rightarrow> map_flag \<Rightarrow> ('k \<times> 'v) list option" where
  "htab_update max_entries m k v f =
     (case (map_of m k, f) of
        (Some _, BPF_NOEXIST) \<Rightarrow> None
      | (None, BPF_EXIST) \<Rightarrow> None
      | (Some _, _) \<Rightarrow> Some (AList.update k v m)
      | (None, _) \<Rightarrow> if length m < max_entries then Some (AList.update k v m) else None)"

definition htab_ops :: "nat \<Rightarrow> (('k \<times> 'v) list, 'k, 'v) map_ops" where
  "htab_ops max_entries = \<lparr>lookup_elem = map_of, update_elem = htab_update max_entries\<rparr>"

interpretation htab: bpf_map "htab_ops max_entries"
  by unfold_locales
    (auto simp: htab_ops_def htab_update_def update_conv' split: option.splits map_flag.splits if_splits)

section \<open>The helpers together\<close>

record ('m, 'r) bpf_env =
  conntrack_ops :: "('m, map_key_t, map_val_t) map_ops"
  rtt_ops :: "('r, u32, u32) map_ops"
  csum_diff :: csum_diff_t
  probe_read :: "map_val_t option \<Rightarrow> map_val_t option"

text \<open>With \<open>BPF_ANY\<close> an update of a key that is present replaces its value, full map or not.\<close>

definition replaces :: "('m, 'k, 'v) map_ops \<Rightarrow> bool" where
  "replaces ops \<longleftrightarrow> (\<forall>m k v v'. lookup_elem ops m k = Some v' \<longrightarrow> update_elem ops m k v BPF_ANY \<noteq> None)"

lemma htab_replaces: "replaces (htab_ops max_entries)"
  by (auto simp: replaces_def htab_ops_def htab_update_def split: option.splits)

text \<open>
  \<open>probe_read\<close> copies a map value out of the kernel: \<open>None\<close> is the null pointer on the
  way in and a non-zero result on the way out.
\<close>

locale bpf_runtime =
  fixes E :: "('m, 'r) bpf_env"
  assumes ct_map: "bpf_map (conntrack_ops E)"
    and rtt_map: "bpf_map (rtt_ops E)"
    and csum_law: "csum_diff_law (csum_diff E)"
    and probe_some: "probe_read E (Some v) = Some v"
    and probe_none: "probe_read E None = None"

sublocale bpf_runtime \<subseteq> ct: bpf_map "conntrack_ops E"
  by (rule ct_map)

sublocale bpf_runtime \<subseteq> rtt: bpf_map "rtt_ops E"
  by (rule rtt_map)

sublocale bpf_runtime \<subseteq> bpf_csum "csum_diff E"
  by unfold_locales (rule csum_law)

type_synonym ref_env = "((map_key_t \<times> map_val_t) list, (u32 \<times> u32) list) bpf_env"

definition ref_env :: "nat \<Rightarrow> ref_env" where
  "ref_env max_entries =
     \<lparr>conntrack_ops = htab_ops max_entries, rtt_ops = htab_ops 1,
      csum_diff = csum_diff_ref, probe_read = (\<lambda>v. v)\<rparr>"

interpretation ref_rt: bpf_runtime "ref_env max_entries"
  by (rule bpf_runtime.intro) (simp_all add: ref_env_def htab.bpf_map_axioms csum_diff_ref_law)

section \<open>Checksum updates in the style of the programs\<close>

text \<open>
  The programs seed the helper with the complement of the 64-bit copy of \<open>tcp->check\<close>;
  as a 32-bit seed it is the negated checksum.
\<close>

lemma seed_not: "oc_eq (uint (ucast (NOT (ucast (c :: u16) :: u64)) :: u32)) (- uint c)"
proof -
  have "(ucast (NOT (ucast c :: u64)) :: u32) = NOT (ucast c)"
    by (intro bit_word_eqI) (auto simp: bit_simps)
  moreover have "uint (ucast c :: u32) = uint c"
    using uint_u16_less [of c] by (simp add: unsigned_ucast_eq take_bit_int_eq_self)
  ultimately show ?thesis
    using uint_not32 [of "ucast c"] by simp
qed

end
