(* ===== verification/Tcp_Options.thy ===== *)
theory Tcp_Options
  imports Packet
begin

text \<open>
  Locating the TCP timestamp option: \<open>parse_timestamp\<close> of
  \<open>examples/common/timestamp.c\<close> (switch agent, user space) and of
  \<open>examples/htscookie/server.h\<close> (eBPF).  Both first compare the first option bytes with
  masks for frequent layouts and otherwise walk the option list a bounded number of times.
  A result of \<open>-1\<close> is \<open>None\<close>.
\<close>

section \<open>Masks of the frequent layouts\<close>

definition syn_1_mask :: u64 where "syn_1_mask = 0x0008000400000002"
definition syn_2_mask_1 :: u64 where "syn_2_mask_1 = 0x0000070100000002"
definition syn_2_mask_2 :: u32 where "syn_2_mask_2 = 0x08010100"
definition syn_3_mask_1 :: u64 where "syn_3_mask_1 = 0x0000070100000002"
definition syn_3_mask_2 :: u32 where "syn_3_mask_2 = 0x08000400"
definition ack_1_mask :: u64 where "ack_1_mask = 0x000000000080101"
definition synack_1_mask :: u64 where "synack_1_mask = ack_1_mask"
definition synack_2_mask_1 :: u64 where "synack_2_mask_1 = syn_2_mask_1"
definition synack_2_mask_2 :: u32 where "synack_2_mask_2 = syn_3_mask_2"
definition synack_3_mask :: u64 where "synack_3_mask = 0x0008010100000004"
definition synack_4_mask_1 :: u64 where "synack_4_mask_1 = syn_2_mask_1"
definition synack_4_mask_2 :: u32 where "synack_4_mask_2 = syn_2_mask_2"

abbreviation mask_in :: "'a::len word \<Rightarrow> 'a word \<Rightarrow> bool" where
  "mask_in msk x \<equiv> ((msk AND x) = msk)"

section \<open>User space: timestamp.c\<close>

text \<open>
  What the mask tests decide: return \<open>-1\<close> at once, return an offset, or go on to the
  option walk.
\<close>

datatype fast_result = FastFail | FastFound nat | FastMiss

definition fast_parse_timestamp :: "mem \<Rightarrow> nat \<Rightarrow> fast_result" where
  "fast_parse_timestamp m tcp =
     (let tcp_opt = tcp + 20;
          opt_end = tcp + tcp_doff m tcp * 4;
          w64 = ld64 m tcp_opt; w32 = ld32 m (tcp_opt + 8)
      in if tcp_opt + 8 > opt_end then FastFail
         else if tcp_syn m tcp \<and> \<not> tcp_ack m tcp then
           if mask_in syn_1_mask w64 then FastFound 6
           else if tcp_opt + 12 > opt_end then FastFail
           else if mask_in syn_2_mask_1 w64 then
             if mask_in syn_2_mask_2 w32 then FastFound 10 else FastMiss
           else if mask_in syn_3_mask_1 w64 then
             if mask_in syn_3_mask_2 w32 then FastFound 10 else FastMiss
           else FastMiss
         else if tcp_ack m tcp \<and> \<not> tcp_syn m tcp then
           if mask_in ack_1_mask w64 then FastFound 2 else FastMiss
         else
           if mask_in synack_1_mask w64 then FastFound 2
           else if tcp_opt + 12 > opt_end then FastFail
           else if mask_in synack_2_mask_1 w64 then
             if mask_in synack_2_mask_2 w32 then FastFound 10 else FastMiss
           else if mask_in synack_3_mask w64 then
             if mask_in syn_3_mask_2 w32 then FastFound 6 else FastMiss
           else if mask_in synack_4_mask_1 w64 then
             if mask_in synack_4_mask_2 w32 then FastFound 10 else FastMiss
           else FastMiss)"

text \<open>The walk: the first argument counts the iterations of the \<open>for\<close> loop that are left.\<close>

fun walk_options :: "nat \<Rightarrow> mem \<Rightarrow> nat \<Rightarrow> nat \<Rightarrow> nat option" where
  "walk_options 0 m opt opt_end = None"
| "walk_options (Suc i) m opt opt_end =
     (if opt + 1 > opt_end then None
      else if m opt = 0 then None
      else if m opt = 1 then walk_options i m (opt + 1) opt_end
      else if opt + 2 > opt_end then None
      else if m opt \<noteq> 8 then walk_options i m (opt + unat (m (opt + 1))) opt_end
      else Some opt)"

definition parse_timestamp :: "mem \<Rightarrow> nat \<Rightarrow> nat option" where
  "parse_timestamp m tcp =
     (case fast_parse_timestamp m tcp of
        FastFail \<Rightarrow> None
      | FastFound off \<Rightarrow> Some off
      | FastMiss \<Rightarrow>
          map_option (\<lambda>opt. opt - (tcp + 20))
            (walk_options 40 m (tcp + 20) (tcp + tcp_doff m tcp * 4)))"

section \<open>eBPF: server.h\<close>

definition bpf_fast_timestamp :: "mem \<Rightarrow> nat \<Rightarrow> nat \<Rightarrow> nat \<Rightarrow> fast_result" where
  "bpf_fast_timestamp m pos tcp data_end =
     (let w64 = ld64 m pos; w32 = ld32 m (pos + 8)
      in if pos + 8 > data_end then FastFail
         else if tcp_syn m tcp \<and> \<not> tcp_ack m tcp then
           if mask_in syn_1_mask w64 then FastFound 6
           else if pos + 12 > data_end then FastFail
           else if mask_in syn_2_mask_1 w64 then
             if mask_in syn_2_mask_2 w32 then FastFound 10 else FastMiss
           else if mask_in syn_3_mask_1 w64 then
             if mask_in syn_3_mask_2 w32 then FastFound 10 else FastMiss
           else FastMiss
         else if tcp_ack m tcp \<and> \<not> tcp_syn m tcp then
           if mask_in ack_1_mask w64 then FastFound 2 else FastMiss
         else if tcp_syn m tcp \<and> tcp_ack m tcp then
           if mask_in synack_1_mask w64 then FastFound 2
           else if pos + 12 > data_end then FastFail
           else if mask_in synack_2_mask_1 w64 then
             if mask_in synack_2_mask_2 w32 then FastFound 10 else FastMiss
           else if mask_in synack_3_mask w64 then
             if mask_in syn_3_mask_2 w32 then FastFound 6 else FastMiss
           else if mask_in synack_4_mask_1 w64 then
             if mask_in synack_4_mask_2 w32 then FastFound 10 else FastMiss
           else FastMiss
         else FastMiss)"

fun bpf_walk_options :: "nat \<Rightarrow> mem \<Rightarrow> nat \<Rightarrow> nat \<Rightarrow> nat \<Rightarrow> nat option" where
  "bpf_walk_options 0 m opt opt_end data_end = None"
| "bpf_walk_options (Suc i) m opt opt_end data_end =
     (if opt + 1 > opt_end \<or> opt + 1 > data_end then None
      else if m opt = 0 then None
      else if m opt = 1 then bpf_walk_options i m (opt + 1) opt_end data_end
      else if opt + 2 > opt_end \<or> opt + 2 > data_end then None
      else if m opt \<noteq> 8 then bpf_walk_options i m (opt + unat (m (opt + 1))) opt_end data_end
      else if opt + 10 > data_end then None
      else Some opt)"

definition MAX_TCP_OPTION :: nat where "MAX_TCP_OPTION = 10"

text \<open>
  The result is the pointer \<open>*tshdr\<close>.  The cursor that comes in is \<open>pos\<close>, the first
  option byte; in the mask case the code advances it by the offset and then compares the
  advanced cursor plus the offset once more with \<open>data_end\<close>.
\<close>

definition bpf_parse_timestamp :: "mem \<Rightarrow> nat \<Rightarrow> nat \<Rightarrow> nat \<Rightarrow> nat option" where
  "bpf_parse_timestamp m pos tcp data_end =
     (case bpf_fast_timestamp m pos tcp data_end of
        FastFail \<Rightarrow> None
      | FastFound off \<Rightarrow>
          (let pos = pos + off
           in if pos + off > data_end then None
              else if pos + 10 > data_end then None
              else Some pos)
      | FastMiss \<Rightarrow>
          bpf_walk_options MAX_TCP_OPTION m (tcp + 20) (tcp + tcp_doff m tcp * 4) data_end)"

section \<open>Header parsers of server.h\<close>

text \<open>
  Each parser takes the cursor and \<open>data_end\<close> and returns its C result, the header
  pointer and the advanced cursor.
\<close>

definition parse_ethhdr :: "mem \<Rightarrow> nat \<Rightarrow> nat \<Rightarrow> (u16 \<times> nat \<times> nat) option" where
  "parse_ethhdr m pos data_end =
     (let ethh = pos; hdrsize = 14
      in if ethh + 14 > data_end then None
         else if pos + hdrsize > data_end then None
         else Some (eth_proto m ethh, ethh, pos + hdrsize))"

definition parse_iphdr :: "mem \<Rightarrow> nat \<Rightarrow> nat \<Rightarrow> (u8 \<times> nat \<times> nat) option" where
  "parse_iphdr m pos data_end =
     (let iph = pos
      in if iph + 20 > data_end then None
         else let hdrsize = ip_ihl m iph * 4
              in if hdrsize < 20 then None
                 else if pos + hdrsize > data_end then None
                 else Some (ip_protocol m iph, iph, pos + hdrsize))"

definition parse_tcphdr :: "mem \<Rightarrow> nat \<Rightarrow> nat \<Rightarrow> (nat \<times> nat \<times> nat) option" where
  "parse_tcphdr m pos data_end =
     (let h = pos
      in if h + 20 > data_end then None
         else let len = tcp_doff m h * 4
              in if len < 20 then None
                 else if pos + len > data_end then None
                 else Some (len, h, h + 20))"

section \<open>Unfolding the walks at a numeral\<close>

lemma bpf_walk_step:
  "bpf_walk_options (numeral n) m opt opt_end data_end =
     (if opt + 1 > opt_end \<or> opt + 1 > data_end then None
      else if m opt = 0 then None
      else if m opt = 1 then bpf_walk_options (pred_numeral n) m (opt + 1) opt_end data_end
      else if opt + 2 > opt_end \<or> opt + 2 > data_end then None
      else if m opt \<noteq> 8
        then bpf_walk_options (pred_numeral n) m (opt + unat (m (opt + 1))) opt_end data_end
      else if opt + 10 > data_end then None
      else Some opt)"
  by (simp only: numeral_eq_Suc bpf_walk_options.simps)

lemma walk_step:
  "walk_options (numeral n) m opt opt_end =
     (if opt + 1 > opt_end then None
      else if m opt = 0 then None
      else if m opt = 1 then walk_options (pred_numeral n) m (opt + 1) opt_end
      else if opt + 2 > opt_end then None
      else if m opt \<noteq> 8 then walk_options (pred_numeral n) m (opt + unat (m (opt + 1))) opt_end
      else Some opt)"
  by (simp only: numeral_eq_Suc walk_options.simps)

section \<open>Where the parsers can point\<close>

lemma bpf_walk_options_range:
  "bpf_walk_options i m opt opt_end data_end = Some ts \<Longrightarrow>
     opt \<le> ts \<and> ts + 10 \<le> data_end \<and> ts + 2 \<le> opt_end \<and> m ts = 8"
proof (induction i arbitrary: opt)
  case (Suc i)
  then show ?case by (fastforce split: if_splits)
qed simp

lemma bpf_fast_range:
  "bpf_fast_timestamp m pos tcp data_end = FastFound off \<Longrightarrow>
     off \<in> {2, 6, 10} \<and> pos + 8 \<le> data_end"
  unfolding bpf_fast_timestamp_def Let_def by (auto split: if_splits)

lemma bpf_parse_timestamp_range:
  assumes "bpf_parse_timestamp m (tcp + 20) tcp data_end = Some ts"
  shows "tcp + 20 \<le> ts \<and> ts + 10 \<le> data_end"
proof (cases "bpf_fast_timestamp m (tcp + 20) tcp data_end")
  case (FastFound off)
  with assms show ?thesis
    by (auto simp: bpf_parse_timestamp_def Let_def split: if_splits)
next
  case FastMiss
  with assms show ?thesis
    using bpf_walk_options_range by (fastforce simp: bpf_parse_timestamp_def)
qed (use assms in \<open>simp add: bpf_parse_timestamp_def\<close>)

lemma walk_options_range:
  "walk_options i m opt opt_end = Some ts \<Longrightarrow> opt \<le> ts \<and> ts + 2 \<le> opt_end \<and> m ts = 8"
proof (induction i arbitrary: opt)
  case (Suc i)
  then show ?case by (fastforce split: if_splits)
qed simp

lemma parse_ethhdr_Some:
  "parse_ethhdr m pos data_end = Some (pr, eth, pos') \<longleftrightarrow>
     pos + 14 \<le> data_end \<and> pr = eth_proto m pos \<and> eth = pos \<and> pos' = pos + 14"
  by (auto simp: parse_ethhdr_def Let_def)

lemma parse_iphdr_Some:
  "parse_iphdr m pos data_end = Some (pr, ip, pos') \<longleftrightarrow>
     pos + 20 \<le> data_end \<and> 20 \<le> ip_ihl m pos * 4 \<and> pos + ip_ihl m pos * 4 \<le> data_end
     \<and> pr = ip_protocol m pos \<and> ip = pos \<and> pos' = pos + ip_ihl m pos * 4"
  by (auto simp: parse_iphdr_def Let_def)

lemma parse_tcphdr_Some:
  "parse_tcphdr m pos data_end = Some (len, tcp, pos') \<longleftrightarrow>
     pos + 20 \<le> data_end \<and> 20 \<le> tcp_doff m pos * 4 \<and> pos + tcp_doff m pos * 4 \<le> data_end
     \<and> len = tcp_doff m pos * 4 \<and> tcp = pos \<and> pos' = pos + 20"
  by (auto simp: parse_tcphdr_def Let_def)

lemmas parse_hdr_Some = parse_ethhdr_Some parse_iphdr_Some parse_tcphdr_Some

section \<open>Frames of the programs\<close>

text \<open>
  The frames the handlers act on: Ethernet at offset 0, IPv4 at 14, a TCP header of at least
  32 bytes at \<open>tcp\<close>, all inside the buffer.
\<close>

abbreviation (input) tcp_at :: "mem \<Rightarrow> nat" where
  "tcp_at m \<equiv> 14 + ip_ihl m 14 * 4"

definition tcp_frame :: "mem \<Rightarrow> nat \<Rightarrow> nat \<Rightarrow> bool" where
  "tcp_frame m data_end tcp \<longleftrightarrow>
     htons (eth_proto m 0) = ETH_P_IP \<and> ip_protocol m 14 = IPPROTO_TCP
     \<and> 20 \<le> ip_ihl m 14 * 4 \<and> tcp = 14 + ip_ihl m 14 * 4
     \<and> 32 \<le> tcp_doff m tcp * 4 \<and> tcp + tcp_doff m tcp * 4 \<le> data_end"

lemma tcp_frameD:
  assumes "tcp_frame m data_end tcp"
  shows "34 \<le> tcp" "tcp + 32 \<le> data_end" "htons (eth_proto m 0) = ETH_P_IP"
    "8 \<le> tcp_doff m tcp" "tcp + tcp_doff m tcp * 4 \<le> data_end"
  using assms by (auto simp: tcp_frame_def)

lemma tcp_frame_parse:
  assumes "tcp_frame m data_end tcp"
  shows "parse_ethhdr m 0 data_end = Some (eth_proto m 0, 0, 14)"
    "parse_iphdr m 14 data_end = Some (6, 14, tcp)"
    "parse_tcphdr m tcp data_end = Some (tcp_doff m tcp * 4, tcp, tcp + 20)"
  using assms by (auto simp: tcp_frame_def parse_hdr_Some)

section \<open>The two parsers agree\<close>

lemma walk_agree:
  "bpf_walk_options i m opt opt_end data_end = Some ts \<Longrightarrow> i \<le> j \<Longrightarrow> walk_options j m opt opt_end = Some ts"
proof (induction i arbitrary: opt j)
  case (Suc i)
  then obtain k where "j = Suc k" "i \<le> k" by (cases j) auto
  with Suc show ?case by (auto split: if_splits)
qed simp

lemma fast_agree:
  assumes "tcp + 32 \<le> data_end" "8 \<le> tcp_doff m tcp" "tcp_syn m tcp \<or> tcp_ack m tcp"
  shows "fast_parse_timestamp m tcp = bpf_fast_timestamp m (tcp + 20) tcp data_end"
  using assms by (auto simp: fast_parse_timestamp_def bpf_fast_timestamp_def Let_def)

lemma parse_agree:
  assumes "tcp_frame m data_end tcp" "tcp_syn m tcp \<or> tcp_ack m tcp"
    and "bpf_parse_timestamp m (tcp + 20) tcp data_end = Some ts"
  shows "parse_timestamp m tcp = Some (ts - (tcp + 20))"
proof -
  have "tcp + 32 \<le> data_end" "8 \<le> tcp_doff m tcp"
    using assms(1) unfolding tcp_frame_def by linarith+
  from fast_agree [OF this assms(2)] assms(3) walk_agree [of MAX_TCP_OPTION m "tcp + 20"
      "tcp + tcp_doff m tcp * 4" data_end ts 40]
  show ?thesis
    by (auto simp: parse_timestamp_def bpf_parse_timestamp_def Let_def MAX_TCP_OPTION_def
        split: fast_result.splits if_splits)
qed

text \<open>
  The two parsers agree.  On every frame with a SYN or ACK flag in which the eBPF parser
  finds the timestamp option, the user-space parser finds it at the same place.
\<close>

theorem parsers_agree:
  assumes "tcp_frame m data_end tcp" "tcp_syn m tcp \<or> tcp_ack m tcp"
    and "bpf_parse_timestamp m (tcp + 20) tcp data_end = Some ts"
  shows "parse_timestamp m tcp = Some (ts - (tcp + 20))"
  by (rule parse_agree [OF assms])

text \<open>Changing bytes behind the option header that was found does not move the option.\<close>

lemma bpf_walk_cong:
  "bpf_walk_options i m opt opt_end data_end = Some ts \<Longrightarrow>
     (\<And>j. opt \<le> j \<Longrightarrow> j < ts + 2 \<Longrightarrow> m' j = m j) \<Longrightarrow>
     bpf_walk_options i m' opt opt_end data_end = Some ts"
proof (induction i arbitrary: opt)
  case (Suc i)
  have "opt \<le> ts"
    using bpf_walk_options_range [OF Suc.prems(1)] by simp
  then have "m' opt = m opt" "m' (opt + 1) = m (opt + 1)"
    using Suc.prems(2) by simp_all
  then show ?case using Suc by (auto split: if_splits)
qed simp

lemma bpf_parse_cong:
  assumes "bpf_parse_timestamp m (tcp + 20) tcp data_end = Some ts" "tcp + 26 \<le> ts"
    and same: "\<And>j. tcp \<le> j \<Longrightarrow> j < ts + 6 \<Longrightarrow> m' j = m j"
  shows "bpf_parse_timestamp m' (tcp + 20) tcp data_end = Some ts"
proof -
  have "bpf_fast_timestamp m' (tcp + 20) tcp data_end = bpf_fast_timestamp m (tcp + 20) tcp data_end"
    using assms(2) same by (simp add: bpf_fast_timestamp_def Let_def ld64_def ld32_def)
  then show ?thesis
    using assms bpf_walk_cong [of MAX_TCP_OPTION m "tcp + 20" "tcp + tcp_doff m tcp * 4" data_end ts m']
    by (auto simp: bpf_parse_timestamp_def Let_def split: fast_result.splits if_splits)
qed

lemma tcp_frame_cong:
  assumes "tcp_frame m data_end tcp" "\<And>i. 12 \<le> i \<Longrightarrow> i < tcp + 20 \<Longrightarrow> m' i = m i"
  shows "tcp_frame m' data_end tcp"
proof -
  have eq: "eth_proto m' 0 = eth_proto m 0" "ip_protocol m' 14 = ip_protocol m 14" "ip_ihl m' 14 = ip_ihl m 14"
    "tcp_doff m' tcp = tcp_doff m tcp"
    using assms(2) tcp_frameD(1) [OF assms(1)] by (simp_all add: ld16_def)
  show ?thesis
    using assms(1) unfolding tcp_frame_def eq .
qed

end
