(* ===== verification/Samples.thy ===== *)
theory Samples
  imports Csum Tcp_Options
begin

text \<open>
  Concrete frames with valid checksums, and the values of the header fields the properties
  speak about.  The witnesses of the component theories instantiate their theorems with
  these frames.
\<close>

definition mem_of :: "u8 list \<Rightarrow> mem" where
  "mem_of bs = (\<lambda>i. if i < length bs then bs ! i else 0)"

text \<open>The SYN of a client: MSS, SACK permitted, time stamp, window scale.\<close>

definition sample_syn :: mem where
  "sample_syn = mem_of
    [0x90, 0xe2, 0xba, 0xb3, 0xbb, 0x7c, 0x3c, 0xfd, 0xfe, 0xb3, 0x12, 0xcc, 0x08, 0x00,
     0x45, 0x00, 0x00, 0x3c, 0x00, 0x01, 0x40, 0x00, 0x40, 0x06, 0x26, 0x91, 0x0a, 0x12,
     0x00, 0x03, 0x0a, 0x13, 0x00, 0x03, 0x9c, 0x40, 0x00, 0x50, 0x00, 0x00, 0x03, 0xe8,
     0x00, 0x00, 0x00, 0x00, 0xa0, 0x02, 0x01, 0xf6, 0x7d, 0xe0, 0x00, 0x00, 0x02, 0x04,
     0x05, 0xb4, 0x04, 0x02, 0x08, 0x0a, 0x00, 0x00, 0x13, 0x87, 0x00, 0x00, 0x00, 0x00,
     0x01, 0x03, 0x03, 0x07]"

text \<open>The third ACK of a handshake, whose time stamp echo is \<open>TS_START\<close>.\<close>

definition sample_handshake :: mem where
  "sample_handshake = mem_of
    [0x90, 0xe2, 0xba, 0xb3, 0xbb, 0x7c, 0x3c, 0xfd, 0xfe, 0xb3, 0x12, 0xcc, 0x08, 0x00,
     0x45, 0x00, 0x00, 0x34, 0x00, 0x01, 0x40, 0x00, 0x40, 0x06, 0x26, 0x99, 0x0a, 0x12,
     0x00, 0x03, 0x0a, 0x13, 0x00, 0x03, 0x9c, 0x40, 0x00, 0x50, 0x00, 0x00, 0x03, 0xe9,
     0x1a, 0x2b, 0x3c, 0x4e, 0x80, 0x10, 0x01, 0xf6, 0x55, 0x21, 0x00, 0x00, 0x01, 0x01,
     0x08, 0x0a, 0x00, 0x00, 0x13, 0x88, 0x01, 0x01, 0x00, 0x00]"

text \<open>A later ACK of the same flow, which echoes a hybrid cookie.\<close>

definition sample_ack :: mem where
  "sample_ack = mem_of
    [0x90, 0xe2, 0xba, 0xb3, 0xbb, 0x7c, 0x3c, 0xfd, 0xfe, 0xb3, 0x12, 0xcc, 0x08, 0x00,
     0x45, 0x00, 0x00, 0x34, 0x00, 0x01, 0x40, 0x00, 0x40, 0x06, 0x26, 0x99, 0x0a, 0x12,
     0x00, 0x03, 0x0a, 0x13, 0x00, 0x03, 0x9c, 0x40, 0x00, 0x50, 0x00, 0x00, 0x03, 0xe9,
     0x1a, 0x2b, 0x3c, 0x4e, 0x80, 0x10, 0x01, 0xf6, 0x03, 0xed, 0x00, 0x00, 0x01, 0x01,
     0x08, 0x0a, 0x00, 0x00, 0x13, 0x89, 0x40, 0x00, 0x12, 0x34]"

text \<open>The server's SYN-ACK and a later segment of the server.\<close>

definition sample_synack :: mem where
  "sample_synack = mem_of
    [0x90, 0xe2, 0xba, 0xb3, 0xbb, 0x7c, 0x3c, 0xfd, 0xfe, 0xb3, 0x12, 0xcc, 0x08, 0x00,
     0x45, 0x00, 0x00, 0x38, 0x00, 0x01, 0x40, 0x00, 0x40, 0x06, 0x26, 0x95, 0x0a, 0x13,
     0x00, 0x03, 0x0a, 0x12, 0x00, 0x03, 0x00, 0x50, 0x9c, 0x40, 0x00, 0x00, 0x03, 0x09,
     0x00, 0x00, 0x03, 0xe9, 0x90, 0x12, 0x01, 0xf6, 0x6b, 0xab, 0x00, 0x00, 0x02, 0x04,
     0x05, 0xb4, 0x04, 0x02, 0x08, 0x0a, 0x00, 0x00, 0x23, 0x28, 0x00, 0x00, 0x13, 0x88]"

definition sample_reply :: mem where
  "sample_reply = mem_of
    [0x90, 0xe2, 0xba, 0xb3, 0xbb, 0x7c, 0x3c, 0xfd, 0xfe, 0xb3, 0x12, 0xcc, 0x08, 0x00,
     0x45, 0x00, 0x00, 0x34, 0x00, 0x01, 0x40, 0x00, 0x40, 0x06, 0x26, 0x99, 0x0a, 0x13,
     0x00, 0x03, 0x0a, 0x12, 0x00, 0x03, 0x00, 0x50, 0x9c, 0x40, 0x00, 0x00, 0x03, 0x0a,
     0x00, 0x00, 0x03, 0xe9, 0x80, 0x10, 0x01, 0xf6, 0x86, 0x04, 0x00, 0x00, 0x01, 0x01,
     0x08, 0x0a, 0x00, 0x00, 0x23, 0x8c, 0x00, 0x00, 0x13, 0x89]"

section \<open>Evaluation\<close>

lemmas sample_eval = mem_of_def tcp_frame_def ld16_def ld32_def ld64_def mk16_def mk32_def mk64_def
  byte_def bswap16_def bswap32_def

lemmas sample_csum_eval = tcp_csum_ok_def pseudo_sum_def tcp_seg_len_def msum_def bsum_def wt_def
  oc_eq_def lessThan_nat_numeral lessThan_Suc

lemma sample_handshake_frame: "tcp_frame sample_handshake 66 34"
  by (simp add: sample_handshake_def sample_eval)

lemma sample_handshake_fields:
  "tcp_ack sample_handshake 34" "\<not> tcp_syn sample_handshake 34" "\<not> tcp_fin sample_handshake 34"
  "ts_tsecr sample_handshake 56 = TS_START" "tcp_doff sample_handshake 34 = 8"
  "tcp_seg_len sample_handshake 14 = 32"
  by (simp_all add: sample_handshake_def sample_eval tcp_seg_len_def bit_simps)

lemma sample_handshake_ts: "bpf_parse_timestamp sample_handshake 54 34 66 = Some 56"
  by (simp add: sample_handshake_def sample_eval bpf_parse_timestamp_def bpf_fast_timestamp_def Let_def
      ack_1_mask_def)

lemma sample_handshake_csum: "tcp_csum_ok sample_handshake 14 34"
  by (simp add: sample_csum_eval sample_handshake_def sample_eval)

lemma sample_ack_frame: "tcp_frame sample_ack 66 34"
  by (simp add: sample_ack_def sample_eval)

lemma sample_ack_fields:
  "tcp_ack sample_ack 34" "\<not> tcp_syn sample_ack 34" "\<not> tcp_fin sample_ack 34"
  "ts_tsecr sample_ack 56 = 0x34120040" "tcp_doff sample_ack 34 = 8"
  "tcp_seg_len sample_ack 14 = 32" "TS_START \<noteq> 0x34120040"
  by (simp_all add: sample_ack_def sample_eval tcp_seg_len_def bit_simps)

lemma sample_ack_acks: "ntohl (tcp_ack_seq sample_ack 34) = 0x1a2b3c4e"
  by (simp add: sample_ack_def sample_eval)

lemma sample_ack_ts: "bpf_parse_timestamp sample_ack 54 34 66 = Some 56"
  by (simp add: sample_ack_def sample_eval bpf_parse_timestamp_def bpf_fast_timestamp_def Let_def
      ack_1_mask_def)

lemma sample_ack_csum: "tcp_csum_ok sample_ack 14 34"
  by (simp add: sample_csum_eval sample_ack_def sample_eval)

lemma sample_synack_frame: "tcp_frame sample_synack 70 34"
  by (simp add: sample_synack_def sample_eval)

lemma sample_synack_fields:
  "tcp_ack sample_synack 34" "tcp_syn sample_synack 34" "tcp_doff sample_synack 34 = 9"
  "tcp_seg_len sample_synack 14 = 36" "ntohl (tcp_seq sample_synack 34) = 777"
  "ip_saddr sample_synack 14 = 0x0300130a" "ip_daddr sample_synack 14 = 0x0300120a"
  "tcp_source sample_synack 34 = 0x5000" "tcp_dest sample_synack 34 = 0x409c"
  by (simp_all add: sample_synack_def sample_eval tcp_seg_len_def bit_simps)

lemma sample_synack_ts: "bpf_parse_timestamp sample_synack 54 34 70 = Some 60"
  by (simp add: sample_synack_def sample_eval bpf_parse_timestamp_def bpf_fast_timestamp_def Let_def
      synack_1_mask_def ack_1_mask_def synack_2_mask_1_def syn_2_mask_1_def synack_3_mask_def
      synack_4_mask_1_def MAX_TCP_OPTION_def bpf_walk_step)

lemma sample_reply_frame: "tcp_frame sample_reply 66 34"
  by (simp add: sample_reply_def sample_eval)

lemma sample_reply_fields:
  "tcp_ack sample_reply 34" "\<not> tcp_syn sample_reply 34" "\<not> tcp_rst sample_reply 34"
  "tcp_doff sample_reply 34 = 8" "ntohl (tcp_seq sample_reply 34) = 778"
  "ip_saddr sample_reply 14 = 0x0300130a" "ip_daddr sample_reply 14 = 0x0300120a"
  "tcp_source sample_reply 34 = 0x5000" "tcp_dest sample_reply 34 = 0x409c"
  "ts_tsval sample_reply 56 = htonl 9100"
  by (simp_all add: sample_reply_def sample_eval tcp_seg_len_def bit_simps)

lemma sample_reply_ts: "bpf_parse_timestamp sample_reply 54 34 66 = Some 56"
  by (simp add: sample_reply_def sample_eval bpf_parse_timestamp_def bpf_fast_timestamp_def Let_def
      ack_1_mask_def)

text \<open>The same facts with evaluated offsets.\<close>

lemmas sample_simps =
  sample_handshake_fields [simplified] sample_handshake_ts sample_ack_fields [simplified] sample_ack_ts
  sample_ack_acks [simplified] sample_synack_fields [simplified] sample_synack_ts
  sample_reply_fields [simplified] sample_reply_ts

theorem parsers_agree_witness: "parse_timestamp sample_ack 34 = Some 2"
  using parsers_agree [OF sample_ack_frame, of 56] sample_ack_fields(1) sample_ack_ts by simp

end
