(* ===== verification/Hsiphash.thy ===== *)
theory Hsiphash
  imports EC_Prelude
begin

text \<open>
  The 32-bit SipHash variant that both agents compute: the map cookie of a source address
  (\<open>hsiphash\<close> of \<open>examples/htscookie/server_in_kern.c\<close>, \<open>hsiphash_ip\<close> of
  \<open>examples/htscookie/switch_agent_user.c\<close>) and the SYN cookie of a connection
  (\<open>hsiphash\<close> of the switch agents, \<open>get_hash\<close> of
  \<open>examples/smartcookie/server_in_kern.c\<close>).  Each C function is a definition of its own;
  the lemmas show them to be instances of one keyed absorb-and-finalise scheme, that the
  rounds are permutations of the state, and that the copies in different agents agree.
\<close>

section \<open>The round function\<close>

type_synonym sip = "u32 \<times> u32 \<times> u32 \<times> u32"

definition rol :: "u32 \<Rightarrow> nat \<Rightarrow> u32" where
  "rol word shift = push_bit shift word OR drop_bit (32 - shift) word"

fun SIPROUND :: "sip \<Rightarrow> sip" where
  "SIPROUND (v0, v1, v2, v3) =
     (let v0 = v0 + v1; v2 = v2 + v3; v1 = rol v1 5; v3 = rol v3 8;
          v1 = v1 XOR v0; v3 = v3 XOR v2; v0 = rol v0 16;
          v2 = v2 + v1; v0 = v0 + v3; v1 = rol v1 13; v3 = rol v3 7;
          v1 = v1 XOR v2; v3 = v3 XOR v0; v2 = rol v2 16
      in (v0, v1, v2, v3))"

definition c0 :: u32 where "c0 = 0x70736575"
definition c1 :: u32 where "c1 = 0x6e646f6d"
definition c2 :: u32 where "c2 = 0x6e657261"
definition c3 :: u32 where "c3 = 0x79746573"

text \<open>The keys compiled into the switch agent.\<close>

definition key0 :: u32 where "key0 = 0x33323130"
definition key1 :: u32 where "key1 = 0x42413938"

section \<open>The hash functions of the agents\<close>

definition server_hsiphash :: "u32 \<Rightarrow> u64 \<Rightarrow> u32" where
  "server_hsiphash src key =
     (let key0 = ucast (drop_bit 32 key);
          key1 = ucast (key AND 0xffffffff);
          v0 = c0 XOR key0; v1 = c1 XOR key1; v2 = c2 XOR key0; v3 = c3 XOR key1;
          v3 = v3 XOR ntohl src;
          (v0, v1, v2, v3) = SIPROUND (v0, v1, v2, v3);
          (v0, v1, v2, v3) = SIPROUND (v0, v1, v2, v3);
          v0 = v0 XOR ntohl src;
          v2 = v2 XOR 0xFF;
          (v0, v1, v2, v3) = SIPROUND (v0, v1, v2, v3);
          (v0, v1, v2, v3) = SIPROUND (v0, v1, v2, v3);
          (v0, v1, v2, v3) = SIPROUND (v0, v1, v2, v3);
          (v0, v1, v2, v3) = SIPROUND (v0, v1, v2, v3)
      in (v0 XOR v1) XOR (v2 XOR v3))"

definition hsiphash_ip :: "u32 \<Rightarrow> u64 \<Rightarrow> u32" where
  "hsiphash_ip src key =
     (let key0 = ucast (drop_bit 32 key);
          key1 = ucast (key AND 0xffffffff);
          v0 = c0 XOR key0; v1 = c1 XOR key1; v2 = c2 XOR key0; v3 = c3 XOR key1;
          v3 = v3 XOR ntohl src;
          (v0, v1, v2, v3) = SIPROUND (v0, v1, v2, v3);
          (v0, v1, v2, v3) = SIPROUND (v0, v1, v2, v3);
          v0 = v0 XOR ntohl src;
          v2 = v2 XOR 0xFF;
          (v0, v1, v2, v3) = SIPROUND (v0, v1, v2, v3);
          (v0, v1, v2, v3) = SIPROUND (v0, v1, v2, v3);
          (v0, v1, v2, v3) = SIPROUND (v0, v1, v2, v3);
          (v0, v1, v2, v3) = SIPROUND (v0, v1, v2, v3)
      in (v0 XOR v1) XOR (v2 XOR v3))"

definition switch_hsiphash :: "u32 \<Rightarrow> u32 \<Rightarrow> u16 \<Rightarrow> u16 \<Rightarrow> u32" where
  "switch_hsiphash src dst src_port dst_port =
     (let v0 = c0 XOR key0; v1 = c1 XOR key1; v2 = c2 XOR key0; v3 = c3 XOR key1;
          v3 = v3 XOR ntohl src;
          (v0, v1, v2, v3) = SIPROUND (v0, v1, v2, v3);
          (v0, v1, v2, v3) = SIPROUND (v0, v1, v2, v3);
          v0 = v0 XOR ntohl src;
          v3 = v3 XOR ntohl dst;
          (v0, v1, v2, v3) = SIPROUND (v0, v1, v2, v3);
          (v0, v1, v2, v3) = SIPROUND (v0, v1, v2, v3);
          v0 = v0 XOR ntohl dst;
          ports = push_bit 16 (ucast dst_port) OR ucast src_port;
          v3 = v3 XOR ntohl ports;
          (v0, v1, v2, v3) = SIPROUND (v0, v1, v2, v3);
          (v0, v1, v2, v3) = SIPROUND (v0, v1, v2, v3);
          v0 = v0 XOR ntohl ports;
          v2 = v2 XOR 0xFF;
          (v0, v1, v2, v3) = SIPROUND (v0, v1, v2, v3);
          (v0, v1, v2, v3) = SIPROUND (v0, v1, v2, v3);
          (v0, v1, v2, v3) = SIPROUND (v0, v1, v2, v3);
          (v0, v1, v2, v3) = SIPROUND (v0, v1, v2, v3)
      in (v0 XOR v1) XOR (v2 XOR v3))"

section \<open>Rotations and rounds are permutations\<close>

lemma rol_eq_word_rotl:
  assumes "shift < 32"
  shows "rol w shift = word_rotl shift w"
proof (rule bit_word_eqI)
  fix n assume "n < LENGTH(32)"
  then have n: "n < 32" by simp
  have "(n + 32 - shift) mod 32 = (if shift \<le> n then n - shift else n + 32 - shift)"
  proof (cases "shift \<le> n")
    case True
    then have e: "n + 32 - shift = (n - shift) + 32" by simp
    show ?thesis
      unfolding e mod_add_self2 using n True by (simp only: if_True mod_less)
  qed (use assms in simp)
  then show "bit (rol w shift) n = bit (word_rotl shift w) n"
    using assms n by (auto simp: rol_def bit_simps add.commute dest: bit_imp_le_length)
qed

fun SIPROUND_inv :: "sip \<Rightarrow> sip" where
  "SIPROUND_inv (v0, v1, v2, v3) =
     (let v2 = word_rotr 16 v2; v3 = v3 XOR v0; v1 = v1 XOR v2;
          v3 = word_rotr 7 v3; v1 = word_rotr 13 v1; v0 = v0 - v3; v2 = v2 - v1;
          v0 = word_rotr 16 v0; v3 = v3 XOR v2; v1 = v1 XOR v0;
          v3 = word_rotr 8 v3; v1 = word_rotr 5 v1; v2 = v2 - v3; v0 = v0 - v1
      in (v0, v1, v2, v3))"

lemma xor_cancel: "(x XOR y) XOR y = (x :: 'a::len word)"
  by (simp add: xor.assoc)

lemma SIPROUND_inv_SIPROUND: "SIPROUND_inv (SIPROUND s) = s"
  by (cases s) (simp add: Let_def rol_eq_word_rotl xor_cancel)

lemma SIPROUND_SIPROUND_inv: "SIPROUND (SIPROUND_inv s) = s"
  by (cases s) (simp add: Let_def rol_eq_word_rotl xor_cancel)

lemma bij_SIPROUND: "bij SIPROUND"
  by (rule bijI') (metis SIPROUND_inv_SIPROUND, metis SIPROUND_SIPROUND_inv)

section \<open>The keyed scheme behind the copies\<close>

definition hsip_absorb :: "u32 \<Rightarrow> sip \<Rightarrow> sip" where
  "hsip_absorb msg = (\<lambda>(v0, v1, v2, v3).
     case SIPROUND (SIPROUND (v0, v1, v2, v3 XOR msg)) of
        (v0, v1, v2, v3) \<Rightarrow> (v0 XOR msg, v1, v2, v3))"

definition hsip_final :: "sip \<Rightarrow> u32" where
  "hsip_final = (\<lambda>(v0, v1, v2, v3).
     case SIPROUND (SIPROUND (SIPROUND (SIPROUND (v0, v1, v2 XOR 0xFF, v3)))) of
        (v0, v1, v2, v3) \<Rightarrow> (v0 XOR v1) XOR (v2 XOR v3))"

definition hsip :: "u32 \<Rightarrow> u32 \<Rightarrow> u32 list \<Rightarrow> u32" where
  "hsip k0 k1 msgs =
     hsip_final (fold hsip_absorb msgs (c0 XOR k0, c1 XOR k1, c2 XOR k0, c3 XOR k1))"

lemma server_hsiphash_eq:
  "server_hsiphash src key = hsip (ucast (drop_bit 32 key)) (ucast (key AND 0xffffffff)) [ntohl src]"
  by (simp only: server_hsiphash_def hsip_def Let_def case_prod_unfold hsip_absorb_def hsip_final_def
      fold_simps fst_conv snd_conv prod.collapse)

lemma hsiphash_ip_eq:
  "hsiphash_ip src key = hsip (ucast (drop_bit 32 key)) (ucast (key AND 0xffffffff)) [ntohl src]"
  by (simp only: hsiphash_ip_def hsip_def Let_def case_prod_unfold hsip_absorb_def hsip_final_def
      fold_simps fst_conv snd_conv prod.collapse)

lemma switch_hsiphash_eq:
  "switch_hsiphash src dst sp dp =
     hsip key0 key1 [ntohl src, ntohl dst, ntohl (push_bit 16 (ucast dp) OR ucast sp)]"
  by (simp only: switch_hsiphash_def hsip_def Let_def case_prod_unfold hsip_absorb_def hsip_final_def
      fold_simps fst_conv snd_conv prod.collapse)

lemma ucast_seed: "ucast (drop_bit 32 (ucast (x :: u32) :: u64)) = (0 :: u32)"
  "ucast ((ucast (x :: u32) :: u64) AND 0xffffffff) = x"
proof -
  show "ucast (drop_bit 32 (ucast x :: u64)) = (0 :: u32)"
    by (rule bit_word_eqI) (auto simp: bit_simps dest: bit_imp_le_length)
  have "(ucast x :: u64) AND 0xffffffff = take_bit 32 (ucast x)"
    by (simp add: take_bit_eq_mask mask_eq_exp_minus_1)
  then show "ucast ((ucast x :: u64) AND 0xffffffff) = x"
    by (intro bit_word_eqI) (auto simp: bit_simps)
qed

lemma hsiphash_agree: "hsiphash_ip src key = server_hsiphash src key"
  by (simp add: hsiphash_ip_eq server_hsiphash_eq)

end
