(* ===== verification/Cookies.thy ===== *)
theory Cookies
  imports Hsiphash
begin

text \<open>
  The cookies of \<open>examples/htscookie/server_in_kern.c\<close>.  A hybrid cookie travels in the
  time stamp of the server's segments and comes back as the client's time stamp echo.  In
  host order it is a two-bit counter, 14 bits of the folded SYN cookie and the 16-bit map
  cookie of the client address.  The lemmas read these three parts out of a cookie.
\<close>

section \<open>The cookie functions\<close>

definition get_hash_cookie :: "u32 \<Rightarrow> u16" where
  "get_hash_cookie cookie = ucast (drop_bit 16 cookie XOR (cookie AND 0xffff))"

definition get_cookie_key :: "(u16 \<Rightarrow> u32) \<Rightarrow> u32 \<Rightarrow> u16" where
  "get_cookie_key seeds ipaddr =
     (let seed_key = ucast (ipaddr AND 0xffff);
          cookie_key = server_hsiphash ipaddr (ucast (seeds seed_key));
          cookie_key = drop_bit 16 cookie_key XOR (cookie_key AND 0xffff)
      in ucast cookie_key)"

definition get_map_cookie :: "(u16 \<Rightarrow> u32) \<Rightarrow> u32 \<Rightarrow> u16" where
  "get_map_cookie seeds ipaddr = get_cookie_key seeds ipaddr"

definition set_map_cookie ::
    "(u16 \<Rightarrow> u32) \<Rightarrow> (u16 \<Rightarrow> u16) \<Rightarrow> u32 \<Rightarrow> u16 \<Rightarrow> (u16 \<Rightarrow> u16)" where
  "set_map_cookie seeds cookies ipaddr new_cookie =
     (let cookie_key = get_cookie_key seeds ipaddr in cookies(cookie_key := new_cookie))"

definition get_hybrid_cookie :: "(u16 \<Rightarrow> u32) \<Rightarrow> u32 \<Rightarrow> u32 \<Rightarrow> u32" where
  "get_hybrid_cookie seeds syn_cookie ipaddr =
     (let hash_part = ucast (get_hash_cookie syn_cookie) :: u32;
          map_part = ucast (get_map_cookie seeds ipaddr)
      in push_bit 16 hash_part OR map_part)"

section \<open>The parts of a hybrid cookie\<close>

definition hc_counter :: "u32 \<Rightarrow> u32" where "hc_counter h = drop_bit 30 h"
definition hc_fold :: "u32 \<Rightarrow> u32" where "hc_fold h = take_bit 14 (drop_bit 16 h)"
definition hc_map :: "u32 \<Rightarrow> u16" where "hc_map h = ucast h"

lemma hc_parts_eq: "h = push_bit 30 (hc_counter h) OR push_bit 16 (hc_fold h) OR ucast (hc_map h)"
proof (rule bit_word_eqI)
  fix n assume n: "n < LENGTH(32)"
  show "bit h n = bit (push_bit 30 (hc_counter h) OR push_bit 16 (hc_fold h) OR ucast (hc_map h)) n"
    by (cases "30 \<le> n"; cases "16 \<le> n")
      (use n in \<open>auto simp: hc_counter_def hc_fold_def hc_map_def bit_simps\<close>)
qed

lemma take30_tick: "take_bit 30 (h + 0x40000000 :: u32) = take_bit 30 h"
proof -
  have "(unat h + 1073741824) mod 4294967296 mod 1073741824 = unat h mod 1073741824"
    by (simp add: mod_mod_cancel)
  then show ?thesis
    by (simp add: word_unat_eq_iff unsigned_take_bit_eq take_bit_eq_mod [where 'a = nat] unat_word_ariths)
qed

lemma hc_counter_tick: "hc_counter (h + 0x40000000) = (hc_counter h + 1) AND 3"
proof -
  have d: "unat (drop_bit 30 (x :: u32)) = unat x div 1073741824" for x
    using unat_u32_less [of x]
    by (simp add: unsigned_drop_bit_eq drop_bit_eq_div [where 'a = nat] take_bit_nat_eq_self)
  have lt: "unat h div 1073741824 < 4"
    using unat_u32_less [of h] by (simp add: less_mult_imp_div_less)
  have "unat ((drop_bit 30 h + 1) AND 3) = (unat h div 1073741824 + 1) mod 4"
  proof -
    have "(drop_bit 30 h + 1) AND 3 = take_bit 2 (drop_bit 30 h + 1)"
      by (simp add: take_bit_eq_mask mask_eq_exp_minus_1)
    then show ?thesis
      using lt by (simp add: unsigned_take_bit_eq take_bit_eq_mod [where 'a = nat] unat_word_ariths d)
  qed
  moreover have "unat (drop_bit 30 (h + 0x40000000)) = (unat h div 1073741824 + 1) mod 4"
  proof -
    have "(unat h + 1073741824) mod 4294967296 div 1073741824 = (unat h + 1073741824) div 1073741824 mod 4"
      by (simp add: div_mult2_eq mod_mult2_eq [of _ 1073741824 4, simplified])
    also have "\<dots> = (unat h div 1073741824 + 1) mod 4"
      by (simp add: div_add_self2)
    finally show ?thesis by (simp add: d unat_word_ariths)
  qed
  ultimately show ?thesis
    by (simp add: hc_counter_def word_unat_eq_iff)
qed

lemma hc_low_tick: "hc_fold (h + 0x40000000) = hc_fold h" "hc_map (h + 0x40000000) = hc_map h"
proof -
  have f: "hc_fold x = drop_bit 16 (take_bit 30 x)" "hc_map x = ucast (take_bit 30 x)" for x
    by (rule bit_word_eqI, auto simp: hc_fold_def hc_map_def bit_simps)+
  show "hc_fold (h + 0x40000000) = hc_fold h" "hc_map (h + 0x40000000) = hc_map h"
    by (simp_all add: f take30_tick)
qed

lemmas hc_tick = hc_counter_tick hc_low_tick

lemma hc_hybrid:
  "hc_map (get_hybrid_cookie seeds c ip) = get_map_cookie seeds ip"
  "hc_fold (get_hybrid_cookie seeds c ip) = take_bit 14 (ucast (get_hash_cookie c))"
  by (rule bit_word_eqI, auto simp: hc_fold_def hc_map_def get_hybrid_cookie_def Let_def bit_simps
      dest: bit_imp_le_length)+

lemma hc_mask:
  "hc_map (h AND 0x3fffffff) = hc_map h" "hc_fold (h AND 0x3fffffff) = hc_fold h"
  "hc_counter (h AND 0x3fffffff) = 0"
proof -
  have m: "h AND 0x3fffffff = take_bit 30 h"
    by (simp add: take_bit_eq_mask mask_eq_exp_minus_1)
  show "hc_map (h AND 0x3fffffff) = hc_map h" "hc_fold (h AND 0x3fffffff) = hc_fold h"
    "hc_counter (h AND 0x3fffffff) = 0"
    unfolding m by (rule bit_word_eqI, auto simp: hc_fold_def hc_map_def hc_counter_def bit_simps)+
qed

lemma hc_replace:
  fixes c :: u16
  shows "hc_map ((h AND 0xffff0000) OR ucast c) = c"
    "hc_fold ((h AND 0xffff0000) OR ucast c) = hc_fold h"
    "hc_counter ((h AND 0xffff0000) OR ucast c) = hc_counter h"
proof -
  have m: "(h AND 0xffff0000) = push_bit 16 (drop_bit 16 h)"
  proof -
    have "(0xffff0000 :: u32) = push_bit 16 (mask 16)" by (simp add: mask_eq_exp_minus_1)
    then have "h AND 0xffff0000 = h AND push_bit 16 (mask 16)" by simp
    also have "\<dots> = push_bit 16 (drop_bit 16 h)"
      by (rule bit_word_eqI) (auto simp: bit_simps)
    finally show ?thesis .
  qed
  show "hc_map ((h AND 0xffff0000) OR ucast c) = c"
    "hc_fold ((h AND 0xffff0000) OR ucast c) = hc_fold h"
    "hc_counter ((h AND 0xffff0000) OR ucast c) = hc_counter h"
    unfolding m by (rule bit_word_eqI, auto simp: hc_fold_def hc_map_def hc_counter_def bit_simps
        dest: bit_imp_le_length)+
qed

end
