(* ===== verification/Server_In.thy ===== *)
theory Server_In
  imports Bpf_Env Samples Cookies
begin

text \<open>
  The ingress program of the server agent, \<open>examples/htscookie/server_in_kern.c\<close>
  (\<open>xdp_router\<close> on the XDP hook).  It turns the client's cookie ACK into a SYN for the
  server, translates acknowledgements of established flows, keeps the hybrid cookie of a
  flow up to date and starts a cookie change when too many unknown ACKs arrive.
  Packets are byte memories with a \<open>data_end\<close>; the global variables and pinned maps of the
  server agent are one record that \<open>Server_En\<close> shares.  The \<open>DEBUG\<close> prints are
  compiled out.
\<close>

section \<open>State\<close>

record ('m, 'r) server =
  init :: bool
  map_cookies :: "u16 \<Rightarrow> u16"
  map_seeds :: "u16 \<Rightarrow> u32"
  dropcnt :: u32
  testcnt :: u32
  conntrack_map :: 'm
  rtt_map :: 'r
  max_rtt :: u32

datatype xdp_action = XDP_DROP | XDP_PASS | XDP_TX

definition DROPTEST :: bool where "DROPTEST = False"
definition DROP_THRESH :: u32 where "DROP_THRESH = 5000000"

section \<open>Pieces of the handler\<close>

definition flow_key :: "mem \<Rightarrow> nat \<Rightarrow> nat \<Rightarrow> map_key_t" where
  "flow_key m ip tcp =
     \<lparr>src_ip = ip_saddr m ip, dst_ip = ip_daddr m ip,
      src_port = tcp_source m tcp, dst_port = tcp_dest m tcp\<rparr>"

definition init_tables :: "('m, 'r) server \<Rightarrow> ('m, 'r) server" where
  "init_tables s =
     (if \<not> init s
      then s\<lparr>map_cookies := \<lambda>i. i, map_seeds := \<lambda>i. ucast i, init := True\<rparr>
      else s)"

text \<open>
  Changing the cookie: new seed and map cookie for the source address, announced to the
  switch agent in the header fields of the packet, which is sent back with ECE set.  The
  two random numbers are the results of \<open>bpf_get_prandom_u32\<close>.
\<close>

definition change_cookie ::
    "('m, 'r) bpf_env \<Rightarrow> u32 \<Rightarrow> u32 \<Rightarrow> nat \<Rightarrow> nat \<Rightarrow> nat \<Rightarrow> (('m, 'r) server \<Rightarrow> ('m, 'r) server) \<Rightarrow>
     ('m, 'r) server \<Rightarrow> mem \<Rightarrow> xdp_action \<times> ('m, 'r) server \<times> mem" where
  "change_cookie E rnd1 rnd2 eth ip tcp reset s m =
     (let m = swap_mac m eth
      in case lookup_elem (rtt_ops E) (rtt_map s) 0 of
           None \<Rightarrow> (XDP_DROP, s, m)
         | Some rtt \<Rightarrow>
             (let seed_key = ucast (ip_saddr m ip AND 0xffff);
                  cookie_key = get_cookie_key (map_seeds s) (ip_saddr m ip);
                  new_cookie = ucast (rnd1 AND 0xffff);
                  new_seed = rnd2;
                  s = s\<lparr>map_cookies := set_map_cookie (map_seeds s) (map_cookies s) (ip_saddr m ip) new_cookie\<rparr>;
                  s = s\<lparr>map_seeds := (map_seeds s)(seed_key := new_seed)\<rparr>;
                  m = swap32 m (ip + 12) (ip + 16);
                  m = st16 m tcp cookie_key;
                  m = st16 m (tcp + 2) new_cookie;
                  m = st16 m (tcp + 14) seed_key;
                  m = st32 m (tcp + 4) new_seed;
                  m = st32 m (tcp + 8) rtt;
                  m = set_flag m tcp ECE True
              in (XDP_TX, reset s, m)))"

text \<open>A SYN whose time stamp echo carries the SYN cookie (the client has been validated).\<close>

definition server_in_syn ::
    "('m, 'r) bpf_env \<Rightarrow> nat \<Rightarrow> nat \<Rightarrow> nat \<Rightarrow> ('m, 'r) server \<Rightarrow> mem \<Rightarrow>
     xdp_action \<times> ('m, 'r) server \<times> mem" where
  "server_in_syn E data_end ip tcp s m =
     (case bpf_parse_timestamp m (tcp + 20) tcp data_end of
        None \<Rightarrow> (XDP_DROP, s, m)
      | Some ts \<Rightarrow>
          if tcp + tcp_doff m tcp * 4 > data_end then (XDP_DROP, s, m)
          else if ts_tsecr m ts = 0 then (XDP_DROP, s, m)
          else
            (let key = flow_key m ip tcp;
                 seed_key = ucast (ip_saddr m ip AND 0xffff);
                 val = map_val_zero\<lparr>delta := 0, hash_cookie := ts_tsecr m ts,
                   hybrid_cookie := htonl (0x40000000 +
                     (0x3fffffff AND get_hybrid_cookie (map_seeds s) (ts_tsecr m ts) (ip_saddr m ip))),
                   cur_hash_seed := map_seeds s seed_key\<rparr>;
                 m = st32 m (ts + 6) 0;
                 s = s\<lparr>conntrack_map := map_update (conntrack_ops E) (conntrack_map s) key val BPF_ANY\<rparr>
             in (XDP_PASS, s, m)))"

text \<open>The third ACK of the handshake: record the flow and convert the ACK to a SYN.\<close>

definition server_in_handshake ::
    "('m, 'r) bpf_env \<Rightarrow> nat \<Rightarrow> nat \<Rightarrow> nat \<Rightarrow> nat \<Rightarrow> ('m, 'r) server \<Rightarrow> mem \<Rightarrow>
     xdp_action \<times> ('m, 'r) server \<times> mem" where
  "server_in_handshake E data_end ip tcp ts s m =
     (let key = flow_key m ip tcp;
          val = map_val_zero\<lparr>delta := ntohl (tcp_ack_seq m tcp),
            hash_cookie := htonl (ntohl (tcp_ack_seq m tcp) - 1)\<rparr>;
          s = s\<lparr>conntrack_map := map_update (conntrack_ops E) (conntrack_map s) key val BPF_ANY\<rparr>;
          old_tcp_seq = tcp_seq m tcp;
          old_tcp_ack = tcp_ack_seq m tcp;
          tcp_csum = ucast (tcp_check m tcp) :: u64;
          old_tcp_tsecr = ts_tsecr m ts;
          old_win = ucast (tcp_window m tcp) :: u32;
          new_win = ucast (htons 64240) :: u32;
          m = st16 m (tcp + 14) (htons 64240);
          flag_ptr = tcp + 12
      in if flag_ptr + 4 > data_end then (XDP_DROP, s, m)
         else
           (let tcp_old_flag = ld32 m flag_ptr;
                m = set_flag m tcp ACK False;
                m = set_flag m tcp SYN True;
                tcp_new_flag = ld32 m flag_ptr;
                m = st32 m (tcp + 4) (htonl (ntohl (tcp_seq m tcp) - 1));
                m = st32 m (tcp + 8) 0;
                m = st32 m (ts + 6) 0;
                tcp_csum = csum_diff E (bytes32 tcp_old_flag) (bytes32 tcp_new_flag) (ucast (NOT tcp_csum));
                tcp_csum = csum_diff E (bytes32 old_tcp_seq) (bytes32 (tcp_seq m tcp)) (ucast tcp_csum);
                tcp_csum = csum_diff E (bytes32 old_win) (bytes32 new_win) (ucast tcp_csum);
                tcp_csum = csum_diff E (bytes32 old_tcp_ack) [] (ucast tcp_csum);
                tcp_csum = csum_diff E (bytes32 old_tcp_tsecr) [] (ucast tcp_csum);
                m = st16 m (tcp + 16) (csum_fold_helper_64 tcp_csum)
            in (XDP_PASS, s, m)))"

text \<open>
  (The code's test for a negative \<open>get_map_cookie\<close> result cannot succeed: the result is a
  16-bit value.)  Bringing the hybrid cookie of a flow up to date with the seed of its source address:
  \<open>None\<close> when the seed has not changed since the cookie was computed.
\<close>

definition refresh_cookie :: "(u16 \<Rightarrow> u32) \<Rightarrow> u32 \<Rightarrow> map_val_t \<Rightarrow> map_val_t option" where
  "refresh_cookie seeds saddr val =
     (let seed_key = ucast (saddr AND 0xffff)
      in if cur_hash_seed val \<noteq> seeds seed_key then
           (let hc = ntohl (hybrid_cookie val);
                hc = (if cur_hash_seed val = 0
                      then get_hybrid_cookie seeds (hash_cookie val) saddr AND 0x3fffffff
                      else (hc AND 0xffff0000) OR ucast (get_map_cookie seeds saddr));
                hc = hc + 0x40000000
            in Some (val\<lparr>hybrid_cookie := htonl hc, cur_hash_seed := seeds seed_key\<rparr>))
         else None)"

text \<open>An ACK of a known flow.\<close>

definition server_in_flow ::
    "('m, 'r) bpf_env \<Rightarrow> nat \<Rightarrow> nat \<Rightarrow> nat \<Rightarrow> map_val_t \<Rightarrow> ('m, 'r) server \<Rightarrow> mem \<Rightarrow>
     xdp_action \<times> ('m, 'r) server \<times> mem" where
  "server_in_flow E ip tcp ts val s m =
     (let key = flow_key m ip tcp;
          rx_ack_seq = tcp_ack_seq m tcp;
          rx_tsecr = ts_tsecr m ts;
          tcp_csum = ucast (tcp_check m tcp) :: u64;
          refreshed = refresh_cookie (map_seeds s) (ip_saddr m ip) val;
          new_ack_seq = htonl (ntohl (tcp_ack_seq m tcp) - delta val);
          m = st32 m (tcp + 8) new_ack_seq;
          new_tsecr = ts_val_s val;
          m = st32 m (ts + 6) new_tsecr;
          s = (case refreshed of
                 None \<Rightarrow> s
               | Some v \<Rightarrow> s\<lparr>conntrack_map :=
                   map_update (conntrack_ops E) (conntrack_map s) key v BPF_EXIST\<rparr>);
          tcp_csum = csum_diff E (bytes32 rx_ack_seq) (bytes32 new_ack_seq) (ucast (NOT tcp_csum));
          tcp_csum = csum_diff E (bytes32 rx_tsecr) (bytes32 new_tsecr) (ucast tcp_csum);
          m = st16 m (tcp + 16) (csum_fold_helper_64 tcp_csum)
      in (XDP_PASS, s, m))"

definition server_in_ack ::
    "('m, 'r) bpf_env \<Rightarrow> u32 \<Rightarrow> u32 \<Rightarrow> nat \<Rightarrow> nat \<Rightarrow> nat \<Rightarrow> nat \<Rightarrow> ('m, 'r) server \<Rightarrow> mem \<Rightarrow>
     xdp_action \<times> ('m, 'r) server \<times> mem" where
  "server_in_ack E rnd1 rnd2 data_end eth ip tcp s m =
     (case bpf_parse_timestamp m (tcp + 20) tcp data_end of
        None \<Rightarrow> (XDP_DROP, s, m)
      | Some ts \<Rightarrow>
          (let tsecr = ts_tsecr m ts;
               tcp_header_end = tcp + tcp_doff m tcp * 4
           in if tcp_header_end > data_end then (XDP_DROP, s, m)
              else if tsecr = TS_START \<and> tcp_header_end = data_end \<and> \<not> tcp_fin m tcp
              then server_in_handshake E data_end ip tcp ts s m
              else
                (case lookup_elem (conntrack_ops E) (conntrack_map s) (flow_key m ip tcp) of
                   None \<Rightarrow>
                     if ts_tsecr m ts = TS_START then (XDP_DROP, s, m)
                     else
                       (let s = s\<lparr>dropcnt := dropcnt s + 1\<rparr>
                        in if dropcnt s \<ge> DROP_THRESH
                           then change_cookie E rnd1 rnd2 eth ip tcp (\<lambda>s. s\<lparr>dropcnt := 0\<rparr>) s m
                           else (XDP_DROP, s, m))
                 | Some v \<Rightarrow>
                     (case probe_read E (Some v) of
                        None \<Rightarrow> (XDP_DROP, s, m)
                      | Some val \<Rightarrow> server_in_flow E ip tcp ts val s m))))"

text \<open>
  A SYN-ACK that the egress program redirected to the ingress side (generic XDP mode only):
  drop the SYN flag.
\<close>

definition server_in_synack ::
    "('m, 'r) bpf_env \<Rightarrow> nat \<Rightarrow> nat \<Rightarrow> ('m, 'r) server \<Rightarrow> mem \<Rightarrow> xdp_action \<times> ('m, 'r) server \<times> mem" where
  "server_in_synack E data_end tcp s m =
     (let tcp_csum = ucast (tcp_check m tcp) :: u64;
          ptr = tcp + 12
      in if ptr + 4 > data_end then (XDP_DROP, s, m)
         else
           (let tcp_old_flag = ld32 m ptr;
                m = set_flag m tcp SYN False;
                tcp_new_flag = ld32 m ptr;
                tcp_csum = csum_diff E (bytes32 tcp_old_flag) (bytes32 tcp_new_flag) (ucast (NOT tcp_csum));
                m = st16 m (tcp + 16) (csum_fold_helper_64 tcp_csum)
            in (XDP_PASS, s, m)))"

text \<open>Everything after the TCP header has been parsed.\<close>

definition server_in_tcp ::
    "('m, 'r) bpf_env \<Rightarrow> u32 \<Rightarrow> u32 \<Rightarrow> nat \<Rightarrow> nat \<Rightarrow> nat \<Rightarrow> nat \<Rightarrow> nat \<Rightarrow> ('m, 'r) server \<Rightarrow> mem \<Rightarrow>
     xdp_action \<times> ('m, 'r) server \<times> mem" where
  "server_in_tcp E rnd1 rnd2 data_end eth ip tcp tcphdr_len s m =
     (let s = (if DROPTEST then s\<lparr>testcnt := testcnt s + 1\<rparr> else s)
      in if DROPTEST \<and> testcnt s \<ge> DROP_THRESH
         then change_cookie E rnd1 rnd2 eth ip tcp (\<lambda>s. s\<lparr>testcnt := 0\<rparr>) s m
         else if tcphdr_len \<ge> 32 then
           if tcp_syn m tcp \<and> \<not> tcp_ack m tcp then server_in_syn E data_end ip tcp s m
           else if tcp_ack m tcp \<and> \<not> tcp_syn m tcp
             then server_in_ack E rnd1 rnd2 data_end eth ip tcp s m
           else if tcp_ack m tcp \<and> tcp_syn m tcp then server_in_synack E data_end tcp s m
           else (XDP_PASS, s, m)
         else (XDP_PASS, s, m))"

definition server_in ::
    "('m, 'r) bpf_env \<Rightarrow> u32 \<Rightarrow> u32 \<Rightarrow> nat \<Rightarrow> ('m, 'r) server \<Rightarrow> mem \<Rightarrow>
     xdp_action \<times> ('m, 'r) server \<times> mem" where
  "server_in E rnd1 rnd2 data_end s m =
     (let s = init_tables s
      in case parse_ethhdr m 0 data_end of
           None \<Rightarrow> (XDP_DROP, s, m)
         | Some (ether_proto, eth, pos) \<Rightarrow>
             if htons ether_proto = ETH_P_IP then
               (case parse_iphdr m pos data_end of
                  None \<Rightarrow> (XDP_DROP, s, m)
                | Some (ip_proto, ip, pos) \<Rightarrow>
                    if ip_proto = IPPROTO_TCP then
                      (case parse_tcphdr m pos data_end of
                         None \<Rightarrow> (XDP_DROP, s, m)
                       | Some (tcphdr_len, tcp, pos) \<Rightarrow>
                           server_in_tcp E rnd1 rnd2 data_end eth ip tcp tcphdr_len s m)
                    else (XDP_PASS, s, m))
             else (XDP_PASS, s, m))"

section \<open>Dispatch\<close>

lemma server_in_frame:
  assumes "tcp_frame m data_end tcp"
  shows "server_in E r1 r2 data_end s m =
    (if tcp_syn m tcp \<and> \<not> tcp_ack m tcp then server_in_syn E data_end 14 tcp (init_tables s) m
     else if tcp_ack m tcp \<and> \<not> tcp_syn m tcp
       then server_in_ack E r1 r2 data_end 0 14 tcp (init_tables s) m
     else if tcp_ack m tcp then server_in_synack E data_end tcp (init_tables s) m
     else (XDP_PASS, init_tables s, m))"
  using tcp_frameD [OF assms] tcp_frame_parse [OF assms]
  by (simp add: server_in_def server_in_tcp_def Let_def DROPTEST_def)

section \<open>No write outside the packet\<close>

lemma server_in_syn_safe:
  "tcp + 20 \<le> data_end \<Longrightarrow> data_end \<le> i \<Longrightarrow> snd (snd (server_in_syn E data_end ip tcp s m)) i = m i"
  by (auto simp: server_in_syn_def Let_def mem_simps dest!: bpf_parse_timestamp_range
      split: option.splits)

lemma server_in_handshake_safe:
  "tcp + 20 \<le> ts \<Longrightarrow> ts + 10 \<le> i \<Longrightarrow> snd (snd (server_in_handshake E data_end ip tcp ts s m)) i = m i"
  by (simp add: server_in_handshake_def Let_def mem_simps)

lemma server_in_flow_safe:
  "tcp + 20 \<le> ts \<Longrightarrow> ts + 10 \<le> i \<Longrightarrow> snd (snd (server_in_flow E ip tcp ts val s m)) i = m i"
  by (simp add: server_in_flow_def Let_def mem_simps)

lemma change_cookie_safe:
  assumes "eth + 14 \<le> ip" "ip + 20 \<le> tcp" "tcp + 20 \<le> i"
  shows "snd (snd (change_cookie E r1 r2 eth ip tcp f s m)) i = m i"
  using assms by (simp add: change_cookie_def Let_def mem_simps swap32_eq split: option.splits)

lemma server_in_ack_safe:
  assumes "eth + 14 \<le> ip" "ip + 20 \<le> tcp" "tcp + 20 \<le> data_end" "data_end \<le> i"
  shows "snd (snd (server_in_ack E r1 r2 data_end eth ip tcp s m)) i = m i"
proof (cases "bpf_parse_timestamp m (tcp + 20) tcp data_end")
  case (Some ts)
  then have "tcp + 20 \<le> ts" "ts + 10 \<le> i"
    using bpf_parse_timestamp_range [OF Some] assms(4) by simp_all
  then show ?thesis
    using Some assms
    by (simp add: server_in_ack_def Let_def server_in_handshake_safe server_in_flow_safe
        change_cookie_safe split: option.splits)
qed (simp add: server_in_ack_def)

lemma server_in_synack_safe:
  "tcp + 20 \<le> data_end \<Longrightarrow> data_end \<le> i \<Longrightarrow> snd (snd (server_in_synack E data_end tcp s m)) i = m i"
  by (simp add: server_in_synack_def Let_def mem_simps)

text \<open>
  C27: whatever packet arrives, the ingress program leaves every byte at and after
  \<open>data_end\<close> alone: all its stores stay inside the packet.
\<close>

theorem server_in_memory_safe:
  "data_end \<le> i \<Longrightarrow> snd (snd (server_in E r1 r2 data_end s m)) i = m i"
  by (auto simp: server_in_def server_in_tcp_def Let_def DROPTEST_def parse_hdr_Some
      server_in_syn_safe server_in_ack_safe server_in_synack_safe split: option.splits prod.splits)

text \<open>A server agent in its initial state, with empty tables.\<close>

definition server0 :: "((map_key_t \<times> map_val_t) list, (u32 \<times> u32) list) server" where
  "server0 = \<lparr>init = False, map_cookies = (\<lambda>_. 0), map_seeds = (\<lambda>_. 0), dropcnt = 0, testcnt = 0,
     conntrack_map = [], rtt_map = [(0, 0)], max_rtt = 0\<rparr>"

theorem server_in_memory_safe_witness:
  "snd (snd (server_in (ref_env 4) 1 2 66 server0 sample_handshake)) 66 = sample_handshake 66"
  using server_in_memory_safe [of 66 66 "ref_env 4" 1 2 server0 sample_handshake] by simp

section \<open>Checksums of the rewritten segments\<close>

context bpf_runtime
begin

text \<open>The two updates of an ACK of a known flow.\<close>

lemma flow_csum:
  "oc_eq (uint (csum_fold_helper_64
      (csum_diff E (bytes32 e) (bytes32 e') (ucast
        (csum_diff E (bytes32 a) (bytes32 a') (ucast (NOT (ucast (c :: u16) :: u64))))))))
    (uint c - (uint a' - uint a + (uint e' - uint e)))"
proof -
  have "oc_eq (uint (ucast (csum_diff E (bytes32 e) (bytes32 e') (ucast
        (csum_diff E (bytes32 a) (bytes32 a') (ucast (NOT (ucast c :: u64)))))) :: u32))
      (- uint c - uint a + uint a' - uint e + uint e')"
    by (intro val_updI seed_not)
  from fold_out [OF _ _ this] show ?thesis
    by (simp add: algebra_simps)
qed

lemma flow_csum_ok:
  assumes "tcp_csum_ok m ip tcp" "ip + 20 \<le> tcp" "tcp + 20 \<le> ts" "even (ts - tcp)"
    "ts + 10 \<le> tcp + tcp_seg_len m ip"
  shows "tcp_csum_ok (snd (snd (server_in_flow E ip tcp ts val s m))) ip tcp"
proof -
  let ?a = "htonl (ntohl (tcp_ack_seq m tcp) - delta val)" and ?e = "ts_val_s val"
  let ?m = "st32 (st32 m (tcp + 8) ?a) (ts + 6) ?e" and ?n = "tcp_seg_len m ip"
  have eq: "tcp_seg_len ?m ip = ?n" "pseudo_sum ?m ip = pseudo_sum m ip"
    using assms(2,3) by (auto intro!: pseudo_sum_cong simp: mem_simps)
  have d: "sum_shift m ?m tcp ?n (0 + (uint ?a - uint (tcp_ack_seq m tcp)) + (uint ?e - uint (ts_tsecr m ts)))"
    using assms(3-5) by (intro shift_intros) (simp_all add: mem_simps)
  show ?thesis
    unfolding server_in_flow_def Let_def snd_conv
    by (rule tcp_csum_rewrite [OF assms(1,2) _ eq _ d])
      (use assms(3,5) flow_csum in \<open>simp_all add: mem_simps\<close>)
qed

text \<open>The five updates of the handshake ACK.\<close>

lemma cdiff_drop:
  assumes "oc_eq (uint (ucast c :: u32)) x"
  shows "oc_eq (uint (ucast (csum_diff E (bytes32 a) [] (ucast c)) :: u32)) (x - uint a)"
  using cdiff_out [of "bytes32 a" "[]" c x 0 "uint a"] assms by (simp add: uint_oc_bytes32)

lemma handshake_csum:
  "oc_eq (uint (csum_fold_helper_64
      (csum_diff E (bytes32 e) [] (ucast
        (csum_diff E (bytes32 a) [] (ucast
          (csum_diff E (bytes32 w) (bytes32 w') (ucast
            (csum_diff E (bytes32 q) (bytes32 q') (ucast
              (csum_diff E (bytes32 f) (bytes32 f') (ucast (NOT (ucast (c :: u16) :: u64))))))))))))))
    (uint c - (uint f' - uint f + (uint q' - uint q) + (uint w' - uint w) - uint a - uint e))"
proof -
  have "oc_eq (uint (ucast (csum_diff E (bytes32 e) [] (ucast
        (csum_diff E (bytes32 a) [] (ucast
          (csum_diff E (bytes32 w) (bytes32 w') (ucast
            (csum_diff E (bytes32 q) (bytes32 q') (ucast
              (csum_diff E (bytes32 f) (bytes32 f') (ucast (NOT (ucast c :: u64)))))))))))) :: u32))
      (- uint c - uint f + uint f' - uint q + uint q' - uint w + uint w' - uint a - uint e)"
    by (intro cdiff_drop val_updI seed_not)
  from fold_out [OF _ _ this] show ?thesis
    by (simp add: algebra_simps)
qed

lemma handshake_csum_ok:
  assumes "tcp_csum_ok m ip tcp" "ip + 20 \<le> tcp" "tcp + 20 \<le> ts" "even (ts - tcp)"
    "ts + 10 \<le> tcp + tcp_seg_len m ip" "tcp + 16 \<le> data_end"
  shows "tcp_csum_ok (snd (snd (server_in_handshake E data_end ip tcp ts s m))) ip tcp"
proof -
  let ?n = "tcp_seg_len m ip" and ?q = "htonl (ntohl (tcp_seq m tcp) - 1)"
  let ?w' = "ucast (htons 64240) :: u32" and ?w = "ucast (tcp_window m tcp) :: u32"
  define m1 where "m1 = st16 m (tcp + 14) (htons 64240)"
  define m2 where "m2 = set_flag m1 tcp ACK False"
  define m3 where "m3 = set_flag m2 tcp SYN True"
  define m4 where "m4 = st32 (st32 (st32 m3 (tcp + 4) ?q) (tcp + 8) 0) (ts + 6) 0"
  note ms = m1_def m2_def m3_def m4_def
  have eq: "tcp_seg_len m4 ip = ?n" "pseudo_sum m4 ip = pseudo_sum m ip"
    using assms(2,3) by (auto intro!: pseudo_sum_cong simp: ms mem_simps)
  have u: "uint (ucast (x :: u16) :: u32) = uint x" for x
    using uint_u16_less [of x] by (simp add: unsigned_ucast_eq take_bit_int_eq_self)
  have d: "sum_shift m m4 tcp ?n (0 + (uint (htons 64240) - uint (tcp_window m tcp))
      + (uint (ld32 m2 (tcp + 12)) - uint (ld32 m1 (tcp + 12)))
      + (uint (ld32 m3 (tcp + 12)) - uint (ld32 m2 (tcp + 12)))
      + (uint ?q - uint (tcp_seq m tcp)) + (uint (0 :: u32) - uint (tcp_ack_seq m tcp))
      + (uint (0 :: u32) - uint (ts_tsecr m ts)))"
    unfolding m4_def m3_def m2_def m1_def
    using assms(3-5) by (intro shift_intros) (simp_all add: mem_simps)
  have r: "snd (snd (server_in_handshake E data_end ip tcp ts s m)) = st16 m4 (tcp + 16)
      (csum_fold_helper_64
      (csum_diff E (bytes32 (ts_tsecr m ts)) [] (ucast
        (csum_diff E (bytes32 (tcp_ack_seq m tcp)) [] (ucast
          (csum_diff E (bytes32 ?w) (bytes32 ?w') (ucast
            (csum_diff E (bytes32 (tcp_seq m tcp)) (bytes32 ?q) (ucast
              (csum_diff E (bytes32 (ld32 m1 (tcp + 12))) (bytes32 (ld32 m3 (tcp + 12)))
                (ucast (NOT (ucast (tcp_check m tcp) :: u64)))))))))))))"
    using assms(3,6) by (simp add: server_in_handshake_def Let_def ms mem_simps)
  have check: "tcp_check m4 tcp = tcp_check m tcp"
    using assms(3) by (simp add: ms mem_simps)
  show ?thesis
    unfolding r
    by (rule tcp_csum_rewrite [OF assms(1,2) _ eq check d oc_eq_trans [OF handshake_csum]])
      (use assms(3,5) in \<open>simp_all add: u algebra_simps\<close>)
qed

end

section \<open>The handshake ACK\<close>

lemma server_in_is_handshake:
  assumes "tcp_frame m data_end tcp" "tcp_ack m tcp" "\<not> tcp_syn m tcp" "\<not> tcp_fin m tcp"
    "bpf_parse_timestamp m (tcp + 20) tcp data_end = Some ts" "ts_tsecr m ts = TS_START"
    "tcp + tcp_doff m tcp * 4 = data_end"
  shows "server_in E r1 r2 data_end s m = server_in_handshake E data_end 14 tcp ts (init_tables s) m"
  using assms by (simp add: server_in_frame server_in_ack_def Let_def)

lemma handshake_fields:
  assumes "ip + 20 \<le> tcp" "tcp + 20 \<le> ts" "tcp + 16 \<le> data_end"
    and r: "server_in_handshake E data_end ip tcp ts s m = (a, s', m')"
  shows "a = XDP_PASS" "tcp_syn m' tcp" "\<not> tcp_ack m' tcp"
    "tcp_seq m' tcp = htonl (ntohl (tcp_seq m tcp) - 1)" "tcp_ack_seq m' tcp = 0"
    "ts_tsecr m' ts = 0" "ts_tsval m' ts = ts_tsval m ts" "flow_key m' ip tcp = flow_key m ip tcp"
    "s' = s\<lparr>conntrack_map := map_update (conntrack_ops E) (conntrack_map s) (flow_key m ip tcp)
       (map_val_zero\<lparr>delta := ntohl (tcp_ack_seq m tcp),
          hash_cookie := htonl (ntohl (tcp_ack_seq m tcp) - 1)\<rparr>) BPF_ANY\<rparr>"
  using assms by (auto simp: server_in_handshake_def Let_def mem_simps flow_key_def)

context bpf_runtime
begin

lemma handshake_translation:
  assumes "tcp_frame m data_end tcp"
    and "tcp_ack m tcp" "\<not> tcp_syn m tcp" "\<not> tcp_fin m tcp"
    and "bpf_parse_timestamp m (tcp + 20) tcp data_end = Some ts" "ts_tsecr m ts = TS_START"
    and "tcp + tcp_doff m tcp * 4 = data_end"
    and room: "\<And>v. update_elem (conntrack_ops E) (conntrack_map s) (flow_key m 14 tcp) v BPF_ANY \<noteq> None"
    and r: "server_in E r1 r2 data_end s m = (a, s', m')"
  shows "a = XDP_PASS \<and> tcp_syn m' tcp \<and> \<not> tcp_ack m' tcp
    \<and> ntohl (tcp_seq m' tcp) = ntohl (tcp_seq m tcp) - 1 \<and> tcp_ack_seq m' tcp = 0
    \<and> ts_tsecr m' ts = 0 \<and> ts_tsval m' ts = ts_tsval m ts
    \<and> flow_key m' 14 tcp = flow_key m 14 tcp
    \<and> lookup_elem (conntrack_ops E) (conntrack_map s') (flow_key m 14 tcp) =
        Some (map_val_zero\<lparr>delta := ntohl (tcp_ack_seq m tcp),
          hash_cookie := htonl (ntohl (tcp_ack_seq m tcp) - 1)\<rparr>)"
proof -
  have ts: "tcp + 20 \<le> ts" and fr: "34 \<le> tcp" "tcp + 32 \<le> data_end"
    using bpf_parse_timestamp_range [OF assms(5)] tcp_frameD [OF assms(1)] by simp_all
  have h: "server_in_handshake E data_end 14 tcp ts (init_tables s) m = (a, s', m')"
    using r by (simp only: server_in_is_handshake [OF assms(1-7)])
  have "conntrack_map (init_tables s) = conntrack_map s"
    by (simp add: init_tables_def)
  then show ?thesis
    using handshake_fields [OF _ ts _ h] fr room ct.lookup_update_ok
    by simp
qed

end

text \<open>
  The third ACK of a handshake with the switch agent (no payload, time stamp echo
  \<open>TS_START\<close>) reaches the server as the SYN the client sent first: SYN set and ACK
  cleared, the sequence number one less, no acknowledgement, no time stamp echo.  The flow is
  recorded with the acknowledged cookie (\<open>ack - 1\<close>) and, as the base of the later offset,
  the acknowledgement number.
\<close>

theorem server_in_handshake_to_syn:
  assumes "bpf_runtime E" and "tcp_frame m data_end tcp"
    and "tcp_ack m tcp" "\<not> tcp_syn m tcp" "\<not> tcp_fin m tcp"
    and "bpf_parse_timestamp m (tcp + 20) tcp data_end = Some ts" "ts_tsecr m ts = TS_START"
    and "tcp + tcp_doff m tcp * 4 = data_end"
    and room: "\<And>v. update_elem (conntrack_ops E) (conntrack_map s) (flow_key m 14 tcp) v BPF_ANY \<noteq> None"
    and r: "server_in E r1 r2 data_end s m = (a, s', m')"
  shows "a = XDP_PASS \<and> tcp_syn m' tcp \<and> \<not> tcp_ack m' tcp
    \<and> ntohl (tcp_seq m' tcp) = ntohl (tcp_seq m tcp) - 1 \<and> tcp_ack_seq m' tcp = 0
    \<and> ts_tsecr m' ts = 0 \<and> ts_tsval m' ts = ts_tsval m ts
    \<and> flow_key m' 14 tcp = flow_key m 14 tcp
    \<and> lookup_elem (conntrack_ops E) (conntrack_map s') (flow_key m 14 tcp) =
        Some (map_val_zero\<lparr>delta := ntohl (tcp_ack_seq m tcp),
          hash_cookie := htonl (ntohl (tcp_ack_seq m tcp) - 1)\<rparr>)"
  by (rule bpf_runtime.handshake_translation [OF assms])

theorem server_in_handshake_to_syn_witness:
  "\<exists>s' m'. server_in (ref_env 4) 1 2 66 server0 sample_handshake = (XDP_PASS, s', m')
     \<and> tcp_syn m' 34 \<and> \<not> tcp_ack m' 34 \<and> tcp_ack_seq m' 34 = 0
     \<and> lookup_elem (conntrack_ops (ref_env 4)) (conntrack_map s') (flow_key sample_handshake 14 34)
         \<noteq> None"
proof -
  obtain a s' m' where r: "server_in (ref_env 4) 1 2 66 server0 sample_handshake = (a, s', m')"
    by (metis prod_cases3)
  have "update_elem (conntrack_ops (ref_env 4)) (conntrack_map server0)
      (flow_key sample_handshake 14 34) v BPF_ANY \<noteq> None" for v
    by (simp add: ref_env_def htab_ops_def htab_update_def server0_def)
  from server_in_handshake_to_syn [OF ref_rt.bpf_runtime_axioms sample_handshake_frame
      sample_handshake_fields(1-3) _ sample_handshake_fields(4) _ this r] r
  show ?thesis
    using sample_handshake_ts sample_handshake_fields(5) by simp
qed

text \<open>
  The SYN made from the handshake ACK has a valid TCP checksum when the ACK had one, for
  any \<open>bpf_csum_diff\<close> that meets its documentation, provided the timestamp option starts
  at an even offset of the segment and lies inside it.
\<close>

theorem server_in_handshake_checksum:
  assumes "bpf_runtime E" and "tcp_frame m data_end tcp"
    and "tcp_ack m tcp" "\<not> tcp_syn m tcp" "\<not> tcp_fin m tcp"
    and "bpf_parse_timestamp m (tcp + 20) tcp data_end = Some ts" "ts_tsecr m ts = TS_START"
    and "tcp + tcp_doff m tcp * 4 = data_end"
    and "even (ts - tcp)" "ts + 10 \<le> tcp + tcp_seg_len m 14" and "tcp_csum_ok m 14 tcp"
  shows "tcp_csum_ok (snd (snd (server_in E r1 r2 data_end s m))) 14 tcp"
  unfolding server_in_is_handshake [OF assms(2-8)]
  using bpf_runtime.handshake_csum_ok [OF assms(1) assms(11)] assms(9,10) tcp_frameD [OF assms(2)]
    bpf_parse_timestamp_range [OF assms(6)] by simp

theorem server_in_handshake_checksum_witness:
  "tcp_csum_ok (snd (snd (server_in (ref_env 4) 1 2 66 server0 sample_handshake))) 14 34"
  by (rule server_in_handshake_checksum [OF ref_rt.bpf_runtime_axioms sample_handshake_frame
      sample_handshake_fields(1-3) _ sample_handshake_fields(4) _ _ _ sample_handshake_csum])
    (simp_all add: sample_simps)

section \<open>ACKs of known flows\<close>

definition current_val :: "(u16 \<Rightarrow> u32) \<Rightarrow> u32 \<Rightarrow> map_val_t \<Rightarrow> map_val_t" where
  "current_val seeds saddr val = (case refresh_cookie seeds saddr val of None \<Rightarrow> val | Some v \<Rightarrow> v)"

lemma current_val_keeps [simp]:
  "delta (current_val seeds saddr val) = delta val"
  "hash_cookie (current_val seeds saddr val) = hash_cookie val"
  "ts_val_s (current_val seeds saddr val) = ts_val_s val"
  "cur_cookie_head (current_val seeds saddr val) = cur_cookie_head val"
  "cur_hash_seed (current_val seeds saddr val) = seeds (ucast (saddr AND 0xffff))"
  by (simp_all add: current_val_def refresh_cookie_def Let_def)

lemma server_in_is_flow:
  assumes "tcp_frame m data_end tcp" "tcp_ack m tcp" "\<not> tcp_syn m tcp"
    "bpf_parse_timestamp m (tcp + 20) tcp data_end = Some ts"
    "\<not> (ts_tsecr m ts = TS_START \<and> tcp + tcp_doff m tcp * 4 = data_end \<and> \<not> tcp_fin m tcp)"
    "lookup_elem (conntrack_ops E) (conntrack_map s) (flow_key m 14 tcp) = Some val"
    "probe_read E (Some val) = Some val"
  shows "server_in E r1 r2 data_end s m = server_in_flow E 14 tcp ts val (init_tables s) m"
proof -
  have "conntrack_map (init_tables s) = conntrack_map s"
    by (simp add: init_tables_def)
  then show ?thesis
    using assms tcp_frameD(5) [OF assms(1)]
    by (auto simp: server_in_frame server_in_ack_def Let_def)
qed

lemma flow_fields:
  assumes "ip + 20 \<le> tcp" "tcp + 20 \<le> ts"
    and r: "server_in_flow E ip tcp ts val s m = (a, s', m')"
  shows "a = XDP_PASS" "tcp_ack_seq m' tcp = htonl (ntohl (tcp_ack_seq m tcp) - delta val)"
    "ts_tsecr m' ts = ts_val_s val" "tcp_seq m' tcp = tcp_seq m tcp"
    "ts_tsval m' ts = ts_tsval m ts" "flow_key m' ip tcp = flow_key m ip tcp"
    "m' (tcp + 12) = m (tcp + 12)" "m' (tcp + 13) = m (tcp + 13)"
    "ts + 10 \<le> i \<Longrightarrow> m' i = m i"
  using assms by (auto simp: server_in_flow_def Let_def mem_simps flow_key_def)

context bpf_runtime
begin

lemma flow_translation:
  assumes "tcp_frame m data_end tcp" and "tcp_ack m tcp" "\<not> tcp_syn m tcp"
    and "bpf_parse_timestamp m (tcp + 20) tcp data_end = Some ts"
    and "\<not> (ts_tsecr m ts = TS_START \<and> tcp + tcp_doff m tcp * 4 = data_end \<and> \<not> tcp_fin m tcp)"
    and known: "lookup_elem (conntrack_ops E) (conntrack_map s) (flow_key m 14 tcp) = Some val"
    and r: "server_in E r1 r2 data_end s m = (a, s', m')"
  shows "a = XDP_PASS \<and> ntohl (tcp_ack_seq m' tcp) = ntohl (tcp_ack_seq m tcp) - delta val
    \<and> ts_tsecr m' ts = ts_val_s val \<and> tcp_seq m' tcp = tcp_seq m tcp \<and> ts_tsval m' ts = ts_tsval m ts
    \<and> flow_key m' 14 tcp = flow_key m 14 tcp \<and> m' (tcp + 13) = m (tcp + 13)
    \<and> (\<forall>i. ts + 10 \<le> i \<longrightarrow> m' i = m i)
    \<and> lookup_elem (conntrack_ops E) (conntrack_map s') (flow_key m 14 tcp) =
        Some (current_val (map_seeds (init_tables s)) (ip_saddr m 14) val)"
proof -
  have ts: "tcp + 20 \<le> ts" and fr: "14 + 20 \<le> tcp"
    using bpf_parse_timestamp_range [OF assms(4)] tcp_frameD [OF assms(1)] by simp_all
  have h: "server_in_flow E 14 tcp ts val (init_tables s) m = (a, s', m')"
    using r by (simp only: server_in_is_flow [OF assms(1-6) probe_some])
  have "conntrack_map (init_tables s) = conntrack_map s"
    by (simp add: init_tables_def)
  then have "lookup_elem (conntrack_ops E) (conntrack_map s') (flow_key m 14 tcp) =
      Some (current_val (map_seeds (init_tables s)) (ip_saddr m 14) val)"
    using h known ct.lookup_update_exist [OF known]
    by (auto simp: server_in_flow_def Let_def current_val_def split: option.splits)
  then show ?thesis
    using flow_fields [OF fr ts h] by simp
qed

end

text \<open>
  An ACK of a recorded flow is passed to the server in the server's own numbering: the
  acknowledgement number is reduced by the flow's \<open>delta\<close>, the time stamp echo is the time
  stamp the server sent last, and flow identity, sequence number, client time stamp, flags
  and everything behind the option stay as they are.  The flow stays recorded, with its
  cookie brought up to date with the seed of its source address.
\<close>

theorem server_in_flow_translates:
  assumes "bpf_runtime E" and "tcp_frame m data_end tcp" and "tcp_ack m tcp" "\<not> tcp_syn m tcp"
    and "bpf_parse_timestamp m (tcp + 20) tcp data_end = Some ts"
    and "\<not> (ts_tsecr m ts = TS_START \<and> tcp + tcp_doff m tcp * 4 = data_end \<and> \<not> tcp_fin m tcp)"
    and known: "lookup_elem (conntrack_ops E) (conntrack_map s) (flow_key m 14 tcp) = Some val"
    and r: "server_in E r1 r2 data_end s m = (a, s', m')"
  shows "a = XDP_PASS \<and> ntohl (tcp_ack_seq m' tcp) = ntohl (tcp_ack_seq m tcp) - delta val
    \<and> ts_tsecr m' ts = ts_val_s val \<and> tcp_seq m' tcp = tcp_seq m tcp \<and> ts_tsval m' ts = ts_tsval m ts
    \<and> flow_key m' 14 tcp = flow_key m 14 tcp \<and> m' (tcp + 13) = m (tcp + 13)
    \<and> (\<forall>i. ts + 10 \<le> i \<longrightarrow> m' i = m i)
    \<and> lookup_elem (conntrack_ops E) (conntrack_map s') (flow_key m 14 tcp) =
        Some (current_val (map_seeds (init_tables s)) (ip_saddr m 14) val)"
  by (rule bpf_runtime.flow_translation [OF assms])

text \<open>The agent with one recorded flow.\<close>

definition server1 :: "((map_key_t \<times> map_val_t) list, (u32 \<times> u32) list) server" where
  "server1 = server0\<lparr>conntrack_map :=
     [(flow_key sample_ack 14 34, map_val_zero\<lparr>delta := 0x1a2b3944, hash_cookie := 0x4d3c2b1a,
         ts_val_s := htonl 9000\<rparr>)]\<rparr>"

theorem server_in_flow_translates_witness:
  "\<exists>s' m'. server_in (ref_env 4) 1 2 66 server1 sample_ack = (XDP_PASS, s', m')
     \<and> ntohl (tcp_ack_seq m' 34) = 778 \<and> ts_tsecr m' 56 = htonl 9000"
proof -
  obtain a s' m' where r: "server_in (ref_env 4) 1 2 66 server1 sample_ack = (a, s', m')"
    by (metis prod_cases3)
  have "lookup_elem (conntrack_ops (ref_env 4)) (conntrack_map server1) (flow_key sample_ack 14 34)
      = Some (map_val_zero\<lparr>delta := 0x1a2b3944, hash_cookie := 0x4d3c2b1a, ts_val_s := htonl 9000\<rparr>)"
    by (simp add: ref_env_def htab_ops_def server1_def)
  from server_in_flow_translates [OF ref_rt.bpf_runtime_axioms sample_ack_frame
      sample_ack_fields(1,2) _ _ this r] r sample_ack_fields(4,7)
  show ?thesis
    by (simp add: sample_simps)
qed

text \<open>
  The translation of an ACK of a recorded flow keeps the TCP checksum valid, under the
  same conditions on the position of the timestamp option.
\<close>

theorem server_in_flow_checksum:
  assumes "bpf_runtime E" and "tcp_frame m data_end tcp" and "tcp_ack m tcp" "\<not> tcp_syn m tcp"
    and "bpf_parse_timestamp m (tcp + 20) tcp data_end = Some ts"
    and "\<not> (ts_tsecr m ts = TS_START \<and> tcp + tcp_doff m tcp * 4 = data_end \<and> \<not> tcp_fin m tcp)"
    and "lookup_elem (conntrack_ops E) (conntrack_map s) (flow_key m 14 tcp) = Some val"
    and "even (ts - tcp)" "ts + 10 \<le> tcp + tcp_seg_len m 14" and "tcp_csum_ok m 14 tcp"
  shows "tcp_csum_ok (snd (snd (server_in E r1 r2 data_end s m))) 14 tcp"
  unfolding server_in_is_flow [OF assms(2-7) bpf_runtime.probe_some [OF assms(1)]]
  using bpf_runtime.flow_csum_ok [OF assms(1) assms(10)] assms(8,9) tcp_frameD [OF assms(2)]
    bpf_parse_timestamp_range [OF assms(5)] by simp

theorem server_in_flow_checksum_witness:
  "tcp_csum_ok (snd (snd (server_in (ref_env 4) 1 2 66 server1 sample_ack))) 14 34"
  by (rule server_in_flow_checksum [OF ref_rt.bpf_runtime_axioms sample_ack_frame
      sample_ack_fields(1,2) _ _ _ _ _ sample_ack_csum, of 56])
    (simp_all add: sample_simps ref_env_def htab_ops_def server1_def)

section \<open>Unknown ACKs and the change of cookies\<close>

lemma server_in_is_unknown:
  assumes "tcp_frame m data_end tcp" "tcp_ack m tcp" "\<not> tcp_syn m tcp"
    "bpf_parse_timestamp m (tcp + 20) tcp data_end = Some ts" "ts_tsecr m ts \<noteq> TS_START"
    "lookup_elem (conntrack_ops E) (conntrack_map s) (flow_key m 14 tcp) = None"
  shows "server_in E r1 r2 data_end s m =
    (let s = (init_tables s)\<lparr>dropcnt := dropcnt s + 1\<rparr>
     in if dropcnt s \<ge> DROP_THRESH
        then change_cookie E r1 r2 0 14 tcp (\<lambda>s. s\<lparr>dropcnt := 0\<rparr>) s m
        else (XDP_DROP, s, m))"
proof -
  have "conntrack_map (init_tables s) = conntrack_map s" "dropcnt (init_tables s) = dropcnt s"
    by (simp_all add: init_tables_def)
  then show ?thesis
    using assms tcp_frameD(5) [OF assms(1)]
    by (auto simp: server_in_frame server_in_ack_def Let_def)
qed

text \<open>
  An ACK that echoes neither \<open>TS_START\<close> nor belongs to a recorded flow is dropped
  unmodified and only counted, until the count reaches the threshold.
\<close>

theorem server_in_unknown_dropped:
  assumes "tcp_frame m data_end tcp" and "tcp_ack m tcp" "\<not> tcp_syn m tcp"
    and "bpf_parse_timestamp m (tcp + 20) tcp data_end = Some ts" "ts_tsecr m ts \<noteq> TS_START"
    and "lookup_elem (conntrack_ops E) (conntrack_map s) (flow_key m 14 tcp) = None"
    and "dropcnt s + 1 < DROP_THRESH"
  shows "server_in E r1 r2 data_end s m = (XDP_DROP, (init_tables s)\<lparr>dropcnt := dropcnt s + 1\<rparr>, m)"
  using server_in_is_unknown [OF assms(1-6), of r1 r2] assms(7) by (auto simp: Let_def)

theorem server_in_unknown_dropped_witness:
  "server_in (ref_env 4) 1 2 66 server0 sample_ack =
     (XDP_DROP, (init_tables server0)\<lparr>dropcnt := dropcnt server0 + 1\<rparr>, sample_ack)"
  by (rule server_in_unknown_dropped [OF sample_ack_frame sample_ack_fields(1,2), of 56])
    (simp_all add: sample_simps ref_env_def htab_ops_def server0_def DROP_THRESH_def not_sym)

lemma dropcnt_change_cookie:
  "lookup_elem (rtt_ops E) (rtt_map s) 0 = Some r \<Longrightarrow>
     dropcnt (fst (snd (change_cookie E r1 r2 eth ip tcp (\<lambda>s. s\<lparr>dropcnt := 0\<rparr>) s m))) = 0"
  by (simp add: change_cookie_def Let_def)

lemma dropcnt_handlers [simp]:
  "dropcnt (fst (snd (server_in_syn E data_end ip tcp s m))) = dropcnt s"
  "dropcnt (fst (snd (server_in_handshake E data_end ip tcp ts s m))) = dropcnt s"
  "dropcnt (fst (snd (server_in_flow E ip tcp ts val s m))) = dropcnt s"
  "dropcnt (fst (snd (server_in_synack E data_end tcp s m))) = dropcnt s"
  "dropcnt (init_tables s) = dropcnt s" "rtt_map (init_tables s) = rtt_map s"
  by (simp_all add: server_in_syn_def server_in_handshake_def server_in_flow_def
      server_in_synack_def init_tables_def Let_def split: option.splits)

lemma dropcnt_server_in_ack:
  assumes "dropcnt s < DROP_THRESH" "lookup_elem (rtt_ops E) (rtt_map s) 0 = Some r"
  shows "dropcnt (fst (snd (server_in_ack E r1 r2 data_end eth ip tcp s m))) < DROP_THRESH"
proof -
  have z: "0 < DROP_THRESH" by (simp add: DROP_THRESH_def)
  show ?thesis
    using assms z
    by (simp add: server_in_ack_def Let_def dropcnt_change_cookie not_le split: option.splits)
qed

text \<open>
  Between packets the count of unknown ACKs stays below the threshold, so a cookie change
  starts exactly when it is reached (the one-element array \<open>rtt_map\<close> always has its entry).
\<close>

theorem server_in_dropcnt_bounded:
  assumes "dropcnt s < DROP_THRESH" "lookup_elem (rtt_ops E) (rtt_map s) 0 = Some r"
  shows "dropcnt (fst (snd (server_in E r1 r2 data_end s m))) < DROP_THRESH"
  using assms
  by (simp add: server_in_def server_in_tcp_def Let_def DROPTEST_def dropcnt_server_in_ack
      split: option.splits prod.splits)

theorem server_in_dropcnt_bounded_witness:
  "dropcnt (fst (snd (server_in (ref_env 4) 1 2 66 (server0\<lparr>dropcnt := 4999999\<rparr>) sample_ack)))
     < DROP_THRESH"
  by (rule server_in_dropcnt_bounded)
    (simp_all add: DROP_THRESH_def ref_env_def htab_ops_def server0_def)

section \<open>Hybrid cookies of recorded flows\<close>

lemma refresh_parts:
  assumes "refresh_cookie seeds saddr val = Some v"
  shows "hc_map (ntohl (hybrid_cookie v)) = get_map_cookie seeds saddr"
    "cur_hash_seed v = seeds (ucast (saddr AND 0xffff))" "hash_cookie v = hash_cookie val"
    "hc_counter (ntohl (hybrid_cookie v)) =
        (if cur_hash_seed val = 0 then 1 else (hc_counter (ntohl (hybrid_cookie val)) + 1) AND 3)"
    "hc_fold (ntohl (hybrid_cookie v)) =
        (if cur_hash_seed val = 0 then take_bit 14 (ucast (get_hash_cookie (hash_cookie val)))
         else hc_fold (ntohl (hybrid_cookie val)))"
  using assms
  by (auto simp: refresh_cookie_def Let_def hc_tick hc_mask hc_hybrid hc_replace split: if_splits)

text \<open>
  When the seed of the source address has changed since the cookie of a flow was made,
  the flow gets a cookie whose map part is the address's current map cookie.  A first cookie
  has counter 1 and the folded SYN cookie; a later one keeps the folded SYN cookie and moves
  the two-bit counter on by one, so the client's time stamps keep growing.
\<close>

theorem refresh_cookie_layout:
  assumes "refresh_cookie seeds saddr val = Some v"
  shows "hc_map (ntohl (hybrid_cookie v)) = get_map_cookie seeds saddr
    \<and> cur_hash_seed v = seeds (ucast (saddr AND 0xffff))
    \<and> hc_counter (ntohl (hybrid_cookie v)) =
        (if cur_hash_seed val = 0 then 1 else (hc_counter (ntohl (hybrid_cookie val)) + 1) AND 3)
    \<and> hc_fold (ntohl (hybrid_cookie v)) =
        (if cur_hash_seed val = 0 then take_bit 14 (ucast (get_hash_cookie (hash_cookie val)))
         else hc_fold (ntohl (hybrid_cookie val)))"
  using refresh_parts [OF assms] by simp

theorem refresh_cookie_layout_witness:
  "\<exists>v. refresh_cookie (\<lambda>i. ucast i) 0x0300120a map_val_zero = Some v \<and> hc_counter (ntohl (hybrid_cookie v)) = 1"
proof -
  obtain v where r: "refresh_cookie (\<lambda>i. ucast i) 0x0300120a map_val_zero = Some v"
    by (simp add: refresh_cookie_def map_val_zero_def Let_def)
  then show ?thesis
    using refresh_cookie_layout [OF r] by (simp add: map_val_zero_def)
qed

end
