(* ===== verification/Server_En.thy ===== *)
theory Server_En
  imports Server_In
begin

text \<open>
  The egress program of the server agent, \<open>examples/htscookie/server_en_kern.c\<close> on the
  TC hook.  It answers the server's SYN-ACK on the client's behalf, shifts the sequence
  numbers of outgoing segments by the flow's \<open>delta\<close>, replaces the server's time stamp by
  the hybrid cookie and records the largest observed round-trip time.  It shares the pinned
  maps, fields of the \<open>server\<close> record, with the ingress program.
\<close>

section \<open>The program\<close>

datatype tc_action = TC_ACT_OK | TC_ACT_SHOT | BPF_REDIRECT nat

definition XDP_DRV :: bool where "XDP_DRV = True"
definition SERVER_IF :: nat where "SERVER_IF = 2"

text \<open>The flow of an outgoing packet, seen from the client.\<close>

definition reply_key :: "mem \<Rightarrow> nat \<Rightarrow> nat \<Rightarrow> map_key_t" where
  "reply_key m ip tcp =
     \<lparr>src_ip = ip_daddr m ip, dst_ip = ip_saddr m ip,
      src_port = tcp_dest m tcp, dst_port = tcp_source m tcp\<rparr>"

definition server_en_synack ::
    "('m, 'r) bpf_env \<Rightarrow> nat \<Rightarrow> nat \<Rightarrow> nat \<Rightarrow> nat \<Rightarrow> map_key_t \<Rightarrow> map_val_t \<Rightarrow> ('m, 'r) server \<Rightarrow> mem \<Rightarrow>
     tc_action \<times> ('m, 'r) server \<times> mem" where
  "server_en_synack E data_end eth ip tcp key val s m =
     (case bpf_parse_timestamp m (tcp + 20) tcp data_end of
        None \<Rightarrow> (TC_ACT_SHOT, s, m)
      | Some ts \<Rightarrow>
          if delta val = 0 then
            (let val = val\<lparr>ts_val_s := ts_tsval m ts\<rparr>;
                 s = s\<lparr>conntrack_map := map_update (conntrack_ops E) (conntrack_map s) key val BPF_EXIST\<rparr>;
                 m = st32 m (ts + 2) (hybrid_cookie val)
             in (TC_ACT_OK, s, m))
          else
            (let val = val\<lparr>delta := delta val - ntohl (tcp_seq m tcp) - 1\<rparr>;
                 val = val\<lparr>ts_val_s := ts_tsval m ts\<rparr>;
                 s = s\<lparr>conntrack_map := map_update (conntrack_ops E) (conntrack_map s) key val BPF_EXIST\<rparr>;
                 m = st16 m (tcp + 14) (htons 0x1F6);
                 m = swap32 m (ip + 12) (ip + 16);
                 m = swap16 m tcp (tcp + 2);
                 m = swap32 m (tcp + 4) (tcp + 8);
                 m = st32 m (tcp + 8) (htonl (ntohl (tcp_ack_seq m tcp) + 1));
                 m = swap32 m (ts + 2) (ts + 6);
                 m = (if XDP_DRV then set_flag m tcp SYN False else m);
                 m = st16 m (tcp + 16) 0;
                 m = swap_mac m eth
             in if tcp + 36 > data_end then (TC_ACT_SHOT, s, m)
                else
                  (let tcp_csum_tmp = ipv4_l4_csum (csum_diff E) m tcp 36 0 ip;
                       m = st16 m (tcp + 16) (ucast tcp_csum_tmp)
                   in (BPF_REDIRECT SERVER_IF, s, m))))"

definition server_en_rst ::
    "('m, 'r) bpf_env \<Rightarrow> nat \<Rightarrow> map_key_t \<Rightarrow> map_val_t \<Rightarrow> ('m, 'r) server \<Rightarrow> mem \<Rightarrow>
     tc_action \<times> ('m, 'r) server \<times> mem" where
  "server_en_rst E tcp key val s m =
     (let m = st32 m (tcp + 4) (htonl (ntohl (tcp_seq m tcp) + delta val));
          s = s\<lparr>conntrack_map := map_update (conntrack_ops E) (conntrack_map s) key val BPF_EXIST\<rparr>
      in (TC_ACT_OK, s, m))"

text \<open>
  The statistics of an outgoing ACK: when the two-bit counter on top of the hybrid cookie
  differs from the flow's copy, the copy moves on and the maximum starts afresh.
\<close>

definition observe_head :: "map_val_t \<Rightarrow> ('m, 'r) server \<Rightarrow> map_val_t \<times> ('m, 'r) server" where
  "observe_head val s =
     (let pkt_head = ucast (drop_bit 30 (ntohl (hybrid_cookie val))) :: u8;
          cur_head = ucast (cur_cookie_head val) :: u8
      in if cur_head \<noteq> pkt_head
         then (val\<lparr>cur_cookie_head := of_nat ((unat cur_head + 1) mod 4)\<rparr>, s\<lparr>max_rtt := 0\<rparr>)
         else (val, s))"

definition observe_rtt ::
    "('m, 'r) bpf_env \<Rightarrow> u32 \<Rightarrow> map_val_t \<Rightarrow> ('m, 'r) server \<Rightarrow> ('m, 'r) server" where
  "observe_rtt E tsval val s =
     (let rtt = ntohl tsval - ntohl (ts_val_s val)
      in if rtt > max_rtt s
         then s\<lparr>max_rtt := rtt, rtt_map := map_update (rtt_ops E) (rtt_map s) 0 rtt BPF_ANY\<rparr>
         else s)"

definition server_en_ack ::
    "('m, 'r) bpf_env \<Rightarrow> nat \<Rightarrow> nat \<Rightarrow> map_key_t \<Rightarrow> map_val_t \<Rightarrow> ('m, 'r) server \<Rightarrow> mem \<Rightarrow>
     tc_action \<times> ('m, 'r) server \<times> mem" where
  "server_en_ack E data_end tcp key val s m =
     (case bpf_parse_timestamp m (tcp + 20) tcp data_end of
        None \<Rightarrow> (TC_ACT_SHOT, s, m)
      | Some ts \<Rightarrow>
          (let (val, s) = observe_head val s;
               s = observe_rtt E (ts_tsval m ts) val s;
               val = val\<lparr>ts_val_s := ts_tsval m ts\<rparr>;
               m = st32 m (ts + 2) (hybrid_cookie val);
               m = st32 m (tcp + 4) (htonl (ntohl (tcp_seq m tcp) + delta val));
               s = s\<lparr>conntrack_map := map_update (conntrack_ops E) (conntrack_map s) key val BPF_EXIST\<rparr>
           in (TC_ACT_OK, s, m)))"

definition server_en_tcp ::
    "('m, 'r) bpf_env \<Rightarrow> nat \<Rightarrow> nat \<Rightarrow> nat \<Rightarrow> nat \<Rightarrow> nat \<Rightarrow> ('m, 'r) server \<Rightarrow> mem \<Rightarrow>
     tc_action \<times> ('m, 'r) server \<times> mem" where
  "server_en_tcp E data_end eth ip tcp tcphdr_len s m =
     (if tcphdr_len \<ge> 32 then
        (let key = reply_key m ip tcp
         in case lookup_elem (conntrack_ops E) (conntrack_map s) key of
              None \<Rightarrow> (TC_ACT_SHOT, s, m)
            | Some v \<Rightarrow>
                (case probe_read E (Some v) of
                   None \<Rightarrow> (TC_ACT_SHOT, s, m)
                 | Some val \<Rightarrow>
                     if tcp_ack m tcp \<and> tcp_syn m tcp
                     then server_en_synack E data_end eth ip tcp key val s m
                     else if tcp_rst m tcp then server_en_rst E tcp key val s m
                     else server_en_ack E data_end tcp key val s m))
      else (TC_ACT_OK, s, m))"

definition server_en ::
    "('m, 'r) bpf_env \<Rightarrow> nat \<Rightarrow> ('m, 'r) server \<Rightarrow> mem \<Rightarrow> tc_action \<times> ('m, 'r) server \<times> mem" where
  "server_en E data_end s m =
     (case parse_ethhdr m 0 data_end of
        None \<Rightarrow> (TC_ACT_SHOT, s, m)
      | Some (ether_proto, eth, pos) \<Rightarrow>
          if htons ether_proto = ETH_P_IP then
            (case parse_iphdr m pos data_end of
               None \<Rightarrow> (TC_ACT_SHOT, s, m)
             | Some (ip_proto, ip, pos) \<Rightarrow>
                 if ip_proto = IPPROTO_TCP then
                   (case parse_tcphdr m pos data_end of
                      None \<Rightarrow> (TC_ACT_SHOT, s, m)
                    | Some (tcphdr_len, tcp, pos) \<Rightarrow>
                        server_en_tcp E data_end eth ip tcp tcphdr_len s m)
                 else (TC_ACT_OK, s, m))
          else (TC_ACT_OK, s, m))"

section \<open>Dispatch\<close>

lemma server_en_frame:
  assumes "tcp_frame m data_end tcp"
  shows "server_en E data_end s m = server_en_tcp E data_end 0 14 tcp (tcp_doff m tcp * 4) s m"
  using tcp_frameD [OF assms] tcp_frame_parse [OF assms] by (simp add: server_en_def)

lemma server_en_known:
  assumes "tcp_frame m data_end tcp"
    "lookup_elem (conntrack_ops E) (conntrack_map s) (reply_key m 14 tcp) = Some val"
    "probe_read E (Some val) = Some val"
  shows "server_en E data_end s m =
    (if tcp_ack m tcp \<and> tcp_syn m tcp
     then server_en_synack E data_end 0 14 tcp (reply_key m 14 tcp) val s m
     else if tcp_rst m tcp then server_en_rst E tcp (reply_key m 14 tcp) val s m
     else server_en_ack E data_end tcp (reply_key m 14 tcp) val s m)"
  using assms tcp_frameD(4) [OF assms(1)] by (simp add: server_en_frame server_en_tcp_def Let_def)

section \<open>No write outside the packet\<close>

lemma server_en_synack_safe:
  assumes "eth + 14 \<le> ip" "ip + 20 \<le> tcp" "tcp + 20 \<le> data_end" "data_end \<le> i"
  shows "snd (snd (server_en_synack E data_end eth ip tcp key val s m)) i = m i"
proof (cases "bpf_parse_timestamp m (tcp + 20) tcp data_end")
  case (Some ts)
  then have "tcp + 20 \<le> ts" "ts + 10 \<le> i"
    using bpf_parse_timestamp_range [OF Some] assms(4) by simp_all
  then show ?thesis
    using Some assms
    by (simp add: server_en_synack_def Let_def mem_simps swap32_eq swap16_eq)
qed (simp add: server_en_synack_def)

lemma server_en_ack_safe:
  "tcp + 20 \<le> data_end \<Longrightarrow> data_end \<le> i \<Longrightarrow> snd (snd (server_en_ack E data_end tcp key val s m)) i = m i"
  by (auto simp: server_en_ack_def Let_def mem_simps dest!: bpf_parse_timestamp_range
      split: option.splits prod.splits)

lemma server_en_rst_safe:
  "tcp + 20 \<le> i \<Longrightarrow> snd (snd (server_en_rst E tcp key val s m)) i = m i"
  by (simp add: server_en_rst_def Let_def mem_simps)

text \<open>The egress program leaves every byte at and after \<open>data_end\<close> alone.\<close>

theorem server_en_memory_safe:
  "data_end \<le> i \<Longrightarrow> snd (snd (server_en E data_end s m)) i = m i"
  by (auto simp: server_en_def server_en_tcp_def Let_def parse_hdr_Some server_en_synack_safe
      server_en_ack_safe server_en_rst_safe split: option.splits prod.splits)

theorem server_en_memory_safe_witness:
  "snd (snd (server_en (ref_env 4) 70 server1 sample_synack)) 70 = sample_synack 70"
  using server_en_memory_safe [of 70 70 "ref_env 4" server1 sample_synack] by simp

section \<open>The server's SYN-ACK\<close>

text \<open>
  An outgoing segment of a flow that is not recorded never leaves the server.
\<close>

theorem server_en_unknown_shot:
  assumes "tcp_frame m data_end tcp"
    and "lookup_elem (conntrack_ops E) (conntrack_map s) (reply_key m 14 tcp) = None"
  shows "server_en E data_end s m = (TC_ACT_SHOT, s, m)"
  using assms tcp_frameD(4) [OF assms(1)] by (simp add: server_en_frame server_en_tcp_def Let_def)

theorem server_en_unknown_shot_witness:
  "server_en (ref_env 4) 66 server0 sample_reply = (TC_ACT_SHOT, server0, sample_reply)"
  by (rule server_en_unknown_shot [OF sample_reply_frame])
    (simp add: sample_simps ref_env_def htab_ops_def server0_def)

lemma synack_fields:
  assumes "ip + 20 \<le> tcp" "eth + 14 \<le> ip" "tcp + 36 \<le> data_end" "delta val \<noteq> 0"
    "bpf_parse_timestamp m (tcp + 20) tcp data_end = Some ts"
    and r: "server_en_synack E data_end eth ip tcp key val s m = (a, s', m')"
  shows "a = BPF_REDIRECT SERVER_IF" "tcp_ack m' tcp = tcp_ack m tcp" "\<not> tcp_syn m' tcp"
    "tcp_seq m' tcp = tcp_ack_seq m tcp" "tcp_ack_seq m' tcp = htonl (ntohl (tcp_seq m tcp) + 1)"
    "ts_tsval m' ts = ts_tsecr m ts" "ts_tsecr m' ts = ts_tsval m ts"
    "flow_key m' ip tcp = reply_key m ip tcp"
    "s' = s\<lparr>conntrack_map := map_update (conntrack_ops E) (conntrack_map s) key
       (val\<lparr>delta := delta val - ntohl (tcp_seq m tcp) - 1, ts_val_s := ts_tsval m ts\<rparr>) BPF_EXIST\<rparr>"
  using assms bpf_parse_timestamp_range [OF assms(5)]
  by (auto simp: server_en_synack_def Let_def mem_simps swap32_eq swap16_eq XDP_DRV_def flow_key_def
      reply_key_def)

context bpf_runtime
begin

lemma synack_translation:
  assumes "tcp_frame m data_end tcp" and "tcp_ack m tcp" "tcp_syn m tcp"
    and "bpf_parse_timestamp m (tcp + 20) tcp data_end = Some ts" and "tcp + 36 \<le> data_end"
    and known: "lookup_elem (conntrack_ops E) (conntrack_map s) (reply_key m 14 tcp) = Some val"
    and "delta val \<noteq> 0" and r: "server_en E data_end s m = (a, s', m')"
  shows "a = BPF_REDIRECT SERVER_IF \<and> tcp_ack m' tcp \<and> \<not> tcp_syn m' tcp
    \<and> flow_key m' 14 tcp = reply_key m 14 tcp
    \<and> tcp_seq m' tcp = tcp_ack_seq m tcp \<and> ntohl (tcp_ack_seq m' tcp) = ntohl (tcp_seq m tcp) + 1
    \<and> ts_tsval m' ts = ts_tsecr m ts \<and> ts_tsecr m' ts = ts_tsval m ts
    \<and> lookup_elem (conntrack_ops E) (conntrack_map s') (reply_key m 14 tcp) =
        Some (val\<lparr>delta := delta val - ntohl (tcp_seq m tcp) - 1, ts_val_s := ts_tsval m ts\<rparr>)"
proof -
  have "server_en_synack E data_end 0 14 tcp (reply_key m 14 tcp) val s m = (a, s', m')"
    using r assms(2,3)
    by (simp add: server_en_known [OF assms(1) known probe_some])
  from synack_fields [OF _ _ assms(5,7,4) this] show ?thesis
    using assms(2) tcp_frameD(1) [OF assms(1)]
      ct.lookup_update_exist [OF known] by simp
qed

end

text \<open>
  The SYN-ACK with which the server answers the SYN made by the ingress program never
  reaches the client: it is turned into the client's ACK and sent back to the server
  interface.  Addresses, ports and time stamps are exchanged, the sequence number is what the
  server expects next and the acknowledgement number one more than the server's initial
  sequence number.  The flow's \<open>delta\<close> becomes the offset between the cookie numbering
  and the server's numbering, and the server's time stamp is stored.
\<close>

theorem server_en_synack_to_ack:
  assumes "bpf_runtime E" and "tcp_frame m data_end tcp" and "tcp_ack m tcp" "tcp_syn m tcp"
    and "bpf_parse_timestamp m (tcp + 20) tcp data_end = Some ts" and "tcp + 36 \<le> data_end"
    and known: "lookup_elem (conntrack_ops E) (conntrack_map s) (reply_key m 14 tcp) = Some val"
    and "delta val \<noteq> 0" and r: "server_en E data_end s m = (a, s', m')"
  shows "a = BPF_REDIRECT SERVER_IF \<and> tcp_ack m' tcp \<and> \<not> tcp_syn m' tcp
    \<and> flow_key m' 14 tcp = reply_key m 14 tcp
    \<and> tcp_seq m' tcp = tcp_ack_seq m tcp \<and> ntohl (tcp_ack_seq m' tcp) = ntohl (tcp_seq m tcp) + 1
    \<and> ts_tsval m' ts = ts_tsecr m ts \<and> ts_tsecr m' ts = ts_tsval m ts
    \<and> lookup_elem (conntrack_ops E) (conntrack_map s') (reply_key m 14 tcp) =
        Some (val\<lparr>delta := delta val - ntohl (tcp_seq m tcp) - 1, ts_val_s := ts_tsval m ts\<rparr>)"
  by (rule bpf_runtime.synack_translation [OF assms])

lemma reply_key_sample:
  "reply_key sample_synack 14 34 =
     \<lparr>src_ip = 0x0300120a, dst_ip = 0x0300130a, src_port = 0x409c, dst_port = 0x5000\<rparr>"
  "reply_key sample_reply 14 34 =
     \<lparr>src_ip = 0x0300120a, dst_ip = 0x0300130a, src_port = 0x409c, dst_port = 0x5000\<rparr>"
  by (simp_all add: reply_key_def sample_simps)

text \<open>The agent after the handshake ACK of the sample flow and after its SYN-ACK.\<close>

definition server2 :: "u32 \<Rightarrow> ((map_key_t \<times> map_val_t) list, (u32 \<times> u32) list) server" where
  "server2 d = server0\<lparr>conntrack_map :=
     [(\<lparr>src_ip = 0x0300120a, dst_ip = 0x0300130a, src_port = 0x409c, dst_port = 0x5000\<rparr>,
       map_val_zero\<lparr>delta := d, ts_val_s := htonl 9000\<rparr>)]\<rparr>"

lemma server2_lookup:
  "lookup_elem (conntrack_ops (ref_env 4)) (conntrack_map (server2 d))
     \<lparr>src_ip = 0x0300120a, dst_ip = 0x0300130a, src_port = 0x409c, dst_port = 0x5000\<rparr>
     = Some (map_val_zero\<lparr>delta := d, ts_val_s := htonl 9000\<rparr>)"
  by (simp add: ref_env_def htab_ops_def server2_def)

theorem server_en_synack_to_ack_witness:
  "\<exists>s' m'. server_en (ref_env 4) 70 (server2 0x1a2b3c4e) sample_synack = (BPF_REDIRECT SERVER_IF, s', m')
     \<and> ntohl (tcp_ack_seq m' 34) = 778"
proof -
  obtain a s' m' where r: "server_en (ref_env 4) 70 (server2 0x1a2b3c4e) sample_synack = (a, s', m')"
    by (metis prod_cases3)
  from server_en_synack_to_ack [OF ref_rt.bpf_runtime_axioms sample_synack_frame
      sample_synack_fields(1,2) _ _ _ _ r] r
  show ?thesis
    by (simp add: sample_simps reply_key_sample server2_lookup)
qed

text \<open>
  The ACK made from a SYN-ACK of 36 bytes (the header length the code fixes) carries a
  valid TCP checksum, whatever checksum the SYN-ACK had.
\<close>

theorem server_en_synack_checksum:
  assumes "bpf_runtime E" and "tcp_frame m data_end tcp" and "tcp_ack m tcp" "tcp_syn m tcp"
    and "bpf_parse_timestamp m (tcp + 20) tcp data_end = Some ts" and "tcp + 36 \<le> data_end"
    and known: "lookup_elem (conntrack_ops E) (conntrack_map s) (reply_key m 14 tcp) = Some val"
    and "delta val \<noteq> 0" and len: "tcp_seg_len m 14 = 36"
  shows "tcp_csum_ok (snd (snd (server_en E data_end s m))) 14 tcp"
proof -
  have lay: "34 \<le> tcp" "tcp + 20 \<le> ts"
    using tcp_frameD(1) [OF assms(2)] bpf_parse_timestamp_range [OF assms(5)] by simp_all
  obtain m1 where m1: "snd (snd (server_en E data_end s m)) =
      st16 m1 (tcp + 16) (ucast (ipv4_l4_csum (csum_diff E) m1 tcp 36 0 14))"
    "tcp_check m1 tcp = 0" "ip_protocol m1 14 = 6" "tcp_seg_len m1 14 = 36"
    using server_en_known [OF assms(2) known bpf_runtime.probe_some [OF assms(1)]] assms(2-6,8) lay len
    by (simp add: server_en_synack_def Let_def tcp_seg_len_def mem_simps swap32_eq swap16_eq
        XDP_DRV_def tcp_frame_def)
  let ?c = "ucast (ipv4_l4_csum (csum_diff E) m1 tcp 36 0 14) :: u16"
  have bc: "bpf_csum (csum_diff E)"
    using bpf_runtime.csum_law [OF assms(1)] by unfold_locales
  have "oc_eq (uint ?c) (- (pseudo_sum m1 14 + msum m1 tcp 36))"
    using bpf_csum.ipv4_l4_csum_sum [OF bc, of 36 m1 14 tcp] m1(3,4) by (simp add: pseudo_sum_def)
  moreover have "msum (st16 m1 (tcp + 16) ?c) tcp 36 = msum m1 tcp 36 + uint ?c"
    using m1(2) by (subst msum_st16) simp_all
  moreover have "pseudo_sum (st16 m1 (tcp + 16) ?c) 14 = pseudo_sum m1 14"
    "tcp_seg_len (st16 m1 (tcp + 16) ?c) 14 = 36"
    using lay m1(4) by (simp_all add: pseudo_sum_def tcp_seg_len_def mem_simps)
  ultimately show ?thesis
    using oc_eq_add [OF oc_eq_refl [of "pseudo_sum m1 14 + msum m1 tcp 36"]]
    by (fastforce simp: m1(1) tcp_csum_ok_def add.assoc)
qed

theorem server_en_synack_checksum_witness:
  "tcp_csum_ok (snd (snd (server_en (ref_env 4) 70 (server2 0x1a2b3c4e) sample_synack))) 14 34"
  by (rule server_en_synack_checksum [OF ref_rt.bpf_runtime_axioms sample_synack_frame
      sample_synack_fields(1,2) _ _ server2_lookup [folded reply_key_sample(1)]])
    (simp_all add: sample_simps)

section \<open>Outgoing ACKs\<close>

lemma observe_head_keeps [simp]:
  "delta (fst (observe_head val s)) = delta val" "hybrid_cookie (fst (observe_head val s)) = hybrid_cookie val"
  "hash_cookie (fst (observe_head val s)) = hash_cookie val"
  "cur_hash_seed (fst (observe_head val s)) = cur_hash_seed val"
  "ts_val_s (fst (observe_head val s)) = ts_val_s val"
  "conntrack_map (snd (observe_head val s)) = conntrack_map s" "rtt_map (snd (observe_head val s)) = rtt_map s"
  by (simp_all add: observe_head_def Let_def)

lemma observe_rtt_keeps [simp]: "conntrack_map (observe_rtt E tsval val s) = conntrack_map s"
  by (simp add: observe_rtt_def Let_def)

lemma ack_fields:
  assumes "ip + 20 \<le> tcp" "bpf_parse_timestamp m (tcp + 20) tcp data_end = Some ts"
    and r: "server_en_ack E data_end tcp key val s m = (a, s', m')"
  shows "a = TC_ACT_OK" "tcp_seq m' tcp = htonl (ntohl (tcp_seq m tcp) + delta val)"
    "tcp_ack_seq m' tcp = tcp_ack_seq m tcp" "ts_tsval m' ts = hybrid_cookie val"
    "ts_tsecr m' ts = ts_tsecr m ts" "reply_key m' ip tcp = reply_key m ip tcp"
    "m' (tcp + 13) = m (tcp + 13)" "ts + 10 \<le> i \<Longrightarrow> m' i = m i"
    "conntrack_map s' = map_update (conntrack_ops E) (conntrack_map s) key
       ((fst (observe_head val s))\<lparr>ts_val_s := ts_tsval m ts\<rparr>) BPF_EXIST"
    "rtt_map s' = rtt_map (observe_rtt E (ts_tsval m ts) val (snd (observe_head val s)))"
    "max_rtt s' = max_rtt (observe_rtt E (ts_tsval m ts) val (snd (observe_head val s)))"
  using assms bpf_parse_timestamp_range [OF assms(2)]
  by (auto simp: server_en_ack_def Let_def mem_simps reply_key_def observe_rtt_def case_prod_unfold)

context bpf_runtime
begin

lemma ack_translation:
  assumes "tcp_frame m data_end tcp"
    and "\<not> (tcp_ack m tcp \<and> tcp_syn m tcp)" "\<not> tcp_rst m tcp"
    and "bpf_parse_timestamp m (tcp + 20) tcp data_end = Some ts"
    and known: "lookup_elem (conntrack_ops E) (conntrack_map s) (reply_key m 14 tcp) = Some val"
    and r: "server_en E data_end s m = (a, s', m')"
  shows "a = TC_ACT_OK \<and> ntohl (tcp_seq m' tcp) = ntohl (tcp_seq m tcp) + delta val
    \<and> tcp_ack_seq m' tcp = tcp_ack_seq m tcp \<and> ts_tsval m' ts = hybrid_cookie val
    \<and> ts_tsecr m' ts = ts_tsecr m ts \<and> reply_key m' 14 tcp = reply_key m 14 tcp
    \<and> m' (tcp + 13) = m (tcp + 13) \<and> (\<forall>i. ts + 10 \<le> i \<longrightarrow> m' i = m i)
    \<and> (\<exists>v. lookup_elem (conntrack_ops E) (conntrack_map s') (reply_key m 14 tcp) = Some v
        \<and> ts_val_s v = ts_tsval m ts \<and> delta v = delta val \<and> hybrid_cookie v = hybrid_cookie val
        \<and> hash_cookie v = hash_cookie val \<and> cur_hash_seed v = cur_hash_seed val)"
proof -
  have h: "server_en_ack E data_end tcp (reply_key m 14 tcp) val s m = (a, s', m')"
    using r assms(2,3)
    by (auto simp: server_en_known [OF assms(1) known probe_some] split: if_splits)
  show ?thesis
    using ack_fields [OF _ assms(4) h, of 14] tcp_frameD(1) [OF assms(1)]
      ct.lookup_update_exist [OF known] by simp
qed

end

text \<open>
  A segment the server sends on a recorded flow leaves in the client's numbering: its
  sequence number is increased by \<open>delta\<close>, its time stamp replaced by the flow's hybrid
  cookie, and nothing else that the client interprets is changed.  The server's own time
  stamp is stored in the flow, for the translation of the next ACK.
\<close>

theorem server_en_ack_translates:
  assumes "bpf_runtime E" and "tcp_frame m data_end tcp"
    and "\<not> (tcp_ack m tcp \<and> tcp_syn m tcp)" "\<not> tcp_rst m tcp"
    and "bpf_parse_timestamp m (tcp + 20) tcp data_end = Some ts"
    and known: "lookup_elem (conntrack_ops E) (conntrack_map s) (reply_key m 14 tcp) = Some val"
    and r: "server_en E data_end s m = (a, s', m')"
  shows "a = TC_ACT_OK \<and> ntohl (tcp_seq m' tcp) = ntohl (tcp_seq m tcp) + delta val
    \<and> tcp_ack_seq m' tcp = tcp_ack_seq m tcp \<and> ts_tsval m' ts = hybrid_cookie val
    \<and> ts_tsecr m' ts = ts_tsecr m ts \<and> reply_key m' 14 tcp = reply_key m 14 tcp
    \<and> m' (tcp + 13) = m (tcp + 13) \<and> (\<forall>i. ts + 10 \<le> i \<longrightarrow> m' i = m i)
    \<and> (\<exists>v. lookup_elem (conntrack_ops E) (conntrack_map s') (reply_key m 14 tcp) = Some v
        \<and> ts_val_s v = ts_tsval m ts \<and> delta v = delta val \<and> hybrid_cookie v = hybrid_cookie val
        \<and> hash_cookie v = hash_cookie val \<and> cur_hash_seed v = cur_hash_seed val)"
  by (rule bpf_runtime.ack_translation [OF assms])

theorem server_en_ack_translates_witness:
  "\<exists>s' m'. server_en (ref_env 4) 66 (server2 0x1a2b3944) sample_reply = (TC_ACT_OK, s', m')
     \<and> ntohl (tcp_seq m' 34) = 0x1a2b3c4e"
proof -
  obtain a s' m' where r: "server_en (ref_env 4) 66 (server2 0x1a2b3944) sample_reply = (a, s', m')"
    by (metis prod_cases3)
  from server_en_ack_translates [OF ref_rt.bpf_runtime_axioms sample_reply_frame _ _ _ _ r, of 56] r
  show ?thesis
    by (simp add: sample_simps reply_key_sample server2_lookup)
qed

section \<open>Round-trip times\<close>

text \<open>
  After an outgoing ACK \<open>max_rtt\<close> is at least the time between the server's last two
  time stamps.  It starts from zero when the counter of the flow's cookie differs from the
  counter observed last, and otherwise never shrinks; and when it grows the shared
  \<open>rtt_map\<close> holds the new maximum, provided the map accepts the update.
\<close>

theorem server_en_rtt:
  assumes "bpf_runtime E" and "tcp_frame m data_end tcp"
    and "\<not> (tcp_ack m tcp \<and> tcp_syn m tcp)" "\<not> tcp_rst m tcp"
    and "bpf_parse_timestamp m (tcp + 20) tcp data_end = Some ts"
    and known: "lookup_elem (conntrack_ops E) (conntrack_map s) (reply_key m 14 tcp) = Some val"
    and room: "\<And>v. update_elem (rtt_ops E) (rtt_map s) 0 v BPF_ANY \<noteq> None"
    and r: "server_en E data_end s m = (a, s', m')"
  defines "rtt \<equiv> ntohl (ts_tsval m ts) - ntohl (ts_val_s val)"
    and "base \<equiv> (if ucast (cur_cookie_head val) = (ucast (hc_counter (ntohl (hybrid_cookie val))) :: u8)
       then max_rtt s else 0)"
  shows "max_rtt s' = max base rtt
    \<and> (base < rtt \<longrightarrow> lookup_elem (rtt_ops E) (rtt_map s') 0 = Some (max_rtt s'))
    \<and> (rtt \<le> base \<longrightarrow> rtt_map s' = rtt_map s)"
proof -
  have h: "server_en_ack E data_end tcp (reply_key m 14 tcp) val s m = (a, s', m')"
    using r assms(3,4)
    by (auto simp: server_en_known [OF assms(2) known bpf_runtime.probe_some [OF assms(1)]] split: if_splits)
  have b: "max_rtt (snd (observe_head val s)) = base"
    by (auto simp: observe_head_def base_def hc_counter_def Let_def)
  then have "max_rtt s' = max base rtt"
    using ack_fields(11) [OF _ assms(5) h, of 14] tcp_frameD(1) [OF assms(2)]
    by (auto simp: observe_rtt_def Let_def rtt_def max_def)
  moreover have "rtt_map s' = (if base < rtt then map_update (rtt_ops E) (rtt_map s) 0 rtt BPF_ANY else rtt_map s)"
    using ack_fields(10) [OF _ assms(5) h, of 14] tcp_frameD(1) [OF assms(2)] b
    by (simp add: observe_rtt_def Let_def rtt_def)
  ultimately show ?thesis
    using bpf_map.lookup_update_ok [OF bpf_runtime.rtt_map [OF assms(1)] room] by auto
qed

theorem server_en_rtt_witness:
  "max_rtt (fst (snd (server_en (ref_env 4) 66 (server2 0x1a2b3944) sample_reply))) = 100"
proof -
  obtain a s' m' where r: "server_en (ref_env 4) 66 (server2 0x1a2b3944) sample_reply = (a, s', m')"
    by (metis prod_cases3)
  have "update_elem (rtt_ops (ref_env 4)) (rtt_map (server2 0x1a2b3944)) 0 v BPF_ANY \<noteq> None" for v
    by (simp add: ref_env_def htab_ops_def htab_update_def server2_def server0_def)
  from server_en_rtt [OF ref_rt.bpf_runtime_axioms sample_reply_frame _ _ _
      server2_lookup [folded reply_key_sample(2)] this r, of 56] r
  show ?thesis
    by (simp add: sample_simps map_val_zero_def server2_def server0_def hc_counter_def max_def)
qed

end
