(* ===== verification/Client_Agent.thy ===== *)
theory Client_Agent
  imports Server_En
begin

text \<open>
  The client agent, \<open>examples/htscookie/client_in_kern.c\<close> at the XDP hook and
  \<open>client_en_kern.c\<close> at the TC hook of a client host.  The egress program records the time
  stamp of a connection's SYN and puts the cookie that arrived last into the time stamp of later
  segments; the ingress program records the cookie that an ACK echoes and gives the client's TCP
  the recorded time stamp instead.  Both share the pinned connection table.  Prints and the
  block under \<open>if(DEBUG)\<close> are compiled out; \<open>max_rtt\<close> and \<open>rtt_map\<close>, which the program declares
  and does not use, are left out.
\<close>

section \<open>The programs\<close>

record 'm client =
  cl_init :: bool
  cl_map_cookies :: "u16 \<Rightarrow> u16"
  cl_map_seeds :: "u16 \<Rightarrow> u32"
  cl_conntrack :: 'm

definition cl_init_tables :: "'m client \<Rightarrow> 'm client" where
  "cl_init_tables s =
     (if \<not> cl_init s
      then s\<lparr>cl_map_cookies := \<lambda>i. i, cl_map_seeds := \<lambda>i. ucast i, cl_init := True\<rparr>
      else s)"

definition client_in_ack ::
    "('m, 'r) bpf_env \<Rightarrow> nat \<Rightarrow> nat \<Rightarrow> nat \<Rightarrow> 'm client \<Rightarrow> mem \<Rightarrow> xdp_action \<times> 'm client \<times> mem" where
  "client_in_ack E data_end ip tcp s m =
     (case bpf_parse_timestamp m (tcp + 20) tcp data_end of
        None \<Rightarrow> (XDP_DROP, s, m)
      | Some ts \<Rightarrow>
          (let key = flow_key m ip tcp;
               val_p = lookup_elem (conntrack_ops E) (cl_conntrack s) key
           in case probe_read E val_p of
                None \<Rightarrow> (XDP_DROP, s, m)
              | Some val \<Rightarrow>
                  (let new_tsecr = ts_val_s val;
                       old_tsecr = ts_tsecr m ts;
                       val = val\<lparr>hybrid_cookie := ts_tsecr m ts\<rparr>;
                       m = st32 m (ts + 6) (ts_val_s val);
                       s = s\<lparr>cl_conntrack := map_update (conntrack_ops E) (cl_conntrack s) key val BPF_EXIST\<rparr>;
                       tcp_csum = ucast (tcp_check m tcp) :: u64;
                       tcp_csum = csum_diff E (bytes32 old_tsecr) (bytes32 new_tsecr) (ucast (NOT tcp_csum));
                       m = st16 m (tcp + 16) (csum_fold_helper_64 tcp_csum)
                   in (XDP_PASS, s, m))))"

definition client_in ::
    "('m, 'r) bpf_env \<Rightarrow> nat \<Rightarrow> 'm client \<Rightarrow> mem \<Rightarrow> xdp_action \<times> 'm client \<times> mem" where
  "client_in E data_end s m =
     (let s = cl_init_tables s
      in case parse_ethhdr m 0 data_end of
           None \<Rightarrow> (XDP_DROP, s, m)
         | Some (ether_proto, eth, pos) \<Rightarrow>
             if htons ether_proto = ETH_P_IP then
               (case parse_iphdr m pos data_end of
                  None \<Rightarrow> (XDP_DROP, s, m)
                | Some (ip_proto, ip, pos) \<Rightarrow>
                    if ip_proto = IPPROTO_TCP then
                      (case parse_tcphdr m pos data_end of
                         None \<Rightarrow> (XDP_DROP, s, m)
                       | Some (tcphdr_len, tcp, pos) \<Rightarrow>
                           if tcphdr_len \<ge> 32 \<and> tcp_ack m tcp then client_in_ack E data_end ip tcp s m
                           else (XDP_PASS, s, m))
                    else (XDP_PASS, s, m))
             else (XDP_PASS, s, m))"

definition client_en_tcp ::
    "('m, 'r) bpf_env \<Rightarrow> nat \<Rightarrow> nat \<Rightarrow> nat \<Rightarrow> 'm client \<Rightarrow> mem \<Rightarrow> tc_action \<times> 'm client \<times> mem" where
  "client_en_tcp E data_end ip tcp s m =
     (case bpf_parse_timestamp m (tcp + 20) tcp data_end of
        None \<Rightarrow> (TC_ACT_SHOT, s, m)
      | Some ts \<Rightarrow>
          if tcp_syn m tcp then
            (let key = reply_key m ip tcp;
                 val = map_val_zero\<lparr>ts_val_s := ts_tsval m ts\<rparr>;
                 s = s\<lparr>cl_conntrack := map_update (conntrack_ops E) (cl_conntrack s) key val BPF_ANY\<rparr>
             in (TC_ACT_OK, s, m))
          else
            (let key = reply_key m ip tcp
             in case lookup_elem (conntrack_ops E) (cl_conntrack s) key of
                  None \<Rightarrow> (TC_ACT_SHOT, s, m)
                | Some v \<Rightarrow>
                    (case probe_read E (Some v) of
                       None \<Rightarrow> (TC_ACT_SHOT, s, m)
                     | Some val \<Rightarrow>
                         (let val = val\<lparr>ts_val_s := ts_tsval m ts\<rparr>;
                              m = st32 m (ts + 2) (hybrid_cookie val)
                          in (TC_ACT_OK, s, m)))))"

definition client_en ::
    "('m, 'r) bpf_env \<Rightarrow> nat \<Rightarrow> 'm client \<Rightarrow> mem \<Rightarrow> tc_action \<times> 'm client \<times> mem" where
  "client_en E data_end s m =
     (case parse_ethhdr m 0 data_end of
        None \<Rightarrow> (TC_ACT_SHOT, s, m)
      | Some (ether_proto, eth, pos) \<Rightarrow>
          if htons ether_proto = ETH_P_IP then
            (case parse_iphdr m pos data_end of
               None \<Rightarrow> (TC_ACT_SHOT, s, m)
             | Some (ip_proto, ip, pos) \<Rightarrow>
                 if ip_proto = IPPROTO_TCP then
                   (case parse_tcphdr m pos data_end of
                      None \<Rightarrow> (TC_ACT_SHOT, s, m)
                    | Some (tcphdr_len, tcp, pos) \<Rightarrow>
                        if tcphdr_len \<ge> 32 then client_en_tcp E data_end ip tcp s m
                        else (TC_ACT_OK, s, m))
                 else (TC_ACT_OK, s, m))
          else (TC_ACT_OK, s, m))"

section \<open>Dispatch and memory safety\<close>

lemma cl_init_tables_conntrack [simp]: "cl_conntrack (cl_init_tables s) = cl_conntrack s"
  by (simp add: cl_init_tables_def)

lemma client_in_frame:
  "tcp_frame m data_end tcp \<Longrightarrow> client_in E data_end s m =
     (if tcp_ack m tcp then client_in_ack E data_end 14 tcp (cl_init_tables s) m
      else (XDP_PASS, cl_init_tables s, m))"
  using tcp_frameD [of m data_end tcp] tcp_frame_parse [of m data_end tcp] by (simp add: client_in_def Let_def)

lemma client_en_frame:
  "tcp_frame m data_end tcp \<Longrightarrow> client_en E data_end s m = client_en_tcp E data_end 14 tcp s m"
  using tcp_frameD [of m data_end tcp] tcp_frame_parse [of m data_end tcp] by (simp add: client_en_def)

lemma client_not_frame:
  assumes "\<not> tcp_frame m data_end (tcp_at m)"
  shows "fst (snd (client_in E data_end s m)) = cl_init_tables s" "snd (snd (client_in E data_end s m)) = m"
    "snd (client_en E data_end s m) = (s, m)"
  using assms by (auto simp: client_in_def client_en_def tcp_frame_def Let_def parse_hdr_Some
      split: option.splits prod.splits)

text \<open>The programs write inside the time stamp option and the checksum only.\<close>

lemma client_in_ack_frame:
  "(\<And>ts. bpf_parse_timestamp m (tcp + 20) tcp data_end = Some ts \<Longrightarrow> i \<notin> {ts + 6..<ts + 10}) \<Longrightarrow>
     i \<notin> {tcp + 16, tcp + 17} \<Longrightarrow> snd (snd (client_in_ack E data_end ip tcp s m)) i = m i"
  by (auto simp: client_in_ack_def Let_def st16_def st32_def split: option.splits)

lemma client_en_tcp_frame:
  "(\<And>ts. bpf_parse_timestamp m (tcp + 20) tcp data_end = Some ts \<Longrightarrow> i \<notin> {ts + 2..<ts + 6}) \<Longrightarrow>
     snd (snd (client_en_tcp E data_end ip tcp s m)) i = m i"
  by (auto simp: client_en_tcp_def Let_def st32_def split: option.splits)

lemma client_frame_safe:
  assumes "tcp_frame m data_end tcp" "data_end \<le> i"
  shows "snd (snd (client_in E data_end s m)) i = m i" "snd (snd (client_en E data_end s m)) i = m i"
proof -
  have "i \<notin> {ts + 6..<ts + 10}" "i \<notin> {ts + 2..<ts + 6}"
    if "bpf_parse_timestamp m (tcp + 20) tcp data_end = Some ts" for ts
    using bpf_parse_timestamp_range [OF that] assms by simp_all
  moreover have "i \<notin> {tcp + 16, tcp + 17}"
    using tcp_frameD(2) [OF assms(1)] assms by auto
  ultimately show "snd (snd (client_in E data_end s m)) i = m i" "snd (snd (client_en E data_end s m)) i = m i"
    using assms(1) client_in_ack_frame [of m tcp data_end i E 14 "cl_init_tables s"] client_en_tcp_frame [of m tcp data_end i E 14 s]
    by (simp_all only: client_in_frame client_en_frame snd_conv split: if_split) blast+
qed

section \<open>Abstract specification\<close>

text \<open>
  The agent keeps, for each connection, the time stamp of its SYN and the cookie that arrived
  last.  A SYN of the client starts an entry, an ACK to the client changes the cookie of an
  existing one, nothing else changes the table.
\<close>

datatype client_event = Inbound (cl_end: nat) (cl_frame: mem) | Outbound (cl_end: nat) (cl_frame: mem)

fun client_step :: "('m, 'r) bpf_env \<Rightarrow> client_event \<Rightarrow> 'm client \<Rightarrow> 'm client" where
  "client_step E (Inbound data_end m) s = fst (snd (client_in E data_end s m))"
| "client_step E (Outbound data_end m) s = fst (snd (client_en E data_end s m))"

text \<open>The time stamp option of a frame, if it is a TCP segment with one.\<close>

definition seg_ts :: "mem \<Rightarrow> nat \<Rightarrow> nat option" where
  "seg_ts m data_end =
     (if tcp_frame m data_end (tcp_at m) then bpf_parse_timestamp m (tcp_at m + 20) (tcp_at m) data_end else None)"

type_synonym client_spec = "map_key_t \<rightharpoonup> u32 \<times> u32"

fun spec_step :: "client_event \<Rightarrow> client_spec \<Rightarrow> client_spec" where
  "spec_step (Inbound data_end m) A =
     (case (seg_ts m data_end, A (flow_key m 14 (tcp_at m))) of
        (Some ts, Some (t, c)) \<Rightarrow>
          if tcp_ack m (tcp_at m) then A(flow_key m 14 (tcp_at m) \<mapsto> (t, ts_tsecr m ts)) else A
      | _ \<Rightarrow> A)"
| "spec_step (Outbound data_end m) A =
     (case seg_ts m data_end of
        Some ts \<Rightarrow> if tcp_syn m (tcp_at m) then A(reply_key m 14 (tcp_at m) \<mapsto> (ts_tsval m ts, 0)) else A
      | None \<Rightarrow> A)"

definition client_abs :: "('m, 'r) bpf_env \<Rightarrow> 'm client \<Rightarrow> client_spec" where
  "client_abs E s k = map_option (\<lambda>v. (ts_val_s v, hybrid_cookie v)) (lookup_elem (conntrack_ops E) (cl_conntrack s) k)"

text \<open>The connection table has room for the connections that the client opens.\<close>

fun has_room :: "('m, 'r) bpf_env \<Rightarrow> client_event \<Rightarrow> 'm client \<Rightarrow> bool" where
  "has_room E (Inbound data_end m) s \<longleftrightarrow> True"
| "has_room E (Outbound data_end m) s \<longleftrightarrow>
     (case seg_ts m data_end of
        Some ts \<Rightarrow> tcp_syn m (tcp_at m) \<longrightarrow>
          update_elem (conntrack_ops E) (cl_conntrack s) (reply_key m 14 (tcp_at m))
            (map_val_zero\<lparr>ts_val_s := ts_tsval m ts\<rparr>) BPF_ANY \<noteq> None
      | None \<Rightarrow> True)"

context bpf_runtime
begin

lemma step_refines: "has_room E ev s \<Longrightarrow> client_abs E (client_step E ev s) = spec_step ev (client_abs E s)"
proof (cases ev)
  case (Inbound data_end m)
  let ?tcp = "tcp_at m" and ?k = "flow_key m 14 (tcp_at m)"
  show ?thesis
  proof (cases "tcp_frame m data_end ?tcp")
    case True
    show ?thesis
    proof (cases "lookup_elem (conntrack_ops E) (cl_conntrack s) ?k")
      case None
      then show ?thesis
        using True by (auto simp: Inbound client_in_frame client_in_ack_def client_abs_def seg_ts_def probe_none fun_eq_iff
            split: option.splits)
    next
      case (Some v)
      then show ?thesis
        using True ct.lookup_update_exist [OF Some] ct.lookup_update_other [of _ ?k]
        by (auto simp: Inbound client_in_frame client_in_ack_def client_abs_def seg_ts_def probe_some fun_eq_iff Let_def
            split: option.splits)
    qed
  qed (simp add: Inbound client_not_frame seg_ts_def client_abs_def fun_eq_iff)
next
  case (Outbound data_end m)
  assume "has_room E ev s"
  then show ?thesis
    using ct.lookup_update_ok [of "cl_conntrack s" "reply_key m 14 (tcp_at m)"]
      ct.lookup_update_other [of _ "reply_key m 14 (tcp_at m)"] client_not_frame(3) [of m data_end E s]
    by (cases "tcp_frame m data_end (tcp_at m)")
      (auto simp: Outbound client_en_frame client_en_tcp_def client_abs_def seg_ts_def probe_some fun_eq_iff Let_def map_val_zero_def
        split: option.splits)
qed

end

sublocale bpf_runtime \<subseteq> cl: simulation "client_step E" spec_step "client_abs E" "has_room E"
  by unfold_locales (rule step_refines)

context bpf_runtime
begin

lemmas client_run_refines = cl.run_sim

end

text \<open>
  C17: the client agent implements the table of SYN time stamps and cookies: after any sequence of
  packets in either direction the connection table holds what the specification prescribes, as
  long as the table has room for the connections that the client opens.
\<close>

theorem client_refines:
  assumes "bpf_runtime E" "run_ok (has_room E) (client_step E) evs s"
  shows "client_abs E (fold (client_step E) evs s) = fold spec_step evs (client_abs E s)"
  by (rule bpf_runtime.client_run_refines [OF assms])

section \<open>What happens to the segments\<close>

fun opens :: "client_event \<Rightarrow> map_key_t \<Rightarrow> bool" where
  "opens (Inbound data_end m) k \<longleftrightarrow> False"
| "opens (Outbound data_end m) k \<longleftrightarrow>
     seg_ts m data_end \<noteq> None \<and> tcp_syn m (tcp_at m) \<and> reply_key m 14 (tcp_at m) = k"

fun acks :: "client_event \<Rightarrow> map_key_t \<Rightarrow> bool" where
  "acks (Inbound data_end m) k \<longleftrightarrow>
     seg_ts m data_end \<noteq> None \<and> tcp_ack m (tcp_at m) \<and> flow_key m 14 (tcp_at m) = k"
| "acks (Outbound data_end m) k \<longleftrightarrow> False"

lemma spec_step_keeps:
  "\<not> opens ev k \<Longrightarrow> A k = Some (t, c) \<Longrightarrow> \<exists>c'. spec_step ev A k = Some (t, c') \<and> (\<not> acks ev k \<longrightarrow> c' = c)"
  by (cases ev) (auto split: option.splits)

lemma spec_run_keeps:
  assumes "\<And>ev. ev \<in> set evs \<Longrightarrow> \<not> opens ev k" "A k = Some (t, c)"
  shows "\<exists>c'. fold spec_step evs A k = Some (t, c') \<and> ((\<forall>ev \<in> set evs. \<not> acks ev k) \<longrightarrow> c' = c)"
  using assms
proof (induction evs arbitrary: A c)
  case (Cons ev evs)
  obtain c1 where "spec_step ev A k = Some (t, c1)" "\<not> acks ev k \<longrightarrow> c1 = c"
    using spec_step_keeps [of ev k A t c] Cons.prems by auto
  then show ?case
    using Cons.IH [of "spec_step ev A" c1] Cons.prems(1) by auto
qed simp

lemma seg_tsD:
  assumes "seg_ts m data_end = Some ts"
  shows "tcp_frame m data_end (tcp_at m)" "bpf_parse_timestamp m (tcp_at m + 20) (tcp_at m) data_end = Some ts"
  using assms by (auto simp: seg_ts_def split: if_splits)

context bpf_runtime
begin

lemma inbound_known:
  assumes "seg_ts m data_end = Some ts" "tcp_ack m (tcp_at m)"
    "client_abs E s (flow_key m 14 (tcp_at m)) = Some (t, c)" "client_in E data_end s m = (a, s', m')"
  shows "a = XDP_PASS" "ts_tsecr m' ts = t" "ts_tsval m' ts = ts_tsval m ts"
    "i \<notin> {ts + 6..<ts + 10} \<Longrightarrow> i \<notin> {tcp_at m + 16, tcp_at m + 17} \<Longrightarrow> m' i = m i"
proof -
  define tcp where "tcp = tcp_at m"
  note ts = seg_tsD [OF assms(1), folded tcp_def]
  have "a = XDP_PASS \<and> ts_tsecr m' ts = t \<and> ts_tsval m' ts = ts_tsval m ts"
    using assms(2-) ts bpf_parse_timestamp_range [OF ts(2)] tcp_frameD [OF ts(1)] unfolding tcp_def [symmetric]
    by (auto simp: client_in_frame client_in_ack_def client_abs_def probe_some Let_def mem_simps)
  then show "a = XDP_PASS" "ts_tsecr m' ts = t" "ts_tsval m' ts = ts_tsval m ts"
    by simp_all
  show "m' i = m i" if "i \<notin> {ts + 6..<ts + 10}" "i \<notin> {tcp_at m + 16, tcp_at m + 17}"
    using assms(2,4) ts that client_in_ack_frame [of m tcp data_end i E 14 "cl_init_tables s"]
    unfolding tcp_def [symmetric] by (simp add: client_in_frame)
qed

lemma outbound_known:
  assumes "seg_ts m data_end = Some ts" "\<not> tcp_syn m (tcp_at m)"
    "client_abs E s (reply_key m 14 (tcp_at m)) = Some (t, c)"
  shows "client_en E data_end s m = (TC_ACT_OK, s, st32 m (ts + 2) c)"
proof -
  define tcp where "tcp = tcp_at m"
  note ts = seg_tsD [OF assms(1), folded tcp_def]
  show ?thesis
    using assms(2-) ts unfolding tcp_def [symmetric]
    by (auto simp: client_en_frame client_en_tcp_def client_abs_def probe_some Let_def)
qed

lemma inbound_csum:
  assumes "seg_ts m data_end = Some ts" "tcp_csum_ok m 14 (tcp_at m)" "even (ts - tcp_at m)"
    "ts + 10 \<le> tcp_at m + tcp_seg_len m 14" "client_in E data_end s m = (a, s', m')"
  shows "tcp_csum_ok m' 14 (tcp_at m)"
proof -
  define tcp where "tcp = tcp_at m"
  note ts = seg_tsD [OF assms(1), folded tcp_def] and as = assms(2-4) [folded tcp_def]
  have le: "tcp + 20 \<le> ts" "34 \<le> tcp"
    using bpf_parse_timestamp_range [OF ts(2)] tcp_frameD [OF ts(1)] by simp_all
  have "tcp_csum_ok (st16 (st32 m (ts + 6) t) (tcp + 16) (csum_fold_helper_64 (csum_diff E (bytes32 (ts_tsecr m ts))
      (bytes32 t) (ucast (NOT (ucast (tcp_check m tcp) :: u64)))))) 14 tcp" for t
  proof (rule tcp_csum_rewrite [OF as(1)])
    show "tcp_seg_len (st32 m (ts + 6) t) 14 = tcp_seg_len m 14" "pseudo_sum (st32 m (ts + 6) t) 14 = pseudo_sum m 14"
      using le by (auto intro!: pseudo_sum_cong simp: mem_simps)
    show "sum_shift m (st32 m (ts + 6) t) tcp (tcp_seg_len m 14) (0 + (uint t - uint (ts_tsecr m ts)))"
      using as le by (intro shift_intros) (simp_all add: mem_simps)
    have "oc_eq (uint (ucast (csum_diff E (bytes32 (ts_tsecr m ts)) (bytes32 t)
        (ucast (NOT (ucast (tcp_check m tcp) :: u64)))) :: u32)) (- uint (tcp_check m tcp) - uint (ts_tsecr m ts) + uint t)"
      by (intro val_updI seed_not)
    from fold_out [OF _ _ this] show "oc_eq (uint (csum_fold_helper_64 (csum_diff E (bytes32 (ts_tsecr m ts))
        (bytes32 t) (ucast (NOT (ucast (tcp_check m tcp) :: u64)))))) (uint (tcp_check m tcp) - (0 + (uint t - uint (ts_tsecr m ts))))"
      by (simp add: algebra_simps)
  qed (use as le in \<open>simp_all add: mem_simps\<close>)
  then show ?thesis
    using assms(5) ts as(1) le unfolding tcp_def [symmetric]
    by (auto simp: client_in_frame client_in_ack_def Let_def mem_simps split: if_splits option.splits)
qed

end

text \<open>
  C18: until a connection is opened anew, every ACK of it that reaches the client echoes the time
  stamp of the connection's SYN, whatever the client has sent since: the egress program does not
  store the time stamps of later segments.  Nothing but the echo and the checksum is changed, and
  the checksum stays valid if the option is at an even offset.
\<close>

theorem client_echo_constant:
  assumes "bpf_runtime E" "seg_ts syn d0 = Some ts0" "tcp_syn syn (tcp_at syn)"
    and "run_ok (has_room E) (client_step E) (Outbound d0 syn # evs) s" "\<And>ev. ev \<in> set evs \<Longrightarrow> \<not> opens ev (reply_key syn 14 (tcp_at syn))"
    and "seg_ts m d = Some ts" "tcp_ack m (tcp_at m)" "flow_key m 14 (tcp_at m) = reply_key syn 14 (tcp_at syn)"
    and r: "client_in E d (fold (client_step E) (Outbound d0 syn # evs) s) m = (a, s', m')"
  shows "a = XDP_PASS \<and> ts_tsecr m' ts = ts_tsval syn ts0 \<and> ts_tsval m' ts = ts_tsval m ts
    \<and> (\<forall>i. i \<notin> {ts + 6..<ts + 10} \<and> i \<notin> {tcp_at m + 16, tcp_at m + 17} \<longrightarrow> m' i = m i)
    \<and> (tcp_csum_ok m 14 (tcp_at m) \<and> even (ts - tcp_at m) \<and> ts + 10 \<le> tcp_at m + tcp_seg_len m 14
        \<longrightarrow> tcp_csum_ok m' 14 (tcp_at m))"
proof -
  let ?k = "reply_key syn 14 (tcp_at syn)" and ?A = "spec_step (Outbound d0 syn) (client_abs E s)"
  have "?A ?k = Some (ts_tsval syn ts0, 0)"
    using assms(2,3) by simp
  from spec_run_keeps [of evs ?k ?A, OF assms(5) this] obtain c
    where "fold spec_step evs ?A ?k = Some (ts_tsval syn ts0, c)" by auto
  then have known: "client_abs E (fold (client_step E) (Outbound d0 syn # evs) s) (flow_key m 14 (tcp_at m))
      = Some (ts_tsval syn ts0, c)"
    using bpf_runtime.client_run_refines [OF assms(1,4)] assms(8) by simp
  show ?thesis
    using bpf_runtime.inbound_known [OF assms(1,6,7) known r] bpf_runtime.inbound_csum [OF assms(1,6) _ _ _ r]
    by blast
qed

text \<open>
  The cookie that the last ACK of a connection echoed is the time stamp of the segments that
  the client sends on the connection until the next one; nothing else of them is changed.
\<close>

theorem client_cookie_returned:
  assumes "bpf_runtime E" "seg_ts ack d0 = Some ts0" "tcp_ack ack (tcp_at ack)"
    and "client_abs E s (flow_key ack 14 (tcp_at ack)) \<noteq> None" "run_ok (has_room E) (client_step E) (Inbound d0 ack # evs) s"
    and "\<And>ev. ev \<in> set evs \<Longrightarrow> \<not> opens ev (flow_key ack 14 (tcp_at ack)) \<and> \<not> acks ev (flow_key ack 14 (tcp_at ack))"
    and "seg_ts m d = Some ts" "\<not> tcp_syn m (tcp_at m)" "reply_key m 14 (tcp_at m) = flow_key ack 14 (tcp_at ack)"
  defines "s1 \<equiv> fold (client_step E) (Inbound d0 ack # evs) s"
  shows "client_en E d s1 m = (TC_ACT_OK, s1, st32 m (ts + 2) (ts_tsecr ack ts0))"
proof -
  let ?k = "flow_key ack 14 (tcp_at ack)" and ?A = "spec_step (Inbound d0 ack) (client_abs E s)"
  obtain t where "?A ?k = Some (t, ts_tsecr ack ts0)"
    using assms(2-4) by auto
  from spec_run_keeps [of evs ?k ?A, OF _ this] assms(6)
  have "fold spec_step evs ?A ?k = Some (t, ts_tsecr ack ts0)" by auto
  then have known: "client_abs E s1 (reply_key m 14 (tcp_at m)) = Some (t, ts_tsecr ack ts0)"
    using bpf_runtime.client_run_refines [OF assms(1,5)] assms(9) by (simp add: s1_def)
  show ?thesis
    by (rule bpf_runtime.outbound_known [OF assms(1,7,8) known])
qed

section \<open>A connection\<close>

definition client0 :: "(map_key_t \<times> map_val_t) list client" where
  "client0 = \<lparr>cl_init = False, cl_map_cookies = (\<lambda>_. 0), cl_map_seeds = (\<lambda>_. 0), cl_conntrack = []\<rparr>"

lemma sample_syn_ts: "bpf_parse_timestamp sample_syn 54 34 74 = Some 60"
  by (simp add: sample_syn_def sample_eval bpf_parse_timestamp_def bpf_fast_timestamp_def Let_def syn_1_mask_def)

lemma cl_sample_ihl:
  "ip_ihl sample_syn 14 = 5" "ip_ihl sample_synack 14 = 5" "ip_ihl sample_ack 14 = 5" "ip_ihl sample_reply 14 = 5"
  by (simp_all add: sample_syn_def sample_synack_def sample_ack_def sample_reply_def mem_of_def)

lemma sample_seg_ts:
  "seg_ts sample_syn 74 = Some 60" "seg_ts sample_synack 70 = Some 60" "seg_ts sample_ack 66 = Some 56"
  "seg_ts sample_reply 66 = Some 56"
proof -
  have "tcp_frame sample_syn 74 34"
    by (simp add: sample_syn_def sample_eval)
  then show "seg_ts sample_syn 74 = Some 60" "seg_ts sample_synack 70 = Some 60" "seg_ts sample_ack 66 = Some 56"
    "seg_ts sample_reply 66 = Some 56"
    using sample_synack_frame sample_ack_frame sample_reply_frame
    by (simp_all add: seg_ts_def cl_sample_ihl sample_syn_ts sample_synack_ts sample_ack_ts sample_reply_ts)
qed

definition sample_key :: map_key_t where
  "sample_key = \<lparr>src_ip = 0x0300130a, dst_ip = 0x0300120a, src_port = 0x5000, dst_port = 0x409c\<rparr>"

lemma sample_keys:
  "reply_key sample_syn 14 34 = sample_key" "reply_key sample_ack 14 34 = sample_key"
  "flow_key sample_synack 14 34 = sample_key" "flow_key sample_reply 14 34 = sample_key"
  by (simp_all add: reply_key_def flow_key_def sample_key_def sample_syn_def sample_synack_def sample_ack_def
      sample_reply_def sample_eval)

lemma sample_flags:
  "tcp_syn sample_syn 34" "\<not> tcp_syn sample_ack 34" "tcp_ack sample_synack 34" "tcp_ack sample_reply 34"
  "ts_tsval sample_syn 60 = htonl 4999" "ts_tsecr sample_synack 60 = htonl 5000"
  by (simp_all add: sample_syn_def sample_synack_def sample_ack_def sample_reply_def sample_eval bit_simps)

lemmas sample_client = cl_sample_ihl sample_seg_ts sample_keys [simplified] sample_flags [simplified]

lemma sample_room: "has_room (ref_env 4) (Outbound 74 sample_syn) client0"
  by (simp add: sample_client ref_env_def htab_ops_def htab_update_def client0_def)

theorem client_refines_witness:
  "client_abs (ref_env 4) (fold (client_step (ref_env 4))
     [Outbound 74 sample_syn, Inbound 70 sample_synack, Outbound 66 sample_ack] client0) sample_key
     = Some (htonl 4999, htonl 5000)"
proof -
  have "run_ok (has_room (ref_env 4)) (client_step (ref_env 4)) [Outbound 74 sample_syn, Inbound 70 sample_synack, Outbound 66 sample_ack] client0"
    using sample_room by (simp add: sample_client)
  from client_refines [OF ref_rt.bpf_runtime_axioms this] show ?thesis
    by (simp add: sample_client)
qed

theorem client_echo_constant_witness:
  "ts_tsecr (snd (snd (client_in (ref_env 4) 66 (fold (client_step (ref_env 4))
     [Outbound 74 sample_syn, Inbound 70 sample_synack, Outbound 66 sample_ack] client0) sample_reply))) 56 = htonl 4999"
proof -
  let ?evs = "[Inbound 70 sample_synack, Outbound 66 sample_ack]"
  have room: "run_ok (has_room (ref_env 4)) (client_step (ref_env 4)) (Outbound 74 sample_syn # ?evs) client0"
    using sample_room by (simp add: sample_client)
  obtain a s' m' where "client_in (ref_env 4) 66 (fold (client_step (ref_env 4)) (Outbound 74 sample_syn # ?evs) client0)
      sample_reply = (a, s', m')"
    by (metis prod_cases3)
  moreover have "\<not> opens ev (reply_key sample_syn 14 (tcp_at sample_syn))" if "ev \<in> set ?evs" for ev
    using that by (auto simp: sample_client)
  ultimately show ?thesis
    using client_echo_constant [OF ref_rt.bpf_runtime_axioms sample_seg_ts(1) _ room _ sample_seg_ts(4), of a s' m']
    by (simp add: sample_client)
qed

theorem client_cookie_returned_witness:
  "ts_tsval (snd (snd (client_en (ref_env 4) 66 (fold (client_step (ref_env 4))
     [Inbound 70 sample_synack] (client_step (ref_env 4) (Outbound 74 sample_syn) client0)) sample_ack))) 56 = htonl 5000"
proof -
  let ?s = "client_step (ref_env 4) (Outbound 74 sample_syn) client0"
  have "client_abs (ref_env 4) ?s sample_key \<noteq> None"
    using ref_rt.step_refines [OF sample_room] by (simp add: sample_client)
  then show ?thesis
    using client_cookie_returned [of "ref_env 4" sample_synack 70 60 ?s "[]" sample_ack 66 56]
      ref_rt.bpf_runtime_axioms [of 4]
    by (simp add: sample_client mem_simps)
qed

end
