(* ===== verification/Hashes.thy ===== *)
theory Hashes
  imports EC_Prelude
begin

text \<open>
  The non-cryptographic hash functions: \<open>examples/common/hashf.c\<close> (Bloom filter),
  \<open>examples/common/murmur.c\<close> and \<open>examples/common/fnv.c\<close>.  A buffer is the list of its
  bytes, of the length the C function is given; a read of four bytes is little-endian.
  The lemmas give the hash of a longer buffer from that of its prefix, and state that every
  mixing step is a bijection of the 32-bit state, so equal-length inputs that differ in one
  step's input never collide in that step.
\<close>

section \<open>hashf.c\<close>

definition DJB2_INIT :: u32 where "DJB2_INIT = 5381"

fun djb2_loop :: "u8 list \<Rightarrow> u32 \<Rightarrow> u32" where
  "djb2_loop [] hash = hash"
| "djb2_loop (d # ds) hash = djb2_loop ds ((push_bit 5 hash + hash) + ucast d)"

definition djb2 :: "u8 list \<Rightarrow> u32" where
  "djb2 buff = djb2_loop buff DJB2_INIT"

fun sdbm_loop :: "u8 list \<Rightarrow> u32 \<Rightarrow> u32" where
  "sdbm_loop [] hash = hash"
| "sdbm_loop (d # ds) hash = sdbm_loop ds (ucast d + push_bit 6 hash + push_bit 16 hash - hash)"

definition sdbm :: "u8 list \<Rightarrow> u32" where
  "sdbm buff = sdbm_loop buff 0"

text \<open>The four-byte loop of \<open>mm2\<close> and \<open>MurmurHash2\<close>; a rest of up to three bytes is ignored.\<close>

fun mm2_loop :: "u8 list \<Rightarrow> u32 \<Rightarrow> u32" where
  "mm2_loop (b0 # b1 # b2 # b3 # ds) h =
     (let m = 0x5bd1e995;
          k = mk32 b0 b1 b2 b3;
          k = k * m;
          k = k XOR drop_bit 24 k;
          k = k * m;
          h = h * m;
          h = h XOR k
      in mm2_loop ds h)"
| "mm2_loop ds h = h"

definition mm2 :: "u8 list \<Rightarrow> u32" where
  "mm2 buff =
     (let m = 0x5bd1e995;
          h = mm2_loop buff 0xffee;
          h = h XOR drop_bit 13 h;
          h = h * m;
          h = h XOR drop_bit 15 h
      in h)"

section \<open>murmur.c\<close>

definition MurmurHash2 :: "u8 list \<Rightarrow> u32 \<Rightarrow> u32" where
  "MurmurHash2 key seed =
     (let m = 0x5bd1e995;
          h = seed XOR of_nat (length key);
          h = mm2_loop key h;
          h = h XOR drop_bit 13 h;
          h = h * m;
          h = h XOR drop_bit 15 h
      in h)"

fun murmur3_loop :: "u8 list \<Rightarrow> u32 \<Rightarrow> u32" where
  "murmur3_loop (b0 # b1 # b2 # b3 # ds) h =
     (let k = mk32 b0 b1 b2 b3;
          k = k * 0xcc9e2d51;
          k = push_bit 15 k OR drop_bit (32 - 15) k;
          k = k * 0x1b873593;
          h = h XOR k;
          h = push_bit 13 h OR drop_bit (32 - 13) h;
          h = h * 5 + 0xe6546b64
      in murmur3_loop ds h)"
| "murmur3_loop ds h = h"

definition murmurhash3 :: "u8 list \<Rightarrow> u32 \<Rightarrow> u32" where
  "murmurhash3 key seed =
     (let h = murmur3_loop key seed;
          h = h XOR of_nat (length key);
          h = h XOR drop_bit 16 h;
          h = h * 0x85ebca6b;
          h = h XOR drop_bit 13 h;
          h = h * 0xc2b2ae35;
          h = h XOR drop_bit 16 h
      in h)"

section \<open>fnv.c\<close>

text \<open>The shifts that stand for a multiplication by the FNV prime.\<close>

definition fnv_mult :: "u32 \<Rightarrow> u32" where
  "fnv_mult hval =
     hval + (push_bit 1 hval + push_bit 4 hval + push_bit 7 hval + push_bit 8 hval + push_bit 24 hval)"

fun fnv_32_buf :: "u8 list \<Rightarrow> u32 \<Rightarrow> u32" where
  "fnv_32_buf [] hval = hval"
| "fnv_32_buf (b # bs) hval = fnv_32_buf bs (fnv_mult hval XOR ucast b)"

fun fnv_32a_buf :: "u8 list \<Rightarrow> u32 \<Rightarrow> u32" where
  "fnv_32a_buf [] hval = hval"
| "fnv_32a_buf (b # bs) hval = fnv_32a_buf bs (fnv_mult (hval XOR ucast b))"

text \<open>A string ends before its first zero byte.\<close>

fun fnv_32a_str :: "u8 list \<Rightarrow> u32 \<Rightarrow> u32" where
  "fnv_32a_str [] hval = hval"
| "fnv_32a_str (b # bs) hval = (if b = 0 then hval else fnv_32a_str bs (fnv_mult (hval XOR ucast b)))"

section \<open>Streaming\<close>

lemma djb2_append: "djb2_loop (xs @ ys) h = djb2_loop ys (djb2_loop xs h)"
  by (induction xs arbitrary: h) simp_all

lemma sdbm_append: "sdbm_loop (xs @ ys) h = sdbm_loop ys (sdbm_loop xs h)"
  by (induction xs arbitrary: h) simp_all

lemma mm2_append: "length xs mod 4 = 0 \<Longrightarrow> mm2_loop (xs @ ys) h = mm2_loop ys (mm2_loop xs h)"
  by (induction xs h rule: mm2_loop.induct) (simp_all add: Let_def)

lemma murmur3_append: "length xs mod 4 = 0 \<Longrightarrow> murmur3_loop (xs @ ys) h = murmur3_loop ys (murmur3_loop xs h)"
  by (induction xs h rule: murmur3_loop.induct) (simp_all add: Let_def)

lemma fnv_append: "fnv_32_buf (xs @ ys) h = fnv_32_buf ys (fnv_32_buf xs h)"
  by (induction xs arbitrary: h) simp_all

lemma fnva_append: "fnv_32a_buf (xs @ ys) h = fnv_32a_buf ys (fnv_32a_buf xs h)"
  by (induction xs arbitrary: h) simp_all

section \<open>What the shifts compute\<close>

lemma push_bit_word: "push_bit n (x :: u32) = x * 2 ^ n"
  by (simp add: push_bit_eq_mult)

lemma djb2_step: "push_bit 5 h + h = 33 * (h :: u32)"
  by (simp add: push_bit_word)

lemma sdbm_step: "ucast d + push_bit 6 h + push_bit 16 h - h = ucast d + 65599 * (h :: u32)"
  by (simp add: push_bit_word algebra_simps)

lemma fnv_mult_eq: "fnv_mult h = 0x01000193 * h"
  by (simp add: fnv_mult_def push_bit_word algebra_simps)

section \<open>Optimised and reference versions of FNV\<close>

text \<open>The branches of \<open>fnv.c\<close> that multiply by \<open>FNV_32_PRIME\<close>.\<close>

definition fnv_1_ref :: "u8 list \<Rightarrow> u32 \<Rightarrow> u32" where
  "fnv_1_ref bs hval = foldl (\<lambda>hval b. (hval * 0x01000193) XOR ucast b) hval bs"

definition fnv_1a_ref :: "u8 list \<Rightarrow> u32 \<Rightarrow> u32" where
  "fnv_1a_ref bs hval = foldl (\<lambda>hval b. (hval XOR ucast b) * 0x01000193) hval bs"

lemma fnv_32_buf_ref: "fnv_32_buf bs h = fnv_1_ref bs h"
  by (induction bs h rule: fnv_32_buf.induct) (simp_all add: fnv_1_ref_def fnv_mult_eq mult.commute)

lemma fnv_32a_buf_ref: "fnv_32a_buf bs h = fnv_1a_ref bs h"
  by (induction bs h rule: fnv_32a_buf.induct) (simp_all add: fnv_1a_ref_def fnv_mult_eq mult.commute)

lemma fnv_32a_str_buf: "fnv_32a_str bs h = fnv_32a_buf (takeWhile (\<lambda>b. b \<noteq> 0) bs) h"
  by (induction bs h rule: fnv_32a_str.induct) simp_all

text \<open>
  The shift-and-add forms of the FNV hashes compute the FNV-1 and FNV-1a hashes defined
  with the multiplication by the 32-bit FNV prime, for every buffer and seed, and the string
  variant hashes the bytes before the terminating zero.
\<close>

theorem fnv_shift_correct:
  "fnv_32_buf bs h = fnv_1_ref bs h \<and> fnv_32a_buf bs h = fnv_1a_ref bs h
     \<and> fnv_32a_str bs h = fnv_1a_ref (takeWhile (\<lambda>b. b \<noteq> 0) bs) h"
  by (simp add: fnv_32_buf_ref fnv_32a_buf_ref fnv_32a_str_buf)

section \<open>Injectivity on four-byte keys\<close>

lemma xorshift_inject:
  fixes x y :: "'a::len word"
  assumes "x XOR drop_bit k x = y XOR drop_bit k y" "0 < k"
  shows "x = y"
proof (rule bit_word_eqI)
  have step: "(bit x i \<noteq> bit x (i + k)) = (bit y i \<noteq> bit y (i + k))" if "i < LENGTH('a)" for i
    using arg_cong [OF assms(1), of "\<lambda>w. bit w i"] that by (simp add: bit_simps add.commute)
  fix i assume "i < LENGTH('a)"
  then show "bit x i = bit y i"
  proof (induction "LENGTH('a) - i" arbitrary: i rule: less_induct)
    case less
    show ?case
    proof (cases "i + k < LENGTH('a)")
      case True
      then have "bit x (i + k) = bit y (i + k)"
        using less.hyps [of "i + k"] less.prems assms(2) by simp
      then show ?thesis using step [OF less.prems] by blast
    next
      case False
      then have "\<not> bit x (i + k)" "\<not> bit y (i + k)"
        by (auto dest: bit_imp_le_length)
      then show ?thesis using step [OF less.prems] by blast
    qed
  qed
qed

lemma xorshift_eq_iff: "0 < k \<Longrightarrow> x XOR drop_bit k x = y XOR drop_bit k (y :: 'a::len word) \<longleftrightarrow> x = y"
  using xorshift_inject by blast

lemma mult_odd_eq_iff:
  fixes c d x y :: "'a::len word"
  assumes "c * d = 1"
  shows "x * c = y * c \<longleftrightarrow> x = y"
  using assms by (metis mult.assoc mult.right_neutral)

lemma murmur_m_inverse: "(0x5bd1e995 :: u32) * 0xe59b19bd = 1"
  by simp

lemma xor_left_eq_iff: "z XOR x = z XOR y \<longleftrightarrow> x = (y :: 'a::len word)"
  by (metis xor.assoc xor_self_eq xor.left_neutral)

lemmas mix_eq_iff = xorshift_eq_iff mult_odd_eq_iff [OF murmur_m_inverse] xor_left_eq_iff

lemma mm2_loop_word: "mm2_loop (bytes32 k) h =
   (h * 0x5bd1e995) XOR ((k * 0x5bd1e995 XOR drop_bit 24 (k * 0x5bd1e995)) * 0x5bd1e995)"
  by (simp add: bytes32_def Let_def)

text \<open>
  On four-byte keys (the IPv4 addresses they are used on) \<open>MurmurHash2\<close> with any seed
  and \<open>mm2\<close> are injective: two addresses never share a 32-bit hash.
\<close>

theorem murmur_inject_ip:
  "(MurmurHash2 (bytes32 ip1) seed = MurmurHash2 (bytes32 ip2) seed) = (ip1 = ip2)
     \<and> (mm2 (bytes32 ip1) = mm2 (bytes32 ip2)) = (ip1 = ip2)"
  by (simp only: MurmurHash2_def mm2_def Let_def mm2_loop_word mix_eq_iff length_bytes32
      zero_less_numeral simp_thms)

end
