(* ===== verification/Bloom.thy ===== *)
theory Bloom
  imports Hashes
begin

text \<open>
  The bit vector of \<open>examples/common/bitutil.c\<close> and the Bloom filter of
  \<open>examples/common/bloom.c\<close>, with which the switch agent remembers the clients that have
  returned a valid cookie.  An index outside \<open>size\<close> makes the C code exit; an access
  outside the allocated words is undefined behaviour.  Both are error values.  Allocation
  failures (which also exit) and \<open>free\<close> are not modelled.
\<close>

section \<open>Bit vectors\<close>

record bit_vect =
  words :: "u32 list"
  bit_size :: nat

datatype bv_error = BvExit | BvFault

definition bit_vect_new :: "nat \<Rightarrow> bit_vect" where
  "bit_vect_new num_bits =
     (let mem_size = num_bits div 32;
          mem_size = (if num_bits mod 32 = 0 then mem_size + 1 else mem_size)
      in \<lparr>words = replicate mem_size 0, bit_size = num_bits\<rparr>)"

definition bit_vect_get :: "bit_vect \<Rightarrow> nat \<Rightarrow> bv_error + bool" where
  "bit_vect_get vect bit_idx =
     (if bit_idx \<ge> bit_size vect then Inl BvExit
      else
        (let chunk_offset = bit_idx div 32;
             bit_offset = unat ((of_nat bit_idx :: u64) AND 31)
         in if chunk_offset \<ge> length (words vect) then Inl BvFault
            else Inr (drop_bit bit_offset (words vect ! chunk_offset) AND 1 \<noteq> 0)))"

definition bit_vect_set :: "bit_vect \<Rightarrow> nat \<Rightarrow> bool \<Rightarrow> bv_error + bit_vect" where
  "bit_vect_set vect bit_idx val =
     (if bit_idx \<ge> bit_size vect then Inl BvExit
      else
        (let chunk_offset = bit_idx div 32;
             bit_offset = unat ((of_nat bit_idx :: u64) AND 31)
         in if chunk_offset \<ge> length (words vect) then Inl BvFault
            else
              (let w = words vect ! chunk_offset;
                   w = (if val then w OR push_bit bit_offset 1 else w AND NOT (push_bit bit_offset 1))
               in Inr (vect\<lparr>words := (words vect)[chunk_offset := w]\<rparr>))))"

definition bit_vect_set1 :: "bit_vect \<Rightarrow> nat \<Rightarrow> bv_error + bit_vect" where
  "bit_vect_set1 vect bit_idx = bit_vect_set vect bit_idx True"

definition bit_vect_set0 :: "bit_vect \<Rightarrow> nat \<Rightarrow> bv_error + bit_vect" where
  "bit_vect_set0 vect bit_idx = bit_vect_set vect bit_idx False"

section \<open>Bloom filters\<close>

record bloom_filter =
  vect :: bit_vect
  hash_functions :: "(u8 list \<Rightarrow> u32) list"
  num_items :: nat

definition bloom_filter_new :: "nat \<Rightarrow> (u8 list \<Rightarrow> u32) list \<Rightarrow> bloom_filter" where
  "bloom_filter_new sz fs = \<lparr>vect = bit_vect_new sz, hash_functions = fs, num_items = 0\<rparr>"

definition bloom_filter_new_default :: "nat \<Rightarrow> bloom_filter" where
  "bloom_filter_new_default sz = bloom_filter_new sz [djb2, sdbm]"

text \<open>The loops over the hash functions; \<open>cur_hash % size\<close> with size 0 is a fault.\<close>

fun put_loop :: "(u8 list \<Rightarrow> u32) list \<Rightarrow> u8 list \<Rightarrow> bit_vect \<Rightarrow> nat \<Rightarrow> bv_error + (bit_vect \<times> nat)" where
  "put_loop [] d v n = Inr (v, n)"
| "put_loop (f # fs) d v n =
     (if bit_size v = 0 then Inl BvFault
      else case bit_vect_set1 v (unat (f d) mod bit_size v) of
             Inl e \<Rightarrow> Inl e
           | Inr v' \<Rightarrow> put_loop fs d v' (n + 1))"

definition bloom_filter_put :: "bloom_filter \<Rightarrow> u8 list \<Rightarrow> bv_error + bloom_filter" where
  "bloom_filter_put flt d =
     (case put_loop (hash_functions flt) d (vect flt) (num_items flt) of
        Inl e \<Rightarrow> Inl e
      | Inr (v, n) \<Rightarrow> Inr (flt\<lparr>vect := v, num_items := n\<rparr>))"

fun test_loop :: "(u8 list \<Rightarrow> u32) list \<Rightarrow> u8 list \<Rightarrow> bit_vect \<Rightarrow> bv_error + bool" where
  "test_loop [] d v = Inr True"
| "test_loop (f # fs) d v =
     (if bit_size v = 0 then Inl BvFault
      else case bit_vect_get v (unat (f d) mod bit_size v) of
             Inl e \<Rightarrow> Inl e
           | Inr b \<Rightarrow> if \<not> b then Inr False else test_loop fs d v)"

definition bloom_filter_test :: "bloom_filter \<Rightarrow> u8 list \<Rightarrow> bv_error + bool" where
  "bloom_filter_test flt d = test_loop (hash_functions flt) d (vect flt)"

definition bloom_filter_put_str :: "bloom_filter \<Rightarrow> u8 list \<Rightarrow> bv_error + bloom_filter" where
  "bloom_filter_put_str flt str = bloom_filter_put flt (takeWhile (\<lambda>c. c \<noteq> 0) str)"

definition bloom_filter_test_str :: "bloom_filter \<Rightarrow> u8 list \<Rightarrow> bv_error + bool" where
  "bloom_filter_test_str flt str = bloom_filter_test flt (takeWhile (\<lambda>c. c \<noteq> 0) str)"

section \<open>The bit vector refines an array of booleans\<close>

text \<open>
  The interface the filter relies on: within the size every access succeeds, a write is seen
  by later reads of the same index only.
\<close>

locale bit_array =
  fixes get :: "'v \<Rightarrow> nat \<Rightarrow> 'e + bool" and set1 :: "'v \<Rightarrow> nat \<Rightarrow> 'e + 'v"
    and len :: "'v \<Rightarrow> nat" and inv :: "'v \<Rightarrow> bool"
  assumes get_ok: "inv v \<Longrightarrow> i < len v \<Longrightarrow> \<exists>b. get v i = Inr b"
    and set1_ok: "inv v \<Longrightarrow> i < len v \<Longrightarrow> \<exists>v'. set1 v i = Inr v' \<and> inv v' \<and> len v' = len v"
    and get_set1: "inv v \<Longrightarrow> i < len v \<Longrightarrow> set1 v i = Inr v' \<Longrightarrow> j < len v \<Longrightarrow>
      get v' j = (if j = i then Inr True else get v j)"
begin

definition ones :: "'v \<Rightarrow> nat set" where
  "ones v = {i. i < len v \<and> get v i = Inr True}"

lemma ones_set1: "inv v \<Longrightarrow> i < len v \<Longrightarrow> set1 v i = Inr v' \<Longrightarrow> ones v' = insert i (ones v)"
  using set1_ok [of v i] get_set1 [of v i v'] by (auto simp: ones_def split: if_splits)

end

definition bv_ok :: "bit_vect \<Rightarrow> bool" where
  "bv_ok v \<longleftrightarrow> bit_size v \<le> 32 * length (words v) \<and> bit_size v < 2 ^ 64"

lemma bit_offset_mod:
  assumes "i < 2 ^ 64"
  shows "unat ((of_nat i :: u64) AND 31) = i mod 32"
proof -
  have "(of_nat i :: u64) AND 31 = take_bit 5 (of_nat i)"
    by (simp add: take_bit_eq_mask mask_eq_exp_minus_1)
  then show ?thesis
    using assms by (simp add: unsigned_take_bit_eq take_bit_eq_mod [where 'a = nat] unat_of_nat)
qed

lemma drop_bit_and_1: "(drop_bit k (w :: u32) AND 1 \<noteq> 0) = bit w k"
  by (simp add: and_one_eq bit_iff_odd_drop_bit odd_iff_mod_2_eq_one)

lemma bit_vect_get_eq:
  "bv_ok v \<Longrightarrow> i < bit_size v \<Longrightarrow> bit_vect_get v i = Inr (bit (words v ! (i div 32)) (i mod 32))"
  by (auto simp: bit_vect_get_def bv_ok_def Let_def bit_offset_mod drop_bit_and_1 not_le)

lemma bit_vect_set_eq:
  "bv_ok v \<Longrightarrow> i < bit_size v \<Longrightarrow>
     bit_vect_set v i b = Inr (v\<lparr>words := (words v)[i div 32 :=
       (if b then words v ! (i div 32) OR push_bit (i mod 32) 1
        else words v ! (i div 32) AND NOT (push_bit (i mod 32) 1))]\<rparr>)"
  by (auto simp: bit_vect_set_def bv_ok_def Let_def bit_offset_mod not_le)

lemma bit_vect_get_set:
  assumes "bv_ok v" "i < bit_size v" "bit_vect_set v i b = Inr v'" "j < bit_size v"
  shows "bit_vect_get v' j = (if j = i then Inr b else bit_vect_get v j)"
proof -
  have v': "bv_ok v'" "bit_size v' = bit_size v" and l: "i div 32 < length (words v)"
    using assms by (auto simp: bit_vect_set_eq bv_ok_def)
  have "bit (words v' ! (j div 32)) (j mod 32) =
      (if j = i then b else bit (words v ! (j div 32)) (j mod 32))"
  proof (cases "j div 32 = i div 32")
    case True
    then have "j mod 32 = i mod 32 \<longleftrightarrow> j = i"
      by (metis div_mult_mod_eq)
    then show ?thesis
      using assms(1-3) True l by (auto simp: bit_vect_set_eq bit_simps split: if_splits)
  next
    case False
    then show ?thesis
      using assms(1-3) by (auto simp: bit_vect_set_eq)
  qed
  then show ?thesis
    using assms v' by (simp add: bit_vect_get_eq)
qed

interpretation bv: bit_array bit_vect_get bit_vect_set1 bit_size bv_ok
proof
  show "bv_ok v \<Longrightarrow> i < bit_size v \<Longrightarrow> \<exists>b. bit_vect_get v i = Inr b" for v i
    by (simp add: bit_vect_get_eq)
  show "bv_ok v \<Longrightarrow> i < bit_size v \<Longrightarrow> \<exists>v'. bit_vect_set1 v i = Inr v' \<and> bv_ok v' \<and> bit_size v' = bit_size v" for v i
    by (simp add: bit_vect_set1_def bit_vect_set_eq) (simp add: bv_ok_def)
  show "bv_ok v \<Longrightarrow> i < bit_size v \<Longrightarrow> bit_vect_set1 v i = Inr v' \<Longrightarrow> j < bit_size v \<Longrightarrow>
      bit_vect_get v' j = (if j = i then Inr True else bit_vect_get v j)" for v i v' j
    by (simp add: bit_vect_set1_def bit_vect_get_set)
qed

text \<open>
  On a vector whose size fits its allocation, writing a bit within the size succeeds and
  changes exactly that bit.
\<close>

theorem bit_vect_roundtrip:
  assumes "bv_ok v" "i < bit_size v" "j < bit_size v"
  shows "\<exists>v'. bit_vect_set v i b = Inr v' \<and> bv_ok v'
     \<and> bit_vect_get v' j = (if j = i then Inr b else bit_vect_get v j)"
proof -
  obtain v' where v': "bit_vect_set v i b = Inr v'" "bv_ok v'"
    using assms by (simp add: bit_vect_set_eq bv_ok_def)
  then show ?thesis
    using bit_vect_get_set [OF assms(1,2) v'(1) assms(3)] by simp
qed

theorem bit_vect_roundtrip_witness:
  "\<exists>v'. bit_vect_set (bit_vect_new 64) 40 True = Inr v' \<and> bit_vect_get v' 40 = Inr True"
  using bit_vect_roundtrip [of "bit_vect_new 64" 40 40 True] by (auto simp: bv_ok_def bit_vect_new_def)

section \<open>The filter as an approximate set\<close>

text \<open>
  What the switch agent relies on: an element that was put tests positive from then on, and
  no operation fails.
\<close>

locale approx_set =
  fixes put :: "'f \<Rightarrow> 'd \<Rightarrow> 'e + 'f" and test :: "'f \<Rightarrow> 'd \<Rightarrow> 'e + bool" and inv :: "'f \<Rightarrow> bool"
  assumes put_ok: "inv f \<Longrightarrow> \<exists>f'. put f d = Inr f' \<and> inv f'"
    and test_ok: "inv f \<Longrightarrow> \<exists>b. test f d = Inr b"
    and test_put: "inv f \<Longrightarrow> put f d = Inr f' \<Longrightarrow> test f' d = Inr True"
    and put_mono: "inv f \<Longrightarrow> put f d = Inr f' \<Longrightarrow> test f d' = Inr True \<Longrightarrow> test f' d' = Inr True"
begin

fun put_all :: "'f \<Rightarrow> 'd list \<Rightarrow> 'e + 'f" where
  "put_all f [] = Inr f"
| "put_all f (d # ds) = (case put f d of Inl e \<Rightarrow> Inl e | Inr f' \<Rightarrow> put_all f' ds)"

lemma put_all_mono:
  "inv f \<Longrightarrow> test f d = Inr True \<Longrightarrow> put_all f ds = Inr f' \<Longrightarrow> test f' d = Inr True"
proof (induction ds arbitrary: f)
  case (Cons x ds)
  obtain f1 where "put f x = Inr f1" "inv f1" using put_ok [OF Cons.prems(1)] by blast
  then show ?case
    using Cons put_mono by simp
qed simp

lemma put_all_members:
  "inv f \<Longrightarrow> \<exists>f'. put_all f ds = Inr f' \<and> inv f' \<and> (\<forall>d \<in> set ds. test f' d = Inr True)"
proof (induction ds arbitrary: f)
  case (Cons x ds)
  obtain f1 where f1: "put f x = Inr f1" "inv f1" using put_ok [OF Cons.prems] by blast
  from Cons.IH [OF f1(2)] obtain f' where
    "put_all f1 ds = Inr f'" "inv f'" "\<forall>d \<in> set ds. test f' d = Inr True" by blast
  then show ?case
    using put_all_mono [OF f1(2) test_put [OF Cons.prems f1(1)]] f1(1) by auto
qed simp

end

text \<open>The bits a buffer selects.\<close>

definition slots :: "(u8 list \<Rightarrow> u32) list \<Rightarrow> u8 list \<Rightarrow> nat \<Rightarrow> nat set" where
  "slots fs d n = (\<lambda>f. unat (f d) mod n) ` set fs"

lemma put_loop_ones:
  assumes "bv_ok v" "0 < bit_size v"
  shows "\<exists>v'. put_loop fs d v n = Inr (v', n + length fs) \<and> bv_ok v' \<and> bit_size v' = bit_size v
     \<and> bv.ones v' = bv.ones v \<union> slots fs d (bit_size v)"
  using assms
proof (induction fs d v n rule: put_loop.induct)
  case (2 f fs d v n)
  let ?i = "unat (f d) mod bit_size v"
  have i: "?i < bit_size v" using 2 by simp
  obtain v1 where v1: "bit_vect_set1 v ?i = Inr v1" "bv_ok v1" "bit_size v1 = bit_size v"
    using bv.set1_ok [OF "2.prems"(1) i] by blast
  have "bv.ones v1 = insert ?i (bv.ones v)"
    using bv.ones_set1 [OF "2.prems"(1) i v1(1)] .
  then show ?case
    using "2.IH" [OF _ v1(1)] "2.prems" v1 by (fastforce simp: slots_def)
qed (simp add: slots_def)

lemma test_loop_ones:
  assumes "bv_ok v" "0 < bit_size v"
  shows "test_loop fs d v = Inr (slots fs d (bit_size v) \<subseteq> bv.ones v)"
  using assms
proof (induction fs d v rule: test_loop.induct)
  case (2 f fs d v)
  let ?i = "unat (f d) mod bit_size v"
  have i: "?i < bit_size v" using 2 by simp
  obtain b where b: "bit_vect_get v ?i = Inr b"
    using bv.get_ok [OF "2.prems"(1) i] by blast
  then have "?i \<in> bv.ones v \<longleftrightarrow> b"
    using i by (simp add: bv.ones_def)
  then show ?case
    using "2.IH" [OF _ b] "2.prems" b by (auto simp: slots_def)
qed (simp add: slots_def)

definition bloom_ok :: "bloom_filter \<Rightarrow> bool" where
  "bloom_ok flt \<longleftrightarrow> bv_ok (vect flt) \<and> 0 < bit_size (vect flt)"

lemma bloom_put_ones:
  assumes "bloom_ok flt"
  shows "\<exists>flt'. bloom_filter_put flt d = Inr flt' \<and> bloom_ok flt'
     \<and> hash_functions flt' = hash_functions flt \<and> bit_size (vect flt') = bit_size (vect flt)
     \<and> bv.ones (vect flt') = bv.ones (vect flt) \<union> slots (hash_functions flt) d (bit_size (vect flt))"
  using assms put_loop_ones [of "vect flt" "hash_functions flt" d "num_items flt"]
  by (auto simp: bloom_ok_def bloom_filter_put_def)

lemma bloom_test_ones:
  "bloom_ok flt \<Longrightarrow> bloom_filter_test flt d =
     Inr (slots (hash_functions flt) d (bit_size (vect flt)) \<subseteq> bv.ones (vect flt))"
  by (simp add: bloom_ok_def bloom_filter_test_def test_loop_ones)

interpretation bloom: approx_set bloom_filter_put bloom_filter_test bloom_ok
proof
  fix f d d' f'
  assume ok: "bloom_ok f"
  show "\<exists>f'. bloom_filter_put f d = Inr f' \<and> bloom_ok f'"
    using bloom_put_ones [OF ok] by blast
  show "\<exists>b. bloom_filter_test f d = Inr b"
    using bloom_test_ones [OF ok] by blast
  assume "bloom_filter_put f d = Inr f'"
  then have f': "bloom_ok f'" "hash_functions f' = hash_functions f" "bit_size (vect f') = bit_size (vect f)"
    "bv.ones (vect f') = bv.ones (vect f) \<union> slots (hash_functions f) d (bit_size (vect f))"
    using bloom_put_ones [OF ok, of d] by auto
  show "bloom_filter_test f' d = Inr True"
    using bloom_test_ones [OF f'(1)] f' by simp
  show "bloom_filter_test f d' = Inr True \<Longrightarrow> bloom_filter_test f' d' = Inr True"
    using bloom_test_ones [OF f'(1)] bloom_test_ones [OF ok] f' by auto
qed

text \<open>
  No false negatives.  After any sequence of insertions into a well-formed filter, all of
  which succeed, every inserted buffer tests positive, and so does every buffer that did before.
\<close>

theorem bloom_no_false_negatives:
  assumes "bloom_ok flt"
  shows "\<exists>flt'. bloom.put_all flt ds = Inr flt' \<and> bloom_ok flt'
     \<and> (\<forall>d \<in> set ds. bloom_filter_test flt' d = Inr True)
     \<and> (\<forall>d. bloom_filter_test flt d = Inr True \<longrightarrow> bloom_filter_test flt' d = Inr True)"
  using bloom.put_all_members [OF assms, of ds] bloom.put_all_mono [OF assms] by blast

lemma bit_vect_new_ok: "n mod 32 = 0 \<Longrightarrow> n < 2 ^ 64 \<Longrightarrow> bv_ok (bit_vect_new n)"
  by (auto simp: bv_ok_def bit_vect_new_def Let_def)

lemma bloom_new_ok: "n mod 32 = 0 \<Longrightarrow> 0 < n \<Longrightarrow> n < 2 ^ 64 \<Longrightarrow> bloom_ok (bloom_filter_new n fs)"
  using bit_vect_new_ok [of n] by (simp add: bloom_ok_def bloom_filter_new_def) (simp add: bit_vect_new_def)

theorem bloom_no_false_negatives_witness:
  "\<exists>flt'. bloom.put_all (bloom_filter_new 3145728 [djb2, sdbm, mm2]) [bytes32 0x0300120a] = Inr flt'
     \<and> bloom_filter_test flt' (bytes32 0x0300120a) = Inr True"
  using bloom_no_false_negatives [OF bloom_new_ok [of 3145728 "[djb2, sdbm, mm2]"], of "[bytes32 0x0300120a]"]
  by auto

lemma bv_ones_new: "n mod 32 = 0 \<Longrightarrow> n < 2 ^ 64 \<Longrightarrow> bv.ones (bit_vect_new n) = {}"
proof -
  assume n: "n mod 32 = 0" "n < 2 ^ 64"
  have w: "words (bit_vect_new n) = replicate (n div 32 + 1) 0" and sz: "bit_size (bit_vect_new n) = n"
    using n by (simp_all add: bit_vect_new_def Let_def)
  have "\<not> bit (words (bit_vect_new n) ! (x div 32)) (x mod 32)" if "x < n" for x
  proof -
    have "x div 32 < n div 32 + 1" using that div_le_mono [of x n 32] by simp
    then show ?thesis unfolding w by (simp del: replicate.simps)
  qed
  then show "bv.ones (bit_vect_new n) = {}"
    using bit_vect_new_ok [OF n] sz by (simp add: bv.ones_def bit_vect_get_eq)
qed

text \<open>
  The test is exact on the selected bits.  After inserting a list of buffers into a new
  filter whose size is a multiple of 32, a buffer tests positive exactly if each bit it selects
  was selected by one of the inserted buffers; in particular a new filter with at least one hash function rejects everything.
\<close>

theorem bloom_test_exact:
  assumes "n mod 32 = 0" "0 < n" "n < 2 ^ 64"
    and "bloom.put_all (bloom_filter_new n fs) ds = Inr flt"
  shows "bloom_filter_test flt d = Inr (slots fs d n \<subseteq> (\<Union>x \<in> set ds. slots fs x n))"
proof -
  have "bloom_filter_test flt d = Inr (slots fs d n \<subseteq> bv.ones (vect f0) \<union> (\<Union>x \<in> set ds. slots fs x n))"
    if "bloom_ok f0" "hash_functions f0 = fs" "bit_size (vect f0) = n" "bloom.put_all f0 ds = Inr flt" for f0
    using that
  proof (induction ds arbitrary: f0)
    case (Cons x ds)
    obtain f1 where "bloom_filter_put f0 x = Inr f1" "bloom_ok f1" "hash_functions f1 = fs"
      "bit_size (vect f1) = n" "bv.ones (vect f1) = bv.ones (vect f0) \<union> slots fs x n"
      using bloom_put_ones [OF Cons.prems(1), of x] Cons.prems(2,3) by auto
    then show ?case
      using Cons.IH [of f1] Cons.prems(4) by (simp add: Un_assoc)
  qed (simp add: bloom_test_ones)
  from this [OF bloom_new_ok [OF assms(1-3)] _ _ assms(4)] show ?thesis
    using assms(1-3) bv_ones_new by (simp add: bloom_filter_new_def) (simp add: bit_vect_new_def Let_def)
qed

theorem bloom_test_exact_witness:
  "bloom_filter_test (bloom_filter_new 64 [djb2]) [1] = Inr False"
  using bloom_test_exact [of 64 "[djb2]" "[]" "bloom_filter_new 64 [djb2]" "[1]"]
  by (simp add: slots_def)

section \<open>Sizes that are not a multiple of 32\<close>

text \<open>
  \<open>bit_vect_new\<close> rounds the number of words up exactly when it need not: for a size
  that is not a multiple of 32 the last bits have no memory, and writing the last one is an
  access outside the allocation.
\<close>

theorem bit_vect_new_short:
  assumes "n mod 32 \<noteq> 0" "n < 2 ^ 64"
  shows "\<not> bv_ok (bit_vect_new n) \<and> bit_vect_set (bit_vect_new n) (n - 1) b = Inl BvFault"
proof -
  have n: "n = 32 * (n div 32) + n mod 32" "n mod 32 < 32" "0 < n mod 32"
    using assms(1) by (simp, simp, blast)
  then have "32 * (n div 32) < n"
    by linarith
  moreover have "32 * (n div 32) \<le> n - 1" "n - 1 < 32 * (n div 32) + 32"
    using n by linarith+
  then have "(n - 1) div 32 = n div 32"
    by (intro div_nat_eqI) simp_all
  ultimately show ?thesis
    using assms by (simp add: bv_ok_def bit_vect_new_def bit_vect_set_def Let_def)
qed

theorem bit_vect_new_short_witness: "bit_vect_set (bit_vect_new 33) 32 True = Inl BvFault"
  using bit_vect_new_short [of 33 True] by simp

end
