(* ===== verification/Haraka.thy ===== *)
theory Haraka
  imports EC_Prelude
begin

text \<open>
  The hash of \<open>examples/common/haraka.c\<close>: the Haraka-256 permutation with feed-forward,
  folded to 32 bits, which the switch agents use as their default SYN cookie.  A 128-bit
  register is the tuple of its four 32-bit lanes, lowest first.  The AES round instruction
  (\<open>_mm_aesenc_si128\<close>) is a parameter; the results hold for any round function.
\<close>

section \<open>Registers and intrinsics\<close>

type_synonym m128 = "u32 \<times> u32 \<times> u32 \<times> u32"

definition mm_set_epi32 :: "u32 \<Rightarrow> u32 \<Rightarrow> u32 \<Rightarrow> u32 \<Rightarrow> m128" where
  "mm_set_epi32 e3 e2 e1 e0 = (e0, e1, e2, e3)"

fun mm_unpacklo_epi32 :: "m128 \<Rightarrow> m128 \<Rightarrow> m128" where
  "mm_unpacklo_epi32 (a0, a1, a2, a3) (b0, b1, b2, b3) = (a0, b0, a1, b1)"

fun mm_unpackhi_epi32 :: "m128 \<Rightarrow> m128 \<Rightarrow> m128" where
  "mm_unpackhi_epi32 (a0, a1, a2, a3) (b0, b1, b2, b3) = (a2, b2, a3, b3)"

fun mm_xor_si128 :: "m128 \<Rightarrow> m128 \<Rightarrow> m128" where
  "mm_xor_si128 (a0, a1, a2, a3) (b0, b1, b2, b3) = (a0 XOR b0, a1 XOR b1, a2 XOR b2, a3 XOR b3)"

fun mm_extract_epi64 :: "m128 \<Rightarrow> nat \<Rightarrow> u64" where
  "mm_extract_epi64 (a0, a1, a2, a3) i = (if i = 0 then mk64 a0 a1 else mk64 a2 a3)"

section \<open>The hash\<close>

definition rc :: "m128 list" where
  "rc =
    [mm_set_epi32 0x0684704c 0xe620c00a 0xb2c5fef0 0x75817b9d,
     mm_set_epi32 0x8b66b4e1 0x88f3a06b 0x640f6ba4 0x2f08f717,
     mm_set_epi32 0x3402de2d 0x53f28498 0xcf029d60 0x9f029114,
     mm_set_epi32 0x0ed6eae6 0x2e7b4f08 0xbbf3bcaf 0xfd5b4f79,
     mm_set_epi32 0xcbcfb0cb 0x4872448b 0x79eecd1c 0xbe397044,
     mm_set_epi32 0x7eeacdee 0x6e9032b7 0x8d5335ed 0x2b8a057b,
     mm_set_epi32 0x67c28f43 0x5e2e7cd0 0xe2412761 0xda4fef1b,
     mm_set_epi32 0x2924d9b0 0xafcacc07 0x675ffde2 0x1fc70b3b,
     mm_set_epi32 0xab4d63f1 0xe6867fe9 0xecdb8fca 0xb9d465ee,
     mm_set_epi32 0x1c30bf84 0xd4b7cd64 0x5b2a404f 0xad037e33,
     mm_set_epi32 0xb2cc0bb9 0x941723bf 0x69028b2e 0x8df69800,
     mm_set_epi32 0xfa0478a6 0xde6f5572 0x4aaa9ec8 0x5c9d2d8a,
     mm_set_epi32 0xdfb49f2b 0x6b772a12 0x0efa4f2e 0x29129fd4,
     mm_set_epi32 0x1ea10344 0xf449a236 0x32d611ae 0xbb6a12ee,
     mm_set_epi32 0xaf044988 0x4b050084 0x5f9600c9 0x9ca8eca6,
     mm_set_epi32 0x21025ed8 0x9d199c4f 0x78a2c7e3 0x27e593ec,
     mm_set_epi32 0xbf3aaaf8 0xa759c9b7 0xb9282ecd 0x82d40173,
     mm_set_epi32 0x6260700d 0x6186b017 0x37f2efd9 0x10307d6b,
     mm_set_epi32 0x5aca45c2 0x21300443 0x81c29153 0xf6fc9ac6,
     mm_set_epi32 0x9223973c 0x226b68bb 0x2caf92e8 0x36d1943a,
     mm_set_epi32 0xd3bf9238 0x225886eb 0x6cbab958 0xe51071b4,
     mm_set_epi32 0xdb863ce5 0xaef0c677 0x933dfddd 0x24e1128d,
     mm_set_epi32 0xbb606268 0xffeba09c 0x83e48de3 0xcb2212b1,
     mm_set_epi32 0x734bd3dc 0xe2e4d19c 0x2db91a4e 0xc72bf77d,
     mm_set_epi32 0x43bb47c3 0x61301b43 0x4b1415c4 0x2cb3924e,
     mm_set_epi32 0xdba775a8 0xe707eff6 0x03b231dd 0x16eb6899,
     mm_set_epi32 0x6df3614b 0x3c755977 0x8e5e2302 0x7eca472c,
     mm_set_epi32 0xcda75a17 0xd6de7d77 0x6d1be5b9 0xb88617f9,
     mm_set_epi32 0xec6b43f0 0x6ba8e9aa 0x9d6c069d 0xa946ee5d,
     mm_set_epi32 0xcb1e6950 0xf957332b 0xa2531159 0x3bf327c1,
     mm_set_epi32 0x2cee0c75 0x00da619c 0xe4ed0353 0x600ed0d9,
     mm_set_epi32 0xf0b1a5a1 0x96e90cab 0x80bbbabc 0x63a4a350,
     mm_set_epi32 0xae3db102 0x5e962988 0xab0dde30 0x938dca39,
     mm_set_epi32 0x17bb8f38 0xd554a40b 0x8814f3a8 0x2e75b442,
     mm_set_epi32 0x34bb8a5b 0x5f427fd7 0xaeb6b779 0x360a16f6,
     mm_set_epi32 0x26f65241 0xcbe55438 0x43ce5918 0xffbaafde,
     mm_set_epi32 0x4ce99a54 0xb9f3026a 0xa2ca9cf7 0x839ec978,
     mm_set_epi32 0xae51a51a 0x1bdff7be 0x40c06e28 0x22901235,
     mm_set_epi32 0xa0c1613c 0xba7ed22b 0xc173bc0f 0x48a659cf,
     mm_set_epi32 0x756acc03 0x02288288 0x4ad6bdfd 0xe9c59da1]"

definition AES2 :: "(m128 \<Rightarrow> m128 \<Rightarrow> m128) \<Rightarrow> nat \<Rightarrow> m128 \<times> m128 \<Rightarrow> m128 \<times> m128" where
  "AES2 aesenc rci = (\<lambda>(s0, s1).
     let s0 = aesenc s0 (rc ! rci);
         s1 = aesenc s1 (rc ! (rci + 1));
         s0 = aesenc s0 (rc ! (rci + 2));
         s1 = aesenc s1 (rc ! (rci + 3))
     in (s0, s1))"

definition MIX2 :: "m128 \<times> m128 \<Rightarrow> m128 \<times> m128" where
  "MIX2 = (\<lambda>(s0, s1).
     let tmp = mm_unpacklo_epi32 s0 s1;
         s1 = mm_unpackhi_epi32 s0 s1;
         s0 = tmp
     in (s0, s1))"

definition haraka256 :: "(m128 \<Rightarrow> m128 \<Rightarrow> m128) \<Rightarrow> m128 \<times> m128 \<Rightarrow> u32" where
  "haraka256 aesenc inp =
     (let s = inp;
          s = AES2 aesenc 0 s; s = MIX2 s;
          s = AES2 aesenc 4 s; s = MIX2 s;
          s = AES2 aesenc 8 s; s = MIX2 s;
          s = AES2 aesenc 12 s; s = MIX2 s;
          s = AES2 aesenc 16 s; s = MIX2 s;
          s0 = mm_xor_si128 (fst s) (fst inp);
          s1 = mm_xor_si128 (snd s) (snd inp);
          s0 = mm_xor_si128 s0 s1;
          tmp64 = mm_extract_epi64 s0 0 XOR mm_extract_epi64 s0 1;
          tmp32 = drop_bit 32 tmp64 XOR (tmp64 AND 0xffffffff)
      in ucast tmp32)"

section \<open>Folding\<close>

fun lanes_xor :: "m128 \<times> m128 \<Rightarrow> u32" where
  "lanes_xor ((a0, a1, a2, a3), (b0, b1, b2, b3)) =
     a0 XOR a1 XOR a2 XOR a3 XOR b0 XOR b1 XOR b2 XOR b3"

definition haraka_perm :: "(m128 \<Rightarrow> m128 \<Rightarrow> m128) \<Rightarrow> m128 \<times> m128 \<Rightarrow> m128 \<times> m128" where
  "haraka_perm aesenc s = fold (\<lambda>rci s. MIX2 (AES2 aesenc rci s)) [0, 4, 8, 12, 16] s"

lemma unat_mk64: "unat (mk64 lo hi) = unat lo + 4294967296 * unat hi"
proof -
  have u: "unat (ucast (x :: u32) :: u64) = unat x" for x
    using unat_u32_less [of x] by (simp add: unsigned_ucast_eq take_bit_nat_eq_self)
  have "unat lo + 4294967296 * unat hi < 18446744073709551616"
    using unat_u32_less [of lo] unat_u32_less [of hi] by linarith
  then show ?thesis
    by (simp add: mk64_def unat_word_ariths u)
qed

lemma mk64_parts: "ucast (mk64 lo hi) = lo" "ucast (drop_bit 32 (mk64 lo hi)) = hi"
  using unat_u32_less [of lo] unat_u32_less [of hi]
  by (simp_all add: word_unat_eq_iff unsigned_ucast_eq unsigned_drop_bit_eq take_bit_eq_mod [where 'a = nat]
      drop_bit_eq_div [where 'a = nat] unat_mk64)

lemma fold64: "(ucast (drop_bit 32 (x :: u64) XOR (x AND 0xffffffff)) :: u32) = ucast (drop_bit 32 x) XOR ucast x"
proof -
  have "x AND 0xffffffff = take_bit 32 x"
    by (simp add: take_bit_eq_mask mask_eq_exp_minus_1)
  then show ?thesis
    by (intro bit_word_eqI) (auto simp: bit_simps)
qed

lemma haraka256_eq:
  "haraka256 aesenc s = lanes_xor (haraka_perm aesenc s) XOR lanes_xor s"
proof -
  obtain a0 a1 a2 a3 b0 b1 b2 b3 where p: "haraka_perm aesenc s = ((a0, a1, a2, a3), (b0, b1, b2, b3))"
    by (metis prod_cases4 surj_pair)
  obtain c0 c1 c2 c3 d0 d1 d2 d3 where s: "s = ((c0, c1, c2, c3), (d0, d1, d2, d3))"
    by (metis prod_cases4 surj_pair)
  have x: "ucast (u XOR v) = (ucast u XOR ucast v :: u32)"
    "drop_bit 32 (u XOR v) = drop_bit 32 u XOR drop_bit 32 v" for u v :: u64
    by (rule bit_word_eqI, auto simp: bit_simps)+
  have "haraka256 aesenc s = (let t = haraka_perm aesenc s;
          s0 = mm_xor_si128 (mm_xor_si128 (fst t) (fst s)) (mm_xor_si128 (snd t) (snd s));
          tmp64 = mm_extract_epi64 s0 0 XOR mm_extract_epi64 s0 1
      in ucast (drop_bit 32 tmp64 XOR (tmp64 AND 0xffffffff)))"
    by (simp add: haraka256_def haraka_perm_def Let_def)
  also have "\<dots> = lanes_xor (haraka_perm aesenc s) XOR lanes_xor s"
    unfolding fold64 Let_def s p [unfolded s] by (simp add: x mk64_parts ac_simps)
  finally show ?thesis .
qed

end
