(* ===== verification/Switch_Agent.thy ===== *)
theory Switch_Agent
  imports Csum Tcp_Options Hsiphash Bloom Haraka
begin

text \<open>
  The switch agent, \<open>examples/htscookie/switch_agent_user.c\<close>: the packet processor that an
  xsknf worker calls for every frame.  It answers SYNs of unknown clients with a SYN cookie,
  checks the cookie of the client's ACK, resets the client once and remembers it in a Bloom
  filter, checks the hybrid cookie of later ACKs, and takes over seed changes that the server
  agent announces.  The globals are the record \<open>switch\<close>, what is fixed after start-up is
  the record \<open>switch_cfg\<close>; \<open>printf\<close> is not modelled.  A return value of \<open>-1\<close>
  drops the frame, other values are the order number of the output interface.  A frame is
  processed atomically: the workers' concurrent updates of the shared tables are not modelled.
\<close>

section \<open>State and configuration\<close>

datatype hash_options = HASH_OFF | HARAKA | HSIPHASH
datatype tcpcsum_options = CSUM_OFF | CSUM_ON
datatype timestamp_options = TS_OFF | TS_ON

record pkt_5tuple =
  t5_src_ip :: u32
  t5_dst_ip :: u32
  t5_src_port :: u16
  t5_dst_port :: u16
  salt :: "nat \<Rightarrow> u32"

record tcp_opt_ts =
  kind :: u8
  opt_length :: u8
  tsval :: u32
  tsecr :: u32

record common_synack_opt =
  MSS :: u32
  SackOK :: u16
  opt_ts :: tcp_opt_ts

record common_apache_opt =
  ap_MSS :: u32
  ap_SackOK :: u16
  ap_ts :: tcp_opt_ts
  nop :: u8
  wscale :: "u8 list"

record switch_cfg =
  opt_drop :: bool
  opt_forward :: bool
  opt_ab_test :: bool
  opt_pressure :: bool
  opt_change_key :: bool
  hash_option :: hash_options
  tcpcsum_option :: tcpcsum_options
  timestamp_option :: timestamp_options
  client_mac_64 :: u64
  server_mac_64 :: u64
  attacker_mac_64 :: u64
  client_r_mac_64 :: u64
  server_r_mac_64 :: u64
  attacker_r_mac_64 :: u64
  client_ip :: u32
  server_ip :: u32
  aesenc :: "m128 \<Rightarrow> m128 \<Rightarrow> m128"

record switch =
  flows :: "nat \<Rightarrow> pkt_5tuple"
  sa_opts :: "nat \<Rightarrow> common_synack_opt"
  sa_apache_opts :: "nat \<Rightarrow> common_apache_opt"
  sw_map_cookies :: "u16 \<Rightarrow> u16"
  sw_map_seeds :: "u16 \<Rightarrow> u32"
  change_key_duration :: u32
  bf :: bloom_filter
  syn_cache :: "nat \<Rightarrow> u32"

text \<open>
  The three arrays of per-worker data have 16 entries (``at most 16 workers'').  The C code does not
  check the worker number: what it does beyond the end of an array is undefined, and the error value
  \<open>BvFault\<close>, an access outside an object, stands for it.
\<close>

definition PER_WORKER :: nat where [simp]: "PER_WORKER = 16"

text \<open>The packed structures in memory.\<close>

definition ts_bytes :: "tcp_opt_ts \<Rightarrow> u8 list" where
  "ts_bytes t = [kind t, opt_length t] @ bytes32 (tsval t) @ bytes32 (tsecr t)"

definition synack_opt_bytes :: "common_synack_opt \<Rightarrow> u8 list" where
  "synack_opt_bytes opt =
     bytes32 (MSS opt) @ [byte 0 (SackOK opt), byte 1 (SackOK opt)] @ ts_bytes (opt_ts opt)"

definition apache_opt_bytes :: "common_apache_opt \<Rightarrow> u8 list" where
  "apache_opt_bytes opt =
     bytes32 (ap_MSS opt) @ [byte 0 (ap_SackOK opt), byte 1 (ap_SackOK opt)] @ ts_bytes (ap_ts opt)
       @ [nop opt] @ wscale opt"

definition flow_words :: "pkt_5tuple \<Rightarrow> m128 \<times> m128" where
  "flow_words f =
     ((t5_src_ip f, t5_dst_ip f, ucast (t5_src_port f) OR push_bit 16 (ucast (t5_dst_port f)), salt f 0),
      (salt f 1, salt f 2, salt f 3, salt f 4))"

section \<open>Initialisation\<close>

text \<open>\<open>rand\<close> is the sequence of results of the library's random numbers.\<close>

definition init_salt :: "(nat \<Rightarrow> u32) \<Rightarrow> nat \<Rightarrow> switch \<Rightarrow> switch" where
  "init_salt rand workers st =
     foldl (\<lambda>st (j, i). st\<lparr>flows := (flows st)(i := (flows st i)\<lparr>salt := (salt (flows st i))
         (j := rand (j * workers + i) AND 0xffffffff)\<rparr>)\<rparr>)
       st (List.product [0..<5] [0..<workers])"

definition init_saopts :: "nat \<Rightarrow> switch \<Rightarrow> switch" where
  "init_saopts workers st =
     foldl (\<lambda>st i. st\<lparr>sa_opts := (sa_opts st)(i := (sa_opts st i)\<lparr>MSS := 0x18020402, SackOK := 0x0204,
         opt_ts := (opt_ts (sa_opts st i))\<lparr>tsval := TS_START, kind := 8, opt_length := 10\<rparr>\<rparr>)\<rparr>)
       st [0..<workers]"

definition init_sa_apache_opts :: "nat \<Rightarrow> switch \<Rightarrow> switch" where
  "init_sa_apache_opts workers st =
     foldl (\<lambda>st i. st\<lparr>sa_apache_opts := (sa_apache_opts st)(i := (sa_apache_opts st i)\<lparr>ap_MSS := 0xb4050402,
         ap_SackOK := 0x0204,
         ap_ts := (ap_ts (sa_apache_opts st i))\<lparr>tsval := 0, tsecr := 0, kind := 8, opt_length := 10\<rparr>,
         nop := 1, wscale := [3, 3, 7]\<rparr>)\<rparr>)
       st [0..<workers]"

definition init_global_maps :: "switch \<Rightarrow> switch" where
  "init_global_maps st = st\<lparr>sw_map_cookies := (\<lambda>i. i), sw_map_seeds := (\<lambda>i. ucast i)\<rparr>"

definition sw_init :: "(nat \<Rightarrow> u32) \<Rightarrow> nat \<Rightarrow> switch \<Rightarrow> switch" where
  "sw_init rand workers st =
     (let st = init_global_maps st;
          st = init_salt rand workers st;
          st = init_saopts workers st;
          st = init_sa_apache_opts workers st
      in st\<lparr>bf := bloom_filter_new 3145728 [djb2, sdbm, mm2]\<rparr>)"

section \<open>Helpers of the processor\<close>

definition CLIENT_R_IF_ORDER :: int where "CLIENT_R_IF_ORDER = 0"
definition SERVER_R_IF_ORDER :: int where "SERVER_R_IF_ORDER = 1"
definition ATTACKER_R_IF_ORDER :: int where "ATTACKER_R_IF_ORDER = 0"

definition mac_bytes :: "u64 \<Rightarrow> u8 list" where
  "mac_bytes mac = map (\<lambda>k. byte k mac) [0..<6]"

definition forward :: "switch_cfg \<Rightarrow> mem \<Rightarrow> nat \<Rightarrow> nat \<Rightarrow> int \<times> mem" where
  "forward cfg m eth ip =
     (if ip_daddr m ip = client_ip cfg then
        (let m = wr_bytes m (eth + 6) (mac_bytes (client_r_mac_64 cfg));
             m = wr_bytes m eth (mac_bytes (client_mac_64 cfg))
         in (CLIENT_R_IF_ORDER, m))
      else if ip_daddr m ip = server_ip cfg then
        (let m = wr_bytes m (eth + 6) (mac_bytes (server_r_mac_64 cfg));
             m = wr_bytes m eth (mac_bytes (server_mac_64 cfg))
         in (SERVER_R_IF_ORDER, m))
      else
        (let m = wr_bytes m (eth + 6) (mac_bytes (attacker_r_mac_64 cfg));
             m = wr_bytes m eth (mac_bytes (attacker_mac_64 cfg))
         in (ATTACKER_R_IF_ORDER, m)))"

definition sw_get_map_cookie :: "switch \<Rightarrow> u32 \<Rightarrow> u16" where
  "sw_get_map_cookie st ipaddr =
     (let seed_key = ucast (ipaddr AND 0xffff);
          cookie_key = ucast (MurmurHash2 (bytes32 ipaddr) (sw_map_seeds st seed_key))
      in sw_map_cookies st cookie_key)"

definition get_map_cookie_fnv :: "switch \<Rightarrow> u32 \<Rightarrow> u16" where
  "get_map_cookie_fnv st ipaddr =
     (let le_ip = ntohl ipaddr;
          seed_key = ucast (ipaddr AND 0xffff);
          cookie_key = fnv_32_buf (bytes32 le_ip) (sw_map_seeds st seed_key);
          cookie_key = htonl cookie_key
      in sw_map_cookies st (ucast (drop_bit 16 cookie_key)))"

definition get_map_cookie_sip :: "switch \<Rightarrow> u32 \<Rightarrow> u16" where
  "get_map_cookie_sip st ipaddr =
     (let seed_key = ucast (ipaddr AND 0xffff);
          cookie_key = hsiphash_ip ipaddr (ucast (sw_map_seeds st seed_key));
          cookie_key = drop_bit 16 cookie_key XOR (cookie_key AND 0xffff)
      in ucast cookie_key)"

text \<open>The slot of \<open>syn_cache\<close> of a source address.\<close>

definition cache_index :: "switch \<Rightarrow> u32 \<Rightarrow> nat" where
  "cache_index st saddr =
     unat (hsiphash_ip saddr (ucast (sw_map_seeds st (ucast (saddr AND 0xffff))))) mod 10000000"

text \<open>The SYN cookie, by the chosen hash function.\<close>

definition sw_hash :: "switch_cfg \<Rightarrow> switch \<Rightarrow> nat \<Rightarrow> mem \<Rightarrow> nat \<Rightarrow> nat \<Rightarrow> u32" where
  "sw_hash cfg st worker_id m ip tcp =
     (case hash_option cfg of
        HARAKA \<Rightarrow> haraka256 (aesenc cfg) (flow_words (flows st worker_id))
      | HSIPHASH \<Rightarrow> switch_hsiphash (ip_saddr m ip) (ip_daddr m ip) (tcp_source m tcp) (tcp_dest m tcp)
      | HASH_OFF \<Rightarrow> 0)"

definition set_doff :: "mem \<Rightarrow> nat \<Rightarrow> int \<Rightarrow> mem" where
  "set_doff m tcp d = st8 m (tcp + 12) ((m (tcp + 12) AND 0x0f) OR push_bit 4 (of_nat (nat (d mod 16))))"

text \<open>
  Growing or shrinking the TCP options to \<open>n\<close> bytes: new lengths in the IP and TCP headers
  and in \<open>*len\<close>, and the IP checksum.  The difference is a multiple of four, so the C
  division is exact.
\<close>

definition resize_options :: "nat \<Rightarrow> mem \<Rightarrow> u32 \<Rightarrow> u8 list \<Rightarrow> mem \<times> u32" where
  "resize_options n m len opt =
     (let ip = 14; tcp = 34; tcp_opt = 54;
          delta = int (20 + n) - int (tcp_doff m tcp * 4);
          old_ip_totlen = ip_tot_len m ip;
          new_ip_totlen = htons (ntohs (ip_tot_len m ip) + of_int delta);
          m = wr_bytes m tcp_opt opt;
          m = st16 m (ip + 2) new_ip_totlen;
          m = set_doff m tcp (int (tcp_doff m tcp) + delta div 4);
          len = len + of_int delta;
          ip_csum = NOT (csum_unfold (ip_check m ip));
          ip_csum = csum_add ip_csum (NOT (ucast old_ip_totlen));
          ip_csum = csum_add ip_csum (ucast new_ip_totlen);
          m = st16 m (ip + 10) (NOT (csum_fold ip_csum))
      in (m, len))"

type_synonym sw_result = "bv_error + (int \<times> switch \<times> mem \<times> u32)"

definition sw_drop :: "switch \<Rightarrow> mem \<Rightarrow> u32 \<Rightarrow> sw_result" where
  "sw_drop st m len = Inr (-1, st, m, len)"

definition sw_forward :: "switch_cfg \<Rightarrow> switch \<Rightarrow> mem \<Rightarrow> u32 \<Rightarrow> sw_result" where
  "sw_forward cfg st m len = (let (r, m) = forward cfg m 0 14 in Inr (r, st, m, len))"

section \<open>Inbound SYN\<close>

text \<open>The incremental checksum of the answer when the client's options are kept.\<close>

definition synack_csum ::
    "u16 \<Rightarrow> u32 \<Rightarrow> u32 \<Rightarrow> u32 \<Rightarrow> u32 \<Rightarrow> u32 \<Rightarrow> u16 \<Rightarrow> u16 \<Rightarrow> u16 \<Rightarrow> u16 \<Rightarrow> u16" where
  "synack_csum check rx_tsecr rx_seq hashcookie rx_ack new_ack old_win new_win rx_flag new_flag =
     (let tcp_csum = NOT (csum_unfold check);
          tcp_csum = csum_add tcp_csum TS_START;
          tcp_csum = csum_add tcp_csum (NOT rx_tsecr);
          tcp_csum = csum_add tcp_csum (NOT rx_seq);
          tcp_csum = csum_add tcp_csum hashcookie;
          tcp_csum = csum_add tcp_csum (NOT rx_ack);
          tcp_csum = csum_add tcp_csum new_ack;
          tcp_csum = csum_add tcp_csum (NOT (ucast old_win));
          tcp_csum = csum_add tcp_csum (ucast new_win);
          tcp_csum = csum_add tcp_csum (NOT (ucast rx_flag));
          tcp_csum = csum_add tcp_csum (ucast new_flag)
      in NOT (csum_fold tcp_csum))"

text \<open>
  Header fields of the SYN-ACK: exchanged addresses and ports, the cookie as sequence number,
  the client's sequence number acknowledged, a fixed window, both flags; then the checksum.
\<close>

definition sw_synack_header :: "switch_cfg \<Rightarrow> switch \<Rightarrow> nat \<Rightarrow> mem \<Rightarrow> u32 \<Rightarrow> mem" where
  "sw_synack_header cfg st worker_id m rx_tsecr =
     (let ip = 14; tcp = 34;
          m = swap32 m (ip + 12) (ip + 16);
          rx_seq = tcp_seq m tcp;
          hashcookie = sw_hash cfg st worker_id m ip tcp;
          m = st32 m (tcp + 4) hashcookie;
          rx_ack = tcp_ack_seq m tcp;
          m = st32 m (tcp + 8) (htonl (ntohl rx_seq + 1));
          m = swap16 m tcp (tcp + 2);
          old_win = tcp_window m tcp;
          m = st16 m (tcp + 14) (htons 502);
          rx_flag = ld16 m (tcp + 12);
          m = set_flag m tcp SYN True;
          m = set_flag m tcp ACK True;
          new_flag = ld16 m (tcp + 12)
      in if tcpcsum_option cfg = CSUM_ON then
           if opt_ab_test cfg then
             st16 m (tcp + 16)
               (synack_csum (tcp_check m tcp) rx_tsecr rx_seq hashcookie rx_ack (tcp_ack_seq m tcp)
                  old_win (tcp_window m tcp) rx_flag new_flag)
           else (let (m, c) = cksumTcp m ip tcp in st16 m (tcp + 16) c)
         else m)"

definition sw_syn_answer :: "switch_cfg \<Rightarrow> nat \<Rightarrow> switch \<Rightarrow> mem \<Rightarrow> u32 \<Rightarrow> nat \<Rightarrow> sw_result" where
  "sw_syn_answer cfg worker_id st m len ts =
     (let rx_tsval = ts_tsval m ts;
          rx_tsecr = ts_tsecr m ts;
          m = st32 m (ts + 6) rx_tsval;
          m = st32 m (ts + 2) TS_START;
          (st, m, len) =
            (if \<not> opt_ab_test cfg then
               (let o1 = sa_opts st worker_id;
                    o2 = o1\<lparr>opt_ts := (opt_ts o1)\<lparr>tsecr := rx_tsval\<rparr>\<rparr>;
                    st = st\<lparr>sa_opts := (sa_opts st)(worker_id := o2)\<rparr>;
                    (m, len) = resize_options 16 m len (synack_opt_bytes o2)
                in (st, m, len))
             else (st, m, len));
          m = sw_synack_header cfg st worker_id m rx_tsecr
      in if opt_pressure cfg then sw_drop st m len
         else sw_forward cfg st m len)"

definition sw_syn :: "switch_cfg \<Rightarrow> nat \<Rightarrow> switch \<Rightarrow> mem \<Rightarrow> u32 \<Rightarrow> sw_result" where
  "sw_syn cfg worker_id st m len =
     (let tcp_opt = 54;
          opt_ts_offset = (if timestamp_option cfg = TS_ON then parse_timestamp m 34 else Some 0)
      in case opt_ts_offset of
           None \<Rightarrow> sw_drop st m len
         | Some off \<Rightarrow>
             (let ts = tcp_opt + off
              in if ts + 10 > unat len then sw_drop st m len
                 else
                   (case bloom_filter_test (bf st) (bytes32 (ip_saddr m 14)) of
                      Inl e \<Rightarrow> Inl e
                    | Inr True \<Rightarrow>
                        (let index = cache_index st (ip_saddr m 14);
                             m = st32 m (ts + 6) (syn_cache st index);
                             st = st\<lparr>syn_cache := (syn_cache st)(index := 0)\<rparr>
                         in sw_forward cfg st m len)
                    | Inr False \<Rightarrow> sw_syn_answer cfg worker_id st m len ts)))"

section \<open>Inbound ACK\<close>

text \<open>The reset that a client gets back when its cookie is accepted for the first time.\<close>

definition sw_rst :: "mem \<Rightarrow> mem" where
  "sw_rst m =
     (let ip = 14; tcp = 34;
          old_flag = ld16 m (tcp + 12);
          m = set_flag m tcp RST True;
          m = set_flag m tcp ACK False;
          new_flag = ld16 m (tcp + 12);
          old_win = tcp_window m tcp;
          m = st16 m (tcp + 14) 0;
          old_ack = tcp_ack_seq m tcp;
          old_seq = tcp_seq m tcp;
          m = st32 m (tcp + 4) old_ack;
          m = st32 m (tcp + 8) (old_ack + 1);
          tcp_csum = NOT (csum_unfold (tcp_check m tcp));
          tcp_csum = csum_add tcp_csum (NOT (ucast old_flag));
          tcp_csum = csum_add tcp_csum (ucast new_flag);
          tcp_csum = csum_add tcp_csum (NOT (ucast old_win));
          tcp_csum = csum_add tcp_csum 0;
          tcp_csum = csum_add tcp_csum (NOT old_ack);
          tcp_csum = csum_add tcp_csum (tcp_ack_seq m tcp);
          tcp_csum = csum_add tcp_csum (NOT old_seq);
          tcp_csum = csum_add tcp_csum (tcp_seq m tcp);
          m = st16 m (tcp + 16) (NOT (csum_fold tcp_csum));
          m = swap16 m tcp (tcp + 2)
      in swap32 m (ip + 12) (ip + 16))"

text \<open>An ACK that echoes \<open>TS_START\<close>: check the SYN cookie.\<close>

definition sw_ack_start :: "switch_cfg \<Rightarrow> nat \<Rightarrow> switch \<Rightarrow> mem \<Rightarrow> u32 \<Rightarrow> nat \<Rightarrow> sw_result" where
  "sw_ack_start cfg worker_id st m len ts =
     (let ip = 14; tcp = 34;
          hashcookie = sw_hash cfg st worker_id m ip tcp
      in if htonl (ntohl (tcp_ack_seq m tcp) - 1) \<noteq> hashcookie then sw_drop st m len
         else
           (case bloom_filter_test (bf st) (bytes32 (ip_saddr m ip)) of
              Inl e \<Rightarrow> Inl e
            | Inr seen \<Rightarrow>
                (case (if \<not> seen then
                         (case bloom_filter_put (bf st) (bytes32 (ip_saddr m ip)) of
                            Inl e \<Rightarrow> Inl e
                          | Inr b \<Rightarrow>
                              Inr (st\<lparr>bf := b, syn_cache := (syn_cache st)
                                     (cache_index st (ip_saddr m ip) := hashcookie)\<rparr>, sw_rst m))
                       else Inr (st, m)) of
                   Inl e \<Rightarrow> Inl e
                 | Inr (st, m) \<Rightarrow>
                     (let (st, m, len) =
                        (if opt_ab_test cfg
                            \<and> int (unat (ntohs (ip_tot_len m ip))) - int (ip_ihl m ip * 4) - int (tcp_doff m tcp * 4) = 0
                         then
                           (let o1 = sa_apache_opts st worker_id;
                                o2 = o1\<lparr>ap_ts := (ap_ts o1)\<lparr>tsval := ts_tsval m ts, tsecr := ts_tsecr m ts\<rparr>\<rparr>;
                                st = st\<lparr>sa_apache_opts := (sa_apache_opts st)(worker_id := o2)\<rparr>;
                                (m, len) = resize_options 20 m len (apache_opt_bytes o2);
                                (m, c) = cksumTcp m ip tcp
                            in (st, st16 m (tcp + 16) c, len))
                         else (st, m, len))
                      in sw_forward cfg st m len))))"

text \<open>Any other ACK: the echoed hybrid cookie has to match.\<close>

definition hybrid_ok :: "switch_cfg \<Rightarrow> nat \<Rightarrow> switch \<Rightarrow> mem \<Rightarrow> nat \<Rightarrow> bool" where
  "hybrid_ok cfg worker_id st m ts =
     (let ip = 14; tcp = 34;
          hybrid_cookie = ntohl (ts_tsecr m ts)
      in if (hybrid_cookie AND 0xffff) = ucast (get_map_cookie_sip st (ip_saddr m ip)) then True
         else if change_key_duration st \<noteq> 0 \<or> opt_change_key cfg then
           (let hashcookie = sw_hash cfg st worker_id m ip tcp;
                hashcookie = drop_bit 16 hashcookie XOR (hashcookie AND 0xffff)
            in (drop_bit 16 hybrid_cookie AND 0x3fff) = (hashcookie AND 0x3fff))
         else False)"

definition sw_ack :: "switch_cfg \<Rightarrow> nat \<Rightarrow> switch \<Rightarrow> mem \<Rightarrow> u32 \<Rightarrow> sw_result" where
  "sw_ack cfg worker_id st m len =
     (case parse_timestamp m 34 of
        None \<Rightarrow> sw_drop st m len
      | Some off \<Rightarrow>
          (let ts = 54 + off
           in if ts + 10 > unat len then sw_drop st m len
              else if ts_tsecr m ts = TS_START \<and> \<not> tcp_syn m 34 then sw_ack_start cfg worker_id st m len ts
              else if hybrid_ok cfg worker_id st m ts then sw_forward cfg st m len
              else sw_drop st m len))"

section \<open>Outbound packets\<close>

definition sw_change_seed :: "switch \<Rightarrow> mem \<Rightarrow> switch" where
  "sw_change_seed st m =
     (let tcp = 34;
          cookie_key = tcp_source m tcp;
          new_cookie = tcp_dest m tcp;
          seed_key = tcp_window m tcp;
          new_hash_seed = tcp_seq m tcp;
          st = st\<lparr>sw_map_seeds := (sw_map_seeds st)(seed_key := new_hash_seed)\<rparr>;
          st = st\<lparr>change_key_duration := tcp_ack_seq m tcp\<rparr>
      in st\<lparr>sw_map_cookies := (sw_map_cookies st)(cookie_key := new_cookie)\<rparr>)"

definition sw_out_syn :: "switch_cfg \<Rightarrow> nat \<Rightarrow> switch \<Rightarrow> mem \<Rightarrow> u32 \<Rightarrow> sw_result" where
  "sw_out_syn cfg worker_id st m len =
     (case parse_timestamp m 34 of
        None \<Rightarrow> sw_drop st m len
      | Some off \<Rightarrow>
          (let ts = 54 + off
           in if ts + 10 > unat len then sw_drop st m len
              else if worker_id \<ge> PER_WORKER then Inl BvFault
              else
                (let hashcookie = haraka256 (aesenc cfg) (flow_words (flows st worker_id));
                     hashcookie = drop_bit 16 hashcookie XOR (hashcookie AND 0xffff);
                     fastcookie = ucast (get_map_cookie_sip st (ip_daddr m 14)) :: u32;
                     hybrid_cookie = push_bit 16 hashcookie OR fastcookie;
                     old_ts_val = ts_tsval m ts;
                     m = st32 m (ts + 2) (htonl hybrid_cookie);
                     tcp_csum = NOT (csum_unfold (tcp_check m 34));
                     tcp_csum = csum_add tcp_csum (NOT old_ts_val);
                     tcp_csum = csum_add tcp_csum (ts_tsval m ts);
                     m = st16 m (34 + 16) (NOT (csum_fold tcp_csum))
                 in sw_forward cfg st m len)))"

section \<open>The packet processor\<close>

definition xsknf_packet_processor ::
    "switch_cfg \<Rightarrow> switch \<Rightarrow> mem \<Rightarrow> u32 \<Rightarrow> nat \<Rightarrow> nat \<Rightarrow> sw_result" where
  "xsknf_packet_processor cfg st m len ingress_ifindex worker_id =
     (if opt_drop cfg then sw_drop st m len
      else
        (let ip = 14; tcp = 34
         in if eth_proto m 0 \<noteq> htons ETH_P_IP \<and> ip_protocol m ip \<noteq> IPPROTO_TCP then sw_drop st m len
            else if opt_forward cfg then sw_forward cfg st m len
            else if ingress_ifindex = 0 then
              if worker_id \<ge> PER_WORKER then Inl BvFault else
              (let st = st\<lparr>flows := (flows st)(worker_id := (flows st worker_id)\<lparr>t5_src_ip := ip_saddr m ip,
                     t5_dst_ip := ip_daddr m ip, t5_src_port := tcp_source m tcp,
                     t5_dst_port := tcp_source m tcp\<rparr>)\<rparr>
               in if tcp_syn m tcp \<and> \<not> tcp_ack m tcp then sw_syn cfg worker_id st m len
                  else if tcp_ack m tcp \<and> \<not> tcp_syn m tcp then sw_ack cfg worker_id st m len
                  else sw_forward cfg st m len)
            else if tcp_ece m tcp then sw_drop (sw_change_seed st m) m len
            else if tcp_syn m tcp \<and> \<not> tcp_ack m tcp then sw_out_syn cfg worker_id st m len
            else sw_forward cfg st m len))"

section \<open>A sample configuration\<close>

text \<open>The default options, the addresses of \<open>address.h\<close> and a trivial round function.\<close>

definition cfg0 :: switch_cfg where
  "cfg0 = \<lparr>opt_drop = False, opt_forward = False, opt_ab_test = False, opt_pressure = False,
     opt_change_key = False, hash_option = HARAKA, tcpcsum_option = CSUM_ON, timestamp_option = TS_ON,
     client_mac_64 = 0xcc12b3fefd3c, server_mac_64 = 0x24f5b0fefd3c, attacker_mac_64 = 0x0400b5fefd3c,
     client_r_mac_64 = 0x7cbbb3bae290, server_r_mac_64 = 0x7dbbb3bae290, attacker_r_mac_64 = 0x7cbbb3bae290,
     client_ip = 0x0300120a, server_ip = 0x0300130a, aesenc = mm_xor_si128\<rparr>"

definition switch0 :: switch where
  "switch0 = \<lparr>flows = (\<lambda>_. \<lparr>t5_src_ip = 0, t5_dst_ip = 0, t5_src_port = 0, t5_dst_port = 0, salt = (\<lambda>_. 0)\<rparr>),
     sa_opts = (\<lambda>_. \<lparr>MSS = 0, SackOK = 0, opt_ts = \<lparr>kind = 0, opt_length = 0, tsval = 0, tsecr = 0\<rparr>\<rparr>),
     sa_apache_opts = (\<lambda>_. \<lparr>ap_MSS = 0, ap_SackOK = 0,
       ap_ts = \<lparr>kind = 0, opt_length = 0, tsval = 0, tsecr = 0\<rparr>, nop = 0, wscale = [0, 0, 0]\<rparr>),
     sw_map_cookies = (\<lambda>_. 0), sw_map_seeds = (\<lambda>_. 0), change_key_duration = 0,
     bf = bloom_filter_new 64 [], syn_cache = (\<lambda>_. 0)\<rparr>"

end
