(* ===== verification/Switch_Proofs.thy ===== *)
theory Switch_Proofs
  imports Switch_Agent Samples
begin

text \<open>
  Correctness of the switch agent's packet processor: it never fails and touches only the
  front of the buffer, answers a SYN without keeping state, issues answers with valid TCP and
  IP checksums, accepts the cookies it issued and drops everything else.
\<close>

section \<open>User-space checksum updates\<close>

lemma user_start: "oc_eq (uint (NOT (csum_unfold c))) (- uint c)"
  using uint_not32 [of "csum_unfold c"] by simp

lemma user_fold: "oc_eq (uint c) x \<Longrightarrow> oc_eq (uint (NOT (csum_fold c))) (- x)"
  by (rule oc_eq_trans [OF uint_not16 oc_eq_uminus [OF oc_eq_trans [OF uint_csum_fold]]])

lemma uint_ucast_u16 [simp]: "uint (ucast (x :: u16) :: u32) = uint x"
  using uint_u16_less [of x] by (simp add: unsigned_ucast_eq take_bit_int_eq_self)

lemmas user_intros = user_fold user_csum.val_addI user_csum.val_add_notI user_start

lemma synack_csum_sum:
  "oc_eq (uint (synack_csum c e q h a a' w w' f f'))
     (uint c - (uint TS_START - uint e + (uint h - uint q) + (uint a' - uint a) + (uint w' - uint w)
        + (uint f' - uint f)))"
proof -
  have "oc_eq (uint (synack_csum c e q h a a' w w' f f'))
     (- (- uint c + uint TS_START - uint e - uint q + uint h - uint a + uint a'
         - uint (ucast w :: u32) + uint (ucast w' :: u32) - uint (ucast f :: u32) + uint (ucast f' :: u32)))"
    unfolding synack_csum_def Let_def by (intro user_intros)
  then show ?thesis
    by (simp add: algebra_simps)
qed

section \<open>Failure-free operation\<close>

lemma sw_forward_verdict: "\<exists>r m'. sw_forward cfg st m len = Inr (r, st, m', len) \<and> r \<in> {0, 1}"
  by (simp add: sw_forward_def forward_def Let_def CLIENT_R_IF_ORDER_def SERVER_R_IF_ORDER_def
      ATTACKER_R_IF_ORDER_def)

lemma sw_forward_Inr: "\<exists>r m'. sw_forward cfg st m len = Inr (r, st, m', len) \<and> 0 \<le> r"
  using sw_forward_verdict [of cfg st m len] by auto

text \<open>
  The outcome of a call that does not fail: the verdict is a drop or one of the two interfaces,
  and the filter is still well-formed.
\<close>

definition sw_fine :: "sw_result \<Rightarrow> bool" where
  "sw_fine res \<longleftrightarrow> (\<exists>r st m len. res = Inr (r, st, m, len) \<and> r \<in> {-1, 0, 1} \<and> bloom_ok (bf st))"

lemma sw_fine_simps [simp]:
  "sw_fine (sw_drop st m len) \<longleftrightarrow> bloom_ok (bf st)"
  "sw_fine (sw_forward cfg st m len) \<longleftrightarrow> bloom_ok (bf st)"
  "\<not> sw_fine (Inl e)"
  using sw_forward_verdict [of cfg st m len] by (auto simp: sw_fine_def sw_drop_def)

lemma sw_syn_fine: "bloom_ok (bf st) \<Longrightarrow> sw_fine (sw_syn cfg w st m len)"
  using bloom.test_ok [of "bf st" "bytes32 (ip_saddr m 14)"]
  by (auto simp: sw_syn_def sw_syn_answer_def Let_def split: option.splits bool.splits prod.splits)

lemma sw_ack_start_fine: "bloom_ok (bf st) \<Longrightarrow> sw_fine (sw_ack_start cfg w st m len ts)"
  using bloom.test_ok [of "bf st" "bytes32 (ip_saddr m 14)"]
    bloom.put_ok [of "bf st" "bytes32 (ip_saddr m 14)"]
  by (auto simp: sw_ack_start_def Let_def split: prod.splits sum.splits if_splits)

lemma sw_ack_fine: "bloom_ok (bf st) \<Longrightarrow> sw_fine (sw_ack cfg w st m len)"
  by (auto simp: sw_ack_def Let_def sw_ack_start_fine split: option.splits)

lemma sw_change_seed_bf [simp]: "bf (sw_change_seed st m) = bf st"
  by (simp add: sw_change_seed_def Let_def)

lemma processor_fine:
  "bloom_ok (bf st) \<Longrightarrow> w < PER_WORKER \<Longrightarrow> sw_fine (xsknf_packet_processor cfg st m len ifx w)"
  by (auto simp: xsknf_packet_processor_def Let_def sw_syn_fine sw_ack_fine sw_out_syn_def
      split: option.splits)

text \<open>
  The packet processor never exits and never accesses memory outside the filter's
  allocation or the per-worker arrays: from the filter built at start-up, every frame on each of
  the 16 workers that the arrays have room for is processed to a verdict, which is to drop the frame or to send it on the client's or the server's side, and
  the filter stays well-formed.
\<close>

theorem processor_never_fails:
  assumes "bloom_ok (bf st)" "w < PER_WORKER"
  shows "\<exists>r st' m' len'. xsknf_packet_processor cfg st m len ifx w = Inr (r, st', m', len')
     \<and> r \<in> {-1, 0, 1} \<and> bloom_ok (bf st')"
  using processor_fine [OF assms] by (simp add: sw_fine_def)

lemma sw_init_bf: "bloom_ok (bf (sw_init rand workers st))"
  by (simp add: sw_init_def Let_def bloom_new_ok)

theorem processor_never_fails_witness:
  "\<exists>r st' m' len'. xsknf_packet_processor cfg0 (sw_init (\<lambda>_. 7) 1 switch0) sample_syn 74 0 0
     = Inr (r, st', m', len')"
  using processor_never_fails [OF sw_init_bf, of 0] by fastforce

section \<open>The answer to a SYN\<close>

lemma set_flag_47 [simp]:
  "k < 8 \<Longrightarrow> bit (set_flag m 34 k v 47) j = (if j = k then v else bit (m 47) j)"
  using set_flag_flag [of k m 34 v j] by simp

lemma fst_cksumTcp [simp]: "fst (cksumTcp m ip tcp) = st16 m (tcp + 16) 0"
  by (simp add: cksumTcp_def Let_def)

lemma synack_header_fields:
  fixes cfg st w m e
  defines "M \<equiv> sw_synack_header cfg st w m e"
  shows "ip_saddr M 14 = ip_daddr m 14" "ip_daddr M 14 = ip_saddr m 14"
    "tcp_source M 34 = tcp_dest m 34" "tcp_dest M 34 = tcp_source m 34"
    "tcp_seq M 34 = sw_hash cfg st w (swap32 m 26 30) 14 34"
    "tcp_ack_seq M 34 = htonl (ntohl (tcp_seq m 34) + 1)" "tcp_syn M 34" "tcp_ack M 34"
    "M 46 = m 46" "i < 26 \<Longrightarrow> M i = m i" "54 \<le> i \<Longrightarrow> M i = m i"
  unfolding M_def sw_synack_header_def Let_def case_prod_unfold
  by (simp_all add: mem_simps swap32_eq swap16_eq)

lemma wr_bytes_in: "a \<le> i \<Longrightarrow> i < a + length bs \<Longrightarrow> wr_bytes m a bs i = bs ! (i - a)"
  by (simp add: wr_bytes_def)

lemma length_ts_bytes [simp]: "length (ts_bytes t) = 10"
  by (simp add: ts_bytes_def)

lemma length_synack_opt [simp]: "length (synack_opt_bytes opt) = 16"
  by (simp add: synack_opt_bytes_def)

lemma ld32_synack_opt:
  "ld32 (wr_bytes m 54 (synack_opt_bytes opt)) 62 = tsval (opt_ts opt)"
  "ld32 (wr_bytes m 54 (synack_opt_bytes opt)) 66 = tsecr (opt_ts opt)"
  by (simp_all add: ld32_def wr_bytes_in) (simp_all add: synack_opt_bytes_def ts_bytes_def bytes32_def)

text \<open>The effect of a resize on the headers.\<close>

lemma set_doff_doff: "tcp_doff (set_doff m tcp d) tcp = nat (d mod 16)"
proof -
  define k where "k = nat (d mod 16)"
  have lt: "k < 16" by (simp add: k_def nat_less_iff)
  let ?b = "m (tcp + 12)"
  have f: "?b AND 0x0f = take_bit 4 ?b"
    by (simp add: take_bit_eq_mask mask_eq_exp_minus_1)
  have "drop_bit 4 (take_bit 4 ?b OR push_bit 4 (of_nat k)) = (take_bit 4 (of_nat k) :: u8)"
    by (rule bit_word_eqI) (auto simp: bit_simps)
  moreover have "unat (take_bit 4 (of_nat k) :: u8) = k"
    using lt by (simp add: unsigned_take_bit_eq take_bit_eq_mod [where 'a = nat] unat_of_nat)
  ultimately show ?thesis
    by (simp only: set_doff_def st_same f k_def [symmetric])
qed

lemma set_doff_other [mem_simps]:
  "i < tcp + 12 \<Longrightarrow> set_doff m tcp d i = m i" "tcp + 12 < i \<Longrightarrow> set_doff m tcp d i = m i"
  by (simp_all add: set_doff_def mem_simps)

lemma ld_set_doff [mem_simps]:
  "b + 2 \<le> tcp + 12 \<Longrightarrow> ld16 (set_doff m tcp d) b = ld16 m b"
  "tcp + 12 < b \<Longrightarrow> ld16 (set_doff m tcp d) b = ld16 m b"
  "b + 4 \<le> tcp + 12 \<Longrightarrow> ld32 (set_doff m tcp d) b = ld32 m b"
  "tcp + 12 < b \<Longrightarrow> ld32 (set_doff m tcp d) b = ld32 m b"
  by (simp_all add: set_doff_def mem_simps)

lemma resize_fields:
  assumes "resize_options n m len opt = (m', len')" "length opt = n" "n mod 4 = 0" "n \<le> 40"
  shows "ld32 m' 26 = ld32 m 26" "ld32 m' 30 = ld32 m 30" "m' 14 = m 14" "m' 15 = m 15" "m' 23 = m 23"
    "ip_tot_len m' 14 = htons (ntohs (ip_tot_len m 14) + of_int (int (20 + n) - int (tcp_doff m 34 * 4)))"
    "ld16 m' 34 = ld16 m 34" "ld16 m' 36 = ld16 m 36" "ld32 m' 38 = ld32 m 38" "ld32 m' 42 = ld32 m 42"
    "tcp_doff m' 34 = (20 + n) div 4" "m' 47 = m 47"
    "len' = len + of_int (int (20 + n) - int (tcp_doff m 34 * 4))"
    "54 \<le> i \<Longrightarrow> m' i = wr_bytes m 54 opt i"
proof -
  have d: "(int (tcp_doff m 34) + (int (20 + n) - int (tcp_doff m 34 * 4)) div 4) mod 16 = int ((20 + n) div 4)"
  proof -
    obtain k where k: "n = 4 * k" using assms(3) by auto
    have "(int (20 + n) - int (tcp_doff m 34 * 4)) div 4 = int (5 + k) - int (tcp_doff m 34)"
      by (simp add: k)
    then show ?thesis using assms(4) by (simp add: k)
  qed
  show "ld32 m' 26 = ld32 m 26" "ld32 m' 30 = ld32 m 30" "m' 14 = m 14" "m' 15 = m 15" "m' 23 = m 23"
    "ip_tot_len m' 14 = htons (ntohs (ip_tot_len m 14) + of_int (int (20 + n) - int (tcp_doff m 34 * 4)))"
    "ld16 m' 34 = ld16 m 34" "ld16 m' 36 = ld16 m 36" "ld32 m' 38 = ld32 m 38" "ld32 m' 42 = ld32 m 42"
    "m' 47 = m 47" "len' = len + of_int (int (20 + n) - int (tcp_doff m 34 * 4))"
    "54 \<le> i \<Longrightarrow> m' i = wr_bytes m 54 opt i"
    using assms(1) by (auto simp: resize_options_def Let_def mem_simps)
  have "m' 46 = set_doff m 34 (int (tcp_doff m 34) + (int (20 + n) - int (tcp_doff m 34 * 4)) div 4) 46"
    using assms(1) by (auto simp: resize_options_def Let_def mem_simps set_doff_def)
  then show "tcp_doff m' 34 = (20 + n) div 4"
    using set_doff_doff [of m 34] d by simp
qed

lemma forward_mem:
  "12 \<le> i \<Longrightarrow> snd (forward cfg m 0 14) i = m i"
  "12 \<le> b \<Longrightarrow> ld16 (snd (forward cfg m 0 14)) b = ld16 m b"
  "12 \<le> b \<Longrightarrow> ld32 (snd (forward cfg m 0 14)) b = ld32 m b"
  by (simp_all add: forward_def Let_def mem_simps mac_bytes_def)

text \<open>The flow tuple of an inbound frame, with the worker's salt, and its cookie.\<close>

definition flow_of :: "switch \<Rightarrow> nat \<Rightarrow> mem \<Rightarrow> pkt_5tuple" where
  "flow_of st w m = (flows st w)\<lparr>t5_src_ip := ip_saddr m 14, t5_dst_ip := ip_daddr m 14,
     t5_src_port := tcp_source m 34, t5_dst_port := tcp_source m 34\<rparr>"

definition flow_cookie :: "switch_cfg \<Rightarrow> switch \<Rightarrow> nat \<Rightarrow> mem \<Rightarrow> u32" where
  "flow_cookie cfg st w m = haraka256 (aesenc cfg) (flow_words (flow_of st w m))"

definition enter :: "switch \<Rightarrow> nat \<Rightarrow> mem \<Rightarrow> switch" where
  "enter st w m = st\<lparr>flows := (flows st)(w := flow_of st w m)\<rparr>"

lemma enter_simps [simp]:
  "bf (enter st w m) = bf st" "syn_cache (enter st w m) = syn_cache st"
  "sw_map_seeds (enter st w m) = sw_map_seeds st" "sw_map_cookies (enter st w m) = sw_map_cookies st"
  "change_key_duration (enter st w m) = change_key_duration st" "sa_opts (enter st w m) = sa_opts st"
  "sa_apache_opts (enter st w m) = sa_apache_opts st"
  "flows (enter st w m) w = flow_of st w m"
  by (simp_all add: enter_def)

lemma flow_words_cong:
  "salt f = salt g \<Longrightarrow> t5_src_ip f = t5_src_ip g \<Longrightarrow> t5_dst_ip f = t5_dst_ip g \<Longrightarrow>
     t5_src_port f = t5_src_port g \<Longrightarrow> t5_dst_port f = t5_dst_port g \<Longrightarrow> flow_words f = flow_words g"
  by (simp add: flow_words_def)

lemma sw_hash_haraka:
  "hash_option cfg = HARAKA \<Longrightarrow> flows st w = flow_of st0 w m0 \<Longrightarrow>
     sw_hash cfg st w m ip tcp = flow_cookie cfg st0 w m0"
  by (simp add: sw_hash_def flow_cookie_def)

text \<open>A frame the processor acts on, with the processor in its normal mode.\<close>

definition active :: "switch_cfg \<Rightarrow> mem \<Rightarrow> bool" where
  "active cfg m \<longleftrightarrow> \<not> opt_drop cfg \<and> \<not> opt_forward cfg \<and> eth_proto m 0 = htons ETH_P_IP"

lemma processor_inbound:
  "active cfg m \<Longrightarrow> w < PER_WORKER \<Longrightarrow> xsknf_packet_processor cfg st m len 0 w =
     (if tcp_syn m 34 \<and> \<not> tcp_ack m 34 then sw_syn cfg w (enter st w m) m len
      else if tcp_ack m 34 \<and> \<not> tcp_syn m 34 then sw_ack cfg w (enter st w m) m len
      else sw_forward cfg (enter st w m) m len)"
  by (simp add: xsknf_packet_processor_def active_def enter_def flow_of_def Let_def)

text \<open>
  For a worker beyond the per-worker arrays an inbound frame is an access outside them; so a frame
  that was processed was on one of the first 16 workers.
\<close>

lemma processor_beyond:
  "active cfg m \<Longrightarrow> PER_WORKER \<le> w \<Longrightarrow> xsknf_packet_processor cfg st m len 0 w = Inl BvFault"
  by (simp add: xsknf_packet_processor_def active_def Let_def)

lemma processor_worker:
  "active cfg m \<Longrightarrow> xsknf_packet_processor cfg st m len 0 w = Inr x \<Longrightarrow> w < PER_WORKER"
  by (rule ccontr) (simp add: processor_beyond del: PER_WORKER_def)

text \<open>A client's SYN with a time stamp inside the frame.\<close>

definition syn_frame :: "mem \<Rightarrow> u32 \<Rightarrow> nat \<Rightarrow> bool" where
  "syn_frame m len off \<longleftrightarrow> tcp_syn m 34 \<and> \<not> tcp_ack m 34 \<and> parse_timestamp m 34 = Some off
     \<and> 54 + off + 10 \<le> unat len"

lemma processor_syn:
  assumes "active cfg m" "timestamp_option cfg = TS_ON" "syn_frame m len off"
    "bloom_filter_test (bf st) (bytes32 (ip_saddr m 14)) = Inr False" "w < PER_WORKER"
  shows "xsknf_packet_processor cfg st m len 0 w = sw_syn_answer cfg w (enter st w m) m len (54 + off)"
  using assms by (simp add: processor_inbound sw_syn_def syn_frame_def Let_def)

lemma syn_answer_fields:
  assumes r: "sw_syn_answer cfg w st m len ts = Inr (r, st', m', len')"
    and "54 \<le> ts" "\<not> opt_ab_test cfg" "\<not> opt_pressure cfg"
  defines "ob \<equiv> sa_opts st w"
  shows "ip_saddr m' 14 = ip_daddr m 14" "ip_daddr m' 14 = ip_saddr m 14"
    "tcp_source m' 34 = tcp_dest m 34" "tcp_dest m' 34 = tcp_source m 34"
    "tcp_ack_seq m' 34 = htonl (ntohl (tcp_seq m 34) + 1)" "tcp_syn m' 34" "tcp_ack m' 34"
    "tcp_doff m' 34 = 9" "ts_tsval m' 60 = tsval (opt_ts ob)" "ts_tsecr m' 60 = ts_tsval m ts"
    "ip_tot_len m' 14 = htons (ntohs (ip_tot_len m 14) + of_int (36 - int (tcp_doff m 34 * 4)))"
    "len' = len + of_int (36 - int (tcp_doff m 34 * 4))"
    "hash_option cfg = HARAKA \<Longrightarrow> tcp_seq m' 34 = haraka256 (aesenc cfg) (flow_words (flows st w))"
    "hash_option cfg = HSIPHASH \<Longrightarrow> tcp_seq m' 34 =
       switch_hsiphash (ip_daddr m 14) (ip_saddr m 14) (tcp_source m 34) (tcp_dest m 34)"
    "\<exists>x. st' = st\<lparr>sa_opts := (sa_opts st)(w := x)\<rparr>"
proof -
  define m1 where "m1 = st32 (st32 m (ts + 6) (ts_tsval m ts)) (ts + 2) TS_START"
  define o2 where "o2 = ob\<lparr>opt_ts := (opt_ts ob)\<lparr>tsecr := ts_tsval m ts\<rparr>\<rparr>"
  define st2 where "st2 = st\<lparr>sa_opts := (sa_opts st)(w := o2)\<rparr>"
  obtain m2 len2 where rs: "resize_options 16 m1 len (synack_opt_bytes o2) = (m2, len2)"
    by fastforce
  define m3 where "m3 = sw_synack_header cfg st2 w m2 (ts_tsecr m ts)"
  have res: "m' = snd (forward cfg m3 0 14)" "st' = st2" "len' = len2"
    using r assms(3,4) rs by (auto simp: sw_syn_answer_def Let_def m1_def o2_def ob_def st2_def m3_def
        sw_forward_def case_prod_unfold)
  have low: "ld32 m1 26 = ld32 m 26" "ld32 m1 30 = ld32 m 30" "ld16 m1 34 = ld16 m 34"
    "ld16 m1 36 = ld16 m 36" "ld32 m1 38 = ld32 m 38" "m1 46 = m 46" "ld16 m1 16 = ld16 m 16"
    using assms(2) by (simp_all add: m1_def mem_simps)
  note rf = resize_fields [OF rs length_synack_opt] and hf = synack_header_fields [where cfg = cfg and st = st2 and w = w and m = m2 and e = "ts_tsecr m ts"]
  have opt: "ld32 m2 62 = ld32 (wr_bytes m1 54 (synack_opt_bytes o2)) 62"
    "ld32 m2 66 = ld32 (wr_bytes m1 54 (synack_opt_bytes o2)) 66"
    by (simp_all add: ld32_def rf)
  have hi: "ld32 m3 62 = ld32 m2 62" "ld32 m3 66 = ld32 m2 66" "ld16 m3 16 = ld16 m2 16"
    using hf(10,11) by (simp_all add: m3_def ld32_def ld16_def)
  show "ip_saddr m' 14 = ip_daddr m 14" "ip_daddr m' 14 = ip_saddr m 14"
    "tcp_source m' 34 = tcp_dest m 34" "tcp_dest m' 34 = tcp_source m 34"
    "tcp_ack_seq m' 34 = htonl (ntohl (tcp_seq m 34) + 1)" "tcp_syn m' 34" "tcp_ack m' 34"
    "tcp_doff m' 34 = 9"
    using hf rf low by (simp_all add: res forward_mem m3_def)
  show "ts_tsval m' 60 = tsval (opt_ts ob)" "ts_tsecr m' 60 = ts_tsval m ts"
    using ld32_synack_opt [of m1 o2] by (simp_all add: res forward_mem hi opt o2_def)
  show "ip_tot_len m' 14 = htons (ntohs (ip_tot_len m 14) + of_int (36 - int (tcp_doff m 34 * 4)))"
    using rf(6) low by (simp add: res forward_mem hi)
  show "len' = len + of_int (36 - int (tcp_doff m 34 * 4))"
    using rf(13) low by (simp add: res)
  show "hash_option cfg = HARAKA \<Longrightarrow> tcp_seq m' 34 = haraka256 (aesenc cfg) (flow_words (flows st w))"
    using hf(5) by (simp add: res forward_mem m3_def sw_hash_def st2_def)
  show "hash_option cfg = HSIPHASH \<Longrightarrow> tcp_seq m' 34 =
       switch_hsiphash (ip_daddr m 14) (ip_saddr m 14) (tcp_source m 34) (tcp_dest m 34)"
    using hf(5) rf low by (simp add: res forward_mem m3_def sw_hash_def swap32_eq mem_simps)
  show "\<exists>x. st' = st\<lparr>sa_opts := (sa_opts st)(w := x)\<rparr>"
    by (auto simp: res st2_def)
qed

section \<open>Checksums of the answer\<close>

lemma ld32_ld16: "uint (ld32 m a) = uint (ld16 m a) + 65536 * uint (ld16 m (a + 2))"
  by (simp add: ld32_def ld16_def uint_mk32 uint_mk16 add.commute)

lemma resize_ip_csum:
  assumes "resize_options n m len opt = (m', len')" "ip_csum_ok m 14" "ip_ihl m 14 = 5"
  shows "ip_csum_ok m' 14"
proof -
  let ?o = "ip_tot_len m 14"
  let ?t = "htons (ntohs (ip_tot_len m 14) + of_int (int (20 + n) - int (tcp_doff m 34 * 4)))"
  define m1 where "m1 = wr_bytes m 54 opt"
  define m2 where "m2 = st16 m1 (14 + 2) ?t"
  define m3 where "m3 = set_doff m2 34
     (int (tcp_doff m2 34) + (int (20 + n) - int (tcp_doff m 34 * 4)) div 4)"
  have "sum_shift m m1 14 20 0"
    by (rule sum_shift_outside [OF sum_shift_refl]) (simp add: m1_def mem_simps)
  then have "sum_shift m m2 14 20 (0 + (uint ?t - uint ?o))"
    unfolding m2_def by (intro sum_shift_st16) (simp_all add: m1_def mem_simps)
  then have d: "sum_shift m m3 14 20 (0 + (uint ?t - uint ?o))"
    by (rule sum_shift_outside) (simp add: m3_def mem_simps)
  have "oc_eq (uint (NOT (csum_fold (csum_add (csum_add (NOT (csum_unfold (ip_check m 14)))
      (NOT (ucast ?o))) (ucast ?t)))))
      (- (- uint (ip_check m 14) - uint (ucast ?o :: u32) + uint (ucast ?t :: u32)))"
    by (intro user_intros)
  then have c: "oc_eq (uint (NOT (csum_fold (csum_add (csum_add (NOT (csum_unfold (ip_check m 14)))
      (NOT (ucast ?o))) (ucast ?t))))) (uint (ip_check m 14) - (0 + (uint ?t - uint ?o)))"
    by (simp add: algebra_simps)
  have keep: "ip_check m3 14 = ip_check m 14" "m3 14 = m 14"
    by (simp_all add: m1_def m2_def m3_def mem_simps)
  have "m' = st16 m3 (14 + 10) (NOT (csum_fold (csum_add (csum_add (NOT (csum_unfold (ip_check m 14)))
      (NOT (ucast ?o))) (ucast ?t))))"
    using assms(1) keep(1) by (simp add: resize_options_def Let_def m1_def m2_def m3_def)
  then show ?thesis
    using ip_csum_rewrite [OF assms(2,3) keep(2,1) d c] by simp
qed

lemma swap32_shift:
  assumes "a \<le> x" "x + 4 \<le> y" "y + 4 \<le> a + n" "even (x - a)" "even (y - a)"
  shows "sum_shift m (swap32 m x y) a n 0"
proof -
  have "sum_shift m (st32 (st32 m y (ld32 m x)) x (ld32 m y)) a n
      (0 + (uint (ld32 m x) - uint (ld32 m y)) + (uint (ld32 m y) - uint (ld32 m x)))"
    using assms by (intro shift_intros) (simp_all add: mem_simps)
  then show ?thesis using assms by (simp add: swap32_eq)
qed

lemma swap16_shift:
  assumes "a \<le> x" "x + 2 \<le> y" "y + 2 \<le> a + n" "even (x - a)" "even (y - a)"
  shows "sum_shift m (swap16 m x y) a n 0"
proof -
  have "sum_shift m (st16 (st16 m y (ld16 m x)) x (ld16 m y)) a n
      (0 + (uint (ld16 m x) - uint (ld16 m y)) + (uint (ld16 m y) - uint (ld16 m x)))"
    using assms by (intro shift_intros) (simp_all add: mem_simps)
  then show ?thesis using assms by (simp add: swap16_eq)
qed

lemma header_ip_csum:
  assumes "ip_csum_ok m 14" "ip_ihl m 14 = 5"
  shows "ip_csum_ok (sw_synack_header cfg st w m e) 14"
proof (rule ip_csum_ok_shift [OF assms])
  show "sw_synack_header cfg st w m e 14 = m 14"
    by (rule synack_header_fields) simp
  have "sum_shift m (swap32 m 26 30) 14 20 0"
    by (rule swap32_shift) simp_all
  then show "sum_shift m (sw_synack_header cfg st w m e) 14 20 0"
    by (rule sum_shift_outside)
      (simp add: sw_synack_header_def Let_def case_prod_unfold mem_simps swap16_eq)
qed

lemma forward_csum:
  "tcp_csum_ok m 14 34 \<Longrightarrow> tcp_csum_ok (snd (forward cfg m 0 14)) 14 34"
  "ip_csum_ok m 14 \<Longrightarrow> ip_csum_ok (snd (forward cfg m 0 14)) 14"
proof -
  show "tcp_csum_ok m 14 34 \<Longrightarrow> tcp_csum_ok (snd (forward cfg m 0 14)) 14 34"
    by (rule tcp_csum_ok_cong) (simp_all add: forward_mem)
  have "msum (snd (forward cfg m 0 14)) 14 n = msum m 14 n" for n
    by (rule msum_cong) (simp add: forward_mem)
  then show "ip_csum_ok m 14 \<Longrightarrow> ip_csum_ok (snd (forward cfg m 0 14)) 14"
    by (simp add: ip_csum_ok_def forward_mem)
qed

lemma header_tcp_csum:
  assumes "tcpcsum_option cfg = CSUM_ON" "\<not> opt_ab_test cfg" "ip_ihl m 14 = 5"
    "38 \<le> unat (ntohs (ip_tot_len m 14))"
  shows "tcp_csum_ok (sw_synack_header cfg st w m e) 14 34"
proof -
  obtain m1 where m1: "sw_synack_header cfg st w m e =
      st16 (fst (cksumTcp m1 14 34)) (34 + 16) (snd (cksumTcp m1 14 34))"
    "m1 14 = m 14" "ip_tot_len m1 14 = ip_tot_len m 14"
    using assms(1,2) by (simp add: sw_synack_header_def Let_def case_prod_unfold mem_simps swap32_eq swap16_eq)
  show ?thesis
    unfolding m1(1)
    by (rule cksumTcp_ok [of 14 34 m1, OF _ _ surjective_pairing]) (use assms(3,4) m1 in simp_all)
qed

lemma syn_answer_csum:
  assumes r: "sw_syn_answer cfg w st m len ts = Inr (r, st', m', len')"
    and "54 \<le> ts" "\<not> opt_ab_test cfg" "\<not> opt_pressure cfg" "tcpcsum_option cfg = CSUM_ON"
    "ip_ihl m 14 = 5" "tcp_doff m 34 * 4 + 20 \<le> unat (ntohs (ip_tot_len m 14))"
    "unat (ntohs (ip_tot_len m 14)) + 36 < 65536"
  shows "tcp_csum_ok m' 14 34" "ip_csum_ok m 14 \<Longrightarrow> ip_csum_ok m' 14"
proof -
  define m1 where "m1 = st32 (st32 m (ts + 6) (ts_tsval m ts)) (ts + 2) TS_START"
  obtain opt st2 m2 len2 where rs: "resize_options 16 m1 len (synack_opt_bytes opt) = (m2, len2)"
    and m': "m' = snd (forward cfg (sw_synack_header cfg st2 w m2 (ts_tsecr m ts)) 0 14)"
    using r assms(3,4) by (auto simp: sw_syn_answer_def Let_def m1_def sw_forward_def case_prod_unfold)
      (metis prod.collapse)
  have low: "m1 46 = m 46" "ld16 m1 16 = ld16 m 16" "m1 i = m i" if "i < 54" for i
    using assms(2) that by (simp_all add: m1_def mem_simps)
  have ihl: "ip_ihl m1 14 = 5" "ip_ihl m2 14 = 5"
    using assms(6) low(3) [of 14] resize_fields(3) [OF rs length_synack_opt] by simp_all
  let ?t = "unat (ntohs (ip_tot_len m 14)) + 36 - tcp_doff m 34 * 4"
  have "ntohs (ip_tot_len m2 14) = of_nat ?t"
    using resize_fields(6) [OF rs length_synack_opt] low(1,2) [of 14] assms(7)
    by (simp add: of_nat_diff algebra_simps)
  moreover have "unat (of_nat k :: u16) = k" if "k < 65536" for k
    using that by (simp add: unat_of_nat)
  ultimately have "unat (ntohs (ip_tot_len m2 14)) = ?t"
    using assms(8) by simp
  then have t: "38 \<le> unat (ntohs (ip_tot_len m2 14))"
    using assms(7) by linarith
  show "tcp_csum_ok m' 14 34"
    unfolding m' by (intro forward_csum header_tcp_csum assms(5,3) ihl t)
  assume "ip_csum_ok m 14"
  moreover have "msum m1 14 20 = msum m 14 20"
    by (rule msum_cong) (simp add: low)
  ultimately have "ip_csum_ok m1 14"
    using assms(6) ihl by (simp add: ip_csum_ok_def)
  then show "ip_csum_ok m' 14"
    unfolding m' by (intro forward_csum header_ip_csum resize_ip_csum [OF rs] ihl)
qed

text \<open>
  C7: a SYN of a client that the filter does not know is answered with a SYN-ACK to that
  client: addresses and ports exchanged, the keyed cookie of the flow as sequence number, the
  client's sequence number plus one acknowledged, the client's time stamp echoed, nine words
  of header.  Nothing about the connection is stored: the filter, the cookie cache and the
  seed tables are what they were.
\<close>

theorem syn_answered_stateless:
  assumes "active cfg m" "timestamp_option cfg = TS_ON" "hash_option cfg = HARAKA"
    and "\<not> opt_ab_test cfg" "\<not> opt_pressure cfg" and "syn_frame m len off"
    and "bloom_filter_test (bf st) (bytes32 (ip_saddr m 14)) = Inr False" and "w < PER_WORKER"
  shows "\<exists>r st' m' len'. xsknf_packet_processor cfg st m len 0 w = Inr (r, st', m', len') \<and> 0 \<le> r
     \<and> tcp_syn m' 34 \<and> tcp_ack m' 34
     \<and> ip_saddr m' 14 = ip_daddr m 14 \<and> ip_daddr m' 14 = ip_saddr m 14
     \<and> tcp_source m' 34 = tcp_dest m 34 \<and> tcp_dest m' 34 = tcp_source m 34
     \<and> tcp_seq m' 34 = flow_cookie cfg st w m \<and> ntohl (tcp_ack_seq m' 34) = ntohl (tcp_seq m 34) + 1
     \<and> tcp_doff m' 34 = 9 \<and> ts_tsval m' 60 = tsval (opt_ts (sa_opts st w))
     \<and> ts_tsecr m' 60 = ts_tsval m (54 + off)
     \<and> bf st' = bf st \<and> syn_cache st' = syn_cache st \<and> sw_map_seeds st' = sw_map_seeds st
     \<and> sw_map_cookies st' = sw_map_cookies st \<and> change_key_duration st' = change_key_duration st"
proof -
  have p: "xsknf_packet_processor cfg st m len 0 w = sw_syn_answer cfg w (enter st w m) m len (54 + off)"
    by (rule processor_syn) (use assms in simp_all)
  obtain r st' m' len' where r: "sw_syn_answer cfg w (enter st w m) m len (54 + off) = Inr (r, st', m', len')"
    "0 \<le> r"
    using assms(5) sw_forward_Inr by (simp add: sw_syn_answer_def Let_def case_prod_unfold) metis
  show ?thesis
    using syn_answer_fields [OF r(1) _ assms(4,5)] r assms(3)
    by (auto simp: p flow_cookie_def)
qed

text \<open>
  C26: the SYN-ACK has a valid TCP checksum, whatever the client's checksum was, and the
  rewritten IP header keeps a valid header checksum (IP header without options, total length
  consistent with the TCP header).
\<close>

theorem syn_answer_checksums:
  assumes "active cfg m" "timestamp_option cfg = TS_ON" "tcpcsum_option cfg = CSUM_ON"
    and "\<not> opt_ab_test cfg" "\<not> opt_pressure cfg" and "syn_frame m len off"
    and "bloom_filter_test (bf st) (bytes32 (ip_saddr m 14)) = Inr False"
    and "ip_ihl m 14 = 5" "tcp_doff m 34 * 4 + 20 \<le> unat (ntohs (ip_tot_len m 14))"
      "unat (ntohs (ip_tot_len m 14)) + 36 < 65536"
    and "xsknf_packet_processor cfg st m len 0 w = Inr (r, st', m', len')"
  shows "tcp_csum_ok m' 14 34 \<and> (ip_csum_ok m 14 \<longrightarrow> ip_csum_ok m' 14)"
proof -
  have "sw_syn_answer cfg w (enter st w m) m len (54 + off) = Inr (r, st', m', len')"
    using processor_syn [OF assms(1,2,6,7) processor_worker [OF assms(1,11)]] assms(11) by simp
  from syn_answer_csum [OF this _ assms(4,5,3,8,9,10)] show ?thesis by simp
qed

lemma sample_syn_facts:
  "syn_frame sample_syn 74 6" "ip_ihl sample_syn 14 = 5" "ip_saddr sample_syn 14 = 0x0300120a"
  "tcp_doff sample_syn 34 = 10" "unat (ntohs (ip_tot_len sample_syn 14)) = 60"
  "eth_proto sample_syn 0 = htons ETH_P_IP" "active cfg0 sample_syn" "ip_csum_ok sample_syn 14"
  by (simp_all add: syn_frame_def active_def cfg0_def sample_syn_def sample_eval parse_timestamp_def
      fast_parse_timestamp_def Let_def syn_1_mask_def bit_simps ip_csum_ok_def sample_csum_eval)

lemma sample_not_seen:
  "bloom_filter_test (bf (sw_init rnd n st)) (bytes32 (ip_saddr m 14)) = Inr False"
proof -
  have "bf (sw_init rnd n st) = bloom_filter_new 3145728 [djb2, sdbm, mm2]"
    by (simp add: sw_init_def Let_def)
  moreover have "bloom_filter_test (bloom_filter_new 3145728 [djb2, sdbm, mm2]) d = Inr False" for d
    using bloom_new_ok [of 3145728 "[djb2, sdbm, mm2]"] bv_ones_new [of 3145728]
    by (simp add: bloom_test_ones bloom_filter_new_def slots_def)
  ultimately show ?thesis by simp
qed

theorem syn_answered_stateless_witness:
  "\<exists>r st' m' len'. xsknf_packet_processor cfg0 (sw_init (\<lambda>_. 7) 1 switch0) sample_syn 74 0 0
      = Inr (r, st', m', len') \<and> tcp_seq m' 34 = flow_cookie cfg0 (sw_init (\<lambda>_. 7) 1 switch0) 0 sample_syn"
  using syn_answered_stateless [OF sample_syn_facts(7) _ _ _ _ sample_syn_facts(1) sample_not_seen, of 0 "\<lambda>_. 7" 1 switch0]
  by (auto simp: cfg0_def)

theorem syn_answer_checksums_witness:
  "\<exists>r st' m' len'. xsknf_packet_processor cfg0 (sw_init (\<lambda>_. 7) 1 switch0) sample_syn 74 0 0
      = Inr (r, st', m', len') \<and> tcp_csum_ok m' 14 34 \<and> ip_csum_ok m' 14"
proof -
  obtain r st' m' len' where r:
    "xsknf_packet_processor cfg0 (sw_init (\<lambda>_. 7) 1 switch0) sample_syn 74 0 0 = Inr (r, st', m', len')"
    using processor_fine [OF sw_init_bf, of 0] unfolding sw_fine_def by fastforce
  from syn_answer_checksums [OF sample_syn_facts(7) _ _ _ _ sample_syn_facts(1) sample_not_seen
      sample_syn_facts(2) _ _ r] r sample_syn_facts(4,5,8)
  show ?thesis by (auto simp: cfg0_def)
qed

end
