(* ===== verification/Sc_Server.thy ===== *)
theory Sc_Server
  imports Server_En
begin

text \<open>
  The server agent of the protocol variant under \<open>examples/smartcookie\<close>: \<open>server_in_kern.c\<close> at
  the XDP hook and \<open>server_en_kern.c\<close> at the TC hook.  An ACK that the switch agent has tagged
  with ECE, or whose acknowledgement number carries the SYN cookie, opens a flow and reaches the
  server as a SYN; the server's SYN-ACK is turned into the client's ACK; segments of open flows
  are shifted by the flow's offset.  Segments need not have a time stamp option.  The header
  parsers of \<open>smartcookie/server.h\<close> are copies of those in \<open>Tcp_Options\<close>; \<open>DEBUG\<close> is off.
\<close>

section \<open>The cookie\<close>

definition get_hash :: "u32 \<Rightarrow> u32 \<Rightarrow> u16 \<Rightarrow> u16 \<Rightarrow> u32" where
  "get_hash src dst sport dport =
     (let v0 = c0 XOR key0; v1 = c1 XOR key1; v2 = c2 XOR key0; v3 = c3 XOR key1;
          v3 = v3 XOR ntohl src;
          (v0, v1, v2, v3) = SIPROUND (v0, v1, v2, v3);
          (v0, v1, v2, v3) = SIPROUND (v0, v1, v2, v3);
          v0 = v0 XOR ntohl src;
          v3 = v3 XOR ntohl dst;
          (v0, v1, v2, v3) = SIPROUND (v0, v1, v2, v3);
          (v0, v1, v2, v3) = SIPROUND (v0, v1, v2, v3);
          v0 = v0 XOR ntohl dst;
          ports = push_bit 16 (ucast dport) OR ucast sport;
          v3 = v3 XOR ntohl ports;
          (v0, v1, v2, v3) = SIPROUND (v0, v1, v2, v3);
          (v0, v1, v2, v3) = SIPROUND (v0, v1, v2, v3);
          v0 = v0 XOR ntohl ports;
          v2 = v2 XOR 0xFF;
          (v0, v1, v2, v3) = SIPROUND (v0, v1, v2, v3);
          (v0, v1, v2, v3) = SIPROUND (v0, v1, v2, v3);
          (v0, v1, v2, v3) = SIPROUND (v0, v1, v2, v3);
          (v0, v1, v2, v3) = SIPROUND (v0, v1, v2, v3)
      in (v0 XOR v1) XOR (v2 XOR v3))"

lemma get_hash_eq:
  "get_hash src dst sp dp = hsip key0 key1 [ntohl src, ntohl dst, ntohl (push_bit 16 (ucast dp) OR ucast sp)]"
  by (simp only: get_hash_def hsip_def Let_def case_prod_unfold hsip_absorb_def hsip_final_def
      fold_simps fst_conv snd_conv prod.collapse)

section \<open>State and kernel\<close>

record sc_val =
  sc_ts_val_s :: u32
  sc_delta :: u32

record 'm sc_env =
  sc_ops :: "('m, map_key_t, sc_val) map_ops"
  sc_csum_diff :: csum_diff_t
  sc_probe_read :: "sc_val option \<Rightarrow> sc_val option"

locale sc_runtime =
  fixes E :: "'m sc_env"
  assumes sc_map: "bpf_map (sc_ops E)" and sc_csum_law: "csum_diff_law (sc_csum_diff E)"
    and sc_probe_some: "sc_probe_read E (Some v) = Some v"

sublocale sc_runtime \<subseteq> sct: bpf_map "sc_ops E"
  by (rule sc_map)

sublocale sc_runtime \<subseteq> bpf_csum "sc_csum_diff E"
  by unfold_locales (rule sc_csum_law)

definition sc_ref_env :: "nat \<Rightarrow> (map_key_t \<times> sc_val) list sc_env" where
  "sc_ref_env max_entries = \<lparr>sc_ops = htab_ops max_entries, sc_csum_diff = csum_diff_ref, sc_probe_read = (\<lambda>v. v)\<rparr>"

interpretation sc_ref: sc_runtime "sc_ref_env max_entries"
  by (rule sc_runtime.intro) (simp_all add: sc_ref_env_def htab.bpf_map_axioms csum_diff_ref_law)

section \<open>Ingress\<close>

definition sc_in_flow ::
    "'m sc_env \<Rightarrow> nat \<Rightarrow> nat \<Rightarrow> nat option \<Rightarrow> sc_val \<Rightarrow> 'm \<Rightarrow> mem \<Rightarrow> xdp_action \<times> 'm \<times> mem" where
  "sc_in_flow E data_end tcp ts val s m =
     (let rx_ack_seq = tcp_ack_seq m tcp;
          tcp_csum = ucast (tcp_check m tcp) :: u64
      in if tcp + 12 + 4 > data_end then (XDP_DROP, s, m)
         else
           (let new_ack_seq = htonl (ntohl (tcp_ack_seq m tcp) - sc_delta val);
                m = st32 m (tcp + 8) new_ack_seq;
                tcp_csum = sc_csum_diff E (bytes32 rx_ack_seq) (bytes32 new_ack_seq) (ucast (NOT tcp_csum));
                m = set_flag m tcp ECE False;
                (m, tcp_csum) =
                  (case ts of
                     None \<Rightarrow> (m, tcp_csum)
                   | Some ts \<Rightarrow>
                       (let rx_tsecr = ts_tsecr m ts;
                            new_tsecr = sc_ts_val_s val;
                            m = st32 m (ts + 6) new_tsecr
                        in (m, sc_csum_diff E (bytes32 rx_tsecr) (bytes32 new_tsecr) (ucast tcp_csum))));
                m = st16 m (tcp + 16) (csum_fold_helper_64 tcp_csum)
            in (XDP_PASS, s, m)))"

definition sc_in_open ::
    "'m sc_env \<Rightarrow> nat \<Rightarrow> nat \<Rightarrow> nat \<Rightarrow> nat option \<Rightarrow> 'm \<Rightarrow> mem \<Rightarrow> xdp_action \<times> 'm \<times> mem" where
  "sc_in_open E data_end ip tcp ts s m =
     (let key = flow_key m ip tcp;
          val = \<lparr>sc_ts_val_s = 0, sc_delta = ntohl (tcp_ack_seq m tcp)\<rparr>;
          s = map_update (sc_ops E) s key val BPF_ANY;
          old_tcp_seq = tcp_seq m tcp;
          old_tcp_ack = tcp_ack_seq m tcp;
          tcp_csum = ucast (tcp_check m tcp) :: u64;
          flag_ptr = tcp + 12
      in if flag_ptr + 4 > data_end then (XDP_DROP, s, m)
         else
           (let tcp_old_flag = ld32 m flag_ptr;
                m = set_flag m tcp ACK False;
                m = set_flag m tcp SYN True;
                tcp_new_flag = ld32 m flag_ptr;
                m = set_flag m tcp ECE False;
                m = st32 m (tcp + 4) (htonl (ntohl (tcp_seq m tcp) - 1));
                m = st32 m (tcp + 8) 0;
                tcp_csum = sc_csum_diff E (bytes32 tcp_old_flag) (bytes32 tcp_new_flag) (ucast (NOT tcp_csum));
                tcp_csum = sc_csum_diff E (bytes32 old_tcp_seq) (bytes32 (tcp_seq m tcp)) (ucast tcp_csum);
                tcp_csum = sc_csum_diff E (bytes32 old_tcp_ack) [] (ucast tcp_csum);
                (m, tcp_csum) =
                  (case ts of
                     None \<Rightarrow> (m, tcp_csum)
                   | Some ts \<Rightarrow>
                       (let old_tcp_tsecr = ts_tsecr m ts;
                            m = st32 m (ts + 6) 0
                        in (m, sc_csum_diff E (bytes32 old_tcp_tsecr) [] (ucast tcp_csum))));
                m = st16 m (tcp + 16) (csum_fold_helper_64 tcp_csum)
            in (XDP_PASS, s, m)))"

text \<open>The tests for payload have empty branches in the code.\<close>

definition sc_in_ack ::
    "'m sc_env \<Rightarrow> nat \<Rightarrow> nat \<Rightarrow> nat \<Rightarrow> nat option \<Rightarrow> 'm \<Rightarrow> mem \<Rightarrow> xdp_action \<times> 'm \<times> mem" where
  "sc_in_ack E data_end ip tcp ts s m =
     (case (lookup_elem (sc_ops E) s (flow_key m ip tcp), tcp_ece m tcp) of
        (Some v, False) \<Rightarrow>
          (case sc_probe_read E (Some v) of
             None \<Rightarrow> (XDP_DROP, s, m)
           | Some val \<Rightarrow> sc_in_flow E data_end tcp ts val s m)
      | (None, False) \<Rightarrow>
          (let syncookie = get_hash (ip_saddr m ip) (ip_daddr m ip) (tcp_source m tcp) (tcp_dest m tcp)
           in if htonl (ntohl (tcp_ack_seq m tcp) - 1) \<noteq> syncookie then (XDP_DROP, s, m)
              else sc_in_open E data_end ip tcp ts s m)
      | (_, True) \<Rightarrow> sc_in_open E data_end ip tcp ts s m)"

definition sc_in_synack :: "'m sc_env \<Rightarrow> nat \<Rightarrow> nat \<Rightarrow> 'm \<Rightarrow> mem \<Rightarrow> xdp_action \<times> 'm \<times> mem" where
  "sc_in_synack E data_end tcp s m =
     (let tcp_csum = ucast (tcp_check m tcp) :: u64;
          ptr = tcp + 12
      in if ptr + 4 > data_end then (XDP_DROP, s, m)
         else
           (let tcp_old_flag = ld32 m ptr;
                m = set_flag m tcp SYN False;
                tcp_new_flag = ld32 m ptr;
                tcp_csum = sc_csum_diff E (bytes32 tcp_old_flag) (bytes32 tcp_new_flag) (ucast (NOT tcp_csum));
                m = st16 m (tcp + 16) (csum_fold_helper_64 tcp_csum)
            in (XDP_PASS, s, m)))"

text \<open>The option pointer: \<open>None\<close> drops the packet, \<open>Some None\<close> is the null pointer.\<close>

definition sc_in_ts :: "mem \<Rightarrow> nat \<Rightarrow> nat \<Rightarrow> nat \<Rightarrow> nat option option" where
  "sc_in_ts m data_end tcp tcphdr_len =
     (if tcphdr_len \<ge> 32 then
        (case bpf_parse_timestamp m (tcp + 20) tcp data_end of
           None \<Rightarrow> None
         | Some ts \<Rightarrow> if tcp + tcp_doff m tcp * 4 > data_end then None else Some (Some ts))
      else Some None)"

definition sc_in_tcp ::
    "'m sc_env \<Rightarrow> nat \<Rightarrow> nat \<Rightarrow> nat \<Rightarrow> nat \<Rightarrow> 'm \<Rightarrow> mem \<Rightarrow> xdp_action \<times> 'm \<times> mem" where
  "sc_in_tcp E data_end ip tcp tcphdr_len s m =
     (case sc_in_ts m data_end tcp tcphdr_len of
        None \<Rightarrow> (XDP_DROP, s, m)
      | Some ts \<Rightarrow>
          if tcp_ack m tcp \<and> \<not> tcp_syn m tcp then sc_in_ack E data_end ip tcp ts s m
          else if tcp_ack m tcp \<and> tcp_syn m tcp then sc_in_synack E data_end tcp s m
          else (XDP_PASS, s, m))"

definition sc_server_in :: "'m sc_env \<Rightarrow> nat \<Rightarrow> 'm \<Rightarrow> mem \<Rightarrow> xdp_action \<times> 'm \<times> mem" where
  "sc_server_in E data_end s m =
     (case parse_ethhdr m 0 data_end of
        None \<Rightarrow> (XDP_DROP, s, m)
      | Some (ether_proto, eth, pos) \<Rightarrow>
          if htons ether_proto = ETH_P_IP then
            (case parse_iphdr m pos data_end of
               None \<Rightarrow> (XDP_DROP, s, m)
             | Some (ip_proto, ip, pos) \<Rightarrow>
                 if ip_proto = IPPROTO_TCP then
                   (case parse_tcphdr m pos data_end of
                      None \<Rightarrow> (XDP_DROP, s, m)
                    | Some (tcphdr_len, tcp, pos) \<Rightarrow> sc_in_tcp E data_end ip tcp tcphdr_len s m)
                 else (XDP_PASS, s, m))
          else (XDP_PASS, s, m))"

section \<open>Egress\<close>

definition sc_en_synack ::
    "'m sc_env \<Rightarrow> nat \<Rightarrow> nat \<Rightarrow> nat \<Rightarrow> nat \<Rightarrow> nat option \<Rightarrow> map_key_t \<Rightarrow> sc_val \<Rightarrow> 'm \<Rightarrow> mem \<Rightarrow>
     tc_action \<times> 'm \<times> mem" where
  "sc_en_synack E data_end eth ip tcp ts key val s m =
     (let val = val\<lparr>sc_delta := sc_delta val - ntohl (tcp_seq m tcp) - 1\<rparr>;
          (val, m) =
            (case ts of
               None \<Rightarrow> (val, m)
             | Some ts \<Rightarrow>
                 (let val = val\<lparr>sc_ts_val_s := ts_tsval m ts\<rparr>;
                      m = st16 m (tcp + 14) (htons 0x1F6);
                      m = swap32 m (ts + 2) (ts + 6)
                  in (val, m)));
          s = map_update (sc_ops E) s key val BPF_EXIST;
          m = swap32 m (ip + 12) (ip + 16);
          m = swap16 m tcp (tcp + 2);
          m = swap32 m (tcp + 4) (tcp + 8);
          m = st32 m (tcp + 8) (htonl (ntohl (tcp_ack_seq m tcp) + 1));
          m = (if XDP_DRV then set_flag m tcp SYN False else m);
          m = st16 m (tcp + 16) 0;
          m = swap_mac m eth;
          n = (case ts of Some _ \<Rightarrow> 36 | None \<Rightarrow> 24)
      in if tcp + n > data_end then (TC_ACT_SHOT, s, m)
         else
           (let tcp_csum_tmp = ipv4_l4_csum (sc_csum_diff E) m tcp n 0 ip;
                m = st16 m (tcp + 16) (ucast tcp_csum_tmp)
            in (BPF_REDIRECT SERVER_IF, s, m)))"

definition sc_en_other ::
    "'m sc_env \<Rightarrow> nat \<Rightarrow> nat option \<Rightarrow> map_key_t \<Rightarrow> sc_val \<Rightarrow> 'm \<Rightarrow> mem \<Rightarrow> tc_action \<times> 'm \<times> mem" where
  "sc_en_other E tcp ts key val s m =
     (let (val, s) =
            (case ts of
               None \<Rightarrow> (val, s)
             | Some ts \<Rightarrow>
                 (let val = val\<lparr>sc_ts_val_s := ts_tsval m ts\<rparr>
                  in (val, map_update (sc_ops E) s key val BPF_EXIST)));
          m = st32 m (tcp + 4) (htonl (ntohl (tcp_seq m tcp) + sc_delta val))
      in (TC_ACT_OK, s, m))"

text \<open>Only headers longer than 32 bytes are searched for the option.\<close>

definition sc_en_ts :: "mem \<Rightarrow> nat \<Rightarrow> nat \<Rightarrow> nat \<Rightarrow> nat option option" where
  "sc_en_ts m data_end tcp tcphdr_len =
     (if tcphdr_len > 32 then
        (case bpf_parse_timestamp m (tcp + 20) tcp data_end of None \<Rightarrow> None | Some ts \<Rightarrow> Some (Some ts))
      else Some None)"

definition sc_en_tcp ::
    "'m sc_env \<Rightarrow> nat \<Rightarrow> nat \<Rightarrow> nat \<Rightarrow> nat \<Rightarrow> nat \<Rightarrow> 'm \<Rightarrow> mem \<Rightarrow> tc_action \<times> 'm \<times> mem" where
  "sc_en_tcp E data_end eth ip tcp tcphdr_len s m =
     (case sc_en_ts m data_end tcp tcphdr_len of
        None \<Rightarrow> (TC_ACT_SHOT, s, m)
      | Some ts \<Rightarrow>
          (let key = reply_key m ip tcp
           in case lookup_elem (sc_ops E) s key of
                None \<Rightarrow> (TC_ACT_SHOT, s, m)
              | Some v \<Rightarrow>
                  (case sc_probe_read E (Some v) of
                     None \<Rightarrow> (TC_ACT_SHOT, s, m)
                   | Some val \<Rightarrow>
                       if tcp_ack m tcp \<and> tcp_syn m tcp then sc_en_synack E data_end eth ip tcp ts key val s m
                       else sc_en_other E tcp ts key val s m)))"

definition sc_server_en :: "'m sc_env \<Rightarrow> nat \<Rightarrow> 'm \<Rightarrow> mem \<Rightarrow> tc_action \<times> 'm \<times> mem" where
  "sc_server_en E data_end s m =
     (case parse_ethhdr m 0 data_end of
        None \<Rightarrow> (TC_ACT_SHOT, s, m)
      | Some (ether_proto, eth, pos) \<Rightarrow>
          if htons ether_proto = ETH_P_IP then
            (case parse_iphdr m pos data_end of
               None \<Rightarrow> (TC_ACT_SHOT, s, m)
             | Some (ip_proto, ip, pos) \<Rightarrow>
                 if ip_proto = IPPROTO_TCP then
                   (case parse_tcphdr m pos data_end of
                      None \<Rightarrow> (TC_ACT_SHOT, s, m)
                    | Some (tcphdr_len, tcp, pos) \<Rightarrow> sc_en_tcp E data_end eth ip tcp tcphdr_len s m)
                 else (TC_ACT_OK, s, m))
          else (TC_ACT_OK, s, m))"

end
