(* ===== verification/Sc_Flow.thy ===== *)
theory Sc_Flow
  imports Sc_Server
begin

text \<open>
  The smartcookie server agent as a state machine: its connection table refines a finite map
  from flows to offsets and time stamps, and the refinement gives the translation of sequence numbers
  after arbitrary packets of all flows, those that start the flow anew included.
\<close>

section \<open>Frames\<close>

definition sc_frame :: "mem \<Rightarrow> nat \<Rightarrow> nat \<Rightarrow> bool" where
  "sc_frame m data_end tcp \<longleftrightarrow>
     htons (eth_proto m 0) = ETH_P_IP \<and> ip_protocol m 14 = IPPROTO_TCP \<and> 20 \<le> ip_ihl m 14 * 4
     \<and> tcp = tcp_at m \<and> 20 \<le> tcp_doff m tcp * 4 \<and> tcp + tcp_doff m tcp * 4 \<le> data_end"

lemma sc_frameD:
  assumes "sc_frame m data_end tcp"
  shows "34 \<le> tcp" "tcp + 20 \<le> data_end" "tcp + tcp_doff m tcp * 4 \<le> data_end" "tcp = tcp_at m"
  using assms by (auto simp: sc_frame_def)

lemma sc_frame_parse:
  assumes "sc_frame m data_end tcp"
  shows "parse_ethhdr m 0 data_end = Some (eth_proto m 0, 0, 14)" "parse_iphdr m 14 data_end = Some (6, 14, tcp)"
    "parse_tcphdr m tcp data_end = Some (tcp_doff m tcp * 4, tcp, tcp + 20)" "htons (eth_proto m 0) = ETH_P_IP"
  using assms by (auto simp: sc_frame_def parse_hdr_Some)

lemma sc_in_frame:
  "sc_frame m data_end tcp \<Longrightarrow> sc_server_in E data_end s m = sc_in_tcp E data_end 14 tcp (tcp_doff m tcp * 4) s m"
  using sc_frame_parse [of m data_end tcp] by (simp add: sc_server_in_def)

lemma sc_en_frame:
  "sc_frame m data_end tcp \<Longrightarrow> sc_server_en E data_end s m = sc_en_tcp E data_end 0 14 tcp (tcp_doff m tcp * 4) s m"
  using sc_frame_parse [of m data_end tcp] by (simp add: sc_server_en_def)

lemma sc_not_frame:
  assumes "\<not> sc_frame m data_end (tcp_at m)"
  shows "snd (sc_server_in E data_end s m) = (s, m)" "snd (sc_server_en E data_end s m) = (s, m)"
  using assms by (auto simp: sc_server_in_def sc_server_en_def sc_frame_def parse_hdr_Some split: option.splits prod.splits)

lemma sc_ts_range:
  "sc_in_ts m data_end tcp n = Some (Some ts) \<Longrightarrow> tcp + 20 \<le> ts \<and> ts + 10 \<le> data_end"
  "sc_en_ts m data_end tcp n = Some (Some ts) \<Longrightarrow> tcp + 20 \<le> ts \<and> ts + 10 \<le> data_end"
  using bpf_parse_timestamp_range by (auto simp: sc_in_ts_def sc_en_ts_def split: if_splits option.splits)

section \<open>Memory safety\<close>

lemma sc_in_flow_safe:
  assumes "\<And>x. ts = Some x \<Longrightarrow> tcp + 20 \<le> x \<and> x + 10 \<le> data_end" "tcp + 20 \<le> data_end" "data_end \<le> i"
  shows "snd (snd (sc_in_flow E data_end tcp ts val s m)) i = m i"
  using assms by (cases ts) (simp_all add: sc_in_flow_def Let_def mem_simps)

lemma sc_in_open_safe:
  assumes "\<And>x. ts = Some x \<Longrightarrow> tcp + 20 \<le> x \<and> x + 10 \<le> data_end" "tcp + 20 \<le> data_end" "data_end \<le> i"
  shows "snd (snd (sc_in_open E data_end ip tcp ts s m)) i = m i"
  using assms by (cases ts) (simp_all add: sc_in_open_def Let_def mem_simps)

lemma sc_en_synack_safe:
  assumes "\<And>x. ts = Some x \<Longrightarrow> tcp + 20 \<le> x \<and> x + 10 \<le> data_end" "34 \<le> tcp" "tcp + 20 \<le> data_end" "data_end \<le> i"
  shows "snd (snd (sc_en_synack E data_end 0 14 tcp ts key val s m)) i = m i"
  using assms by (cases ts) (simp_all add: sc_en_synack_def Let_def mem_simps swap32_eq swap16_eq)

lemma sc_safe:
  assumes "data_end \<le> i"
  shows "snd (snd (sc_server_in E data_end s m)) i = m i" "snd (snd (sc_server_en E data_end s m)) i = m i"
proof -
  have "snd (snd (sc_server_in E data_end s m)) i = m i \<and> snd (snd (sc_server_en E data_end s m)) i = m i"
  proof (cases "sc_frame m data_end (tcp_at m)")
    case True
    define tcp where "tcp = tcp_at m"
    note fr = True [folded tcp_def]
    note ts = sc_ts_range [of m data_end tcp "tcp_doff m tcp * 4"] and d = sc_frameD [OF fr]
    have "snd (snd (sc_server_in E data_end s m)) i = m i"
      using d ts(1) assms by (auto simp: sc_in_frame [OF fr] sc_in_tcp_def sc_in_ack_def Let_def sc_in_synack_def mem_simps
          intro!: sc_in_flow_safe sc_in_open_safe split: option.splits bool.splits)
    moreover have "snd (snd (sc_server_en E data_end s m)) i = m i"
      using d ts(2) assms by (auto simp: sc_en_frame [OF fr] sc_en_tcp_def sc_en_other_def Let_def mem_simps
          intro!: sc_en_synack_safe split: option.splits prod.splits)
    ultimately show ?thesis by simp
  qed (simp add: sc_not_frame)
  then show "snd (snd (sc_server_in E data_end s m)) i = m i" "snd (snd (sc_server_en E data_end s m)) i = m i"
    by simp_all
qed

section \<open>Abstract specification\<close>

datatype sc_event = ScIn nat mem | ScOut nat mem

fun sc_step :: "'m sc_env \<Rightarrow> sc_event \<Rightarrow> 'm \<Rightarrow> 'm" where
  "sc_step E (ScIn data_end m) s = fst (snd (sc_server_in E data_end s m))"
| "sc_step E (ScOut data_end m) s = fst (snd (sc_server_en E data_end s m))"

text \<open>An ACK whose acknowledgement number is the SYN cookie of its flow plus one.\<close>

definition cookie_ack :: "mem \<Rightarrow> nat \<Rightarrow> bool" where
  "cookie_ack m tcp \<longleftrightarrow> htonl (ntohl (tcp_ack_seq m tcp) - 1)
     = get_hash (ip_saddr m 14) (ip_daddr m 14) (tcp_source m tcp) (tcp_dest m tcp)"

definition ack_frame :: "mem \<Rightarrow> nat \<Rightarrow> bool" where
  "ack_frame m data_end \<longleftrightarrow> sc_frame m data_end (tcp_at m)
     \<and> sc_in_ts m data_end (tcp_at m) (tcp_doff m (tcp_at m) * 4) \<noteq> None \<and> tcp_ack m (tcp_at m) \<and> \<not> tcp_syn m (tcp_at m)"

text \<open>The ACKs that open a flow: tagged ones always, others if the flow is not open and the cookie fits.\<close>

definition opens_flow :: "mem \<Rightarrow> nat \<Rightarrow> (map_key_t \<rightharpoonup> sc_val) \<Rightarrow> bool" where
  "opens_flow m data_end A \<longleftrightarrow> ack_frame m data_end
     \<and> (tcp_ece m (tcp_at m) \<or> A (flow_key m 14 (tcp_at m)) = None \<and> cookie_ack m (tcp_at m))"

definition opened :: "mem \<Rightarrow> sc_val" where
  "opened m = \<lparr>sc_ts_val_s = 0, sc_delta = ntohl (tcp_ack_seq m (tcp_at m))\<rparr>"

fun sc_spec :: "sc_event \<Rightarrow> (map_key_t \<rightharpoonup> sc_val) \<Rightarrow> (map_key_t \<rightharpoonup> sc_val)" where
  "sc_spec (ScIn data_end m) A = (if opens_flow m data_end A then A(flow_key m 14 (tcp_at m) \<mapsto> opened m) else A)"
| "sc_spec (ScOut data_end m) A =
     (let tcp = tcp_at m; k = reply_key m 14 tcp
      in if sc_frame m data_end tcp then
           (case (sc_en_ts m data_end tcp (tcp_doff m tcp * 4), A k) of
              (Some ts, Some v) \<Rightarrow>
                (let v = (if tcp_ack m tcp \<and> tcp_syn m tcp
                          then v\<lparr>sc_delta := sc_delta v - ntohl (tcp_seq m tcp) - 1\<rparr> else v);
                     v = (case ts of None \<Rightarrow> v | Some ts \<Rightarrow> v\<lparr>sc_ts_val_s := ts_tsval m ts\<rparr>)
                 in A(k \<mapsto> v))
            | _ \<Rightarrow> A)
         else A)"

fun sc_room :: "'m sc_env \<Rightarrow> sc_event \<Rightarrow> 'm \<Rightarrow> bool" where
  "sc_room E (ScIn data_end m) s \<longleftrightarrow> (opens_flow m data_end (lookup_elem (sc_ops E) s) \<longrightarrow>
     update_elem (sc_ops E) s (flow_key m 14 (tcp_at m)) (opened m) BPF_ANY \<noteq> None)"
| "sc_room E (ScOut data_end m) s \<longleftrightarrow> True"

lemma sc_in_handlers_table:
  "fst (snd (sc_in_flow E data_end tcp ts val s m)) = s" "fst (snd (sc_in_synack E data_end tcp s m)) = s"
  "fst (snd (sc_in_open E data_end ip tcp ts s m)) =
     map_update (sc_ops E) s (flow_key m ip tcp) \<lparr>sc_ts_val_s = 0, sc_delta = ntohl (tcp_ack_seq m tcp)\<rparr> BPF_ANY"
  by (simp_all add: sc_in_flow_def sc_in_synack_def sc_in_open_def Let_def case_prod_unfold)

context sc_runtime
begin

lemma ingress_table:
  "fst (snd (sc_server_in E data_end s m)) = (if opens_flow m data_end (lookup_elem (sc_ops E) s)
     then map_update (sc_ops E) s (flow_key m 14 (tcp_at m)) (opened m) BPF_ANY else s)"
proof (cases "sc_frame m data_end (tcp_at m)")
  case True
  define tcp where "tcp = tcp_at m"
  show ?thesis
    using True unfolding opens_flow_def ack_frame_def opened_def tcp_def [symmetric]
    by (auto simp: sc_in_frame sc_in_tcp_def sc_in_ack_def sc_in_handlers_table cookie_ack_def sc_probe_some Let_def
        split: option.splits bool.splits)
qed (simp add: sc_not_frame opens_flow_def ack_frame_def)

lemma sc_step_refines:
  assumes "sc_room E ev s"
  shows "lookup_elem (sc_ops E) (sc_step E ev s) = sc_spec ev (lookup_elem (sc_ops E) s)"
proof (cases ev)
  case (ScIn data_end m)
  then show ?thesis
    using assms sct.lookup_update_ok [of s "flow_key m 14 (tcp_at m)" "opened m" BPF_ANY]
      sct.lookup_update_other [of _ "flow_key m 14 (tcp_at m)" s "opened m" BPF_ANY]
    by (auto simp: ingress_table fun_eq_iff)
next
  case (ScOut data_end m)
  define tcp where "tcp = tcp_at m"
  show ?thesis
  proof (cases "sc_frame m data_end tcp \<and> lookup_elem (sc_ops E) s (reply_key m 14 tcp) \<noteq> None")
    case True
    then obtain v where v: "lookup_elem (sc_ops E) s (reply_key m 14 tcp) = Some v" by auto
    show ?thesis
      using True v sct.lookup_update_exist [OF v] sct.lookup_update_other [of _ "reply_key m 14 tcp" s]
      unfolding ScOut sc_step.simps sc_spec.simps tcp_def [symmetric]
      by (auto simp: sc_en_frame sc_en_tcp_def sc_en_synack_def sc_en_other_def sc_probe_some Let_def fun_eq_iff
          split: option.splits)
  next
    case False
    then show ?thesis
      using sc_not_frame(2) [of m data_end E s] unfolding ScOut sc_step.simps sc_spec.simps tcp_def [symmetric]
      by (auto simp: sc_en_frame sc_en_tcp_def Let_def tcp_def split: option.splits)
  qed
qed

end

sublocale sc_runtime \<subseteq> sc: simulation "sc_step E" sc_spec "lookup_elem (sc_ops E)" "sc_room E"
  by unfold_locales (rule sc_step_refines)

context sc_runtime
begin

lemmas sc_run_refines = sc.run_sim

end

text \<open>
  C15: the connection table of the agent is the finite map of the specification after any sequence
  of packets in both directions, as long as the table has room for the flows that are opened: a
  tagged ACK, or an ACK with the right cookie for a flow that is not open, records its
  acknowledgement number; the server's SYN-ACK subtracts the server's numbering; time stamps of
  the server are recorded; nothing else changes the table.
\<close>

theorem sc_server_refines:
  assumes "sc_runtime E" "run_ok (sc_room E) (sc_step E) evs s"
  shows "lookup_elem (sc_ops E) (fold (sc_step E) evs s) = fold sc_spec evs (lookup_elem (sc_ops E) s)"
  by (rule sc_runtime.sc_run_refines [OF assms])

section \<open>Forged ACKs\<close>

text \<open>
  An ACK of a flow that is not open, without the tag of the switch agent and with a wrong
  cookie is dropped; table and packet stay as they are.
\<close>

theorem sc_forged_ack_dropped:
  assumes "ack_frame m data_end" "\<not> tcp_ece m (tcp_at m)" "\<not> cookie_ack m (tcp_at m)"
    "lookup_elem (sc_ops E) s (flow_key m 14 (tcp_at m)) = None"
  shows "sc_server_in E data_end s m = (XDP_DROP, s, m)"
proof -
  define tcp where "tcp = tcp_at m"
  show ?thesis
    using assms unfolding ack_frame_def tcp_def [symmetric]
    by (auto simp: sc_in_frame sc_in_tcp_def sc_in_ack_def cookie_ack_def Let_def)
qed

section \<open>The handover of a connection\<close>

fun sc_restarts :: "sc_event \<Rightarrow> map_key_t \<Rightarrow> bool" where
  "sc_restarts (ScIn data_end m) k \<longleftrightarrow>
     ack_frame m data_end \<and> tcp_ece m (tcp_at m) \<and> flow_key m 14 (tcp_at m) = k"
| "sc_restarts (ScOut data_end m) k \<longleftrightarrow>
     sc_frame m data_end (tcp_at m) \<and> tcp_ack m (tcp_at m) \<and> tcp_syn m (tcp_at m) \<and> reply_key m 14 (tcp_at m) = k"

lemma sc_spec_keeps:
  "\<not> sc_restarts ev k \<Longrightarrow> A k = Some v \<Longrightarrow> \<exists>v'. sc_spec ev A k = Some v' \<and> sc_delta v' = sc_delta v"
  by (cases ev) (auto simp: opens_flow_def Let_def split: option.splits)

text \<open>
  What every packet does to the offset of an open flow: a tagged ACK opens it anew, and every SYN-ACK
  of the server, a retransmitted one too, takes its sequence number plus one off.
\<close>

fun sc_renumber :: "map_key_t \<Rightarrow> sc_event \<Rightarrow> u32 \<Rightarrow> u32" where
  "sc_renumber k (ScIn data_end m) d =
     (if sc_restarts (ScIn data_end m) k then ntohl (tcp_ack_seq m (tcp_at m)) else d)"
| "sc_renumber k (ScOut data_end m) d =
     (if sc_restarts (ScOut data_end m) k \<and> sc_en_ts m data_end (tcp_at m) (tcp_doff m (tcp_at m) * 4) \<noteq> None
      then d - (ntohl (tcp_seq m (tcp_at m)) + 1) else d)"

lemma sc_renumber_quiet: "\<not> sc_restarts ev k \<Longrightarrow> sc_renumber k ev d = d"
  by (cases ev) (simp_all del: sc_restarts.simps)

lemma sc_fold_renumber_filter:
  "fold (sc_renumber k) (filter (\<lambda>ev. sc_restarts ev k) evs) d = fold (sc_renumber k) evs d"
  by (induction evs arbitrary: d) (simp_all add: sc_renumber_quiet)

lemma sc_spec_delta:
  assumes "A k = Some v"
  shows "\<exists>v'. sc_spec ev A k = Some v' \<and> sc_delta v' = sc_renumber k ev (sc_delta v)"
proof (cases "sc_restarts ev k")
  case False
  then show ?thesis
    using sc_spec_keeps [of ev k A v] assms by (simp add: sc_renumber_quiet)
next
  case True
  show ?thesis
  proof (cases ev)
    case (ScIn data_end m)
    then show ?thesis
      using True by (simp add: opens_flow_def opened_def)
  next
    case (ScOut data_end m)
    then show ?thesis
      using True assms by (auto simp: Let_def algebra_simps split: option.splits)
  qed
qed

lemma sc_spec_run_delta:
  "A k = Some v \<Longrightarrow> \<exists>v'. fold sc_spec evs A k = Some v' \<and> sc_delta v' = fold (sc_renumber k) evs (sc_delta v)"
proof (induction evs arbitrary: A v)
  case (Cons ev evs)
  then show ?case
    using sc_spec_delta [of A k v ev] by fastforce
qed simp

lemma sc_en_seq:
  assumes "sc_runtime E" "sc_frame m data_end tcp" "sc_en_ts m data_end tcp (tcp_doff m tcp * 4) \<noteq> None"
    "\<not> (tcp_ack m tcp \<and> tcp_syn m tcp)" "lookup_elem (sc_ops E) s (reply_key m 14 tcp) = Some v"
  shows "\<exists>s'. sc_server_en E data_end s m
    = (TC_ACT_OK, s', st32 m (tcp + 4) (htonl (ntohl (tcp_seq m tcp) + sc_delta v)))"
  using assms(3-) by (auto simp: sc_en_frame [OF assms(2)] sc_en_tcp_def sc_en_other_def
      sc_runtime.sc_probe_some [OF assms(1)] Let_def split: option.splits)

lemma sc_in_ackseq:
  assumes "sc_runtime E" "ack_frame m data_end" "\<not> tcp_ece m (tcp_at m)"
    "lookup_elem (sc_ops E) s (flow_key m 14 (tcp_at m)) = Some v" "sc_server_in E data_end s m = (a, s', m')"
  shows "a = XDP_PASS \<and> ntohl (tcp_ack_seq m' (tcp_at m)) = ntohl (tcp_ack_seq m (tcp_at m)) - sc_delta v
    \<and> (\<forall>ts. sc_in_ts m data_end (tcp_at m) (tcp_doff m (tcp_at m) * 4) = Some (Some ts) \<longrightarrow> ts_tsecr m' ts = sc_ts_val_s v)"
proof -
  define tcp where "tcp = tcp_at m"
  have "sc_frame m data_end tcp"
    using assms(2) by (simp add: ack_frame_def tcp_def)
  then show ?thesis
    using assms(2-) sc_frameD [of m data_end tcp] sc_ts_range(1) [of m data_end tcp "tcp_doff m tcp * 4"]
    unfolding ack_frame_def tcp_def [symmetric]
    by (auto simp: sc_in_frame sc_in_tcp_def sc_in_ack_def sc_in_flow_def sc_runtime.sc_probe_some [OF assms(1)] Let_def
        mem_simps split: option.splits)
qed

text \<open>
  C16: the handover.  A flow is opened by an ACK that acknowledges the cookie with \<open>A\<close>; then come any
  packets of this and other flows in both directions.  A segment of the server on the flow leaves with
  its sequence number moved by the offset \<open>D\<close> that these packets leave, computed from \<open>A\<close> by
  \<open>sc_renumber\<close>, and an acknowledgement of the client arrives moved back by it.  In particular, if the
  only packet among them that starts the flow anew is one SYN-ACK of the server with sequence number
  \<open>Y\<close>, the byte at distance \<open>n\<close> from \<open>Y + 1\<close> in the server's stream leaves at distance \<open>n\<close> from \<open>A\<close>, and
  its acknowledgement arrives in the server's numbering.  (A retransmitted SYN-ACK moves the numbering by
  another \<open>Y + 1\<close>, an ACK with ECE set opens the flow anew; both follow from the general form.)
\<close>

theorem sc_handover:
  assumes "sc_runtime E" "run_ok (sc_room E) (sc_step E) (ScIn d0 m0 # evs) s"
    and op: "opens_flow m0 d0 (lookup_elem (sc_ops E) s)" "flow_key m0 14 (tcp_at m0) = k" "ntohl (tcp_ack_seq m0 (tcp_at m0)) = A"
    and out: "sc_frame m1 d1 t1" "sc_en_ts m1 d1 t1 (tcp_doff m1 t1 * 4) \<noteq> None" "\<not> (tcp_ack m1 t1 \<and> tcp_syn m1 t1)"
      "reply_key m1 14 t1 = k"
    and "in": "ack_frame m2 d2" "\<not> tcp_ece m2 (tcp_at m2)" "flow_key m2 14 (tcp_at m2) = k"
  defines "s1 \<equiv> fold (sc_step E) (ScIn d0 m0 # evs) s" and "D \<equiv> fold (sc_renumber k) evs A"
  shows "fst (sc_server_en E d1 s1 m1) = TC_ACT_OK \<and> fst (sc_server_in E d2 s1 m2) = XDP_PASS
    \<and> ntohl (tcp_seq (snd (snd (sc_server_en E d1 s1 m1))) t1) = ntohl (tcp_seq m1 t1) + D
    \<and> ntohl (tcp_ack_seq (snd (snd (sc_server_in E d2 s1 m2))) (tcp_at m2)) = ntohl (tcp_ack_seq m2 (tcp_at m2)) - D
    \<and> (\<forall>es ms. filter (\<lambda>ev. sc_restarts ev k) evs = [ScOut es ms]
        \<and> sc_en_ts ms es (tcp_at ms) (tcp_doff ms (tcp_at ms) * 4) \<noteq> None \<longrightarrow>
        D = A - (ntohl (tcp_seq ms (tcp_at ms)) + 1))"
proof -
  have "sc_spec (ScIn d0 m0) (lookup_elem (sc_ops E) s) k = Some (opened m0)" "sc_delta (opened m0) = A"
    using op by (simp_all add: opened_def)
  then obtain v where v: "lookup_elem (sc_ops E) s1 k = Some v" "sc_delta v = D"
    using sc_spec_run_delta [of "sc_spec (ScIn d0 m0) (lookup_elem (sc_ops E) s)" k "opened m0" evs]
      sc_runtime.sc_run_refines [OF assms(1,2)] by (auto simp: s1_def D_def)
  obtain a s' m' where r: "sc_server_in E d2 s1 m2 = (a, s', m')"
    by (metis prod_cases3)
  have one: "D = A - (ntohl (tcp_seq ms (tcp_at ms)) + 1)"
    if "filter (\<lambda>ev. sc_restarts ev k) evs = [ScOut es ms]" "sc_en_ts ms es (tcp_at ms) (tcp_doff ms (tcp_at ms) * 4) \<noteq> None"
    for es ms
  proof -
    have "sc_restarts (ScOut es ms) k"
      using that(1) by (metis filter_eq_ConsD)
    then show ?thesis
      using sc_fold_renumber_filter [of k evs A] that by (simp add: D_def)
  qed
  show ?thesis
    using sc_en_seq [OF assms(1) out(1-3), of s1 v] sc_in_ackseq [OF assms(1) "in"(1,2) _ r, of v] v out(4) "in"(3) one
    by (auto simp: r mem_simps)
qed

text \<open>With the SYN-ACK sent twice the numbering is off by \<open>Y + 1\<close>.\<close>

lemma sc_retransmitted_synack_shifts:
  assumes "sc_restarts (ScOut es ms) k" "sc_en_ts ms es (tcp_at ms) (tcp_doff ms (tcp_at ms) * 4) \<noteq> None"
  shows "fold (sc_renumber k) [ScOut es ms, ScOut es ms] A = A - 2 * (ntohl (tcp_seq ms (tcp_at ms)) + 1)"
  using assms by simp

section \<open>Checksums\<close>

text \<open>
  The switch agent sets ECE without touching the checksum, so a tagged segment has a valid
  checksum up to its tag.
\<close>

lemma uint_clear_bit:
  assumes "k < 8"
  shows "uint (b AND NOT (push_bit k 1) :: u8) = uint b - (if bit b k then 2 ^ k else 0)"
proof -
  let ?p = "push_bit k 1 :: int"
  have one: "bit (1 :: int) n \<longleftrightarrow> n = 0" for n
    by (simp add: bit_1_iff)
  have "uint (b AND NOT (push_bit k 1)) = uint b AND NOT ?p"
    using assms by (intro bit_eqI) (auto simp: bit_simps one dest: bit_imp_le_length)
  moreover have "uint b = (uint b AND ?p) + (uint b AND NOT ?p)"
    by (subst disjunctive_add_eq_or) (auto intro!: bit_eqI simp: bit_simps)
  moreover have "uint b AND ?p = (if bit b k then 2 ^ k else 0)"
    using assms by (intro bit_eqI) (auto simp: bit_simps one bit_exp_iff dest: bit_imp_le_length)
  ultimately show ?thesis by simp
qed

lemma clear_ece_shift:
  "uint (ld32 (set_flag m tcp ECE False) (tcp + 12)) - uint (ld32 m (tcp + 12)) = (if tcp_ece m tcp then - 16384 else 0)"
  using uint_clear_bit [of 6 "m (tcp + 13)"] by (auto simp: ld32_def uint_mk32 set_flag_def st8_def algebra_simps split: if_splits)

lemma sum_shift_base:
  assumes "sum_shift m m0 a n x" "sum_shift m m1 a n y"
  shows "sum_shift m0 m1 a n (y - x)"
proof -
  have "oc_eq (msum m0 a n + (y - x)) (msum m a n + x + (y - x))"
    using assms(1) by (intro oc_intros) (simp add: sum_shift_def)
  then show ?thesis
    using assms(2) by (simp add: sum_shift_def oc_eq_def)
qed

text \<open>The segment before its checksum is stored, and how far its sum is from that without the tag.\<close>

definition open_mem :: "nat \<Rightarrow> nat option \<Rightarrow> mem \<Rightarrow> mem" where
  "open_mem tcp ts m =
     (let m = set_flag (set_flag (set_flag m tcp ACK False) tcp SYN True) tcp ECE False;
          m = st32 (st32 m (tcp + 4) (htonl (ntohl (tcp_seq m tcp) - 1))) (tcp + 8) 0
      in case ts of None \<Rightarrow> m | Some x \<Rightarrow> st32 m (x + 6) 0)"

definition open_diff :: "nat \<Rightarrow> nat option \<Rightarrow> mem \<Rightarrow> int" where
  "open_diff tcp ts m =
     uint (ld32 (set_flag (set_flag m tcp ACK False) tcp SYN True) (tcp + 12)) - uint (ld32 m (tcp + 12))
     + (uint (htonl (ntohl (tcp_seq m tcp) - 1)) - uint (tcp_seq m tcp)) - uint (tcp_ack_seq m tcp)
     - (case ts of None \<Rightarrow> 0 | Some x \<Rightarrow> uint (ts_tsecr m x))"

lemma open_shift:
  assumes "20 \<le> n" "\<And>x. ts = Some x \<Longrightarrow> tcp + 20 \<le> x \<and> even (x - tcp) \<and> x + 10 \<le> tcp + n"
  shows "sum_shift (set_flag m tcp ECE False) (open_mem tcp ts m) tcp n (open_diff tcp ts m)"
proof -
  let ?q = "htonl (ntohl (tcp_seq m tcp) - 1)" and ?f = "\<lambda>m. uint (ld32 m (tcp + 12))"
  define m0 where "m0 = set_flag m tcp ECE False"
  define m1 where "m1 = set_flag m tcp ACK False"
  define m2 where "m2 = set_flag m1 tcp SYN True"
  define m3 where "m3 = set_flag m2 tcp ECE False"
  define m4 where "m4 = st32 (st32 m3 (tcp + 4) ?q) (tcp + 8) 0"
  define D where "D = 0 + (?f m1 - ?f m) + (?f m2 - ?f m1) + (?f m3 - ?f m2) + (uint ?q - uint (tcp_seq m tcp))
    + (uint (0 :: u32) - uint (tcp_ack_seq m tcp))"
  note ms = m0_def m1_def m2_def m3_def m4_def
  have m4: "sum_shift m m4 tcp n D"
    unfolding D_def m4_def m3_def m2_def m1_def using assms(1) by (intro shift_intros) (simp_all add: mem_simps)
  have "sum_shift m (open_mem tcp ts m) tcp n (D - (case ts of None \<Rightarrow> 0 | Some x \<Rightarrow> uint (ts_tsecr m x)))"
  proof (cases ts)
    case (Some y)
    then have "sum_shift m (st32 m4 (y + 6) 0) tcp n (D + (uint (0 :: u32) - uint (ts_tsecr m y)))"
      using assms m4 by (intro shift_intros) (auto simp: ms mem_simps)
    then show ?thesis by (simp add: Some open_mem_def ms Let_def mem_simps)
  qed (use m4 in \<open>simp add: open_mem_def ms Let_def mem_simps\<close>)
  moreover have "sum_shift m m0 tcp n (0 + (?f m0 - ?f m))"
    unfolding m0_def using assms(1) by (intro shift_intros) simp_all
  ultimately have "sum_shift m0 (open_mem tcp ts m) tcp n
      (D - (case ts of None \<Rightarrow> 0 | Some x \<Rightarrow> uint (ts_tsecr m x)) - (0 + (?f m0 - ?f m)))"
    by (rule sum_shift_base [rotated])
  moreover have "?f m3 - ?f m2 = ?f m0 - ?f m"
    unfolding m3_def m0_def clear_ece_shift by (simp add: m2_def m1_def)
  then have "D - (case ts of None \<Rightarrow> 0 | Some x \<Rightarrow> uint (ts_tsecr m x)) - (0 + (?f m0 - ?f m)) = open_diff tcp ts m"
    unfolding D_def open_diff_def m1_def [symmetric] m2_def [symmetric] by simp
  ultimately show ?thesis
    by (simp only: m0_def)
qed

context sc_runtime
begin

lemma sc_cdiff_drop:
  assumes "oc_eq (uint (ucast c :: u32)) x"
  shows "oc_eq (uint (ucast (sc_csum_diff E (bytes32 a) [] (ucast c)) :: u32)) (x - uint a)"
  using cdiff_out [of "bytes32 a" "[]" c x 0 "uint a"] assms by (simp add: uint_oc_bytes32)

lemma open_result:
  assumes "tcp + 16 \<le> data_end" "\<And>x. ts = Some x \<Longrightarrow> tcp + 20 \<le> x"
  shows "\<exists>c. snd (snd (sc_in_open E data_end ip tcp ts s m)) = st16 (open_mem tcp ts m) (tcp + 16) c
    \<and> oc_eq (uint c) (uint (tcp_check m tcp) - open_diff tcp ts m)"
proof -
  let ?q = "htonl (ntohl (tcp_seq m tcp) - 1)" and ?m2 = "set_flag (set_flag m tcp ACK False) tcp SYN True"
  let ?c1 = "sc_csum_diff E (bytes32 (ld32 m (tcp + 12))) (bytes32 (ld32 ?m2 (tcp + 12)))
    (ucast (NOT (ucast (tcp_check m tcp) :: u64)))"
  let ?c3 = "sc_csum_diff E (bytes32 (tcp_ack_seq m tcp)) [] (ucast
    (sc_csum_diff E (bytes32 (tcp_seq m tcp)) (bytes32 ?q) (ucast ?c1)))"
  let ?c = "case ts of None \<Rightarrow> ?c3 | Some x \<Rightarrow> sc_csum_diff E (bytes32 (ts_tsecr m x)) [] (ucast ?c3)"
  have c3: "oc_eq (uint (ucast ?c3 :: u32)) (- uint (tcp_check m tcp) - uint (ld32 m (tcp + 12))
      + uint (ld32 ?m2 (tcp + 12)) - uint (tcp_seq m tcp) + uint ?q - uint (tcp_ack_seq m tcp))"
    by (intro sc_cdiff_drop val_updI seed_not)
  have "oc_eq (uint (csum_fold_helper_64 ?c)) (uint (tcp_check m tcp) - open_diff tcp ts m)"
    using fold_out [OF _ _ c3] fold_out [OF _ _ sc_cdiff_drop [OF c3]]
    by (cases ts) (simp_all add: open_diff_def algebra_simps)
  moreover have "snd (snd (sc_in_open E data_end ip tcp ts s m)) = st16 (open_mem tcp ts m) (tcp + 16) (csum_fold_helper_64 ?c)"
    using assms by (cases ts) (auto simp: sc_in_open_def open_mem_def Let_def mem_simps)
  ultimately show ?thesis by blast
qed

lemma open_csum:
  assumes "tcp_csum_ok (set_flag m tcp ECE False) 14 tcp" "34 \<le> tcp" "tcp + 16 \<le> data_end" "20 \<le> tcp_seg_len m 14"
    "\<And>x. ts = Some x \<Longrightarrow> tcp + 20 \<le> x \<and> even (x - tcp) \<and> x + 10 \<le> tcp + tcp_seg_len m 14"
  shows "tcp_csum_ok (snd (snd (sc_in_open E data_end 14 tcp ts s m))) 14 tcp"
proof -
  let ?m0 = "set_flag m tcp ECE False" and ?m5 = "open_mem tcp ts m"
  obtain c where c: "snd (snd (sc_in_open E data_end 14 tcp ts s m)) = st16 ?m5 (tcp + 16) c"
    "oc_eq (uint c) (uint (tcp_check m tcp) - open_diff tcp ts m)"
    using open_result [OF assms(3)] assms(5) by blast
  have "tcp_seg_len ?m5 14 = tcp_seg_len m 14" "pseudo_sum ?m5 14 = pseudo_sum ?m0 14"
    "tcp_check ?m5 tcp = tcp_check m tcp"
    using assms(2,5) by (auto simp: open_mem_def mem_simps tcp_seg_len_def pseudo_sum_def Let_def split: option.split)
  moreover have "tcp_seg_len ?m0 14 = tcp_seg_len m 14" "tcp_check ?m0 tcp = tcp_check m tcp"
    using assms(2) by (simp_all add: mem_simps tcp_seg_len_def)
  ultimately show ?thesis
    unfolding c(1) using c(2) open_shift [OF assms(4,5)] assms(2,4) by (intro tcp_csum_rewrite [OF assms(1)]) simp_all
qed

end

text \<open>
  An ACK that opens a flow reaches the server as the SYN that the client sent first: SYN set,
  ACK and the tag cleared, the sequence number one less, no acknowledgement, no time stamp echo.
  Its checksum is valid if that of the ACK was before the switch agent tagged it.
\<close>

theorem sc_open_to_syn:
  assumes "sc_runtime E" "opens_flow m d (lookup_elem (sc_ops E) s)" "sc_server_in E d s m = (a, s', m')"
  defines "tcp \<equiv> tcp_at m"
  shows "a = XDP_PASS \<and> tcp_syn m' tcp \<and> \<not> tcp_ack m' tcp \<and> \<not> tcp_ece m' tcp
    \<and> ntohl (tcp_seq m' tcp) = ntohl (tcp_seq m tcp) - 1 \<and> tcp_ack_seq m' tcp = 0
    \<and> flow_key m' 14 tcp = flow_key m 14 tcp
    \<and> (\<forall>ts. sc_in_ts m d tcp (tcp_doff m tcp * 4) = Some (Some ts) \<longrightarrow> ts_tsecr m' ts = 0 \<and> ts_tsval m' ts = ts_tsval m ts)
    \<and> (tcp_csum_ok (set_flag m tcp ECE False) 14 tcp \<and> 20 \<le> tcp_seg_len m 14
        \<and> (\<forall>ts. sc_in_ts m d tcp (tcp_doff m tcp * 4) = Some (Some ts) \<longrightarrow> even (ts - tcp) \<and> ts + 10 \<le> tcp + tcp_seg_len m 14)
        \<longrightarrow> tcp_csum_ok m' 14 tcp)"
proof -
  have fr: "sc_frame m d tcp" and af: "ack_frame m d"
    using assms(2) by (simp_all add: opens_flow_def ack_frame_def tcp_def)
  obtain ts where ts: "sc_in_ts m d tcp (tcp_doff m tcp * 4) = Some ts"
    using af by (auto simp: ack_frame_def tcp_def)
  have r: "sc_in_open E d 14 tcp ts s m = (a, s', m')"
    using assms(2,3) af ts unfolding opens_flow_def ack_frame_def tcp_def [symmetric]
    by (auto simp: sc_in_frame [OF fr] sc_in_tcp_def sc_in_ack_def cookie_ack_def Let_def split: option.splits bool.splits)
  have rng: "tcp + 20 \<le> x" if "ts = Some x" for x
    using sc_ts_range(1) [OF ts [unfolded that]] by simp
  have "a = XDP_PASS \<and> tcp_syn m' tcp \<and> \<not> tcp_ack m' tcp \<and> \<not> tcp_ece m' tcp
    \<and> ntohl (tcp_seq m' tcp) = ntohl (tcp_seq m tcp) - 1 \<and> tcp_ack_seq m' tcp = 0
    \<and> flow_key m' 14 tcp = flow_key m 14 tcp \<and> (\<forall>x. ts = Some x \<longrightarrow> ts_tsecr m' x = 0 \<and> ts_tsval m' x = ts_tsval m x)"
    using r rng sc_frameD(1-3) [OF fr] by (cases ts) (auto simp: sc_in_open_def Let_def mem_simps flow_key_def)
  moreover have "tcp_csum_ok m' 14 tcp" if "tcp_csum_ok (set_flag m tcp ECE False) 14 tcp" "20 \<le> tcp_seg_len m 14"
    "\<And>x. ts = Some x \<Longrightarrow> even (x - tcp) \<and> x + 10 \<le> tcp + tcp_seg_len m 14"
    using sc_runtime.open_csum [OF assms(1) that(1), of d ts s] that sc_frameD [OF fr] rng r by simp
  ultimately show ?thesis
    using ts by simp
qed

text \<open>
  The egress program searches only headers longer than 32 bytes for the option, so the time stamp
  of a segment whose header has exactly 32 bytes, the usual size with a time stamp option, is not
  recorded.
\<close>

theorem sc_short_header_ts_lost:
  assumes "sc_runtime E" "sc_frame m d tcp" "tcp_doff m tcp * 4 = 32" "\<not> (tcp_ack m tcp \<and> tcp_syn m tcp)"
    and "lookup_elem (sc_ops E) s (reply_key m 14 tcp) = Some v"
  shows "sc_server_en E d s m = (TC_ACT_OK, s, st32 m (tcp + 4) (htonl (ntohl (tcp_seq m tcp) + sc_delta v)))"
  using assms(3-) by (auto simp: sc_en_frame [OF assms(2)] sc_en_tcp_def sc_en_other_def sc_en_ts_def
      sc_runtime.sc_probe_some [OF assms(1)] Let_def)

section \<open>A connection\<close>

text \<open>The sample handshake ACK with the tag of the switch agent.\<close>

definition sample_tagged :: mem where
  "sample_tagged = sample_handshake(47 := 0x50)"

lemma sample_tagged_eval:
  "sc_frame sample_tagged 66 34" "tcp_ece sample_tagged 34" "tcp_ack sample_tagged 34" "\<not> tcp_syn sample_tagged 34"
  "tcp_doff sample_tagged 34 = 8" "ip_ihl sample_tagged 14 = 5" "tcp_ack_seq sample_tagged 34 = htonl 0x1a2b3c4e"
  by (simp_all add: sample_tagged_def sample_handshake_def sc_frame_def flow_key_def sample_eval)

lemma sample_tagged_ts: "sc_in_ts sample_tagged 66 34 32 = Some (Some 56)"
  by (simp add: sample_tagged_def sample_handshake_def sample_eval bpf_parse_timestamp_def bpf_fast_timestamp_def Let_def
      ack_1_mask_def sc_in_ts_def)

lemma sample_tagged_csum: "tcp_csum_ok (set_flag sample_tagged 34 ECE False) 14 34"
proof -
  have "set_flag sample_tagged 34 ECE False = sample_handshake"
    by (simp add: set_flag_def st8_def sample_tagged_def fun_eq_iff) (simp add: sample_handshake_def mem_of_def)
  then show ?thesis
    using sample_handshake_csum by simp
qed

lemma sample_tagged_opens: "opens_flow sample_tagged 66 A"
  by (simp add: opens_flow_def ack_frame_def sample_tagged_eval [simplified] sample_tagged_ts)

text \<open>The sample handshake ACK with a chosen acknowledgement number, and one that is one too high.\<close>

definition sample_acking :: "u32 \<Rightarrow> mem" where
  "sample_acking n = st32 sample_handshake 42 (htonl n)"

abbreviation sample_cookie :: u32 where
  "sample_cookie \<equiv> get_hash (ip_saddr sample_handshake 14) (ip_daddr sample_handshake 14)
     (tcp_source sample_handshake 34) (tcp_dest sample_handshake 34)"

definition sample_forged :: mem where
  "sample_forged = sample_acking (ntohl sample_cookie + 2)"

lemma sample_acking_same: "i \<notin> {42..<46} \<Longrightarrow> sample_acking n i = sample_handshake i"
  by (auto simp: sample_acking_def st32_def)

lemma sample_acking_eval:
  "ack_frame (sample_acking n) 66" "\<not> tcp_ece (sample_acking n) 34" "ip_ihl (sample_acking n) 14 = 5"
  "flow_key (sample_acking n) 14 34 = flow_key sample_handshake 14 34" "tcp_ack_seq (sample_acking n) 34 = htonl n"
  "tcp_ack (sample_acking n) 34" "\<not> tcp_syn (sample_acking n) 34" "tcp_doff (sample_acking n) 34 = 8"
  "sc_frame (sample_acking n) 66 34" "sc_in_ts (sample_acking n) 66 34 32 = Some (Some 56)"
proof -
  note same = sample_acking_same
  show ihl: "ip_ihl (sample_acking n) 14 = 5" and "\<not> tcp_ece (sample_acking n) 34"
    by (simp_all add: same) (simp_all add: sample_handshake_def mem_of_def bit_simps)
  have "bpf_fast_timestamp (sample_acking n) 54 34 66 = bpf_fast_timestamp sample_handshake 54 34 66"
    by (simp add: bpf_fast_timestamp_def ld64_def ld32_def same cong: if_cong)
  also have "\<dots> = FastFound 2"
    by (simp add: sample_handshake_def sample_eval bpf_fast_timestamp_def Let_def ack_1_mask_def)
  finally show ts: "sc_in_ts (sample_acking n) 66 34 32 = Some (Some 56)"
    by (simp add: sc_in_ts_def bpf_parse_timestamp_def same) (simp add: sample_handshake_def mem_of_def)
  show fr: "sc_frame (sample_acking n) 66 34" "tcp_doff (sample_acking n) 34 = 8" "tcp_ack (sample_acking n) 34"
    "\<not> tcp_syn (sample_acking n) 34"
    by (simp_all add: sc_frame_def ld16_def same) (simp_all add: sample_handshake_def sample_eval)
  show "ack_frame (sample_acking n) 66"
    using ts fr by (simp add: ack_frame_def ihl)
  show "flow_key (sample_acking n) 14 34 = flow_key sample_handshake 14 34" "tcp_ack_seq (sample_acking n) 34 = htonl n"
    by (simp_all add: flow_key_def sample_acking_def mem_simps)
qed

lemma sample_acking_cookie: "cookie_ack (sample_acking n) 34 \<longleftrightarrow> n = ntohl sample_cookie + 1"
proof -
  have "bswap32 (n - 1) = x \<longleftrightarrow> n = bswap32 x + 1" for x
    by (metis bswap32_bswap32 diff_add_cancel add_diff_cancel)
  then show ?thesis
    using sample_acking_eval(4,5) [of n] by (simp add: cookie_ack_def flow_key_def)
qed

theorem sc_forged_ack_dropped_witness:
  "sc_server_in (sc_ref_env 4) 66 [] sample_forged = (XDP_DROP, [], sample_forged)"
  by (rule sc_forged_ack_dropped)
    (use sample_acking_eval(1-3) in \<open>simp_all add: sc_ref_env_def htab_ops_def sample_forged_def sample_acking_cookie\<close>)

definition sc_run :: "sc_event list" where
  "sc_run = [ScIn 66 sample_tagged, ScOut 70 sample_synack]"

abbreviation sc_key :: map_key_t where
  "sc_key \<equiv> reply_key sample_synack 14 34"

lemma sc_sample_keys:
  "flow_key sample_tagged 14 34 = sc_key" "flow_key sample_ack 14 34 = sc_key" "reply_key sample_reply 14 34 = sc_key"
  by (simp_all add: sample_tagged_def reply_key_sample flow_key_def sample_handshake_def sample_ack_def sample_eval)

lemma sc_sample_ihl: "ip_ihl sample_synack 14 = 5" "ip_ihl sample_ack 14 = 5" "ip_ihl sample_reply 14 = 5"
  by (simp_all add: sample_synack_def sample_ack_def sample_reply_def sample_eval)

lemma sc_sample_frames:
  "sc_frame sample_synack 70 34" "sc_frame sample_ack 66 34" "sc_frame sample_reply 66 34"
  "sc_en_ts sample_synack 70 34 36 = Some (Some 60)" "sc_en_ts sample_reply 66 34 32 = Some None"
  "sc_in_ts sample_ack 66 34 32 = Some (Some 56)" "ts_tsval sample_synack 60 = htonl 9000" "\<not> tcp_ece sample_ack 34"
proof -
  show "ts_tsval sample_synack 60 = htonl 9000" "\<not> tcp_ece sample_ack 34"
    by (simp_all add: sample_synack_def sample_ack_def sample_eval)
qed (use sample_synack_frame sample_ack_frame sample_reply_frame in
  \<open>simp_all add: sc_frame_def tcp_frame_def sc_en_ts_def sc_in_ts_def sample_simps\<close>)

lemma sc_run_room: "run_ok (sc_room (sc_ref_env 4)) (sc_step (sc_ref_env 4)) sc_run []"
  by (simp add: sc_run_def sc_ref_env_def htab_ops_def htab_update_def)

theorem sc_server_refines_witness:
  "lookup_elem (sc_ops (sc_ref_env 4)) (fold (sc_step (sc_ref_env 4)) sc_run []) sc_key
     = Some \<lparr>sc_ts_val_s = htonl 9000, sc_delta = 0x1a2b3c4e - 777 - 1\<rparr>"
  using sc_server_refines [OF sc_ref.sc_runtime_axioms sc_run_room]
  by (simp add: sc_run_def sample_tagged_opens sample_tagged_eval [simplified] sc_sample_keys [simplified] opened_def
      sc_sample_ihl sc_sample_frames [simplified] sample_simps Let_def)

theorem sc_handover_witness:
  "ntohl (tcp_seq (snd (snd (sc_server_en (sc_ref_env 4) 66 (fold (sc_step (sc_ref_env 4)) sc_run []) sample_reply))) 34)
      = 0x1a2b3c4e
   \<and> ntohl (tcp_ack_seq (snd (snd (sc_server_in (sc_ref_env 4) 66 (fold (sc_step (sc_ref_env 4)) sc_run []) sample_ack))) 34)
      = 778"
  using sc_handover [OF sc_ref.sc_runtime_axioms sc_run_room [unfolded sc_run_def] sample_tagged_opens _ _ sc_sample_frames(3),
      of sc_key "0x1a2b3c4e" sample_ack 66]
  by (simp add: sc_run_def ack_frame_def sc_sample_keys [simplified] sc_sample_ihl sc_sample_frames [simplified] sample_simps
      sample_tagged_eval [simplified])

theorem sc_open_to_syn_witness:
  "tcp_syn (snd (snd (sc_server_in (sc_ref_env 4) 66 [] sample_tagged))) 34
   \<and> tcp_csum_ok (snd (snd (sc_server_in (sc_ref_env 4) 66 [] sample_tagged))) 14 34"
proof -
  obtain a s' m' where r: "sc_server_in (sc_ref_env 4) 66 [] sample_tagged = (a, s', m')"
    by (metis prod_cases3)
  have "tcp_seg_len sample_tagged 14 = 32"
    by (simp add: sample_tagged_def sample_handshake_def sample_eval tcp_seg_len_def)
  then show ?thesis
    using sc_open_to_syn [OF sc_ref.sc_runtime_axioms sample_tagged_opens r] sample_tagged_csum r
    by (simp add: sample_tagged_eval [simplified] sample_tagged_ts)
qed

end
