(* ===== verification/Sc_Switch.thy ===== *)
theory Sc_Switch
  imports Switch_Proofs Sc_Flow
begin

text \<open>
  The switch agent of \<open>examples/smartcookie/switch_agent_user.c\<close>: it answers every SYN with a SYN
  cookie, lets an ACK through if its flow is in the Bloom filter, and otherwise checks the cookie,
  tags the ACK with ECE for the server agent and enters the flow into the filter.  A dereference
  of the null pointer, which \<open>ts\<close> is for segments without options, is an error value, and so is
  an access to the three arrays of 16 entries for a worker with a higher number.
\<close>

section \<open>State and configuration\<close>

record sc_cfg =
  sc_opt_drop :: bool
  sc_opt_pressure :: bool
  sc_opt_forward :: bool
  sc_opt_tcpoption :: bool
  sc_opt_ab_test :: bool
  sc_client_mac_64 :: u64
  sc_server_mac_64 :: u64
  sc_attacker_mac_64 :: u64
  sc_client_r_mac_64 :: u64
  sc_server_r_mac_64 :: u64
  sc_attacker_r_mac_64 :: u64
  sc_client_ip :: u32
  sc_server_ip :: u32
  sc_attacker_ip :: u32

record sc_switch =
  sc_flows :: "nat \<Rightarrow> pkt_5tuple"
  sc_sa_opts :: "nat \<Rightarrow> common_synack_opt"
  sc_sa_apache_opts :: "nat \<Rightarrow> common_apache_opt"
  sc_bf :: bloom_filter

datatype sc_error = ScBv bv_error | ScNull

type_synonym sc_result = "sc_error + (int \<times> sc_switch \<times> mem \<times> u32)"

section \<open>Initialisation\<close>

definition sc_init_saopts :: "nat \<Rightarrow> sc_switch \<Rightarrow> sc_switch" where
  "sc_init_saopts workers st =
     foldl (\<lambda>st i. st\<lparr>sc_sa_opts := (sc_sa_opts st)(i := (sc_sa_opts st i)\<lparr>MSS := 0x18020402, SackOK := 0x0204,
         opt_ts := (opt_ts (sc_sa_opts st i))\<lparr>tsval := 1, kind := 8, opt_length := 10\<rparr>\<rparr>)\<rparr>)
       st [0..<workers]"

definition sc_init_sa_apache_opts :: "nat \<Rightarrow> sc_switch \<Rightarrow> sc_switch" where
  "sc_init_sa_apache_opts workers st =
     foldl (\<lambda>st i. st\<lparr>sc_sa_apache_opts := (sc_sa_apache_opts st)(i := (sc_sa_apache_opts st i)\<lparr>ap_MSS := 0xb4050402,
         ap_SackOK := 0x0204,
         ap_ts := (ap_ts (sc_sa_apache_opts st i))\<lparr>tsval := 0, tsecr := 0, kind := 8, opt_length := 10\<rparr>,
         nop := 1, wscale := [3, 3, 7]\<rparr>)\<rparr>)
       st [0..<workers]"

text \<open>Filling the filter with random flows; \<open>rand\<close> is the sequence of the library's random numbers.\<close>

definition add_bf :: "(nat \<Rightarrow> u32) \<Rightarrow> nat \<Rightarrow> sc_switch \<Rightarrow> bv_error + sc_switch" where
  "add_bf rand opt_add_connection st =
     foldl (\<lambda>r i. case r of
         Inl e \<Rightarrow> Inl e
       | Inr st \<Rightarrow>
           (let flow = concat (map (\<lambda>j. bytes32 (rand (3 * i + j))) [0..<3])
            in case bloom_filter_put (sc_bf st) flow of Inl e \<Rightarrow> Inl e | Inr b \<Rightarrow> Inr (st\<lparr>sc_bf := b\<rparr>)))
       (Inr st) [0..<opt_add_connection]"

definition sc_init :: "(nat \<Rightarrow> u32) \<Rightarrow> nat \<Rightarrow> nat \<Rightarrow> sc_switch \<Rightarrow> bv_error + sc_switch" where
  "sc_init rand workers opt_add_connection st =
     (let st = st\<lparr>sc_bf := bloom_filter_new 3145728 [djb2, sdbm, mm2]\<rparr>;
          st = sc_init_saopts workers st;
          st = sc_init_sa_apache_opts workers st
      in if opt_add_connection \<noteq> 0 then add_bf rand opt_add_connection st else Inr st)"

section \<open>Helpers\<close>

definition sc_hsiphash :: "u32 \<Rightarrow> u32 \<Rightarrow> u16 \<Rightarrow> u16 \<Rightarrow> u32" where
  "sc_hsiphash src dst sport dport =
     (let v0 = c0 XOR key0; v1 = c1 XOR key1; v2 = c2 XOR key0; v3 = c3 XOR key1;
          v3 = v3 XOR ntohl src;
          (v0, v1, v2, v3) = SIPROUND (v0, v1, v2, v3);
          (v0, v1, v2, v3) = SIPROUND (v0, v1, v2, v3);
          v0 = v0 XOR ntohl src;
          v3 = v3 XOR ntohl dst;
          (v0, v1, v2, v3) = SIPROUND (v0, v1, v2, v3);
          (v0, v1, v2, v3) = SIPROUND (v0, v1, v2, v3);
          v0 = v0 XOR ntohl dst;
          ports = push_bit 16 (ucast dport) OR ucast sport;
          v3 = v3 XOR ntohl ports;
          (v0, v1, v2, v3) = SIPROUND (v0, v1, v2, v3);
          (v0, v1, v2, v3) = SIPROUND (v0, v1, v2, v3);
          v0 = v0 XOR ntohl ports;
          v2 = v2 XOR 0xFF;
          (v0, v1, v2, v3) = SIPROUND (v0, v1, v2, v3);
          (v0, v1, v2, v3) = SIPROUND (v0, v1, v2, v3);
          (v0, v1, v2, v3) = SIPROUND (v0, v1, v2, v3);
          (v0, v1, v2, v3) = SIPROUND (v0, v1, v2, v3)
      in (v0 XOR v1) XOR (v2 XOR v3))"

definition sc_forward :: "sc_cfg \<Rightarrow> mem \<Rightarrow> nat \<Rightarrow> nat \<Rightarrow> int \<times> mem" where
  "sc_forward cfg m eth ip =
     (if ip_daddr m ip = sc_client_ip cfg then
        (let m = wr_bytes m (eth + 6) (mac_bytes (sc_client_r_mac_64 cfg));
             m = wr_bytes m eth (mac_bytes (sc_client_mac_64 cfg))
         in (CLIENT_R_IF_ORDER, m))
      else if ip_daddr m ip = sc_server_ip cfg then
        (let m = wr_bytes m (eth + 6) (mac_bytes (sc_server_r_mac_64 cfg));
             m = wr_bytes m eth (mac_bytes (sc_server_mac_64 cfg))
         in (SERVER_R_IF_ORDER, m))
      else if ip_daddr m ip = sc_attacker_ip cfg then
        (let m = wr_bytes m (eth + 6) (mac_bytes (sc_attacker_r_mac_64 cfg));
             m = wr_bytes m eth (mac_bytes (sc_attacker_mac_64 cfg))
         in (ATTACKER_R_IF_ORDER, m))
      else (-1, m))"

definition sc_pass :: "sc_cfg \<Rightarrow> sc_switch \<Rightarrow> mem \<Rightarrow> u32 \<Rightarrow> sc_result" where
  "sc_pass cfg st m len = (let (r, m) = sc_forward cfg m 0 14 in Inr (r, st, m, len))"

definition sc_drop :: "sc_switch \<Rightarrow> mem \<Rightarrow> u32 \<Rightarrow> sc_result" where
  "sc_drop st m len = Inr (-1, st, m, len)"

text \<open>The first 12 bytes of an entry of \<open>flows\<close>.\<close>

definition flow_bytes :: "pkt_5tuple \<Rightarrow> u8 list" where
  "flow_bytes f = bytes32 (t5_src_ip f) @ bytes32 (t5_dst_ip f)
     @ [byte 0 (t5_src_port f), byte 1 (t5_src_port f), byte 0 (t5_dst_port f), byte 1 (t5_dst_port f)]"

section \<open>Inbound SYN\<close>

definition sc_syn_options :: "sc_cfg \<Rightarrow> nat \<Rightarrow> sc_switch \<Rightarrow> mem \<Rightarrow> u32 \<Rightarrow> nat \<Rightarrow> sc_switch \<times> mem \<times> u32" where
  "sc_syn_options cfg worker_id st m len ts =
     (let rx_tsval = ts_tsval m ts
      in if sc_opt_tcpoption cfg then
           if \<not> sc_opt_ab_test cfg then
             (let o1 = sc_sa_opts st worker_id;
                  o2 = o1\<lparr>opt_ts := (opt_ts o1)\<lparr>tsecr := rx_tsval, tsval := 1\<rparr>\<rparr>;
                  st = st\<lparr>sc_sa_opts := (sc_sa_opts st)(worker_id := o2)\<rparr>;
                  (m, len) = resize_options 16 m len (synack_opt_bytes o2)
              in (st, m, len))
           else
             (let m = st32 m (ts + 2) 1;
                  m = st32 m (ts + 6) rx_tsval
              in (st, m, len))
         else if \<not> sc_opt_ab_test cfg then
           (let (m, len) = resize_options 0 m len [] in (st, m, len))
         else (st, m, len))"

text \<open>The incremental checksum of the answer.\<close>

definition sc_synack_csum :: "mem \<Rightarrow> nat \<Rightarrow> nat \<Rightarrow> u32 \<Rightarrow> u32 \<Rightarrow> u32 \<Rightarrow> u32 \<Rightarrow> u16 \<Rightarrow> u16 \<Rightarrow> u16 \<Rightarrow> u16" where
  "sc_synack_csum m tcp ts rx_tsval rx_tsecr rx_seq rx_ack old_win rx_flag new_flag =
     (let tcp_csum = NOT (csum_unfold (tcp_check m tcp));
          tcp_csum = csum_add tcp_csum (NOT rx_tsval);
          tcp_csum = csum_add tcp_csum (ts_tsval m ts);
          tcp_csum = csum_add tcp_csum (NOT rx_tsecr);
          tcp_csum = csum_add tcp_csum (ts_tsecr m ts);
          tcp_csum = csum_add tcp_csum (NOT rx_seq);
          tcp_csum = csum_add tcp_csum (tcp_seq m tcp);
          tcp_csum = csum_add tcp_csum (NOT rx_ack);
          tcp_csum = csum_add tcp_csum (tcp_ack_seq m tcp);
          tcp_csum = csum_add tcp_csum (NOT (ucast old_win));
          tcp_csum = csum_add tcp_csum (ucast (tcp_window m tcp));
          tcp_csum = csum_add tcp_csum (NOT (ucast rx_flag));
          tcp_csum = csum_add tcp_csum (ucast new_flag)
      in NOT (csum_fold tcp_csum))"

definition sc_synack_header :: "sc_cfg \<Rightarrow> mem \<Rightarrow> nat \<Rightarrow> u32 \<Rightarrow> u32 \<Rightarrow> mem" where
  "sc_synack_header cfg m ts rx_tsval rx_tsecr =
     (let ip = 14; tcp = 34;
          m = swap32 m (ip + 12) (ip + 16);
          rx_seq = tcp_seq m tcp;
          hashcookie = sc_hsiphash (ip_daddr m ip) (ip_saddr m ip) (tcp_source m tcp) (tcp_dest m tcp);
          m = st32 m (tcp + 4) hashcookie;
          rx_ack = tcp_ack_seq m tcp;
          m = st32 m (tcp + 8) (htonl (ntohl rx_seq + 1));
          m = swap16 m tcp (tcp + 2);
          rx_flag = ld16 m (tcp + 12);
          m = set_flag m tcp SYN True;
          m = set_flag m tcp ACK True;
          new_flag = ld16 m (tcp + 12)
      in if \<not> sc_opt_ab_test cfg then
           (let (m, c) = cksumTcp m ip tcp in st16 m (tcp + 16) c)
         else
           (let old_win = tcp_window m tcp;
                m = st16 m (tcp + 14) (htons 502)
            in st16 m (tcp + 16)
                 (sc_synack_csum m tcp ts rx_tsval rx_tsecr rx_seq rx_ack old_win rx_flag new_flag)))"

definition sc_syn :: "sc_cfg \<Rightarrow> nat \<Rightarrow> sc_switch \<Rightarrow> mem \<Rightarrow> u32 \<Rightarrow> nat \<Rightarrow> sc_result" where
  "sc_syn cfg worker_id st m len ts =
     (let rx_tsval = ts_tsval m ts;
          rx_tsecr = ts_tsecr m ts;
          (st, m, len) = sc_syn_options cfg worker_id st m len ts;
          m = sc_synack_header cfg m ts rx_tsval rx_tsecr
      in if sc_opt_pressure cfg then sc_drop st m len else sc_pass cfg st m len)"

section \<open>Inbound ACK\<close>

definition sc_ack_options :: "sc_cfg \<Rightarrow> nat \<Rightarrow> sc_switch \<Rightarrow> mem \<Rightarrow> u32 \<Rightarrow> nat \<Rightarrow> sc_switch \<times> mem \<times> u32" where
  "sc_ack_options cfg worker_id st m len ts =
     (let o1 = sc_sa_apache_opts st worker_id;
          o2 = o1\<lparr>ap_ts := (ap_ts o1)\<lparr>tsval := ts_tsval m ts, tsecr := ts_tsecr m ts\<rparr>\<rparr>;
          st = st\<lparr>sc_sa_apache_opts := (sc_sa_apache_opts st)(worker_id := o2)\<rparr>;
          (m, len) = resize_options 20 m len (apache_opt_bytes o2);
          (m, c) = cksumTcp m 14 34
      in (st, st16 m (34 + 16) c, len))"

definition sc_ack_finish :: "sc_cfg \<Rightarrow> nat \<Rightarrow> sc_switch \<Rightarrow> mem \<Rightarrow> u32 \<Rightarrow> nat option \<Rightarrow> sc_result" where
  "sc_ack_finish cfg worker_id st m len ts =
     (if sc_opt_ab_test cfg then
        (case ts of
           None \<Rightarrow> Inl ScNull
         | Some ts \<Rightarrow>
             (let (st, m, len) =
                (if ts_tsecr m ts = 1 \<and> \<not> tcp_psh m 34 then sc_ack_options cfg worker_id st m len ts else (st, m, len))
              in sc_pass cfg st m len))
      else sc_pass cfg st m len)"

definition sc_ack :: "sc_cfg \<Rightarrow> nat \<Rightarrow> sc_switch \<Rightarrow> mem \<Rightarrow> u32 \<Rightarrow> nat option \<Rightarrow> sc_result" where
  "sc_ack cfg worker_id st m len ts =
     (let ip = 14; tcp = 34
      in case bloom_filter_test (sc_bf st) (flow_bytes (sc_flows st worker_id)) of
           Inl e \<Rightarrow> Inl (ScBv e)
         | Inr True \<Rightarrow> sc_ack_finish cfg worker_id st m len ts
         | Inr False \<Rightarrow>
             (let syncookie = sc_hsiphash (ip_saddr m ip) (ip_daddr m ip) (tcp_source m tcp) (tcp_dest m tcp)
              in if htonl (ntohl (tcp_ack_seq m tcp) - 1) \<noteq> syncookie then sc_drop st m len
                 else
                   (let m = set_flag m tcp ECE True
                    in case bloom_filter_put (sc_bf st) (flow_bytes (sc_flows st worker_id)) of
                         Inl e \<Rightarrow> Inl (ScBv e)
                       | Inr b \<Rightarrow> sc_ack_finish cfg worker_id (st\<lparr>sc_bf := b\<rparr>) m len ts)))"

section \<open>Outbound packets\<close>

definition sc_out_tagged :: "nat \<Rightarrow> sc_switch \<Rightarrow> mem \<Rightarrow> u32 \<Rightarrow> sc_result" where
  "sc_out_tagged worker_id st m len =
     (if worker_id \<ge> PER_WORKER then Inl (ScBv BvFault) else
      let ip = 14; tcp = 34;
          st = st\<lparr>sc_flows := (sc_flows st)(worker_id := (sc_flows st worker_id)\<lparr>t5_src_ip := ip_daddr m ip,
            t5_dst_ip := ip_saddr m ip, t5_src_port := tcp_dest m tcp, t5_dst_port := tcp_source m tcp\<rparr>)\<rparr>
      in case bloom_filter_put (sc_bf st) (take 4 (flow_bytes (sc_flows st worker_id))) of
           Inl e \<Rightarrow> Inl (ScBv e)
         | Inr b \<Rightarrow> sc_drop (st\<lparr>sc_bf := b\<rparr>) m len)"

definition sc_out_ack :: "mem \<Rightarrow> nat option \<Rightarrow> mem" where
  "sc_out_ack m ts =
     (case ts of
        None \<Rightarrow> m
      | Some ts \<Rightarrow>
          (let old_ts_val = ts_tsval m ts;
               m = st32 m (ts + 2) 2;
               tcp_csum = NOT (csum_unfold (tcp_check m 34));
               tcp_csum = csum_add tcp_csum (NOT old_ts_val);
               tcp_csum = csum_add tcp_csum (ts_tsval m ts)
           in st16 m (34 + 16) (NOT (csum_fold tcp_csum))))"

section \<open>The packet processor\<close>

text \<open>The option pointer: \<open>None\<close> drops the frame, \<open>Some None\<close> is the null pointer.\<close>

definition sc_sw_ts :: "mem \<Rightarrow> u32 \<Rightarrow> nat option option" where
  "sc_sw_ts m len =
     (if tcp_doff m 34 \<ge> 8 then
        (case parse_timestamp m 34 of
           None \<Rightarrow> None
         | Some off \<Rightarrow> if 54 + off + 10 > unat len then None else Some (Some (54 + off)))
      else Some None)"

definition sc_processor :: "sc_cfg \<Rightarrow> sc_switch \<Rightarrow> mem \<Rightarrow> u32 \<Rightarrow> nat \<Rightarrow> nat \<Rightarrow> sc_result" where
  "sc_processor cfg st m len ingress_ifindex worker_id =
     (if sc_opt_drop cfg then sc_drop st m len
      else if \<not> (ntohs (eth_proto m 0) = ETH_P_IP \<and> ip_protocol m 14 = IPPROTO_TCP) then sc_drop st m len
      else if sc_opt_forward cfg then sc_pass cfg st m len
      else
        (let ip = 14; tcp = 34
         in case sc_sw_ts m len of
              None \<Rightarrow> sc_drop st m len
            | Some ts \<Rightarrow>
                if ingress_ifindex = 0 then
                  if worker_id \<ge> PER_WORKER then Inl (ScBv BvFault) else
                  (let st = st\<lparr>sc_flows := (sc_flows st)(worker_id := (sc_flows st worker_id)\<lparr>t5_src_ip := ip_saddr m ip,
                         t5_dst_ip := ip_daddr m ip, t5_src_port := tcp_source m tcp,
                         t5_dst_port := tcp_source m tcp\<rparr>)\<rparr>
                   in if tcp_syn m tcp \<and> \<not> tcp_ack m tcp then
                        (case ts of None \<Rightarrow> Inl ScNull | Some ts \<Rightarrow> sc_syn cfg worker_id st m len ts)
                      else if tcp_ack m tcp \<and> \<not> tcp_syn m tcp then sc_ack cfg worker_id st m len ts
                      else sc_pass cfg st m len)
                else if tcp_ece m tcp then sc_out_tagged worker_id st m len
                else if tcp_ack m tcp then sc_pass cfg st (sc_out_ack m ts) len
                else sc_pass cfg st m len))"

end
