(* ===== verification/Sc_Deploy.thy ===== *)
theory Sc_Deploy
  imports Sc_Switch
begin

text \<open>
  The smartcookie switch agent and its server agent together: the cookie that the switch agent
  puts into its answer passes the switch agent when it comes back and opens the flow at the
  server agent, whatever the Bloom filter says; other ACKs pass neither, except by a false
  positive of the filter, and then the server agent drops them.
\<close>

section \<open>The processor in its normal mode\<close>

definition sc_active :: "sc_cfg \<Rightarrow> mem \<Rightarrow> bool" where
  "sc_active cfg m \<longleftrightarrow> \<not> sc_opt_drop cfg \<and> \<not> sc_opt_forward cfg \<and> ntohs (eth_proto m 0) = ETH_P_IP
     \<and> ip_protocol m 14 = IPPROTO_TCP"

definition sc_flow_of :: "sc_switch \<Rightarrow> nat \<Rightarrow> mem \<Rightarrow> pkt_5tuple" where
  "sc_flow_of st w m = (sc_flows st w)\<lparr>t5_src_ip := ip_saddr m 14, t5_dst_ip := ip_daddr m 14,
     t5_src_port := tcp_source m 34, t5_dst_port := tcp_source m 34\<rparr>"

definition sc_enter :: "sc_switch \<Rightarrow> nat \<Rightarrow> mem \<Rightarrow> sc_switch" where
  "sc_enter st w m = st\<lparr>sc_flows := (sc_flows st)(w := sc_flow_of st w m)\<rparr>"

lemma sc_enter_simps [simp]:
  "sc_bf (sc_enter st w m) = sc_bf st" "sc_flows (sc_enter st w m) w = sc_flow_of st w m"
  by (simp_all add: sc_enter_def)

lemma sc_processor_inbound:
  "sc_active cfg m \<Longrightarrow> w < PER_WORKER \<Longrightarrow> sc_processor cfg st m len 0 w =
     (case sc_sw_ts m len of
        None \<Rightarrow> sc_drop st m len
      | Some ts \<Rightarrow>
          if tcp_syn m 34 \<and> \<not> tcp_ack m 34 then
            (case ts of None \<Rightarrow> Inl ScNull | Some ts \<Rightarrow> sc_syn cfg w (sc_enter st w m) m len ts)
          else if tcp_ack m 34 \<and> \<not> tcp_syn m 34 then sc_ack cfg w (sc_enter st w m) m len ts
          else sc_pass cfg (sc_enter st w m) m len)"
  by (auto simp: sc_processor_def sc_active_def sc_enter_def sc_flow_of_def Let_def split: option.split)

lemma sc_processor_worker:
  "sc_active cfg m \<Longrightarrow> sc_sw_ts m len = Some ts \<Longrightarrow> sc_processor cfg st m len 0 w = Inr x \<Longrightarrow> w < PER_WORKER"
  by (auto simp: sc_processor_def sc_active_def Let_def split: if_splits)

lemma sc_hash_agree: "sc_hsiphash = get_hash"
  by (simp add: fun_eq_iff sc_hsiphash_def get_hash_def)

lemma sc_forward_mem:
  "12 \<le> i \<Longrightarrow> snd (sc_forward cfg m 0 14) i = m i"
  "12 \<le> b \<Longrightarrow> ld16 (snd (sc_forward cfg m 0 14)) b = ld16 m b"
  "12 \<le> b \<Longrightarrow> ld32 (snd (sc_forward cfg m 0 14)) b = ld32 m b"
  by (simp_all add: sc_forward_def Let_def mem_simps mac_bytes_def)

lemma sc_pass_eq: "sc_pass cfg st m len = Inr (fst (sc_forward cfg m 0 14), st, snd (sc_forward cfg m 0 14), len)"
  by (simp add: sc_pass_def case_prod_unfold Let_def)

section \<open>Where the agent crashes\<close>

lemma sc_ack_finish_crash: "(\<exists>e. sc_ack_finish cfg w st m len ts = Inl e) \<longleftrightarrow> sc_opt_ab_test cfg \<and> ts = None"
  by (auto simp: sc_ack_finish_def sc_pass_eq case_prod_unfold Let_def split: option.split)

lemma sc_syn_returns: "sc_syn cfg w st m len ts \<noteq> Inl e"
  by (simp add: sc_syn_def Let_def case_prod_unfold sc_drop_def sc_pass_eq)

lemma sc_sw_ts_None: "sc_sw_ts m len = Some ts \<Longrightarrow> ts = None \<longleftrightarrow> tcp_doff m 34 < 8"
  by (auto simp: sc_sw_ts_def split: if_splits option.splits)

lemma sc_ack_crash:
  assumes "bloom_ok (sc_bf st)"
  shows "(\<exists>e. sc_ack cfg w st m len ts = Inl e) \<longleftrightarrow> sc_opt_ab_test cfg \<and> ts = None
    \<and> (bloom_filter_test (sc_bf st) (flow_bytes (sc_flows st w)) = Inr True \<or> cookie_ack m 34)"
proof -
  obtain b f where "bloom_filter_test (sc_bf st) (flow_bytes (sc_flows st w)) = Inr b"
    "bloom_filter_put (sc_bf st) (flow_bytes (sc_flows st w)) = Inr f"
    using bloom.test_ok [OF assms] bloom.put_ok [OF assms] by blast
  then show ?thesis
    using sc_ack_finish_crash by (cases b) (auto simp: sc_ack_def Let_def sc_drop_def cookie_ack_def sc_hash_agree)
qed

text \<open>
  C35: the packet processor fails exactly on segments whose header has fewer than eight words, from
  the client's side: on every such SYN, and on every such ACK that passes the filter or the cookie
  check.  There \<open>ts\<close> is the null pointer and the code dereferences it.  On all other frames it
  returns.  (For the 16 workers that the per-worker arrays have room for.)
\<close>

theorem sc_crash_iff:
  assumes "bloom_ok (sc_bf st)" "sc_active cfg m" "w < PER_WORKER"
  shows "(\<exists>e. sc_processor cfg st m len ifx w = Inl e) \<longleftrightarrow>
    ifx = 0 \<and> tcp_doff m 34 < 8
    \<and> (tcp_syn m 34 \<and> \<not> tcp_ack m 34
       \<or> tcp_ack m 34 \<and> \<not> tcp_syn m 34 \<and> sc_opt_ab_test cfg
         \<and> (bloom_filter_test (sc_bf st) (flow_bytes (sc_flow_of st w m)) = Inr True \<or> cookie_ack m 34))"
proof (cases "ifx = 0")
  case True
  show ?thesis
    using True assms sc_syn_returns sc_sw_ts_None [of m len] sc_ack_crash [of "sc_enter st w m" cfg w m len]
    by (auto simp: sc_processor_inbound sc_drop_def sc_pass_eq split: option.splits) (auto simp: sc_sw_ts_def)
next
  case False
  obtain f where "bloom_filter_put (sc_bf st) (take 4 (flow_bytes ((sc_flows st w)\<lparr>t5_src_ip := ip_daddr m 14,
      t5_dst_ip := ip_saddr m 14, t5_src_port := tcp_dest m 34, t5_dst_port := tcp_source m 34\<rparr>))) = Inr f"
    using bloom.put_ok [OF assms(1)] by blast
  then show ?thesis
    using False assms(2,3) by (auto simp: sc_processor_def sc_active_def sc_drop_def sc_pass_eq sc_out_tagged_def Let_def
        split: option.split)
qed

section \<open>The answer to a SYN\<close>

text \<open>What the options step leaves alone.\<close>

lemma sc_syn_options_keeps:
  assumes "sc_syn_options cfg w st m len ts = (st', m', len')" "54 \<le> ts"
  shows "ld32 m' 26 = ld32 m 26 \<and> ld32 m' 30 = ld32 m 30 \<and> ld16 m' 34 = ld16 m 34 \<and> ld16 m' 36 = ld16 m 36
    \<and> ld32 m' 38 = ld32 m 38 \<and> m' 47 = m 47 \<and> sc_bf st' = sc_bf st"
proof -
  have rs: "ld32 m1 26 = ld32 m 26 \<and> ld32 m1 30 = ld32 m 30 \<and> ld16 m1 34 = ld16 m 34 \<and> ld16 m1 36 = ld16 m 36
    \<and> ld32 m1 38 = ld32 m 38 \<and> m1 47 = m 47"
    if "resize_options n m len opt = (m1, len1)" "length opt = n" "n \<in> {0, 16}" for n opt m1 len1
    using resize_fields [OF that(1,2)] that(3) by auto
  show ?thesis
    using assms rs [of 16] rs [of 0]
    by (auto simp: sc_syn_options_def Let_def mem_simps case_prod_unfold split: if_splits)
qed

lemma sc_header_fields:
  fixes cfg m ts v e
  defines "M \<equiv> sc_synack_header cfg m ts v e"
  shows "ip_saddr M 14 = ip_daddr m 14" "ip_daddr M 14 = ip_saddr m 14"
    "tcp_source M 34 = tcp_dest m 34" "tcp_dest M 34 = tcp_source m 34"
    "tcp_seq M 34 = get_hash (ip_saddr m 14) (ip_daddr m 14) (tcp_source m 34) (tcp_dest m 34)"
    "tcp_ack_seq M 34 = htonl (ntohl (tcp_seq m 34) + 1)" "tcp_syn M 34" "tcp_ack M 34"
  unfolding M_def sc_synack_header_def Let_def case_prod_unfold
  by (simp_all add: mem_simps swap32_eq swap16_eq sc_hash_agree)

lemma sc_syn_fields:
  assumes "sc_syn cfg w st m len ts = Inr (r, st', m', len')" "54 \<le> ts"
  shows "ip_saddr m' 14 = ip_daddr m 14" "ip_daddr m' 14 = ip_saddr m 14"
    "tcp_source m' 34 = tcp_dest m 34" "tcp_dest m' 34 = tcp_source m 34"
    "tcp_seq m' 34 = get_hash (ip_saddr m 14) (ip_daddr m 14) (tcp_source m 34) (tcp_dest m 34)"
    "tcp_ack_seq m' 34 = htonl (ntohl (tcp_seq m 34) + 1)" "tcp_syn m' 34" "tcp_ack m' 34" "sc_bf st' = sc_bf st"
proof -
  obtain st1 m1 len1 where o: "sc_syn_options cfg w st m len ts = (st1, m1, len1)"
    by (metis prod_cases3)
  let ?M = "sc_synack_header cfg m1 ts (ts_tsval m ts) (ts_tsecr m ts)"
  have "(m' = ?M \<or> m' = snd (sc_forward cfg ?M 0 14)) \<and> st' = st1"
    using assms(1) by (auto simp: sc_syn_def Let_def o sc_drop_def sc_pass_eq split: if_splits)
  then show "ip_saddr m' 14 = ip_daddr m 14" "ip_daddr m' 14 = ip_saddr m 14"
    "tcp_source m' 34 = tcp_dest m 34" "tcp_dest m' 34 = tcp_source m 34"
    "tcp_seq m' 34 = get_hash (ip_saddr m 14) (ip_daddr m 14) (tcp_source m 34) (tcp_dest m 34)"
    "tcp_ack_seq m' 34 = htonl (ntohl (tcp_seq m 34) + 1)" "tcp_syn m' 34" "tcp_ack m' 34" "sc_bf st' = sc_bf st"
    using sc_syn_options_keeps [OF o assms(2)] sc_header_fields [of cfg m1 ts "ts_tsval m ts" "ts_tsecr m ts"]
    by (auto simp: sc_forward_mem)
qed

section \<open>Frames that differ in the tag and the MAC addresses only\<close>

definition same_seg :: "mem \<Rightarrow> mem \<Rightarrow> bool" where
  "same_seg m m' \<longleftrightarrow> (\<forall>i. 12 \<le> i \<and> i \<noteq> 47 \<longrightarrow> m' i = m i) \<and> (\<forall>j. j \<noteq> 6 \<longrightarrow> bit (m' 47) j = bit (m 47) j)"

lemma same_seg_simps:
  assumes "same_seg m m'"
  shows "12 \<le> i \<Longrightarrow> i \<noteq> 47 \<Longrightarrow> m' i = m i" "tcp_ack m' 34 = tcp_ack m 34" "tcp_syn m' 34 = tcp_syn m 34"
  using assms by (simp_all add: same_seg_def)

lemma walk_same:
  "(\<And>j. opt \<le> j \<Longrightarrow> m' j = m j) \<Longrightarrow> bpf_walk_options i m' opt e d = bpf_walk_options i m opt e d"
  by (induction i arbitrary: opt) simp_all

lemma same_seg_parse:
  assumes "same_seg m m'"
  shows "bpf_parse_timestamp m' 54 34 d = bpf_parse_timestamp m 54 34 d"
proof -
  note eq = same_seg_simps(1) [OF assms] same_seg_simps(2,3) [OF assms, simplified]
  have "bpf_fast_timestamp m' 54 34 d = bpf_fast_timestamp m 54 34 d"
    by (simp add: bpf_fast_timestamp_def ld64_def ld32_def eq cong: if_cong)
  then show ?thesis
    by (simp add: bpf_parse_timestamp_def eq walk_same [of 54 m' m] split: fast_result.split)
qed

lemma same_seg_frame:
  assumes "same_seg m m'"
  shows "sc_frame m' d 34 = sc_frame m d 34" "sc_in_ts m' d 34 n = sc_in_ts m d 34 n" "ip_ihl m' 14 = ip_ihl m 14"
    "flow_key m' 14 34 = flow_key m 14 34" "cookie_ack m' 34 = cookie_ack m 34" "tcp_doff m' 34 = tcp_doff m 34"
proof -
  note eq = same_seg_simps(1) [OF assms] same_seg_simps(2,3) [OF assms, simplified]
  show "sc_frame m' d 34 = sc_frame m d 34"
    by (simp add: sc_frame_def ld16_def eq)
  show "sc_in_ts m' d 34 n = sc_in_ts m d 34 n"
    using same_seg_parse [OF assms, of d] by (simp add: sc_in_ts_def eq split: option.split)
  show "ip_ihl m' 14 = ip_ihl m 14" "flow_key m' 14 34 = flow_key m 14 34" "cookie_ack m' 34 = cookie_ack m 34"
    "tcp_doff m' 34 = tcp_doff m 34"
    by (simp_all add: eq flow_key_def cookie_ack_def ld32_def ld16_def)
qed

lemma same_seg_forward: "same_seg m m1 \<Longrightarrow> same_seg m (snd (sc_forward cfg m1 0 14))"
  by (simp add: same_seg_def sc_forward_mem)

lemma same_seg_tag: "same_seg m m" "same_seg m (set_flag m 34 ECE True)"
proof -
  have "set_flag m 34 ECE True i = m i" if "i \<noteq> 47" for i
    using that by (simp add: set_flag_def st8_def)
  then show "same_seg m m" "same_seg m (set_flag m 34 ECE True)"
    by (simp_all add: same_seg_def)
qed

section \<open>From the switch agent to the server agent\<close>

text \<open>An ACK with the right cookie passes the switch agent.\<close>

lemma sc_cookie_passes:
  assumes "bloom_ok (sc_bf st)" "cookie_ack m 34"
    and "sc_opt_ab_test cfg \<Longrightarrow> \<exists>t. ts = Some t \<and> 54 \<le> t \<and> (ts_tsecr m t \<noteq> 1 \<or> tcp_psh m 34)"
    and "ip_daddr m 14 = sc_server_ip cfg" "sc_server_ip cfg \<noteq> sc_client_ip cfg"
  shows "\<exists>st' m'. sc_ack cfg w st m len ts = Inr (SERVER_R_IF_ORDER, st', m', len)
    \<and> bloom_filter_test (sc_bf st') (flow_bytes (sc_flows st w)) = Inr True
    \<and> same_seg m m' \<and> (tcp_ece m' 34 \<or> bloom_filter_test (sc_bf st) (flow_bytes (sc_flows st w)) = Inr True)"
proof -
  let ?f = "flow_bytes (sc_flows st w)"
  obtain b fl where b: "bloom_filter_test (sc_bf st) ?f = Inr b" "bloom_filter_put (sc_bf st) ?f = Inr fl"
    using bloom.test_ok [OF assms(1)] bloom.put_ok [OF assms(1)] by blast
  have out: "fst (sc_forward cfg m1 0 14) = SERVER_R_IF_ORDER" if "same_seg m m1" for m1
    using assms(4,5) same_seg_simps(1) [OF that] by (simp add: sc_forward_def Let_def ld32_def)
  have fin: "sc_ack_finish cfg w st1 m1 len ts
      = Inr (SERVER_R_IF_ORDER, st1, snd (sc_forward cfg m1 0 14), len)" if m1: "m1 \<in> {m, set_flag m 34 ECE True}" for st1 m1
  proof -
    have s: "same_seg m m1" using m1 same_seg_tag [of m] by blast
    then have "ts_tsecr m1 t = ts_tsecr m t" "tcp_psh m1 34 = tcp_psh m 34" if "54 \<le> t" for t
      using that by (simp_all add: ld32_def same_seg_def)
    then show ?thesis
      using assms(3) out [OF s] by (auto simp: sc_ack_finish_def sc_pass_eq)
  qed
  show ?thesis
  proof (cases b)
    case True
    then show ?thesis
      using b fin [of m st] same_seg_forward [OF same_seg_tag(1), of m cfg] by (simp add: sc_ack_def)
  next
    case False
    have "tcp_ece (snd (sc_forward cfg (set_flag m 34 ECE True) 0 14)) 34"
      by (simp add: sc_forward_mem)
    then show ?thesis
      using False b assms(2) fin [of "set_flag m 34 ECE True" "st\<lparr>sc_bf := fl\<rparr>"] bloom.test_put [OF assms(1) b(2)]
        same_seg_forward [OF same_seg_tag(2), of m cfg]
      by (simp add: sc_ack_def cookie_ack_def sc_hash_agree)
  qed
qed

text \<open>
  C13: the cookie of an answer opens the connection.  Take a SYN that some worker of the switch
  agent answers and, after anything else, an ACK of the same flow that acknowledges the sequence
  number of the answer plus one, on any worker.  The switch agent sends it on to the server and
  its filter knows the flow from then on; and the server agent opens the flow with it if the
  flow is not open, whether the switch agent has tagged it or its filter knew the flow before.
  (With the Apache workaround active, \<open>opt_ab_test\<close>, this is for ACKs whose options are not
  rewritten.)
\<close>

theorem sc_cookie_opens_flow:
  assumes "sc_active cfg m1" "tcp_syn m1 34" "\<not> tcp_ack m1 34" "sc_sw_ts m1 len1 = Some (Some ts1)"
    and "sc_processor cfg st1 m1 len1 0 w1 = Inr (r1, st1', m1', len1')"
    and "sc_active cfg m" "tcp_ack m 34" "\<not> tcp_syn m 34" "sc_sw_ts m len = Some ts" "bloom_ok (sc_bf st)"
    and flow: "flow_key m 14 34 = flow_key m1 14 34" and "ntohl (tcp_ack_seq m 34) = ntohl (tcp_seq m1' 34) + 1"
    and "sc_opt_ab_test cfg \<Longrightarrow> \<exists>t. ts = Some t \<and> (ts_tsecr m t \<noteq> 1 \<or> tcp_psh m 34)"
    and "ip_daddr m 14 = sc_server_ip cfg" "sc_server_ip cfg \<noteq> sc_client_ip cfg"
    and "sc_frame m (unat len) 34" "sc_in_ts m (unat len) 34 (tcp_doff m 34 * 4) \<noteq> None" "w < PER_WORKER"
  shows "\<exists>st' m'. sc_processor cfg st m len 0 w = Inr (SERVER_R_IF_ORDER, st', m', len)
    \<and> bloom_filter_test (sc_bf st') (flow_bytes (sc_flow_of st w m)) = Inr True
    \<and> flow_key m' 14 34 = flow_key m 14 34
    \<and> (\<forall>A. A (flow_key m 14 34) = None \<longrightarrow> opens_flow m' (unat len) A)"
proof -
  have "sc_syn cfg w1 (sc_enter st1 w1 m1) m1 len1 ts1 = Inr (r1, st1', m1', len1')"
    using assms(1-5) sc_processor_worker [OF assms(1,4,5)] by (simp add: sc_processor_inbound)
  moreover have "54 \<le> ts1"
    using assms(4) by (auto simp: sc_sw_ts_def split: if_splits option.splits)
  ultimately have "tcp_seq m1' 34 = get_hash (ip_saddr m1 14) (ip_daddr m1 14) (tcp_source m1 34) (tcp_dest m1 34)"
    by (rule sc_syn_fields)
  then have c: "cookie_ack m 34"
    using flow assms(12) by (simp add: cookie_ack_def flow_key_def)
  have ab: "\<exists>t. ts = Some t \<and> 54 \<le> t \<and> (ts_tsecr m t \<noteq> 1 \<or> tcp_psh m 34)" if "sc_opt_ab_test cfg"
    using assms(13) [OF that] assms(9) by (auto simp: sc_sw_ts_def split: if_splits option.splits)
  obtain st' m' where r: "sc_ack cfg w (sc_enter st w m) m len ts = Inr (SERVER_R_IF_ORDER, st', m', len)"
    "bloom_filter_test (sc_bf st') (flow_bytes (sc_flow_of st w m)) = Inr True" "same_seg m m'"
    using sc_cookie_passes [of "sc_enter st w m" m cfg ts w len] assms(10,14,15) c ab by auto
  have "ip_ihl m 14 = 5"
    using assms(16) by (simp add: sc_frame_def)
  then have "opens_flow m' (unat len) A" if "A (flow_key m 14 34) = None" for A
    using that c assms(7,8,16,17) same_seg_frame [OF r(3)] same_seg_simps(2,3) [OF r(3)]
    by (simp add: opens_flow_def ack_frame_def)
  then show ?thesis
    using r assms(6-9,18) same_seg_frame(4) [OF r(3)] by (auto simp: sc_processor_inbound)
qed

text \<open>What the server agent does with an untagged and a tagged ACK, in a frame without IP options.\<close>

lemma sc_in_wrong_ack:
  assumes "htons (eth_proto m 0) = ETH_P_IP" "ip_protocol m 14 = IPPROTO_TCP" "ip_ihl m 14 = 5"
    "tcp_ack m 34" "\<not> tcp_syn m 34"
  shows "\<not> tcp_ece m 34 \<Longrightarrow> \<not> cookie_ack m 34 \<Longrightarrow> lookup_elem (sc_ops E) s (flow_key m 14 34) = None \<Longrightarrow>
      sc_server_in E d s m = (XDP_DROP, s, m)"
    "tcp_ece m 34 \<Longrightarrow> ack_frame m d \<Longrightarrow> \<exists>ts. sc_server_in E d s m = sc_in_open E d 14 34 ts s m"
proof -
  show "sc_server_in E d s m = (XDP_DROP, s, m)"
    if "\<not> tcp_ece m 34" "\<not> cookie_ack m 34" "lookup_elem (sc_ops E) s (flow_key m 14 34) = None"
    using assms that by (auto simp: sc_server_in_def parse_ethhdr_def parse_iphdr_def parse_tcphdr_def sc_in_tcp_def
        sc_in_ack_def cookie_ack_def Let_def split: option.splits)
  show "\<exists>ts. sc_server_in E d s m = sc_in_open E d 14 34 ts s m" if "tcp_ece m 34" "ack_frame m d"
    using assms that by (auto simp: ack_frame_def sc_in_frame [where tcp = 34] sc_in_tcp_def sc_in_ack_def
        split: option.splits)
qed

text \<open>The options workaround leaves the flow, the flags and the acknowledgement number alone.\<close>

lemma resize_low: "resize_options n m len opt = (m1, len1) \<Longrightarrow> i < 54 \<Longrightarrow> i \<notin> {16, 17, 24, 25, 46} \<Longrightarrow> m1 i = m i"
  by (auto simp: resize_options_def Let_def set_doff_def st16_def st8_def wr_bytes_def)

lemma sc_ack_options_low:
  assumes "sc_ack_options cfg w st m len ts = (st1, m1, len1)"
  shows "i < 54 \<Longrightarrow> i \<notin> {16, 17, 24, 25, 46, 50, 51} \<Longrightarrow> m1 i = m i"
  using assms resize_low [OF surjective_pairing]
  by (auto simp: sc_ack_options_def Let_def case_prod_unfold st16_def)

lemma sc_ack_finish_low:
  assumes "sc_ack_finish cfg w st m len ts = Inr (r, st', m', len')" "12 \<le> i" "i < 54" "i \<notin> {16, 17, 24, 25, 46, 50, 51}"
  shows "m' i = m i"
proof -
  obtain st1 m1 len1 where o: "sc_ack_options cfg w st m len (the ts) = (st1, m1, len1)"
    by (metis prod_cases3)
  show ?thesis
    using assms sc_ack_options_low [OF o, of i] o
    by (auto simp: sc_ack_finish_def sc_pass_eq sc_forward_mem split: if_splits option.splits)
qed

text \<open>
  C14: what becomes of an ACK with a wrong acknowledgement number, in a frame without IP options.  The
  switch agent drops it, the filter unchanged, unless the filter answers positively.  If the filter
  does, by a false positive, the server agent drops it as long as the flow is not open, provided that
  the client has not set ECE; if the client has, the switch agent leaves the flag in place, and the
  server agent takes it for the switch agent's tag and opens the flow without a look at the
  acknowledgement number.
\<close>

theorem sc_forged_ack_fate:
  assumes "sc_active cfg m" "tcp_ack m 34" "\<not> tcp_syn m 34" "ip_ihl m 14 = 5"
    and "bloom_ok (sc_bf st)" "\<not> cookie_ack m 34"
    and "sc_processor cfg st m len 0 w = Inr (r, st', m', len')"
    and "lookup_elem (sc_ops E) s (flow_key m 14 34) = None"
  shows "r = -1 \<and> sc_bf st' = sc_bf st
    \<or> bloom_filter_test (sc_bf st) (flow_bytes (sc_flow_of st w m)) = Inr True
      \<and> (\<not> tcp_ece m 34 \<longrightarrow> sc_server_in E (unat len') s m' = (XDP_DROP, s, m'))
      \<and> (tcp_ece m 34 \<longrightarrow> ack_frame m' (unat len') \<longrightarrow>
           (\<exists>ts. sc_server_in E (unat len') s m' = sc_in_open E (unat len') 14 34 ts s m'))"
proof (cases "sc_sw_ts m len")
  case None
  then show ?thesis
    using assms(1,7) by (auto simp: sc_processor_def sc_active_def sc_drop_def)
next
  case (Some ts)
  let ?f = "flow_bytes (sc_flow_of st w m)"
  have p: "sc_ack cfg w (sc_enter st w m) m len ts = Inr (r, st', m', len')"
    using assms(1-3,7) Some sc_processor_worker [OF assms(1) Some assms(7)] by (simp add: sc_processor_inbound)
  obtain b where b: "bloom_filter_test (sc_bf st) ?f = Inr b"
    using bloom.test_ok [OF assms(5)] by blast
  show ?thesis
  proof (cases b)
    case True
    have f: "sc_ack_finish cfg w (sc_enter st w m) m len ts = Inr (r, st', m', len')"
      using p b True by (simp add: sc_ack_def)
    note low = sc_ack_finish_low [OF f]
    have k: "htons (eth_proto m' 0) = ETH_P_IP" "ip_protocol m' 14 = IPPROTO_TCP" "ip_ihl m' 14 = 5"
      "tcp_ack m' 34" "\<not> tcp_syn m' 34" "tcp_ece m' 34 = tcp_ece m 34" "cookie_ack m' 34 = cookie_ack m 34"
      "flow_key m' 14 34 = flow_key m 14 34"
      using assms(1-4) by (simp_all add: sc_active_def low ld16_def ld32_def cookie_ack_def flow_key_def)
    show ?thesis
      using sc_in_wrong_ack [OF k(1-5), where d = "unat len'" and E = E and s = s] k(6-8) b True assms(6,8) by simp
  next
    case False
    then show ?thesis
      using p b assms(6) by (simp add: sc_ack_def cookie_ack_def sc_hash_agree sc_drop_def Let_def) auto
  qed
qed

section \<open>A connection\<close>

text \<open>The agent as it starts, with the Apache workaround that is on by default.\<close>

definition sc_cfg0 :: sc_cfg where
  "sc_cfg0 = \<lparr>sc_opt_drop = False, sc_opt_pressure = False, sc_opt_forward = False, sc_opt_tcpoption = False,
     sc_opt_ab_test = True, sc_client_mac_64 = 1, sc_server_mac_64 = 2, sc_attacker_mac_64 = 3, sc_client_r_mac_64 = 4,
     sc_server_r_mac_64 = 5, sc_attacker_r_mac_64 = 6, sc_client_ip = ip_saddr sample_syn 14,
     sc_server_ip = ip_daddr sample_syn 14, sc_attacker_ip = 0\<rparr>"

definition sc_sw0 :: sc_switch where
  "sc_sw0 = \<lparr>sc_flows = flows switch0, sc_sa_opts = sa_opts switch0, sc_sa_apache_opts = sa_apache_opts switch0,
     sc_bf = bloom_filter_new 3145728 [djb2, sdbm, mm2]\<rparr>"

lemma sc_sw0_ok: "bloom_ok (sc_bf sc_sw0)"
  by (simp add: sc_sw0_def bloom_new_ok)

lemma sample_active: "sc_active sc_cfg0 sample_syn" "sc_active sc_cfg0 (sample_acking n)"
  by (simp_all add: sc_active_def sc_cfg0_def ld16_def sample_acking_same)
    (simp_all add: sample_syn_def sample_handshake_def sample_eval)

lemma sample_sw_ts: "sc_sw_ts sample_syn 74 = Some (Some 60)" "sc_sw_ts (sample_acking n) 66 = Some (Some 56)"
proof -
  show "sc_sw_ts sample_syn 74 = Some (Some 60)"
    by (simp add: sc_sw_ts_def sample_syn_def sample_eval parse_timestamp_def fast_parse_timestamp_def Let_def syn_1_mask_def)
  have "fast_parse_timestamp (sample_acking n) 34 = fast_parse_timestamp sample_handshake 34"
    by (simp add: fast_parse_timestamp_def ld64_def ld32_def sample_acking_same cong: if_cong)
  also have "\<dots> = FastFound 2"
    by (simp add: fast_parse_timestamp_def sample_handshake_def sample_eval Let_def ack_1_mask_def)
  finally show "sc_sw_ts (sample_acking n) 66 = Some (Some 56)"
    by (simp add: sc_sw_ts_def parse_timestamp_def sample_acking_eval(8) [simplified])
qed

lemma sample_syn_flags: "tcp_syn sample_syn 34" "\<not> tcp_ack sample_syn 34" "flow_key sample_syn 14 34 = flow_key sample_handshake 14 34"
  by (simp_all add: sample_syn_def sample_handshake_def sample_eval flow_key_def)

lemma sample_acking_echo: "ts_tsecr (sample_acking n) 56 \<noteq> 1"
  by (simp add: ld32_def sample_acking_same) (simp add: sample_handshake_def sample_eval)

text \<open>A SYN without options.\<close>

definition sample_bare_syn :: mem where
  "sample_bare_syn = sample_syn(46 := 0x50)"

theorem sc_crash_iff_witness: "\<exists>e. sc_processor sc_cfg0 sc_sw0 sample_bare_syn 74 0 0 = Inl e"
proof -
  have a: "sc_active sc_cfg0 sample_bare_syn"
    using sample_active(1) by (simp add: sc_active_def ld16_def sample_bare_syn_def)
  have "tcp_doff sample_bare_syn 34 < 8" "tcp_syn sample_bare_syn 34" "\<not> tcp_ack sample_bare_syn 34"
    by (simp_all add: sample_bare_syn_def sample_syn_def mem_of_def)
  then show ?thesis
    using sc_crash_iff [OF sc_sw0_ok a, of 0 74 0] by simp
qed

lemma sample_syn_answered: "w < PER_WORKER \<Longrightarrow> \<exists>r st' m' len'. sc_processor sc_cfg0 st sample_syn 74 0 w = Inr (r, st', m', len')"
  using sc_syn_returns [of sc_cfg0 w "sc_enter st w sample_syn" sample_syn 74 60]
  by (auto simp: sc_processor_inbound [OF sample_active(1)] sample_sw_ts(1) sample_syn_flags [simplified]
      elim: sumE) (metis sumE prod_cases4)

theorem sc_cookie_opens_flow_witness:
  "\<exists>r st1 m1 len1 st' m'. sc_processor sc_cfg0 sc_sw0 sample_syn 74 0 0 = Inr (r, st1, m1, len1)
     \<and> sc_processor sc_cfg0 st1 (sample_acking (ntohl (tcp_seq m1 34) + 1)) 66 0 1 = Inr (SERVER_R_IF_ORDER, st', m', 66)
     \<and> opens_flow m' 66 (\<lambda>_. None)"
proof -
  obtain r st1 m1 len1 where p: "sc_processor sc_cfg0 sc_sw0 sample_syn 74 0 0 = Inr (r, st1, m1, len1)"
    using sample_syn_answered [of 0 sc_sw0] by auto
  then have b: "bloom_ok (sc_bf st1)"
    using sc_syn_fields(9) [of sc_cfg0 0 "sc_enter sc_sw0 0 sample_syn" sample_syn 74 60] sc_sw0_ok
    by (simp add: sc_processor_inbound [OF sample_active(1)] sample_sw_ts(1) sample_syn_flags [simplified])
  let ?n = "ntohl (tcp_seq m1 34) + 1"
  let ?m = "sample_acking ?n"
  have k: "flow_key ?m 14 34 = flow_key sample_syn 14 34"
    by (simp add: sample_acking_eval(4) sample_syn_flags(3))
  then have ip: "ip_daddr ?m 14 = sc_server_ip sc_cfg0" "sc_server_ip sc_cfg0 \<noteq> sc_client_ip sc_cfg0"
    by (simp_all add: flow_key_def sc_cfg0_def) (simp add: sample_syn_def sample_eval)
  have "\<exists>st' m'. sc_processor sc_cfg0 st1 ?m 66 0 1 = Inr (SERVER_R_IF_ORDER, st', m', 66)
    \<and> bloom_filter_test (sc_bf st') (flow_bytes (sc_flow_of st1 1 ?m)) = Inr True
    \<and> flow_key m' 14 34 = flow_key ?m 14 34
    \<and> (\<forall>A. A (flow_key ?m 14 34) = None \<longrightarrow> opens_flow m' (unat (66 :: u32)) A)"
    by (rule sc_cookie_opens_flow [OF sample_active(1) sample_syn_flags(1,2) sample_sw_ts(1) p sample_active(2)
          sample_acking_eval(6,7) sample_sw_ts(2) b k _ _ ip])
      (use sample_acking_eval(5,8-10) [of ?n] sample_acking_echo in \<open>simp_all\<close>)
  then show ?thesis
    using p by auto
qed

theorem sc_forged_ack_fate_witness:
  "\<exists>r st' m' len'. sc_processor sc_cfg0 sc_sw0 sample_forged 66 0 0 = Inr (r, st', m', len')
     \<and> (r = -1 \<or> sc_server_in (sc_ref_env 4) (unat len') [] m' = (XDP_DROP, [], m'))"
proof -
  let ?m = "sample_acking (ntohl sample_cookie + 2)"
  have c: "\<not> cookie_ack ?m 34"
    by (simp add: sample_acking_cookie)
  obtain r st' m' len' where p: "sc_processor sc_cfg0 sc_sw0 ?m 66 0 0 = Inr (r, st', m', len')"
    using sc_ack_crash [of "sc_enter sc_sw0 0 ?m" sc_cfg0 0 ?m 66 "Some 56"] sc_sw0_ok sample_acking_eval(6,7)
    by (auto simp: sc_processor_inbound [OF sample_active(2)] sample_sw_ts(2)) (metis sumE prod_cases4)
  have i: "ip_ihl ?m 14 = 5"
    using sample_acking_eval(9) by (simp add: sc_frame_def)
  have l: "lookup_elem (sc_ops (sc_ref_env 4)) [] (flow_key ?m 14 34) = None"
    by (simp add: sc_ref_env_def htab_ops_def)
  from sc_forged_ack_fate [OF sample_active(2) sample_acking_eval(6,7) i sc_sw0_ok c p l] p sample_acking_eval(2)
  show ?thesis
    unfolding sample_forged_def by blast
qed

end
