(* ===== verification/Server_Agent.thy ===== *)
theory Server_Agent
  imports Server_En
begin

text \<open>
  The two programs of the server agent together.  They run on every packet the server host
  receives or sends and share the connection table, so the agent is a state machine whose
  events are packets in either direction.  A flow's entry changes only in the ways the
  handlers allow: the theorems follow one flow through arbitrary packets of this and other flows,
  those that start it anew included.
\<close>

section \<open>Events and runs\<close>

datatype event =
  Ingress (buf_end: nat) (frame: mem) u32 u32
| Egress (buf_end: nat) (frame: mem)

fun server_step :: "('m, 'r) bpf_env \<Rightarrow> event \<Rightarrow> ('m, 'r) server \<Rightarrow> ('m, 'r) server" where
  "server_step E (Ingress data_end m r1 r2) s = fst (snd (server_in E r1 r2 data_end s m))"
| "server_step E (Egress data_end m) s = fst (snd (server_en E data_end s m))"

inductive server_run :: "('m, 'r) bpf_env \<Rightarrow> ('m, 'r) server \<Rightarrow> event list \<Rightarrow> ('m, 'r) server \<Rightarrow> bool"
  for E where
  run_Nil: "server_run E s [] s"
| run_Cons: "server_run E (server_step E ev s) evs s' \<Longrightarrow> server_run E s (ev # evs) s'"

inductive_cases server_run_NilE: "server_run E s [] s'"
inductive_cases server_run_ConsE: "server_run E s (ev # evs) s'"

code_pred (modes: i \<Rightarrow> i \<Rightarrow> i \<Rightarrow> o \<Rightarrow> bool) server_run .

lemma server_run_iff: "server_run E s evs s' \<longleftrightarrow> s' = fold (server_step E) evs s"
proof
  show "server_run E s evs s' \<Longrightarrow> s' = fold (server_step E) evs s"
    by (induction rule: server_run.induct) simp_all
  show "s' = fold (server_step E) evs s \<Longrightarrow> server_run E s evs s'"
    by (induction evs arbitrary: s) (auto intro: server_run.intros)
qed

lemma server_run_fold: "server_run E s evs (fold (server_step E) evs s)"
  by (simp only: server_run_iff)

section \<open>Which events touch a flow\<close>

abbreviation (input) tcp_of :: "mem \<Rightarrow> nat" where
  "tcp_of m \<equiv> 14 + ip_ihl m 14 * 4"

fun event_key :: "event \<Rightarrow> map_key_t" where
  "event_key (Ingress data_end m r1 r2) = flow_key m 14 (tcp_of m)"
| "event_key (Egress data_end m) = reply_key m 14 (tcp_of m)"

text \<open>The four kinds of segments of a connection's life.\<close>

definition handshake_ack :: "mem \<Rightarrow> nat \<Rightarrow> nat \<Rightarrow> bool" where
  "handshake_ack m data_end tcp \<longleftrightarrow> tcp_frame m data_end tcp
     \<and> tcp_ack m tcp \<and> \<not> tcp_syn m tcp \<and> \<not> tcp_fin m tcp \<and> tcp + tcp_doff m tcp * 4 = data_end
     \<and> map_option (ts_tsecr m) (bpf_parse_timestamp m (tcp + 20) tcp data_end) = Some TS_START"

definition synack_seg :: "mem \<Rightarrow> nat \<Rightarrow> nat \<Rightarrow> bool" where
  "synack_seg m data_end tcp \<longleftrightarrow> tcp_frame m data_end tcp \<and> tcp_ack m tcp \<and> tcp_syn m tcp
     \<and> tcp + 36 \<le> data_end \<and> bpf_parse_timestamp m (tcp + 20) tcp data_end \<noteq> None"

definition out_seg :: "mem \<Rightarrow> nat \<Rightarrow> nat \<Rightarrow> bool" where
  "out_seg m data_end tcp \<longleftrightarrow> tcp_frame m data_end tcp \<and> \<not> (tcp_ack m tcp \<and> tcp_syn m tcp)
     \<and> \<not> tcp_rst m tcp \<and> bpf_parse_timestamp m (tcp + 20) tcp data_end \<noteq> None"

definition in_seg :: "mem \<Rightarrow> nat \<Rightarrow> nat \<Rightarrow> bool" where
  "in_seg m data_end tcp \<longleftrightarrow> tcp_frame m data_end tcp \<and> tcp_ack m tcp \<and> \<not> tcp_syn m tcp
     \<and> \<not> handshake_ack m data_end tcp \<and> bpf_parse_timestamp m (tcp + 20) tcp data_end \<noteq> None"

text \<open>
  The events that start a flow anew: a SYN or a handshake ACK of the client, and the SYN-ACK
  of the server.
\<close>

fun restarts :: "event \<Rightarrow> map_key_t \<Rightarrow> bool" where
  "restarts (Ingress data_end m r1 r2) k \<longleftrightarrow>
     (let tcp = tcp_of m
      in flow_key m 14 tcp = k
         \<and> (tcp_frame m data_end tcp \<and> tcp_syn m tcp \<and> \<not> tcp_ack m tcp \<or> handshake_ack m data_end tcp))"
| "restarts (Egress data_end m) k \<longleftrightarrow>
     (let tcp = tcp_of m
      in tcp_frame m data_end tcp \<and> reply_key m 14 tcp = k \<and> tcp_ack m tcp \<and> tcp_syn m tcp)"

lemma not_frame_in:
  assumes "\<not> tcp_frame m data_end (tcp_of m)"
  shows "fst (snd (server_in E r1 r2 data_end s m)) = init_tables s"
  using assms
  by (auto simp: server_in_def server_in_tcp_def tcp_frame_def Let_def DROPTEST_def parse_hdr_Some
      split: option.splits prod.splits)

lemma not_frame_en:
  assumes "\<not> tcp_frame m data_end (tcp_of m)"
  shows "fst (snd (server_en E data_end s m)) = s"
  using assms
  by (auto simp: server_en_def server_en_tcp_def tcp_frame_def Let_def parse_hdr_Some
      split: option.splits prod.splits)

lemma init_tables_maps [simp]:
  "conntrack_map (init_tables s) = conntrack_map s" "rtt_map (init_tables s) = rtt_map s"
  "max_rtt (init_tables s) = max_rtt s"
  by (simp_all add: init_tables_def)

lemma change_cookie_conntrack:
  "(\<And>s. conntrack_map (reset s) = conntrack_map s) \<Longrightarrow>
     conntrack_map (fst (snd (change_cookie E r1 r2 eth ip tcp reset s m))) = conntrack_map s"
  by (simp add: change_cookie_def Let_def split: option.splits)

section \<open>Isolation of flows\<close>

lemma in_handlers_conntrack:
  "\<exists>v. conntrack_map (fst (snd (server_in_syn E data_end ip tcp s m))) \<in>
     {conntrack_map s, map_update (conntrack_ops E) (conntrack_map s) (flow_key m ip tcp) v BPF_ANY}"
  "\<exists>v. conntrack_map (fst (snd (server_in_handshake E data_end ip tcp ts s m))) =
     map_update (conntrack_ops E) (conntrack_map s) (flow_key m ip tcp) v BPF_ANY"
  "conntrack_map (fst (snd (server_in_flow E ip tcp ts val s m))) =
     (case refresh_cookie (map_seeds s) (ip_saddr m ip) val of
        None \<Rightarrow> conntrack_map s
      | Some v \<Rightarrow> map_update (conntrack_ops E) (conntrack_map s) (flow_key m ip tcp) v BPF_EXIST)"
  "conntrack_map (fst (snd (server_in_synack E data_end tcp s m))) = conntrack_map s"
  by (auto simp: server_in_syn_def server_in_handshake_def server_in_flow_def server_in_synack_def
      Let_def split: option.splits)

lemma in_ack_conntrack:
  "\<exists>v f. conntrack_map (fst (snd (server_in_ack E r1 r2 data_end eth ip tcp s m))) \<in>
     {conntrack_map s, map_update (conntrack_ops E) (conntrack_map s) (flow_key m ip tcp) v f}"
  using in_handlers_conntrack(2) [of E data_end ip tcp _ s m]
  by (auto simp: server_in_ack_def Let_def in_handlers_conntrack(3) change_cookie_conntrack
      split: option.splits)

lemma en_handlers_conntrack:
  "\<exists>v. conntrack_map (fst (snd (server_en_synack E data_end eth ip tcp key val s m))) \<in>
     {conntrack_map s, map_update (conntrack_ops E) (conntrack_map s) key v BPF_EXIST}"
  "conntrack_map (fst (snd (server_en_rst E tcp key val s m))) =
     map_update (conntrack_ops E) (conntrack_map s) key val BPF_EXIST"
  "\<exists>v. conntrack_map (fst (snd (server_en_ack E data_end tcp key val s m))) \<in>
     {conntrack_map s, map_update (conntrack_ops E) (conntrack_map s) key v BPF_EXIST}"
  by (auto simp: server_en_synack_def server_en_rst_def server_en_ack_def Let_def case_prod_unfold
      split: option.splits)

lemma step_conntrack:
  "\<exists>v f. conntrack_map (server_step E ev s) \<in>
     {conntrack_map s, map_update (conntrack_ops E) (conntrack_map s) (event_key ev) v f}"
proof (cases ev)
  case (Ingress data_end m r1 r2)
  show ?thesis
  proof (cases "tcp_frame m data_end (tcp_of m)")
    case True
    then show ?thesis
      using in_handlers_conntrack(1) [of E data_end 14 "tcp_of m" "init_tables s" m]
        in_ack_conntrack [of E r1 r2 data_end 0 14 "tcp_of m" "init_tables s" m]
      by (auto simp: Ingress server_in_frame in_handlers_conntrack(4))
  qed (simp add: Ingress not_frame_in)
next
  case (Egress data_end m)
  show ?thesis
  proof (cases "tcp_frame m data_end (tcp_of m)")
    case True
    then show ?thesis
      using en_handlers_conntrack(1) [of E data_end 0 14 "tcp_of m" "reply_key m 14 (tcp_of m)" _ s m]
        en_handlers_conntrack(3) [of E data_end "tcp_of m" "reply_key m 14 (tcp_of m)" _ s m]
      by (auto simp: Egress server_en_frame server_en_tcp_def Let_def en_handlers_conntrack(2)
          split: option.splits)
  qed (simp add: Egress not_frame_en)
qed

section \<open>Stability of a flow\<close>

text \<open>What a flow keeps until it is started anew.\<close>

definition same_flow :: "map_val_t \<Rightarrow> map_val_t \<Rightarrow> bool" where
  "same_flow v v' \<longleftrightarrow> delta v' = delta v \<and> hash_cookie v' = hash_cookie v"

context bpf_runtime
begin

lemma step_other_flow:
  "event_key ev \<noteq> k \<Longrightarrow>
     lookup_elem (conntrack_ops E) (conntrack_map (server_step E ev s)) k
       = lookup_elem (conntrack_ops E) (conntrack_map s) k"
  using step_conntrack [of E ev s] ct.lookup_update_other [of k "event_key ev"] by auto

lemma ingress_same_flow:
  assumes "\<not> restarts (Ingress data_end m r1 r2) k" "flow_key m 14 (tcp_of m) = k"
    and known: "lookup_elem (conntrack_ops E) (conntrack_map s) k = Some v"
  shows "\<exists>v'. lookup_elem (conntrack_ops E) (conntrack_map (server_step E (Ingress data_end m r1 r2) s)) k
      = Some v' \<and> same_flow v v' \<and> ts_val_s v' = ts_val_s v"
proof (cases "tcp_frame m data_end (tcp_of m)")
  case fr: True
  let ?tcp = "tcp_of m"
  consider (ack) "tcp_ack m ?tcp" "\<not> tcp_syn m ?tcp" | (other) "tcp_ack m ?tcp = tcp_syn m ?tcp"
    using assms(1,2) fr by (auto simp: Let_def)
  then show ?thesis
  proof cases
    case ack
    show ?thesis
    proof (cases "bpf_parse_timestamp m (?tcp + 20) ?tcp data_end")
      case None
      then show ?thesis
        using ack fr known by (simp add: server_in_frame server_in_ack_def same_flow_def)
    next
      case (Some ts)
      obtain a s' m' where r: "server_in E r1 r2 data_end s m = (a, s', m')"
        by (metis prod_cases3)
      have nh: "\<not> (ts_tsecr m ts = TS_START \<and> ?tcp + tcp_doff m ?tcp * 4 = data_end \<and> \<not> tcp_fin m ?tcp)"
        using assms(1,2) ack fr Some by (auto simp: Let_def handshake_ack_def)
      show ?thesis
        using flow_translation [OF fr ack Some nh known [folded assms(2)] r]
        by (simp add: r same_flow_def assms(2))
    qed
  next
    case other
    then show ?thesis
      using fr known by (simp add: server_in_frame in_handlers_conntrack(4) same_flow_def)
  qed
qed (simp add: not_frame_in known same_flow_def)

end

context bpf_runtime
begin

lemma egress_same_flow:
  assumes "\<not> restarts (Egress data_end m) k" "reply_key m 14 (tcp_of m) = k"
    and known: "lookup_elem (conntrack_ops E) (conntrack_map s) k = Some v"
  shows "\<exists>v'. lookup_elem (conntrack_ops E) (conntrack_map (server_step E (Egress data_end m) s)) k
      = Some v' \<and> same_flow v v'"
proof (cases "tcp_frame m data_end (tcp_of m)")
  case fr: True
  let ?tcp = "tcp_of m"
  have ns: "\<not> (tcp_ack m ?tcp \<and> tcp_syn m ?tcp)"
    using assms(1,2) fr by (auto simp: Let_def)
  note step = server_en_known [OF fr known [folded assms(2)] probe_some]
  show ?thesis
  proof (cases "bpf_parse_timestamp m (?tcp + 20) ?tcp data_end")
    case None
    then show ?thesis
      using step ns known ct.lookup_update_exist [OF known]
      by (auto simp: server_en_ack_def same_flow_def server_en_rst_def Let_def assms(2))
  next
    case (Some ts)
    obtain a s' m' where r: "server_en E data_end s m = (a, s', m')"
      by (metis prod_cases3)
    show ?thesis
    proof (cases "tcp_rst m ?tcp")
      case True
      then show ?thesis
        using step ns ct.lookup_update_exist [OF known]
        by (auto simp: server_en_rst_def same_flow_def Let_def assms(2))
    next
      case False
      then show ?thesis
        using ack_translation [OF fr ns False Some known [folded assms(2)] r]
        by (auto simp: r same_flow_def assms(2))
    qed
  qed
qed (simp add: not_frame_en known same_flow_def)

lemma step_same_flow:
  assumes "\<not> restarts ev k" "lookup_elem (conntrack_ops E) (conntrack_map s) k = Some v"
  shows "\<exists>v'. lookup_elem (conntrack_ops E) (conntrack_map (server_step E ev s)) k = Some v'
     \<and> same_flow v v'"
proof (cases "event_key ev = k")
  case True
  then show ?thesis
    using assms ingress_same_flow egress_same_flow by (cases ev) fastforce+
next
  case False
  then show ?thesis
    using assms(2) step_other_flow [OF False] by (simp add: same_flow_def)
qed

lemma run_same_flow:
  assumes "server_run E s evs s'" "\<And>ev. ev \<in> set evs \<Longrightarrow> \<not> restarts ev k"
    "lookup_elem (conntrack_ops E) (conntrack_map s) k = Some v"
  shows "\<exists>v'. lookup_elem (conntrack_ops E) (conntrack_map s') k = Some v' \<and> same_flow v v'"
  using assms
proof (induction arbitrary: v rule: server_run.induct)
  case (run_Cons ev s evs s')
  obtain v1 where "lookup_elem (conntrack_ops E) (conntrack_map (server_step E ev s)) k = Some v1"
    "same_flow v v1"
    using step_same_flow [OF _ run_Cons.prems(2)] run_Cons.prems(1) by auto
  then show ?case
    using run_Cons.IH [of v1] run_Cons.prems(1) by (auto simp: same_flow_def)
qed (simp add: same_flow_def)

end

text \<open>
  A recorded flow stays recorded, with the same sequence offset and SYN cookie, through
  every sequence of packets of all flows in both directions, as long as none of them starts
  this flow anew (SYN, handshake ACK, SYN-ACK).
\<close>

theorem flow_stable:
  assumes "bpf_runtime E" and "server_run E s evs s'" and "\<And>ev. ev \<in> set evs \<Longrightarrow> \<not> restarts ev k"
    and "lookup_elem (conntrack_ops E) (conntrack_map s) k = Some v"
  shows "\<exists>v'. lookup_elem (conntrack_ops E) (conntrack_map s') k = Some v'
     \<and> delta v' = delta v \<and> hash_cookie v' = hash_cookie v"
  using bpf_runtime.run_same_flow [OF assms] by (auto simp: same_flow_def)

lemma sample_reply_key:
  "reply_key sample_reply 14 34 = reply_key sample_synack 14 34"
  "flow_key sample_handshake 14 34 = reply_key sample_synack 14 34"
  "flow_key sample_ack 14 34 = reply_key sample_synack 14 34"
  by (simp_all add: reply_key_sample flow_key_def sample_handshake_def sample_ack_def sample_eval)

lemma sample_ihl:
  "ip_ihl sample_handshake 14 = 5" "ip_ihl sample_ack 14 = 5" "ip_ihl sample_synack 14 = 5"
  "ip_ihl sample_reply 14 = 5"
  by (simp_all add: sample_handshake_def sample_ack_def sample_synack_def sample_reply_def sample_eval)

lemma sample_segs:
  "handshake_ack sample_handshake 66 34" "synack_seg sample_synack 70 34" "out_seg sample_reply 66 34"
  "in_seg sample_ack 66 34"
  by (simp_all add: handshake_ack_def synack_seg_def out_seg_def in_seg_def sample_simps
      sample_handshake_frame sample_synack_frame sample_reply_frame sample_ack_frame)

lemma sample_no_restart:
  "\<not> restarts (Ingress 66 sample_ack r1 r2) k" "\<not> restarts (Egress 66 sample_reply) k"
  using sample_segs(3,4) by (auto simp: Let_def sample_ihl in_seg_def out_seg_def)

theorem flow_stable_witness:
  "\<exists>v'. lookup_elem (conntrack_ops (ref_env 4))
       (conntrack_map (fold (server_step (ref_env 4)) [Ingress 66 sample_ack 1 2, Egress 66 sample_reply]
          (server2 0x1a2b3944))) (reply_key sample_synack 14 34) = Some v'
     \<and> delta v' = 0x1a2b3944"
proof -
  have "\<not> restarts ev (reply_key sample_synack 14 34)"
    if "ev \<in> set [Ingress 66 sample_ack 1 2, Egress 66 sample_reply]" for ev
    using that sample_no_restart by auto
  from flow_stable [OF ref_rt.bpf_runtime_axioms
      server_run_fold [of "ref_env 4" "server2 0x1a2b3944" "[Ingress 66 sample_ack 1 2, Egress 66 sample_reply]"]
      this server2_lookup [folded reply_key_sample(1)]]
  show ?thesis by auto
qed

text \<open>
  Packets of one flow never change the entry of another flow.
\<close>

theorem flow_isolated:
  assumes "bpf_runtime E" and "event_key ev \<noteq> k"
  shows "lookup_elem (conntrack_ops E) (conntrack_map (server_step E ev s)) k
     = lookup_elem (conntrack_ops E) (conntrack_map s) k"
  by (rule bpf_runtime.step_other_flow [OF assms])

theorem flow_isolated_witness:
  "lookup_elem (conntrack_ops (ref_env 4)) (conntrack_map (server_step (ref_env 4)
       (Egress 70 sample_synack) (server2 1))) \<lparr>src_ip = 1, dst_ip = 2, src_port = 3, dst_port = 4\<rparr>
     = lookup_elem (conntrack_ops (ref_env 4)) (conntrack_map (server2 1))
         \<lparr>src_ip = 1, dst_ip = 2, src_port = 3, dst_port = 4\<rparr>"
  by (rule flow_isolated [OF ref_rt.bpf_runtime_axioms]) (simp add: sample_ihl reply_key_sample)

section \<open>The handover of a connection\<close>

text \<open>
  The history of a flow up to an established connection: a handshake ACK that acknowledges
  \<open>A\<close> is processed and recorded, the server's SYN-ACK has initial sequence number
  \<open>Y\<close>, and any packets that do not restart the flow come before and after it.
\<close>

definition established :: "('m, 'r) bpf_env \<Rightarrow> map_key_t \<Rightarrow> u32 \<Rightarrow> u32 \<Rightarrow> ('m, 'r) server \<Rightarrow> bool" where
  "established E k A Y s \<longleftrightarrow>
     (\<exists>s0 mh eh th r1 r2 evs1 s2 ms es ts evs2.
        handshake_ack mh eh th \<and> flow_key mh 14 th = k \<and> ntohl (tcp_ack_seq mh th) = A \<and> A \<noteq> 0
        \<and> (\<forall>v. update_elem (conntrack_ops E) (conntrack_map s0) k v BPF_ANY \<noteq> None)
        \<and> server_run E (server_step E (Ingress eh mh r1 r2) s0) evs1 s2 \<and> (\<forall>ev\<in>set evs1. \<not> restarts ev k)
        \<and> synack_seg ms es ts \<and> reply_key ms 14 ts = k \<and> ntohl (tcp_seq ms ts) = Y
        \<and> server_run E (server_step E (Egress es ms) s2) evs2 s \<and> (\<forall>ev\<in>set evs2. \<not> restarts ev k))"

lemma establishedI:
  assumes "handshake_ack mh eh th" "flow_key mh 14 th = k" "ntohl (tcp_ack_seq mh th) = A" "A \<noteq> 0"
    "\<And>v. update_elem (conntrack_ops E) (conntrack_map s0) k v BPF_ANY \<noteq> None"
    "server_run E (server_step E (Ingress eh mh r1 r2) s0) evs1 s2" "\<And>ev. ev \<in> set evs1 \<Longrightarrow> \<not> restarts ev k"
    "synack_seg ms es ts" "reply_key ms 14 ts = k" "ntohl (tcp_seq ms ts) = Y"
    "server_run E (server_step E (Egress es ms) s2) evs2 s" "\<And>ev. ev \<in> set evs2 \<Longrightarrow> \<not> restarts ev k"
  shows "established E k A Y s"
  unfolding established_def using assms by blast

context bpf_runtime
begin

lemma handshake_entry:
  assumes "handshake_ack m data_end tcp"
    and "\<And>v. update_elem (conntrack_ops E) (conntrack_map s) (flow_key m 14 tcp) v BPF_ANY \<noteq> None"
  shows "lookup_elem (conntrack_ops E) (conntrack_map (server_step E (Ingress data_end m r1 r2) s))
      (flow_key m 14 tcp) = Some (map_val_zero\<lparr>delta := ntohl (tcp_ack_seq m tcp),
         hash_cookie := htonl (ntohl (tcp_ack_seq m tcp) - 1)\<rparr>)"
proof -
  obtain a s' m' where r: "server_in E r1 r2 data_end s m = (a, s', m')"
    by (metis prod_cases3)
  obtain ts where ts: "bpf_parse_timestamp m (tcp + 20) tcp data_end = Some ts" "ts_tsecr m ts = TS_START"
    using assms(1) by (auto simp: handshake_ack_def)
  show ?thesis
    using handshake_translation [OF _ _ _ _ ts _ assms(2) r] assms(1) by (auto simp: handshake_ack_def r)
qed

lemma synack_entry:
  assumes "synack_seg m data_end tcp"
    and "lookup_elem (conntrack_ops E) (conntrack_map s) (reply_key m 14 tcp) = Some v" "delta v \<noteq> 0"
  shows "\<exists>v'. lookup_elem (conntrack_ops E) (conntrack_map (server_step E (Egress data_end m) s))
      (reply_key m 14 tcp) = Some v' \<and> delta v' = delta v - ntohl (tcp_seq m tcp) - 1
      \<and> hash_cookie v' = hash_cookie v"
proof -
  obtain a s' m' where r: "server_en E data_end s m = (a, s', m')"
    by (metis prod_cases3)
  obtain ts where ts: "bpf_parse_timestamp m (tcp + 20) tcp data_end = Some ts"
    using assms(1) by (auto simp: synack_seg_def)
  show ?thesis
    using synack_translation [OF _ _ _ ts _ assms(2,3) r] assms(1) by (auto simp: synack_seg_def r)
qed

lemma established_entry:
  assumes "established E k A Y s"
  shows "\<exists>v. lookup_elem (conntrack_ops E) (conntrack_map s) k = Some v
     \<and> delta v = A - Y - 1 \<and> hash_cookie v = htonl (A - 1)"
proof -
  obtain s0 mh eh th r1 r2 evs1 s2 ms es ts evs2 where
    h: "handshake_ack mh eh th" "flow_key mh 14 th = k" "ntohl (tcp_ack_seq mh th) = A" "A \<noteq> 0"
      "\<And>v. update_elem (conntrack_ops E) (conntrack_map s0) k v BPF_ANY \<noteq> None"
    and q1: "server_run E (server_step E (Ingress eh mh r1 r2) s0) evs1 s2"
      "\<And>ev. ev \<in> set evs1 \<Longrightarrow> \<not> restarts ev k"
    and sa: "synack_seg ms es ts" "reply_key ms 14 ts = k" "ntohl (tcp_seq ms ts) = Y"
    and q2: "server_run E (server_step E (Egress es ms) s2) evs2 s"
      "\<And>ev. ev \<in> set evs2 \<Longrightarrow> \<not> restarts ev k"
    using assms unfolding established_def by metis
  from run_same_flow [OF q1 handshake_entry [OF h(1), unfolded h(2,3), OF h(5)]] obtain v2 where
    v2: "lookup_elem (conntrack_ops E) (conntrack_map s2) k = Some v2" "delta v2 = A"
      "hash_cookie v2 = htonl (A - 1)"
    by (auto simp: same_flow_def)
  then obtain v3 where
    v3: "lookup_elem (conntrack_ops E) (conntrack_map (server_step E (Egress es ms) s2)) k = Some v3"
      "delta v3 = A - Y - 1" "hash_cookie v3 = htonl (A - 1)"
    using synack_entry [OF sa(1), of s2 v2] h(4) sa(2,3) by auto
  from run_same_flow [OF q2 v3(1)] show ?thesis
    using v3 by (auto simp: same_flow_def)
qed

end

text \<open>
  What every packet does to the sequence offset of a flow: an opening ACK sets it to the number that it
  acknowledges, a SYN with a cookie in its echo to zero, and every SYN-ACK of the server with a time
  stamp, a retransmitted one too, takes its sequence number plus one off an offset that is not zero.
\<close>

fun renumber :: "map_key_t \<Rightarrow> event \<Rightarrow> u32 \<Rightarrow> u32" where
  "renumber k (Ingress data_end m r1 r2) d =
     (let tcp = tcp_of m
      in if \<not> restarts (Ingress data_end m r1 r2) k then d
         else if handshake_ack m data_end tcp then ntohl (tcp_ack_seq m tcp)
         else (case bpf_parse_timestamp m (tcp + 20) tcp data_end of
                 None \<Rightarrow> d
               | Some ts \<Rightarrow> if ts_tsecr m ts = 0 then d else 0))"
| "renumber k (Egress data_end m) d =
     (let tcp = tcp_of m
      in if restarts (Egress data_end m) k \<and> bpf_parse_timestamp m (tcp + 20) tcp data_end \<noteq> None \<and> d \<noteq> 0
         then d - (ntohl (tcp_seq m tcp) + 1) else d)"

lemma renumber_quiet: "\<not> restarts ev k \<Longrightarrow> renumber k ev d = d"
  by (cases ev) (simp_all del: restarts.simps)

lemma fold_renumber_filter: "fold (renumber k) (filter (\<lambda>ev. restarts ev k) evs) d = fold (renumber k) evs d"
  by (induction evs arbitrary: d) (simp_all add: renumber_quiet)

context bpf_runtime
begin

lemma syn_delta:
  assumes "replaces (conntrack_ops E)" "tcp_frame m data_end tcp" "tcp_syn m tcp" "\<not> tcp_ack m tcp"
    and "lookup_elem (conntrack_ops E) (conntrack_map s) (flow_key m 14 tcp) = Some v"
  shows "\<exists>v'. lookup_elem (conntrack_ops E) (conntrack_map (server_step E (Ingress data_end m r1 r2) s)) (flow_key m 14 tcp)
      = Some v' \<and> delta v' = (case bpf_parse_timestamp m (tcp + 20) tcp data_end of None \<Rightarrow> delta v
        | Some ts \<Rightarrow> if ts_tsecr m ts = 0 then delta v else 0)"
proof -
  have "update_elem (conntrack_ops E) (conntrack_map s) (flow_key m 14 tcp) x BPF_ANY \<noteq> None" for x
    using assms(1,5) by (simp add: replaces_def)
  moreover have "\<not> data_end < tcp + tcp_doff m tcp * 4"
    using assms(2) unfolding tcp_frame_def by linarith
  ultimately show ?thesis
    using assms(3-5) ct.lookup_update_ok
    by (auto simp: server_in_frame [OF assms(2)] server_in_syn_def Let_def split: option.split)
qed

lemma synack_delta:
  assumes "tcp_frame m data_end tcp" "tcp_syn m tcp" "tcp_ack m tcp"
    and "lookup_elem (conntrack_ops E) (conntrack_map s) (reply_key m 14 tcp) = Some v"
  shows "\<exists>v'. lookup_elem (conntrack_ops E) (conntrack_map (server_step E (Egress data_end m) s)) (reply_key m 14 tcp)
      = Some v' \<and> delta v' = (if bpf_parse_timestamp m (tcp + 20) tcp data_end \<noteq> None \<and> delta v \<noteq> 0
        then delta v - (ntohl (tcp_seq m tcp) + 1) else delta v)"
  using assms(2-4) ct.lookup_update_exist [OF assms(4)]
  by (auto simp: server_en_known [OF assms(1,4) probe_some] server_en_synack_def Let_def split: option.split)

lemma step_delta:
  assumes "replaces (conntrack_ops E)" "lookup_elem (conntrack_ops E) (conntrack_map s) k = Some v"
  shows "\<exists>v'. lookup_elem (conntrack_ops E) (conntrack_map (server_step E ev s)) k = Some v'
     \<and> delta v' = renumber k ev (delta v)"
proof (cases "restarts ev k")
  case False
  then show ?thesis
    using step_same_flow [OF False assms(2)] by (auto simp: renumber_quiet same_flow_def)
next
  case True
  show ?thesis
  proof (cases ev)
    case (Ingress data_end m r1 r2)
    have k: "flow_key m 14 (tcp_of m) = k"
      using True by (simp add: Ingress Let_def)
    have up: "update_elem (conntrack_ops E) (conntrack_map s) k x BPF_ANY \<noteq> None" for x
      using assms by (simp add: replaces_def)
    show ?thesis
    proof (cases "handshake_ack m data_end (tcp_of m)")
      case h: True
      then show ?thesis
        using handshake_entry [OF h, of s r1 r2] up k True by (simp add: Ingress Let_def)
    next
      case False
      then have "tcp_frame m data_end (tcp_of m)" "tcp_syn m (tcp_of m)" "\<not> tcp_ack m (tcp_of m)"
        using True by (simp_all add: Ingress Let_def)
      from syn_delta [OF assms(1) this, of s v r1 r2] show ?thesis
        using False True k assms(2) by (simp add: Ingress Let_def)
    qed
  next
    case (Egress data_end m)
    then show ?thesis
      using True synack_delta [of m data_end "tcp_of m" s v] assms(2) by (auto simp: Let_def)
  qed
qed

lemma run_delta:
  assumes "server_run E s evs s'" "replaces (conntrack_ops E)" "lookup_elem (conntrack_ops E) (conntrack_map s) k = Some v"
  shows "\<exists>v'. lookup_elem (conntrack_ops E) (conntrack_map s') k = Some v' \<and> delta v' = fold (renumber k) evs (delta v)"
  using assms
proof (induction arbitrary: v rule: server_run.induct)
  case (run_Cons ev s evs s')
  then show ?case
    using step_delta [OF run_Cons.prems, of ev] by fastforce
qed simp

end

text \<open>
  C3: the handover, outgoing side.  A connection is opened by an ACK that acknowledges the cookie with
  \<open>A\<close>; then come any packets of this and other flows in both directions.  A segment of the server on
  the flow leaves with its sequence number moved by the offset that these packets leave, computed from
  \<open>A\<close> by \<open>renumber\<close>.  In particular, if the only packet among them that starts the flow anew is one
  SYN-ACK of the server with sequence number \<open>Y\<close>, the byte at distance \<open>n\<close> from \<open>Y + 1\<close> in the
  server's stream leaves at distance \<open>n\<close> from \<open>A\<close>: the client sees the numbering that the cookie
  answer started.  (A retransmitted SYN-ACK moves it by another \<open>Y + 1\<close>, a repeated opening ACK resets
  it; both follow from the general form.)
\<close>

theorem handover_outgoing:
  assumes "bpf_runtime E" "replaces (conntrack_ops E)"
    and "handshake_ack mh eh th" "flow_key mh 14 th = k" "ntohl (tcp_ack_seq mh th) = A"
    and "\<And>v. update_elem (conntrack_ops E) (conntrack_map s0) k v BPF_ANY \<noteq> None"
    and "server_run E (server_step E (Ingress eh mh r1 r2) s0) evs s"
    and "out_seg m data_end tcp" "reply_key m 14 tcp = k" "server_en E data_end s m = (a, s', m')"
  shows "a = TC_ACT_OK \<and> ntohl (tcp_seq m' tcp) = ntohl (tcp_seq m tcp) + fold (renumber k) evs A
    \<and> (\<forall>es ms. filter (\<lambda>ev. restarts ev k) evs = [Egress es ms] \<and> synack_seg ms es (tcp_of ms) \<and> A \<noteq> 0 \<longrightarrow>
         ntohl (tcp_seq m' tcp) - A = ntohl (tcp_seq m tcp) - (ntohl (tcp_seq ms (tcp_of ms)) + 1))"
proof -
  note h = bpf_runtime.handshake_entry [OF assms(1,3), unfolded assms(4,5), OF assms(6)]
  obtain v where v: "lookup_elem (conntrack_ops E) (conntrack_map s) (reply_key m 14 tcp) = Some v"
    "delta v = fold (renumber k) evs A"
    using bpf_runtime.run_delta [OF assms(1,7,2) h] assms(9) by auto
  obtain ts where ts: "bpf_parse_timestamp m (tcp + 20) tcp data_end = Some ts"
    using assms(8) by (auto simp: out_seg_def)
  have o: "a = TC_ACT_OK" "ntohl (tcp_seq m' tcp) = ntohl (tcp_seq m tcp) + fold (renumber k) evs A"
    using bpf_runtime.ack_translation [OF assms(1) _ _ _ ts v(1) assms(10)] assms(8) v(2)
    by (simp_all add: out_seg_def)
  have "fold (renumber k) evs A = A - (ntohl (tcp_seq ms (tcp_of ms)) + 1)"
    if "filter (\<lambda>ev. restarts ev k) evs = [Egress es ms]" "synack_seg ms es (tcp_of ms)" "A \<noteq> 0" for es ms
  proof -
    have "restarts (Egress es ms) k"
      using that(1) by (metis filter_eq_ConsD)
    then show ?thesis
      using fold_renumber_filter [of k evs A] that by (simp add: synack_seg_def Let_def)
  qed
  with o show ?thesis by (auto simp: algebra_simps)
qed

text \<open>With the SYN-ACK sent twice the numbering is off by \<open>Y + 1\<close>.\<close>

lemma retransmitted_synack_shifts:
  assumes "restarts (Egress es ms) k" "synack_seg ms es (tcp_of ms)" "A \<noteq> 0" "A \<noteq> ntohl (tcp_seq ms (tcp_of ms)) + 1"
  shows "fold (renumber k) [Egress es ms, Egress es ms] A = A - 2 * (ntohl (tcp_seq ms (tcp_of ms)) + 1)"
  using assms by (simp add: synack_seg_def Let_def)

text \<open>
  C4: the handover, incoming side.  The client's acknowledgement of the byte at distance
  \<open>n\<close> from \<open>A\<close> reaches the server as one of the byte at distance \<open>n\<close> from
  \<open>Y + 1\<close>.
\<close>

theorem handover_incoming:
  assumes "bpf_runtime E" and "established E k A Y s" and "in_seg m data_end tcp"
    and "flow_key m 14 tcp = k" and "server_in E r1 r2 data_end s m = (a, s', m')"
  shows "a = XDP_PASS \<and> ntohl (tcp_ack_seq m' tcp) - (Y + 1) = ntohl (tcp_ack_seq m tcp) - A"
proof -
  obtain v where v: "lookup_elem (conntrack_ops E) (conntrack_map s) (flow_key m 14 tcp) = Some v"
    "delta v = A - Y - 1"
    using bpf_runtime.established_entry [OF assms(1,2)] assms(4) by auto
  obtain ts where ts: "bpf_parse_timestamp m (tcp + 20) tcp data_end = Some ts"
    using assms(3) by (auto simp: in_seg_def)
  show ?thesis
    using bpf_runtime.flow_translation [OF assms(1) _ _ _ ts _ v(1) assms(5)] assms(3) v(2) ts
    by (auto simp: in_seg_def handshake_ack_def)
qed

definition sample_history :: "((map_key_t \<times> map_val_t) list, (u32 \<times> u32) list) server" where
  "sample_history = fold (server_step (ref_env 4))
     [Ingress 66 sample_handshake 1 2, Egress 70 sample_synack, Ingress 66 sample_ack 3 4] server0"

lemma sample_established:
  "established (ref_env 4) (reply_key sample_synack 14 34) 0x1a2b3c4e 777 sample_history"
proof (rule establishedI [OF sample_segs(1) sample_reply_key(2) _ _ _ run_Nil _ sample_segs(2) refl])
  show "server_run (ref_env 4) (server_step (ref_env 4) (Egress 70 sample_synack)
      (server_step (ref_env 4) (Ingress 66 sample_handshake 1 2) server0))
      [Ingress 66 sample_ack 3 4] sample_history"
    by (simp add: sample_history_def server_run_iff)
  show "ntohl (tcp_ack_seq sample_handshake 34) = 0x1a2b3c4e" "ntohl (tcp_seq sample_synack 34) = 777"
    by (simp_all add: sample_handshake_def sample_synack_def sample_eval)
  show "update_elem (conntrack_ops (ref_env 4)) (conntrack_map server0)
      (reply_key sample_synack 14 34) v BPF_ANY \<noteq> None" for v
    by (simp add: ref_env_def htab_ops_def htab_update_def server0_def)
qed (use sample_no_restart in auto)

theorem handover_outgoing_witness:
  "\<exists>s' m'. server_en (ref_env 4) 66 sample_history sample_reply = (TC_ACT_OK, s', m')
     \<and> ntohl (tcp_seq m' 34) = 0x1a2b3c4e"
proof -
  let ?evs = "[Egress 70 sample_synack, Ingress 66 sample_ack 3 4]"
  obtain a s' m' where r: "server_en (ref_env 4) 66 sample_history sample_reply = (a, s', m')"
    by (metis prod_cases3)
  have run: "server_run (ref_env 4) (server_step (ref_env 4) (Ingress 66 sample_handshake 1 2) server0) ?evs sample_history"
    by (simp add: sample_history_def server_run_iff)
  have up: "update_elem (conntrack_ops (ref_env 4)) (conntrack_map server0) (reply_key sample_synack 14 34) v BPF_ANY \<noteq> None" for v
    by (simp add: ref_env_def htab_ops_def htab_update_def server0_def)
  have rp: "replaces (conntrack_ops (ref_env 4))"
    by (simp add: ref_env_def htab_replaces)
  have A: "ntohl (tcp_ack_seq sample_handshake 34) = 0x1a2b3c4e" and y: "ntohl (tcp_seq sample_synack 34) = 777"
    by (simp_all add: sample_handshake_def sample_synack_def sample_eval)
  have "restarts (Egress 70 sample_synack) (reply_key sample_synack 14 34)"
    using sample_segs(2) by (simp add: Let_def sample_ihl synack_seg_def)
  then have f: "filter (\<lambda>ev. restarts ev (reply_key sample_synack 14 34)) ?evs = [Egress 70 sample_synack]"
    using sample_no_restart(1) by (simp del: restarts.simps)
  have sa: "synack_seg sample_synack 70 (tcp_of sample_synack)" "tcp_of sample_synack = 34" "(0x1a2b3c4e :: u32) \<noteq> 0"
    using sample_segs(2) by (simp_all add: sample_ihl)
  note o = handover_outgoing [OF ref_rt.bpf_runtime_axioms rp sample_segs(1) sample_reply_key(2) A up run sample_segs(3)
      sample_reply_key(1) r]
  have "ntohl (tcp_seq m' 34) - 0x1a2b3c4e = ntohl (tcp_seq sample_reply 34) - (ntohl (tcp_seq sample_synack (tcp_of sample_synack)) + 1)"
    using o f sa(1,3) by blast
  then show ?thesis
    using r o y unfolding sa(2) by (simp add: sample_simps)
qed

theorem handover_incoming_witness:
  "\<exists>s' m'. server_in (ref_env 4) 5 6 66 sample_history sample_ack = (XDP_PASS, s', m')
     \<and> ntohl (tcp_ack_seq m' 34) = 778"
proof -
  obtain a s' m' where r: "server_in (ref_env 4) 5 6 66 sample_history sample_ack = (a, s', m')"
    by (metis prod_cases3)
  from handover_incoming [OF ref_rt.bpf_runtime_axioms sample_established sample_segs(4)
      sample_reply_key(3) r] r
  show ?thesis by (simp add: sample_simps)
qed

section \<open>Time stamps\<close>

context bpf_runtime
begin

lemma run_same_ts:
  assumes "server_run E s evs s'" "\<And>ev. ev \<in> set evs \<Longrightarrow> \<not> restarts ev k"
    "\<And>d m. Egress d m \<in> set evs \<Longrightarrow> reply_key m 14 (tcp_of m) \<noteq> k"
    "lookup_elem (conntrack_ops E) (conntrack_map s) k = Some v"
  shows "\<exists>v'. lookup_elem (conntrack_ops E) (conntrack_map s') k = Some v' \<and> ts_val_s v' = ts_val_s v"
  using assms
proof (induction arbitrary: v rule: server_run.induct)
  case (run_Cons ev s evs s')
  have "\<exists>v1. lookup_elem (conntrack_ops E) (conntrack_map (server_step E ev s)) k = Some v1
      \<and> ts_val_s v1 = ts_val_s v"
  proof (cases "event_key ev = k")
    case True
    then show ?thesis
      using run_Cons.prems(1-3) ingress_same_flow by (cases ev) fastforce+
  next
    case False
    then show ?thesis
      using run_Cons.prems(3) step_other_flow [OF False] by simp
  qed
  then obtain v1 where
    "lookup_elem (conntrack_ops E) (conntrack_map (server_step E ev s)) k = Some v1" "ts_val_s v1 = ts_val_s v"
    by blast
  then show ?case
    using run_Cons.IH [of v1] run_Cons.prems(1,2) by auto
qed simp

end

text \<open>
  C5: the time stamp option is translated back.  If the server's last segment on a flow
  carried time stamp \<open>T\<close> (which left as the hybrid cookie), then the next ACK of the
  client that reaches the server echoes \<open>T\<close>, no matter what the client echoed and which
  other packets came in between.
\<close>

theorem timestamp_restored:
  assumes "bpf_runtime E" and "out_seg m1 e1 t1" and "reply_key m1 14 t1 = k"
    and "lookup_elem (conntrack_ops E) (conntrack_map s) k = Some v"
    and "bpf_parse_timestamp m1 (t1 + 20) t1 e1 = Some ts1"
    and "server_run E (server_step E (Egress e1 m1) s) evs s2"
    and "\<And>ev. ev \<in> set evs \<Longrightarrow> \<not> restarts ev k"
    and "\<And>d m. Egress d m \<in> set evs \<Longrightarrow> reply_key m 14 (tcp_of m) \<noteq> k"
    and "in_seg m2 e2 t2" and "flow_key m2 14 t2 = k"
    and "bpf_parse_timestamp m2 (t2 + 20) t2 e2 = Some ts2"
  shows "ts_tsecr (snd (snd (server_in E r1 r2 e2 s2 m2))) ts2 = ts_tsval m1 ts1"
proof -
  obtain a s1 m1' where r1: "server_en E e1 s m1 = (a, s1, m1')"
    by (metis prod_cases3)
  obtain v1 where "lookup_elem (conntrack_ops E) (conntrack_map (server_step E (Egress e1 m1) s)) k = Some v1"
    "ts_val_s v1 = ts_tsval m1 ts1"
    using bpf_runtime.ack_translation [OF assms(1) _ _ _ assms(5) _ r1] assms(2-4)
    by (auto simp: out_seg_def r1)
  then obtain v2 where v2: "lookup_elem (conntrack_ops E) (conntrack_map s2) k = Some v2"
    "ts_val_s v2 = ts_tsval m1 ts1"
    using bpf_runtime.run_same_ts [OF assms(1,6,7,8)] by fastforce
  obtain a s3 m2' where r2: "server_in E r1 r2 e2 s2 m2 = (a, s3, m2')"
    by (metis prod_cases3)
  show ?thesis
    using bpf_runtime.flow_translation [OF assms(1) _ _ _ assms(11) _ _ r2] assms(9-11) v2
    by (auto simp: in_seg_def handshake_ack_def r2)
qed

theorem timestamp_restored_witness:
  "ts_tsecr (snd (snd (server_in (ref_env 4) 5 6 66
      (server_step (ref_env 4) (Egress 66 sample_reply) (server2 0x1a2b3944)) sample_ack))) 56 = htonl 9100"
  using timestamp_restored [OF ref_rt.bpf_runtime_axioms sample_segs(3) sample_reply_key(1)
      server2_lookup [folded reply_key_sample(1), of "0x1a2b3944"] _ run_Nil _ _ sample_segs(4) sample_reply_key(3),
      of 56 56 5 6]
  by (simp add: sample_simps)

end
