(* ===== verification/Switch_Flow.thy ===== *)
theory Switch_Flow
  imports Switch_Proofs
begin

text \<open>
  Sequences of frames through the switch agent: the cookie in an answer is accepted when it
  comes back, a wrong cookie is dropped, an accepted client is reset once and then passed.
\<close>

section \<open>Runs\<close>

text \<open>A frame with its length, the interface it came from and the worker that handles it.\<close>

type_synonym sw_event = "mem \<times> u32 \<times> nat \<times> nat"

inductive sw_run :: "switch_cfg \<Rightarrow> switch \<Rightarrow> sw_event list \<Rightarrow> switch \<Rightarrow> bool" for cfg where
  sw_Nil: "sw_run cfg st [] st"
| sw_Cons: "xsknf_packet_processor cfg st m len ifx w = Inr (r, st1, m', len') \<Longrightarrow>
    sw_run cfg st1 evs st' \<Longrightarrow> sw_run cfg st ((m, len, ifx, w) # evs) st'"

inductive_cases sw_run_ConsE: "sw_run cfg st (ev # evs) st'"

lemma sw_run_exists:
  "bloom_ok (bf st) \<Longrightarrow> \<forall>(m, len, ifx, w) \<in> set evs. w < PER_WORKER \<Longrightarrow>
     \<exists>st'. sw_run cfg st evs st' \<and> bloom_ok (bf st')"
proof (induction evs arbitrary: st)
  case (Cons ev evs)
  obtain m len ifx w where ev: "ev = (m, len, ifx, w)" by (metis prod_cases4)
  with Cons.prems(2) have "w < PER_WORKER" by simp
  then obtain r st1 m' len' where "xsknf_packet_processor cfg st m len ifx w = Inr (r, st1, m', len')"
    "bloom_ok (bf st1)"
    using processor_fine [OF Cons.prems(1)] unfolding sw_fine_def by metis
  then show ?case
    using Cons.IH [of st1] Cons.prems(2) ev by (auto intro: sw_Cons)
qed (auto intro: sw_Nil)

section \<open>What a frame can change\<close>

text \<open>
  The parts of the state each handler leaves alone: \<open>keeps\<close> relates the state before to the
  state in a result.
\<close>

definition keeps :: "(switch \<Rightarrow> 'a) \<Rightarrow> switch \<Rightarrow> sw_result \<Rightarrow> bool" where
  "keeps f st res \<longleftrightarrow> (\<forall>r st' m' len'. res = Inr (r, st', m', len') \<longrightarrow> f st' = f st)"

lemma keeps_simps [simp]:
  "keeps f st0 (sw_drop st m len) \<longleftrightarrow> f st = f st0"
  "keeps f st0 (sw_forward cfg st m len) \<longleftrightarrow> f st = f st0"
  "keeps f st0 (Inl e)"
  using sw_forward_Inr [of cfg st m len] by (auto simp: keeps_def sw_drop_def)

lemma keepsD: "keeps f st res \<Longrightarrow> res = Inr (r, st', m', len') \<Longrightarrow> f st' = f st"
  by (simp add: keeps_def)

lemma syn_keeps:
  "keeps flows st (sw_syn cfg w st m len)" "keeps bf st (sw_syn cfg w st m len)"
  "keeps sw_map_seeds st (sw_syn cfg w st m len)" "keeps change_key_duration st (sw_syn cfg w st m len)"
  by (auto simp: sw_syn_def sw_syn_answer_def Let_def split: option.splits bool.splits prod.splits
      sum.splits)

lemma ack_start_keeps:
  "keeps flows st (sw_ack_start cfg w st m len ts)" "keeps sw_map_seeds st (sw_ack_start cfg w st m len ts)"
  "keeps change_key_duration st (sw_ack_start cfg w st m len ts)"
  by (auto simp: sw_ack_start_def Let_def split: prod.splits sum.splits if_splits)

lemma ack_keeps:
  "keeps flows st (sw_ack cfg w st m len)" "keeps sw_map_seeds st (sw_ack cfg w st m len)"
  "keeps change_key_duration st (sw_ack cfg w st m len)"
  by (auto simp: sw_ack_def Let_def ack_start_keeps split: option.splits)

lemma out_syn_keeps: "keeps f st (sw_out_syn cfg w st m len)"
  by (auto simp: sw_out_syn_def Let_def split: option.splits)

lemma keeps_from: "f st = f st0 \<Longrightarrow> keeps f st res \<Longrightarrow> keeps f st0 res"
  by (simp add: keeps_def)

lemma keeps_comp: "keeps f st res \<Longrightarrow> keeps (\<lambda>st. g (f st)) st res"
  by (simp add: keeps_def)

lemma processor_eq:
  "xsknf_packet_processor cfg st m len ifx w =
     (if opt_drop cfg \<or> eth_proto m 0 \<noteq> htons ETH_P_IP \<and> ip_protocol m 14 \<noteq> IPPROTO_TCP then sw_drop st m len
      else if opt_forward cfg then sw_forward cfg st m len
      else if ifx = 0 then
        if PER_WORKER \<le> w then Inl BvFault
        else if tcp_syn m 34 \<and> \<not> tcp_ack m 34 then sw_syn cfg w (enter st w m) m len
        else if tcp_ack m 34 \<and> \<not> tcp_syn m 34 then sw_ack cfg w (enter st w m) m len
        else sw_forward cfg (enter st w m) m len
      else if tcp_ece m 34 then sw_drop (sw_change_seed st m) m len
      else if tcp_syn m 34 \<and> \<not> tcp_ack m 34 then sw_out_syn cfg w st m len
      else sw_forward cfg st m len)"
  by (simp add: xsknf_packet_processor_def enter_def flow_of_def Let_def)

lemma processor_keeps:
  assumes "f (enter st w m) = f st" "f (sw_change_seed st m) = f st"
    "keeps f (enter st w m) (sw_syn cfg w (enter st w m) m len)"
    "keeps f (enter st w m) (sw_ack cfg w (enter st w m) m len)"
  shows "keeps f st (xsknf_packet_processor cfg st m len ifx w)"
  unfolding processor_eq
  using assms(1,2) keeps_from [OF assms(1,3)] keeps_from [OF assms(1,4)]
  by (simp add: out_syn_keeps)

lemma processor_salt:
  "keeps (\<lambda>st. salt (flows st v)) st (xsknf_packet_processor cfg st m len ifx w)"
  by (rule processor_keeps)
    (use keeps_comp [OF syn_keeps(1)] keeps_comp [OF ack_keeps(1)] in
      \<open>simp_all add: enter_def flow_of_def sw_change_seed_def Let_def\<close>)

lemma sw_run_salt: "sw_run cfg st evs st' \<Longrightarrow> salt (flows st' v) = salt (flows st v)"
  by (induction rule: sw_run.induct) (simp_all add: keepsD [OF processor_salt])

section \<open>The cookie comes back\<close>

text \<open>A client's ACK that echoes \<open>TS_START\<close>, the time stamp of a cookie answer.\<close>

definition start_ack :: "mem \<Rightarrow> u32 \<Rightarrow> nat \<Rightarrow> bool" where
  "start_ack m len off \<longleftrightarrow> tcp_ack m 34 \<and> \<not> tcp_syn m 34 \<and> parse_timestamp m 34 = Some off
     \<and> 54 + off + 10 \<le> unat len \<and> ts_tsecr m (54 + off) = TS_START"

lemma processor_start_ack:
  "active cfg m \<Longrightarrow> start_ack m len off \<Longrightarrow> w < PER_WORKER \<Longrightarrow>
     xsknf_packet_processor cfg st m len 0 w = sw_ack_start cfg w (enter st w m) m len (54 + off)"
  by (simp add: processor_inbound sw_ack_def start_ack_def Let_def)

text \<open>A frame that is passed on, with what holds of the state, the frame and its length then.\<close>

definition passes :: "(switch \<Rightarrow> mem \<Rightarrow> u32 \<Rightarrow> bool) \<Rightarrow> sw_result \<Rightarrow> bool" where
  "passes P res \<longleftrightarrow> (\<exists>r st m len. res = Inr (r, st, m, len) \<and> 0 \<le> r \<and> P st m len)"

lemma passes_forward [simp]:
  "passes P (sw_forward cfg st m len) \<longleftrightarrow> P st (snd (forward cfg m 0 14)) len"
  by (simp add: passes_def sw_forward_def forward_def Let_def CLIENT_R_IF_ORDER_def SERVER_R_IF_ORDER_def
      ATTACKER_R_IF_ORDER_def)

lemma ack_start_accepts:
  assumes "bloom_ok (bf st)" "htonl (ntohl (tcp_ack_seq m 34) - 1) = sw_hash cfg st w m 14 34"
  shows "passes (\<lambda>st' _ _. bloom_filter_test (bf st') (bytes32 (ip_saddr m 14)) = Inr True)
     (sw_ack_start cfg w st m len ts)"
proof -
  obtain seen where seen: "bloom_filter_test (bf st) (bytes32 (ip_saddr m 14)) = Inr seen"
    using bloom.test_ok [OF assms(1)] by blast
  obtain b where b: "bloom_filter_put (bf st) (bytes32 (ip_saddr m 14)) = Inr b"
    using bloom.put_ok [OF assms(1)] by blast
  show ?thesis
    using assms(2) seen b bloom.test_put [OF assms(1) b]
    by (cases seen) (simp_all add: sw_ack_start_def Let_def case_prod_unfold)
qed

text \<open>
  C2: the cookie round trip.  A SYN is answered by some worker; later, after any frames on
  any workers, an ACK of the same connection that acknowledges the answer's sequence number
  plus one and echoes the answer's time stamp is handled by the same worker.  It is accepted,
  and from then on the filter knows the client.
\<close>

theorem cookie_roundtrip:
  assumes "active cfg m1" "active cfg m2" "timestamp_option cfg = TS_ON" "hash_option cfg = HARAKA"
    and "\<not> opt_ab_test cfg" "\<not> opt_pressure cfg" and "bloom_ok (bf st)"
    and "syn_frame m1 len1 off1" "bloom_filter_test (bf st) (bytes32 (ip_saddr m1 14)) = Inr False"
    and "xsknf_packet_processor cfg st m1 len1 0 w = Inr (r, st1, m1', len1')"
    and "sw_run cfg st1 evs st2" "bloom_ok (bf st2)"
    and "start_ack m2 len2 off2" "ip_saddr m2 14 = ip_saddr m1 14" "ip_daddr m2 14 = ip_daddr m1 14"
      "tcp_source m2 34 = tcp_source m1 34"
    and "ntohl (tcp_ack_seq m2 34) = ntohl (tcp_seq m1' 34) + 1"
  shows "\<exists>r st3 m3 len3. xsknf_packet_processor cfg st2 m2 len2 0 w = Inr (r, st3, m3, len3) \<and> 0 \<le> r
     \<and> bloom_filter_test (bf st3) (bytes32 (ip_saddr m2 14)) = Inr True"
proof -
  have a: "sw_syn_answer cfg w (enter st w m1) m1 len1 (54 + off1) = Inr (r, st1, m1', len1')"
    using processor_syn [OF assms(1,3,8,9) processor_worker [OF assms(1,10)]] assms(10) by simp
  have "flow_words (flow_of st2 w m2) = flow_words (flow_of st w m1)"
    using keepsD [OF processor_salt assms(10)] sw_run_salt [OF assms(11)] assms(14-16)
    by (intro flow_words_cong) (simp_all add: flow_of_def)
  then have "htonl (ntohl (tcp_ack_seq m2 34) - 1) = sw_hash cfg (enter st2 w m2) w m2 14 34"
    using syn_answer_fields(13) [OF a _ assms(5,6,4)] assms(4,17) by (simp add: sw_hash_def)
  then show ?thesis
    using ack_start_accepts [of "enter st2 w m2" m2 cfg w len2 "54 + off2"] assms(12)
      processor_start_ack [OF assms(2,13) processor_worker [OF assms(1,10)]] by (simp add: passes_def)
qed

text \<open>
  C8: an ACK that claims to answer a cookie, that is, one that echoes the time stamp \<open>TS_START\<close>
  which only cookie answers carry, but does not acknowledge the cookie of its own flow plus one is
  dropped, the frame unchanged; only the worker's scratch copy of the flow tuple is written.  (ACKs
  with another echo belong to opened connections and are checked by their hybrid cookie.)
\<close>

theorem forged_cookie_dropped:
  assumes "active cfg m" "hash_option cfg = HARAKA" "start_ack m len off"
    and "ntohl (tcp_ack_seq m 34) \<noteq> ntohl (flow_cookie cfg st w m) + 1" and "w < PER_WORKER"
  shows "xsknf_packet_processor cfg st m len 0 w = Inr (-1, enter st w m, m, len)"
proof -
  have "bswap32 (ntohl (tcp_ack_seq m 34) - 1) \<noteq> flow_cookie cfg st w m"
    using assms(4) by (metis bswap32_bswap32 diff_add_cancel)
  then show ?thesis
    using assms(2) processor_start_ack [OF assms(1,3,5)]
    by (simp add: sw_ack_start_def sw_drop_def sw_hash_def flow_cookie_def Let_def)
qed

section \<open>Witnesses\<close>

abbreviation (input) "sw0 \<equiv> sw_init (\<lambda>_. 7) 1 switch0"

text \<open>The sample handshake ACK with a chosen acknowledgement number.\<close>

definition sample_start :: "u32 \<Rightarrow> mem" where
  "sample_start ack = st32 sample_handshake 42 (htonl ack)"

lemma sample_start_facts:
  "start_ack (sample_start ack) 66 2" "active cfg0 (sample_start ack)"
  "ip_saddr (sample_start ack) 14 = ip_saddr sample_syn 14" "ip_daddr (sample_start ack) 14 = ip_daddr sample_syn 14"
  "tcp_source (sample_start ack) 34 = tcp_source sample_syn 34" "ntohl (tcp_ack_seq (sample_start ack) 34) = ack"
proof -
  have low: "sample_start ack i = sample_handshake i" if "i < 42 \<or> 46 \<le> i" for i
    using that by (auto simp: sample_start_def mem_simps)
  have "parse_timestamp sample_handshake 34 = Some 2" "tcp_ack sample_handshake 34" "\<not> tcp_syn sample_handshake 34"
    "ts_tsecr sample_handshake 56 = TS_START"
    by (simp_all add: sample_handshake_def sample_eval parse_timestamp_def fast_parse_timestamp_def Let_def
        ack_1_mask_def bit_simps)
  moreover have "parse_timestamp (sample_start ack) 34 = parse_timestamp sample_handshake 34"
    by (simp add: parse_timestamp_def fast_parse_timestamp_def Let_def ld64_def ld32_def low
        sample_handshake_def sample_eval ack_1_mask_def bit_simps)
  ultimately show "start_ack (sample_start ack) 66 2"
    by (simp add: start_ack_def low ld32_def)
  show "active cfg0 (sample_start ack)"
    by (simp add: active_def cfg0_def ld16_def low) (simp add: sample_handshake_def sample_eval)
  show "ip_saddr (sample_start ack) 14 = ip_saddr sample_syn 14" "ip_daddr (sample_start ack) 14 = ip_daddr sample_syn 14"
    "tcp_source (sample_start ack) 34 = tcp_source sample_syn 34"
    by (simp_all add: ld16_def ld32_def low) (simp_all add: sample_handshake_def sample_syn_def mem_of_def)
  show "ntohl (tcp_ack_seq (sample_start ack) 34) = ack"
    by (simp add: sample_start_def mem_simps)
qed

theorem cookie_roundtrip_witness:
  "\<exists>st1 r st3 m3 len3. xsknf_packet_processor cfg0 st1
      (sample_start (ntohl (flow_cookie cfg0 sw0 0 sample_syn) + 1)) 66 0 0 = Inr (r, st3, m3, len3) \<and> 0 \<le> r"
proof -
  obtain r st1 m1 len1 where r: "xsknf_packet_processor cfg0 sw0 sample_syn 74 0 0 = Inr (r, st1, m1, len1)"
    "bloom_ok (bf st1)"
    using processor_fine [OF sw_init_bf, of 0] unfolding sw_fine_def by fastforce
  have "sw_syn_answer cfg0 0 (enter sw0 0 sample_syn) sample_syn 74 (54 + 6) = Inr (r, st1, m1, len1)"
    using processor_syn [OF sample_syn_facts(7) _ sample_syn_facts(1) sample_not_seen, of 0 "\<lambda>_. 7" 1 switch0] r(1)
    by (simp add: cfg0_def)
  from syn_answer_fields(13) [OF this] have seq: "tcp_seq m1 34 = flow_cookie cfg0 sw0 0 sample_syn"
    by (simp add: cfg0_def flow_cookie_def)
  from cookie_roundtrip [OF sample_syn_facts(7) sample_start_facts(2) _ _ _ _ sw_init_bf sample_syn_facts(1)
      sample_not_seen r(1) sw_Nil r(2) sample_start_facts(1,3,4,5),
      of "ntohl (flow_cookie cfg0 sw0 0 sample_syn) + 1"]
  show ?thesis
    using seq sample_start_facts(6) by (simp add: cfg0_def) blast
qed

theorem forged_cookie_dropped_witness:
  "let m = sample_start (ntohl (flow_cookie cfg0 sw0 0 sample_syn) + 2)
   in xsknf_packet_processor cfg0 sw0 m 66 0 0 = Inr (-1, enter sw0 0 m, m, 66)"
proof -
  have "flow_cookie cfg0 sw0 0 (sample_start a) = flow_cookie cfg0 sw0 0 sample_syn" for a
    using sample_start_facts(3-5) [of a] by (simp add: flow_cookie_def flow_of_def)
  then show ?thesis
    using forged_cookie_dropped [OF sample_start_facts(2) _ sample_start_facts(1),
        of "ntohl (flow_cookie cfg0 sw0 0 sample_syn) + 2" sw0 0] sample_start_facts(6)
    by (simp add: cfg0_def Let_def)
qed

section \<open>The HSIPHASH option\<close>

text \<open>
  With \<open>--hash-type HSIPHASH\<close> the cookie of the answer is computed after the addresses
  have been exchanged, the cookie of the check before.  For the sample connection the two
  hashes differ; the rounds of the two evaluations are listed one by one.
\<close>

lemma sip_rounds:
  "SIPROUND (0x43415445, 0x2c255655, 0x5d574351, 0x31275c48) = (0x53bd470e, 0xf64d02a1, 0xffd87a4a, 0xc2d6935a)"
  "SIPROUND (0x53bd470e, 0xf64d02a1, 0xffd87a4a, 0xc2d6935a) = (0x5deba170, 0x05eb1b40, 0x2b354659, 0x43c0127a)"
  "SIPROUND (0x57f9a173, 0x05eb1b40, 0x2b354659, 0x49d31279) = (0x62cd7f7f, 0xaf065195, 0x2d855590, 0x6fddb2ac)"
  "SIPROUND (0x62cd7f7f, 0xaf065195, 0x2d855590, 0x6fddb2ac) = (0x11e5b626, 0xb208d5fe, 0xebdd8e7c, 0x79379f86)"
  "SIPROUND (0x1bf6b625, 0xb208d5fe, 0xebdd8e7c, 0xe5779fd6) = (0x32eec6b6, 0xf844d3db, 0x62475e3a, 0x57929d65)"
  "SIPROUND (0x32eec6b6, 0xf844d3db, 0x62475e3a, 0x57929d65) = (0xc5d5c9fb, 0xe1be19f8, 0xdd8ddd83, 0x679aadee)"
  "SIPROUND (0x5995c9ab, 0xe1be19f8, 0xdd8ddd7c, 0x679aadee) = (0xc328a060, 0x4a2e89bb, 0x682951b9, 0x019a268f)"
  "SIPROUND (0xc328a060, 0x4a2e89bb, 0x682951b9, 0x019a268f) = (0x1e0104a0, 0x71e7dcaa, 0x95bab249, 0xecfaa059)"
  "SIPROUND (0x1e0104a0, 0x71e7dcaa, 0x95bab249, 0xecfaa059) = (0x595f9b36, 0x5b4850c4, 0xc6a635c8, 0x53da3c0a)"
  "SIPROUND (0x595f9b36, 0x5b4850c4, 0xc6a635c8, 0x53da3c0a) = (0xacb73028, 0x46405ef6, 0x6543f82e, 0xf28af0c8)"
  "SIPROUND (0x43415445, 0x2c255655, 0x5d574351, 0x31265c48) = (0x52bc470e, 0xf64e02a1, 0xffd87a49, 0x4257935a)"
  "SIPROUND (0x52bc470e, 0xf64e02a1, 0xffd87a49, 0x4257935a) = (0x5f52a0eb, 0x81481b2d, 0x2b34c2fa, 0x8ef95061)"
  "SIPROUND (0x5541a0e8, 0x81481b2d, 0x2b34c2fa, 0x84eb5062) = (0x17864861, 0xf49e52f0, 0xed01afaa, 0xafbea44c)"
  "SIPROUND (0x17864861, 0xf49e52f0, 0xed01afaa, 0xafbea44c) = (0xbdb52b7d, 0xe406eab8, 0x19453caf, 0x8fba87ec)"
  "SIPROUND (0xb7a72b7e, 0xe406eab8, 0x19453caf, 0x13fa87bc) = (0xedef1426, 0x209646fb, 0x059548b3, 0x31d3284d)"
  "SIPROUND (0xedef1426, 0x209646fb, 0x059548b3, 0x31d3284d) = (0x3f614ab6, 0xe33d56cc, 0xf54553b5, 0x1f7f5244)"
  "SIPROUND (0xa3214ae6, 0xe33d56cc, 0xf545534a, 0x1f7f5244) = (0x0d4967ef, 0x79bcc182, 0x1dbcf6b9, 0xc639af5a)"
  "SIPROUND (0x0d4967ef, 0x79bcc182, 0x1dbcf6b9, 0xc639af5a) = (0x03cb83db, 0x57b36942, 0xbf519494, 0x2f35e936)"
  "SIPROUND (0x03cb83db, 0x57b36942, 0xbf519494, 0x2f35e936) = (0xc88ba763, 0xe331b683, 0x43219b9b, 0x7fae558e)"
  "SIPROUND (0xc88ba763, 0xe331b683, 0x43219b9b, 0x7fae558e) = (0xca812b13, 0xe1e82772, 0x7ec3905b, 0x87be8025)"
  by (simp_all add: rol_def)

lemma hsiphash_values:
  "switch_hsiphash 0x0300120a 0x0300130a 0x409c 0x5000 = 0x7d3e6638" "switch_hsiphash 0x0300130a 0x0300120a 0x409c 0x5000 = 0xd2141c1f"
  by (simp_all add: switch_hsiphash_eq hsip_def hsip_absorb_def hsip_final_def sip_rounds c0_def c1_def
      c2_def c3_def key0_def key1_def bswap32_def mk32_def byte_def del: SIPROUND.simps)

lemma sample_syn_addr:
  "ip_saddr sample_syn 14 = 0x0300120a" "ip_daddr sample_syn 14 = 0x0300130a" "tcp_source sample_syn 34 = 0x409c"
  "tcp_dest sample_syn 34 = 0x5000" "tcp_dest (sample_start a) 34 = 0x5000"
  by (simp_all add: sample_start_def mem_simps) (simp_all add: sample_syn_def sample_handshake_def sample_eval)

text \<open>
  With the HSIPHASH option the agent rejects its own cookies.  The sample SYN is
  answered, and the client's correct ACK of that answer, handled at once by the same worker,
  is dropped.
\<close>

theorem hsiphash_mode_rejects_own_cookie:
  "\<exists>r st1 m1 len1. xsknf_packet_processor (cfg0\<lparr>hash_option := HSIPHASH\<rparr>) sw0 sample_syn 74 0 0
       = Inr (r, st1, m1, len1) \<and> 0 \<le> r \<and> tcp_syn m1 34 \<and> tcp_ack m1 34
     \<and> (\<exists>st2. xsknf_packet_processor (cfg0\<lparr>hash_option := HSIPHASH\<rparr>) st1
          (sample_start (ntohl (tcp_seq m1 34) + 1)) 66 0 0
          = Inr (-1, st2, sample_start (ntohl (tcp_seq m1 34) + 1), 66))"
proof -
  let ?cfg = "cfg0\<lparr>hash_option := HSIPHASH\<rparr>"
  have act: "active ?cfg sample_syn" "active ?cfg (sample_start a)" for a
    using sample_syn_facts(7) sample_start_facts(2) [of a] by (simp_all add: active_def)
  have p: "xsknf_packet_processor ?cfg sw0 sample_syn 74 0 0
      = sw_syn_answer ?cfg 0 (enter sw0 0 sample_syn) sample_syn 74 (54 + 6)"
    by (rule processor_syn [OF act(1) _ sample_syn_facts(1) sample_not_seen]) (simp_all add: cfg0_def)
  obtain r st1 m1 len1 where r: "sw_syn_answer ?cfg 0 (enter sw0 0 sample_syn) sample_syn 74 (54 + 6)
      = Inr (r, st1, m1, len1)" "0 \<le> r"
    using sw_forward_Inr by (simp add: sw_syn_answer_def Let_def case_prod_unfold cfg0_def) metis
  have seq: "tcp_seq m1 34 = 0xd2141c1f" "tcp_syn m1 34" "tcp_ack m1 34"
    using syn_answer_fields(6,7,14) [OF r(1)] by (simp_all add: cfg0_def sample_syn_addr [simplified] hsiphash_values)
  let ?m = "sample_start (ntohl (tcp_seq m1 34) + 1)"
  have "htonl (ntohl (tcp_ack_seq ?m 34) - 1) \<noteq> sw_hash ?cfg (enter st1 0 ?m) 0 ?m 14 34"
    using sample_start_facts(3-6) [of "ntohl (tcp_seq m1 34) + 1"] sample_syn_addr
    by (simp add: sw_hash_def hsiphash_values seq(1) [simplified])
  then have "xsknf_packet_processor ?cfg st1 ?m 66 0 0 = Inr (-1, enter st1 0 ?m, ?m, 66)"
    by (simp add: processor_start_ack [OF act(2) sample_start_facts(1)] sw_ack_start_def sw_drop_def Let_def)
  then show ?thesis
    using p r seq by auto
qed

end
