(* ===== verification/Switch_Csum.thy ===== *)
theory Switch_Csum
  imports Switch_Flow
begin

text \<open>
  The incremental checksum updates of the switch agent: the reset that answers a first valid
  cookie, the SYN-ACK that keeps the client's options (\<open>--apache-bench\<close>) and the time
  stamp of outgoing SYNs.  Each rewritten segment has a valid checksum if the received one had.
\<close>

section \<open>Exchanging addresses and ports\<close>

lemma tcp_csum_swap_addr:
  assumes "tcp_csum_ok m 14 34"
  shows "tcp_csum_ok (swap32 m 26 30) 14 34"
proof -
  have "tcp_seg_len (swap32 m 26 30) 14 = tcp_seg_len m 14"
    "pseudo_sum (swap32 m 26 30) 14 = pseudo_sum m 14"
    by (simp_all add: tcp_seg_len_def pseudo_sum_def swap32_eq mem_simps)
  moreover have "msum (swap32 m 26 30) 34 n = msum m 34 n" for n
    by (rule msum_cong) (simp add: swap32_eq mem_simps)
  ultimately show ?thesis
    using assms by (simp add: tcp_csum_ok_def)
qed

lemma tcp_csum_swap_ports:
  assumes "tcp_csum_ok m 14 34" "4 \<le> tcp_seg_len m 14"
  shows "tcp_csum_ok (swap16 m 34 36) 14 34"
proof -
  have e: "tcp_seg_len (swap16 m 34 36) 14 = tcp_seg_len m 14"
    "pseudo_sum (swap16 m 34 36) 14 = pseudo_sum m 14"
    by (simp_all add: tcp_seg_len_def pseudo_sum_def swap16_eq mem_simps)
  have "sum_shift m (swap16 m 34 36) 34 (tcp_seg_len m 14) 0"
    using assms(2) by (intro swap16_shift) simp_all
  then have "oc_eq (pseudo_sum m 14 + msum (swap16 m 34 36) 34 (tcp_seg_len m 14))
      (pseudo_sum m 14 + msum m 34 (tcp_seg_len m 14))"
    by (intro oc_intros) (simp add: sum_shift_def)
  then show ?thesis
    using assms(1) e by (auto simp: tcp_csum_ok_def intro: oc_eq_trans)
qed

section \<open>The reset\<close>

lemma sw_rst_csum:
  assumes "tcp_csum_ok m 14 34" "20 \<le> tcp_seg_len m 14"
  shows "tcp_csum_ok (sw_rst m) 14 34"
proof -
  let ?n = "tcp_seg_len m 14" and ?a = "tcp_ack_seq m 34" and ?q = "tcp_seq m 34"
  let ?w = "tcp_window m 34" and ?c = "tcp_check m 34" and ?f = "ld16 m 46"
  define m1 where "m1 = set_flag m 34 RST True"
  define m2 where "m2 = set_flag m1 34 ACK False"
  define m3 where "m3 = st16 m2 (34 + 14) 0"
  define m4 where "m4 = st32 (st32 m3 (34 + 4) ?a) (34 + 8) (?a + 1)"
  note ms = m1_def m2_def m3_def m4_def
  let ?f' = "ld16 m2 46"
  have d: "sum_shift m m4 34 ?n (0 + (uint (ld16 m1 46) - uint ?f) + (uint ?f' - uint (ld16 m1 46))
      + (uint (0 :: u16) - uint ?w) + (uint ?a - uint ?q) + (uint (?a + 1) - uint ?a))"
    unfolding m4_def m3_def m2_def m1_def
    using assms(2) by (intro sum_shift_st32 sum_shift_st16 sum_shift_set_flag16 sum_shift_refl)
      (simp_all add: mem_simps)
  let ?s = "csum_add (csum_add (csum_add (csum_add (csum_add (csum_add (csum_add (csum_add
      (NOT (csum_unfold ?c)) (NOT (ucast ?f))) (ucast ?f')) (NOT (ucast ?w))) 0) (NOT ?a)) (?a + 1))
      (NOT ?q)) ?a"
  have "oc_eq (uint (NOT (csum_fold ?s))) (- (- uint ?c - uint (ucast ?f :: u32) + uint (ucast ?f' :: u32)
      - uint (ucast ?w :: u32) + uint (0 :: u32) - uint ?a + uint (?a + 1) - uint ?q + uint ?a))"
    by (intro user_intros)
  then have c: "oc_eq (uint (NOT (csum_fold ?s))) (uint ?c - (0 + (uint (ld16 m1 46) - uint ?f)
      + (uint ?f' - uint (ld16 m1 46)) + (uint (0 :: u16) - uint ?w) + (uint ?a - uint ?q)
      + (uint (?a + 1) - uint ?a)))"
    by (simp add: algebra_simps)
  have keep: "tcp_seg_len m4 14 = ?n" "pseudo_sum m4 14 = pseudo_sum m 14" "tcp_check m4 34 = ?c"
    by (simp_all add: ms tcp_seg_len_def pseudo_sum_def mem_simps)
  have ok: "tcp_csum_ok (st16 m4 (34 + 16) (NOT (csum_fold ?s))) 14 34"
    by (rule tcp_csum_rewrite [OF assms(1) _ _ keep d c]) (use assms(2) in simp_all)
  have "sw_rst m = swap32 (swap16 (st16 m4 (34 + 16) (NOT (csum_fold ?s))) 34 36) 26 30"
    by (simp add: sw_rst_def Let_def ms mem_simps)
  moreover have "4 \<le> tcp_seg_len (st16 m4 (34 + 16) (NOT (csum_fold ?s))) 14"
    using assms(2) keep(1) by (simp add: tcp_seg_len_def mem_simps)
  ultimately show ?thesis
    using tcp_csum_swap_addr [OF tcp_csum_swap_ports [OF ok]] by simp
qed

lemma sw_rst_fields:
  "tcp_rst (sw_rst m) 34" "\<not> tcp_ack (sw_rst m) 34" "tcp_seq (sw_rst m) 34 = tcp_ack_seq m 34"
  "tcp_window (sw_rst m) 34 = 0"
  "ip_saddr (sw_rst m) 14 = ip_daddr m 14" "ip_daddr (sw_rst m) 14 = ip_saddr m 14"
  "tcp_source (sw_rst m) 34 = tcp_dest m 34" "tcp_dest (sw_rst m) 34 = tcp_source m 34"
  by (simp_all add: sw_rst_def Let_def mem_simps swap32_eq swap16_eq)

lemma forward_order [simp]: "0 \<le> fst (forward cfg m eth ip)"
  by (simp add: forward_def Let_def CLIENT_R_IF_ORDER_def SERVER_R_IF_ORDER_def ATTACKER_R_IF_ORDER_def)

lemma sw_forward_eq:
  "sw_forward cfg st m len = Inr (fst (forward cfg m 0 14), st, snd (forward cfg m 0 14), len)"
  by (simp add: sw_forward_def case_prod_unfold Let_def)

lemma ack_start_first:
  assumes "htonl (ntohl (tcp_ack_seq m 34) - 1) = sw_hash cfg st w m 14 34" "\<not> opt_ab_test cfg"
    "bloom_filter_test (bf st) (bytes32 (ip_saddr m 14)) = Inr False"
    "bloom_filter_put (bf st) (bytes32 (ip_saddr m 14)) = Inr b"
  shows "sw_ack_start cfg w st m len ts = sw_forward cfg (st\<lparr>bf := b, syn_cache := (syn_cache st)
     (cache_index st (ip_saddr m 14) := sw_hash cfg st w m 14 34)\<rparr>) (sw_rst m) len"
  using assms by (simp add: sw_ack_start_def Let_def)

lemma cache_index_enter [simp]: "cache_index (enter st w m) a = cache_index st a"
  by (simp add: cache_index_def)

text \<open>
  C25: the first valid cookie of a client is answered with a reset to that client.  The reset
  carries the acknowledgement number as its sequence number, has a valid checksum if the ACK
  had one, and leaves with the addresses and ports exchanged.  The filter knows the client
  from then on and the client's slot of the cache holds the cookie; the seed tables are
  unchanged.
\<close>

theorem first_cookie_resets_client:
  assumes "active cfg m" "hash_option cfg = HARAKA" "\<not> opt_ab_test cfg" "bloom_ok (bf st)"
    and "start_ack m len off" "bloom_filter_test (bf st) (bytes32 (ip_saddr m 14)) = Inr False"
    and "ntohl (tcp_ack_seq m 34) = ntohl (flow_cookie cfg st w m) + 1"
    and "tcp_csum_ok m 14 34" "20 \<le> tcp_seg_len m 14" and "w < PER_WORKER"
  shows "\<exists>r st' m'. xsknf_packet_processor cfg st m len 0 w = Inr (r, st', m', len) \<and> 0 \<le> r
     \<and> tcp_rst m' 34 \<and> \<not> tcp_ack m' 34 \<and> tcp_seq m' 34 = tcp_ack_seq m 34
     \<and> ip_saddr m' 14 = ip_daddr m 14 \<and> ip_daddr m' 14 = ip_saddr m 14
     \<and> tcp_source m' 34 = tcp_dest m 34 \<and> tcp_dest m' 34 = tcp_source m 34
     \<and> tcp_csum_ok m' 14 34
     \<and> bloom_filter_test (bf st') (bytes32 (ip_saddr m 14)) = Inr True
     \<and> syn_cache st' = (syn_cache st)(cache_index st (ip_saddr m 14) := flow_cookie cfg st w m)
     \<and> sw_map_seeds st' = sw_map_seeds st \<and> change_key_duration st' = change_key_duration st"
proof -
  obtain b where b: "bloom_filter_put (bf st) (bytes32 (ip_saddr m 14)) = Inr b"
    using bloom.put_ok [OF assms(4)] by blast
  have h: "sw_hash cfg (enter st w m) w m 14 34 = flow_cookie cfg st w m"
    using assms(2) by (rule sw_hash_haraka) simp
  let ?st = "(enter st w m)\<lparr>bf := b, syn_cache := (syn_cache st)
     (cache_index st (ip_saddr m 14) := flow_cookie cfg st w m)\<rparr>"
  have "xsknf_packet_processor cfg st m len 0 w = sw_forward cfg ?st (sw_rst m) len"
    using ack_start_first [of m cfg "enter st w m" w b len "54 + off"] assms(3,6,7) b h
      processor_start_ack [OF assms(1,5,10)] by simp
  then show ?thesis
    using sw_rst_fields [of m] forward_csum(1) [OF sw_rst_csum [OF assms(8,9)]] bloom.test_put [OF assms(4) b]
    by (simp add: sw_forward_eq forward_mem)
qed

section \<open>Outgoing SYNs\<close>

text \<open>
  A SYN that leaves the protected network has its time stamp replaced by the hybrid
  cookie of its destination, whose low half is the destination's map cookie, and keeps a
  valid checksum (time stamp at an even offset inside the segment).  The state is unchanged.
\<close>

theorem outbound_syn_tagged:
  assumes "active cfg m" "ifx \<noteq> 0" "\<not> tcp_ece m 34" "syn_frame m len off" "even off"
    and "20 + off + 10 \<le> tcp_seg_len m 14" "tcp_csum_ok m 14 34" and "w < PER_WORKER"
  shows "\<exists>r m'. xsknf_packet_processor cfg st m len ifx w = Inr (r, st, m', len) \<and> 0 \<le> r
     \<and> ucast (ntohl (ts_tsval m' (54 + off))) = get_map_cookie_sip st (ip_daddr m 14)
     \<and> ts_tsecr m' (54 + off) = ts_tsecr m (54 + off) \<and> tcp_csum_ok m' 14 34"
proof -
  let ?h = "haraka256 (aesenc cfg) (flow_words (flows st w))"
  let ?hc = "push_bit 16 (drop_bit 16 ?h XOR (?h AND 0xffff))
      OR (ucast (get_map_cookie_sip st (ip_daddr m 14)) :: u32)"
  let ?o = "ts_tsval m (54 + off)" and ?n = "htonl ?hc" and ?c = "tcp_check m 34"
  define m1 where "m1 = st32 m (54 + off + 2) ?n"
  let ?s = "csum_add (csum_add (NOT (csum_unfold ?c)) (NOT ?o)) ?n"
  let ?m' = "st16 m1 (34 + 16) (NOT (csum_fold ?s))"
  have p: "xsknf_packet_processor cfg st m len ifx w = sw_forward cfg st ?m' len"
    using assms(1-4,8) by (simp add: xsknf_packet_processor_def active_def syn_frame_def sw_out_syn_def Let_def
        m1_def mem_simps)
  have d: "sum_shift m m1 34 (tcp_seg_len m 14) (0 + (uint ?n - uint ?o))"
    unfolding m1_def using assms(5,6) by (intro sum_shift_st32 sum_shift_refl) (simp_all add: mem_simps)
  have "oc_eq (uint (NOT (csum_fold ?s))) (- (- uint ?c - uint ?o + uint ?n))"
    by (intro user_intros)
  then have c: "oc_eq (uint (NOT (csum_fold ?s))) (uint ?c - (0 + (uint ?n - uint ?o)))"
    by (simp add: algebra_simps)
  have keep: "tcp_seg_len m1 14 = tcp_seg_len m 14" "pseudo_sum m1 14 = pseudo_sum m 14" "tcp_check m1 34 = ?c"
    by (simp_all add: m1_def tcp_seg_len_def pseudo_sum_def mem_simps)
  have ok: "tcp_csum_ok ?m' 14 34"
    by (rule tcp_csum_rewrite [OF assms(7) _ _ keep d c]) (use assms(6) in simp_all)
  have "ucast ?hc = get_map_cookie_sip st (ip_daddr m 14)"
    by (rule bit_word_eqI) (auto simp: bit_simps)
  then show ?thesis
    using forward_csum(1) [OF ok, of cfg]
    by (simp add: p sw_forward_eq forward_mem m1_def mem_simps)
qed

section \<open>Witnesses\<close>

text \<open>The handshake ACK with a chosen acknowledgement number and its checksum recomputed.\<close>

definition sample_start_ok :: "u32 \<Rightarrow> mem" where
  "sample_start_ok ack = (let (m, c) = cksumTcp (sample_start ack) 14 34 in st16 m 50 c)"

lemma sample_start_ok_low: "i \<noteq> 50 \<Longrightarrow> i \<noteq> 51 \<Longrightarrow> sample_start_ok ack i = sample_start ack i"
  by (cases "i < 50") (simp_all add: sample_start_ok_def case_prod_unfold Let_def mem_simps)

lemma sample_start_ok_facts:
  "start_ack (sample_start_ok ack) 66 2" "active cfg0 (sample_start_ok ack)"
  "flow_cookie cfg0 st 0 (sample_start_ok ack) = flow_cookie cfg0 st 0 sample_syn"
  "ntohl (tcp_ack_seq (sample_start_ok ack) 34) = ack"
  "tcp_csum_ok (sample_start_ok ack) 14 34" "20 \<le> tcp_seg_len (sample_start_ok ack) 14"
proof -
  note low = sample_start_ok_low
  have "parse_timestamp (sample_start_ok ack) 34 = parse_timestamp (sample_start ack) 34"
    by (simp add: parse_timestamp_def fast_parse_timestamp_def Let_def ld64_def ld32_def low sample_start_def
        mem_simps sample_handshake_def sample_eval ack_1_mask_def bit_simps)
  then show "start_ack (sample_start_ok ack) 66 2" "active cfg0 (sample_start_ok ack)"
    using sample_start_facts(1,2) [of ack] by (simp_all add: start_ack_def active_def ld32_def ld16_def low)
  show "flow_cookie cfg0 st 0 (sample_start_ok ack) = flow_cookie cfg0 st 0 sample_syn"
    "ntohl (tcp_ack_seq (sample_start_ok ack) 34) = ack"
    using sample_start_facts(3-6) [of ack] by (simp_all add: flow_cookie_def flow_of_def ld32_def ld16_def low)
  have len: "ip_ihl (sample_start ack) 14 = 5" "ntohs (ip_tot_len (sample_start ack) 14) = 52"
    by (simp_all add: sample_start_def mem_simps) (simp_all add: sample_handshake_def sample_eval)
  show "20 \<le> tcp_seg_len (sample_start_ok ack) 14"
    using len by (simp add: tcp_seg_len_def ld16_def low)
  show "tcp_csum_ok (sample_start_ok ack) 14 34"
    using cksumTcp_ok [of 14 34 "sample_start ack", OF _ _ surjective_pairing] len
    by (simp add: sample_start_ok_def case_prod_unfold)
qed

theorem first_cookie_resets_client_witness:
  "let m = sample_start_ok (ntohl (flow_cookie cfg0 sw0 0 sample_syn) + 1)
   in \<exists>r st' m'. xsknf_packet_processor cfg0 sw0 m 66 0 0 = Inr (r, st', m', 66) \<and> tcp_rst m' 34
     \<and> tcp_csum_ok m' 14 34"
  using first_cookie_resets_client [OF sample_start_ok_facts(2) _ _ sw_init_bf sample_start_ok_facts(1)
      sample_not_seen _ sample_start_ok_facts(5,6), of "ntohl (flow_cookie cfg0 sw0 0 sample_syn) + 1" "\<lambda>_. 7" 1 switch0 0]
    sample_start_ok_facts(3,4) by (auto simp: Let_def cfg0_def)

lemma sample_syn_csum: "tcp_csum_ok sample_syn 14 34"
  by (simp add: tcp_csum_ok_def sample_syn_def sample_eval sample_csum_eval)

theorem outbound_syn_tagged_witness:
  "\<exists>r m'. xsknf_packet_processor cfg0 sw0 sample_syn 74 1 0 = Inr (r, sw0, m', 74)
     \<and> ucast (ntohl (ts_tsval m' 60)) = get_map_cookie_sip sw0 (ip_daddr sample_syn 14) \<and> tcp_csum_ok m' 14 34"
proof -
  have "\<not> tcp_ece sample_syn 34" "30 + 6 \<le> tcp_seg_len sample_syn 14"
    by (simp_all add: sample_syn_def sample_eval tcp_seg_len_def bit_simps)
  then show ?thesis
    using outbound_syn_tagged [OF sample_syn_facts(7) _ _ sample_syn_facts(1) _ _ sample_syn_csum, of 1 0 sw0] by auto
qed

end
