(* ===== verification/Switch_Gate.thy ===== *)
theory Switch_Gate
  imports Switch_Csum Cookies
begin

text \<open>
  The switch agent's checks on clients it has met: the second SYN of a client in the filter,
  the hybrid cookie that every later ACK echoes, and the seed changes that the server agent
  announces.
\<close>

section \<open>The second SYN\<close>

lemma processor_known_syn:
  assumes "active cfg m" "timestamp_option cfg = TS_ON" "syn_frame m len off"
    "bloom_filter_test (bf st) (bytes32 (ip_saddr m 14)) = Inr True" "w < PER_WORKER"
  shows "xsknf_packet_processor cfg st m len 0 w =
     sw_forward cfg ((enter st w m)\<lparr>syn_cache := (syn_cache st)(cache_index st (ip_saddr m 14) := 0)\<rparr>)
       (st32 m (54 + off + 6) (syn_cache st (cache_index st (ip_saddr m 14)))) len"
  using assms by (simp add: processor_inbound sw_syn_def syn_frame_def Let_def)

text \<open>
  A SYN of a client in the filter is passed on with its length and all of it but the MAC
  addresses and the time stamp echo unchanged; the echo is replaced by the cookie kept for
  the client, which is thereby consumed: the client's slot is zero afterwards and every other
  slot, the filter and the seed tables are unchanged.
\<close>

theorem known_syn_consumes_cookie:
  assumes "active cfg m" "timestamp_option cfg = TS_ON" "syn_frame m len off"
    and "bloom_filter_test (bf st) (bytes32 (ip_saddr m 14)) = Inr True" "w < PER_WORKER"
  shows "\<exists>r st' m'. xsknf_packet_processor cfg st m len 0 w = Inr (r, st', m', len) \<and> 0 \<le> r
     \<and> ts_tsecr m' (54 + off) = syn_cache st (cache_index st (ip_saddr m 14))
     \<and> (\<forall>i. 12 \<le> i \<and> (i < 60 + off \<or> 64 + off \<le> i) \<longrightarrow> m' i = m i)
     \<and> syn_cache st' = (syn_cache st)(cache_index st (ip_saddr m 14) := 0)
     \<and> bf st' = bf st \<and> sw_map_seeds st' = sw_map_seeds st"
  using processor_known_syn [OF assms] by (auto simp: sw_forward_eq forward_mem mem_simps)

section \<open>Hybrid cookies\<close>

text \<open>An inbound ACK that does not answer a cookie SYN-ACK.\<close>

definition later_ack :: "mem \<Rightarrow> u32 \<Rightarrow> nat \<Rightarrow> bool" where
  "later_ack m len off \<longleftrightarrow> tcp_ack m 34 \<and> \<not> tcp_syn m 34 \<and> parse_timestamp m 34 = Some off
     \<and> 54 + off + 10 \<le> unat len \<and> ts_tsecr m (54 + off) \<noteq> TS_START"

lemma hc_map_low: "(h AND 0xffff) = (ucast c :: u32) \<longleftrightarrow> hc_map h = c" for c :: u16
proof -
  have "take_bit 16 h = ucast (hc_map h)"
    by (rule bit_word_eqI) (auto simp: hc_map_def bit_simps)
  then have "h AND 0xffff = ucast (hc_map h)"
    by (simp add: take_bit_eq_mask mask_eq_exp_minus_1)
  moreover have "hc_map (ucast x) = x" for x
    by (rule bit_word_eqI) (auto simp: hc_map_def bit_simps)
  ultimately show ?thesis
    by metis
qed

lemma hc_fold_mask: "(drop_bit 16 h AND 0x3fff) = hc_fold h" "(h' AND 0x3fff) = take_bit 14 h'"
  for h h' :: u32
  by (simp_all add: hc_fold_def take_bit_eq_mask mask_eq_exp_minus_1)

lemma hybrid_ok_iff:
  assumes "hash_option cfg = HARAKA"
  shows "hybrid_ok cfg w (enter st w m) m ts \<longleftrightarrow>
     hc_map (ntohl (ts_tsecr m ts)) = get_map_cookie_sip st (ip_saddr m 14)
     \<or> (change_key_duration st \<noteq> 0 \<or> opt_change_key cfg)
       \<and> hc_fold (ntohl (ts_tsecr m ts)) = take_bit 14 (ucast (get_hash_cookie (flow_cookie cfg st w m)))"
proof -
  have f: "take_bit 14 (drop_bit 16 c XOR (c AND 0xffff)) = take_bit 14 (ucast (get_hash_cookie c) :: u32)" for c :: u32
  proof -
    have "c AND 0xffff = take_bit 16 c"
      by (simp add: take_bit_eq_mask mask_eq_exp_minus_1)
    then show ?thesis
      by (intro bit_word_eqI) (auto simp: get_hash_cookie_def bit_simps)
  qed
  show ?thesis
    using sw_hash_haraka [OF assms, of "enter st w m" w st m]
    by (simp add: hybrid_ok_def Let_def hc_map_low hc_fold_mask hc_fold_def f get_map_cookie_sip_def
        del: take_bit_xor take_bit_and)
qed

lemma processor_later_ack:
  assumes "active cfg m" "later_ack m len off" "w < PER_WORKER"
  shows "xsknf_packet_processor cfg st m len 0 w =
     (if hybrid_ok cfg w (enter st w m) m (54 + off) then sw_forward cfg (enter st w m) m len
      else sw_drop (enter st w m) m len)"
  using assms by (simp add: processor_inbound sw_ack_def later_ack_def Let_def)

text \<open>
  C9: the filter on later ACKs.  Such an ACK is passed on exactly if the low half of its echo
  is the map cookie of its source address, or a seed change is under way (or cookies of both
  kinds are allowed) and the next 14 bits are those of the folded SYN cookie of its flow.
  In either case nothing but the MAC addresses and the worker's copy of the flow is written.
\<close>

theorem later_ack_filtered:
  assumes "active cfg m" "hash_option cfg = HARAKA" "later_ack m len off" and "w < PER_WORKER"
  defines "echo \<equiv> ntohl (ts_tsecr m (54 + off))"
  shows "\<exists>r m'. xsknf_packet_processor cfg st m len 0 w = Inr (r, enter st w m, m', len)
     \<and> (0 \<le> r \<longleftrightarrow> hc_map echo = get_map_cookie_sip st (ip_saddr m 14)
          \<or> (change_key_duration st \<noteq> 0 \<or> opt_change_key cfg)
            \<and> hc_fold echo = take_bit 14 (ucast (get_hash_cookie (flow_cookie cfg st w m))))
     \<and> (\<forall>i \<ge> 12. m' i = m i)"
  unfolding echo_def hybrid_ok_iff [OF assms(2), symmetric]
  by (simp add: processor_later_ack [OF assms(1,3,4)] sw_forward_eq sw_drop_def forward_mem)

section \<open>Seed changes\<close>

lemma processor_change_seed:
  "active cfg m \<Longrightarrow> ifx \<noteq> 0 \<Longrightarrow> tcp_ece m 34 \<Longrightarrow>
     xsknf_packet_processor cfg st m len ifx w = Inr (-1, sw_change_seed st m, m, len)"
  by (simp add: xsknf_packet_processor_def active_def sw_drop_def Let_def)

lemma sw_change_seed_simps [simp]:
  "sw_map_seeds (sw_change_seed st m) = (sw_map_seeds st)(tcp_window m 34 := tcp_seq m 34)"
  "sw_map_cookies (sw_change_seed st m) = (sw_map_cookies st)(tcp_source m 34 := tcp_dest m 34)"
  "change_key_duration (sw_change_seed st m) = tcp_ack_seq m 34"
  by (simp_all add: sw_change_seed_def Let_def)

section \<open>Witnesses\<close>

lemma sample_ack_later: "later_ack sample_ack 66 2" "active cfg0 sample_ack"
  by (simp_all add: later_ack_def active_def cfg0_def sample_ack_def sample_eval parse_timestamp_def
      fast_parse_timestamp_def Let_def ack_1_mask_def bit_simps)

theorem later_ack_filtered_witness:
  "\<exists>r m'. xsknf_packet_processor cfg0 sw0 sample_ack 66 0 0 = Inr (r, enter sw0 0 sample_ack, m', 66)
     \<and> (0 \<le> r \<longleftrightarrow> hc_map (ntohl (ts_tsecr sample_ack 56)) = get_map_cookie_sip sw0 (ip_saddr sample_ack 14))"
proof -
  have "change_key_duration sw0 = 0"
    by (simp add: sw_init_def init_global_maps_def init_salt_def init_saopts_def init_sa_apache_opts_def
        switch0_def Let_def upt_rec)
  then show ?thesis
    using later_ack_filtered [OF sample_ack_later(2) _ sample_ack_later(1), of 0 sw0] by (simp add: cfg0_def) blast
qed

text \<open>The start-up state after a first valid cookie of the sample client.\<close>

theorem known_syn_consumes_cookie_witness:
  "\<exists>st r st' m'. bloom_filter_test (bf st) (bytes32 (ip_saddr sample_syn 14)) = Inr True
     \<and> xsknf_packet_processor cfg0 st sample_syn 74 0 0 = Inr (r, st', m', 74)
     \<and> ts_tsecr m' 60 = syn_cache st (cache_index st (ip_saddr sample_syn 14))"
proof -
  obtain b where b: "bloom_filter_put (bf sw0) (bytes32 (ip_saddr sample_syn 14)) = Inr b"
    using bloom.put_ok [OF sw_init_bf] by blast
  have k: "bloom_filter_test (bf (sw0\<lparr>bf := b\<rparr>)) (bytes32 (ip_saddr sample_syn 14)) = Inr True"
    using bloom.test_put [OF sw_init_bf b] by simp
  have "timestamp_option cfg0 = TS_ON"
    by (simp add: cfg0_def)
  from known_syn_consumes_cookie [OF sample_syn_facts(7) this sample_syn_facts(1) k, of 0] k
  show ?thesis by fastforce
qed

end
