(* ===== verification/Deployment.thy ===== *)
theory Deployment
  imports Server_Agent Switch_Gate
begin

text \<open>
  The two agents together.  Both keep a table of hash seeds, from which the map cookies of
  client addresses follow.  The server agent changes entries and announces each change in a
  packet to the switch agent.  The theory proves that the tables agree up to the announcements
  still on the way and the entries that foreign frames or the wire damage, that the cookies the
  server agent hands out for an undamaged entry therefore pass the switch agent, before, during and
  after a change, and that the second SYN of a validated client
  reaches the server as the client sent it.
\<close>

section \<open>Seed tables of the two agents\<close>

definition srv_tables :: "('m, 'r) server \<Rightarrow> (u16 \<Rightarrow> u32) \<times> (u16 \<Rightarrow> u16)" where
  "srv_tables s = (map_seeds (init_tables s), map_cookies (init_tables s))"

definition sw_tables :: "switch \<Rightarrow> (u16 \<Rightarrow> u32) \<times> (u16 \<Rightarrow> u16)" where
  "sw_tables st = (sw_map_seeds st, sw_map_cookies st)"

definition same_tables :: "('m, 'r) server \<Rightarrow> ('m, 'r) server \<Rightarrow> bool" where
  "same_tables s s' \<longleftrightarrow> map_seeds s' = map_seeds s \<and> map_cookies s' = map_cookies s \<and> init s' = init s"

lemma same_tables_srv: "same_tables s s' \<Longrightarrow> srv_tables s' = srv_tables s"
  by (auto simp: same_tables_def srv_tables_def init_tables_def)

lemma init_tables_simps [simp]: "srv_tables (init_tables s) = srv_tables s" "init (init_tables s)"
  by (simp_all add: srv_tables_def init_tables_def)

subsection \<open>The server agent\<close>

lemma handlers_same_tables:
  "same_tables s (fst (snd (server_in_syn E data_end ip tcp s m)))"
  "same_tables s (fst (snd (server_in_handshake E data_end ip tcp ts s m)))"
  "same_tables s (fst (snd (server_in_flow E ip tcp ts val s m)))"
  "same_tables s (fst (snd (server_in_synack E data_end tcp s m)))"
  by (simp_all add: same_tables_def server_in_syn_def server_in_handshake_def server_in_flow_def
      server_in_synack_def Let_def split: option.splits)

lemma handlers_no_tx:
  "fst (server_in_syn E data_end ip tcp s m) \<noteq> XDP_TX"
  "fst (server_in_handshake E data_end ip tcp ts s m) \<noteq> XDP_TX"
  "fst (server_in_flow E ip tcp ts val s m) \<noteq> XDP_TX"
  "fst (server_in_synack E data_end tcp s m) \<noteq> XDP_TX"
  by (simp_all add: server_in_syn_def server_in_handshake_def server_in_flow_def
      server_in_synack_def Let_def split: option.splits)

lemma change_cookie_drop:
  "change_cookie E r1 r2 eth ip tcp f s m = (a, s', m') \<Longrightarrow> a \<noteq> XDP_TX \<Longrightarrow> s' = s"
  by (auto simp: change_cookie_def Let_def split: option.splits)

lemma ack_same_tables:
  assumes "server_in_ack E r1 r2 data_end eth ip tcp s m = (a, s', m')" "a \<noteq> XDP_TX"
  shows "same_tables s s'"
proof -
  note h = handlers_same_tables(2) [of s E data_end ip tcp _ m] handlers_same_tables(3) [of s E ip tcp _ _ m]
  have c: "same_tables s s'" if "change_cookie E r1 r2 eth ip tcp f (s\<lparr>dropcnt := n\<rparr>) m = (a, s', m')" for f n
    using change_cookie_drop [OF that assms(2)] by (simp add: same_tables_def)
  show ?thesis
    using assms h c by (auto simp: server_in_ack_def Let_def same_tables_def split: option.splits if_splits)
      (metis fst_conv snd_conv)+
qed

lemma server_in_quiet:
  assumes "server_in E r1 r2 data_end s m = (a, s', m')" "a \<noteq> XDP_TX"
  shows "srv_tables s' = srv_tables s"
proof -
  have "same_tables (init_tables s) s'"
    using assms handlers_same_tables [of "init_tables s" E] ack_same_tables [of E r1 r2 data_end _ _ _ "init_tables s" m a s' m']
    by (auto simp: server_in_def server_in_tcp_def DROPTEST_def Let_def same_tables_def
        split: option.splits if_splits) (metis fst_conv snd_conv)+
  from same_tables_srv [OF this] show ?thesis by simp
qed

lemma server_en_quiet:
  assumes "server_en E data_end s m = (a, s', m')"
  shows "srv_tables s' = srv_tables s"
proof -
  have "same_tables s s'"
    using assms by (auto simp: server_en_def server_en_tcp_def server_en_synack_def server_en_rst_def
        server_en_ack_def observe_head_def observe_rtt_def Let_def same_tables_def
        split: option.splits if_splits prod.splits)
  then show ?thesis by (rule same_tables_srv)
qed

subsection \<open>Announcements\<close>

text \<open>A frame that the switch agent reads as an announcement of a seed change.\<close>

definition announcement :: "mem \<Rightarrow> bool" where
  "announcement m \<longleftrightarrow> eth_proto m 0 = htons ETH_P_IP \<and> tcp_ece m 34"

lemma change_cookie_announces:
  assumes "change_cookie E r1 r2 0 14 34 f s m = (XDP_TX, s', m')"
    "\<And>s. map_seeds (f s) = map_seeds s" "\<And>s. map_cookies (f s) = map_cookies s" "\<And>s. init (f s) = init s"
  shows "announcement m' \<longleftrightarrow> eth_proto m 0 = htons ETH_P_IP" "init s' = init s"
    "map_seeds s' = (map_seeds s)(tcp_window m' 34 := tcp_seq m' 34)"
    "map_cookies s' = (map_cookies s)(tcp_source m' 34 := tcp_dest m' 34)"
    "lookup_elem (rtt_ops E) (rtt_map s) 0 = Some (tcp_ack_seq m' 34)"
  using assms by (auto simp: change_cookie_def Let_def announcement_def mem_simps swap32_eq swap_mac_def
      set_map_cookie_def split: option.splits)

lemma server_in_announces:
  assumes "tcp_frame m data_end 34" "server_in E r1 r2 data_end s m = (XDP_TX, s', m')"
  shows "announcement m'" "srv_tables s' =
     ((map_seeds (init_tables s))(tcp_window m' 34 := tcp_seq m' 34),
      (map_cookies (init_tables s))(tcp_source m' 34 := tcp_dest m' 34))"
proof -
  have "server_in_ack E r1 r2 data_end 0 14 34 (init_tables s) m = (XDP_TX, s', m')"
    using assms(2) handlers_no_tx(1) [of E data_end 14 34 "init_tables s" m]
      handlers_no_tx(4) [of E data_end 34 "init_tables s" m]
    by (auto simp: server_in_frame [OF assms(1)] split: if_splits)
  then obtain n where c: "change_cookie E r1 r2 0 14 34 (\<lambda>s. s\<lparr>dropcnt := 0\<rparr>) ((init_tables s)\<lparr>dropcnt := n\<rparr>) m
      = (XDP_TX, s', m')"
    using handlers_no_tx(2,3) [of E] by (auto simp: server_in_ack_def Let_def split: option.splits if_splits)
      (metis fst_conv)+
  have "eth_proto m 0 = htons ETH_P_IP"
    using tcp_frameD(3) [OF assms(1)] by (metis bswap16_bswap16)
  with change_cookie_announces [OF c]
  show "announcement m'" "srv_tables s' =
     ((map_seeds (init_tables s))(tcp_window m' 34 := tcp_seq m' 34),
      (map_cookies (init_tables s))(tcp_source m' 34 := tcp_dest m' 34))"
    by (simp_all add: srv_tables_def) (simp_all add: init_tables_def)
qed

subsection \<open>The switch agent\<close>

lemma processor_tables:
  assumes "xsknf_packet_processor cfg st m len ifx w = Inr (r, st', m', len')" "ifx = 0 \<or> \<not> tcp_ece m 34"
  shows "sw_tables st' = sw_tables st"
proof -
  have c: "keeps sw_map_cookies st0 (sw_syn cfg w st0 m len)" "keeps sw_map_cookies st0 (sw_ack cfg w st0 m len)" for st0
    by (auto simp: sw_syn_def sw_syn_answer_def sw_ack_def sw_ack_start_def Let_def
        split: option.splits bool.splits prod.splits sum.splits if_splits)
  have "keeps sw_map_seeds st (xsknf_packet_processor cfg st m len ifx w)"
    "keeps sw_map_cookies st (xsknf_packet_processor cfg st m len ifx w)"
    unfolding processor_eq
    using assms(2) c [of "enter st w m"] syn_keeps(3) [of "enter st w m"] ack_keeps(2) [of "enter st w m"]
    by (auto simp: out_syn_keeps intro!: keeps_from [of _ "enter st w m" st])
  then show ?thesis
    using assms(1) by (simp add: sw_tables_def keeps_def)
qed

section \<open>The system\<close>

text \<open>
  The server agent, the announcements on the wire between the agents in the order they were
  sent, and the switch agent.  The server agent handles packets in both directions; the switch
  agent handles frames of the clients, frames of the servers, and the announcements.  Nothing is
  assumed of the frames or of the wire: it may lose announcements and deliver them in any order,
  and the switch agent takes every frame from the server side with ECE set, an ECN SYN-ACK of a
  server for instance, for an announcement.

  Each step is labelled with the table entries it damages and the entries it repairs, as two pairs
  of key sets (seeds, cookies).  Damaged are: the entries that such a foreign frame overwrites; the
  entries of an announcement that is lost, or that overtakes an older one for the same entry; and
  the entries changed by an announcement made from a packet with IP options, since the switch agent
  looks for the TCP header at offset 34 only.  Repaired is the entry that the server agent announces.
\<close>

type_synonym ('m, 'r) system = "('m, 'r) server \<times> mem list \<times> switch"
type_synonym keys = "u16 set \<times> u16 set"

definition touches :: "mem \<Rightarrow> keys" where
  "touches m = ({tcp_window m 34}, {tcp_source m 34})"

definition overtakes :: "mem \<Rightarrow> mem list \<Rightarrow> keys" where
  "overtakes m q = (fst (touches m) \<inter> (\<lambda>m. tcp_window m 34) ` set q, snd (touches m) \<inter> (\<lambda>m. tcp_source m 34) ` set q)"

definition changed :: "('m, 'r) server \<Rightarrow> ('m, 'r) server \<Rightarrow> keys" where
  "changed s s' = ({k. fst (srv_tables s') k \<noteq> fst (srv_tables s) k}, {k. snd (srv_tables s') k \<noteq> snd (srv_tables s) k})"

abbreviation no_keys :: keys where "no_keys \<equiv> ({}, {})"

inductive system_step :: "('m, 'r) bpf_env \<Rightarrow> switch_cfg \<Rightarrow> ('m, 'r) system \<Rightarrow> keys \<Rightarrow> keys \<Rightarrow> ('m, 'r) system \<Rightarrow> bool"
  for E cfg where
  srv_receive: "server_in E r1 r2 data_end s m = (a, s', m') \<Longrightarrow> a \<noteq> XDP_TX \<Longrightarrow>
     system_step E cfg (s, q, st) no_keys no_keys (s', q, st)"
| srv_announce: "server_in E r1 r2 data_end s m = (XDP_TX, s', m') \<Longrightarrow> tcp_frame m data_end 34 \<Longrightarrow>
     system_step E cfg (s, q, st) no_keys (touches m') (s', q @ [m'], st)"
| srv_announce_opts: "server_in E r1 r2 data_end s m = (XDP_TX, s', m') \<Longrightarrow> \<not> tcp_frame m data_end 34 \<Longrightarrow>
     system_step E cfg (s, q, st) (changed s s') no_keys (s', q, st)"
| srv_send: "server_en E data_end s m = (act, s', m') \<Longrightarrow> system_step E cfg (s, q, st) no_keys no_keys (s', q, st)"
| sw_traffic: "xsknf_packet_processor cfg st m len ifx w = Inr (r, st', m', len') \<Longrightarrow>
     ifx = 0 \<or> \<not> tcp_ece m 34 \<Longrightarrow> system_step E cfg (s, q, st) no_keys no_keys (s, q, st')"
| sw_foreign: "xsknf_packet_processor cfg st m len ifx w = Inr (r, st', m', len') \<Longrightarrow>
     ifx \<noteq> 0 \<Longrightarrow> tcp_ece m 34 \<Longrightarrow> system_step E cfg (s, q, st) (touches m) no_keys (s, q, st')"
| sw_deliver: "xsknf_packet_processor cfg st m len ifx w = Inr (r, st', m', len') \<Longrightarrow> ifx \<noteq> 0 \<Longrightarrow>
     system_step E cfg (s, q1 @ m # q2, st) (overtakes m q1) no_keys (s, q1 @ q2, st')"
| wire_lose: "system_step E cfg (s, q1 @ m # q2, st) (touches m) no_keys (s, q1 @ q2, st)"

text \<open>A run collects the entries damaged and not repaired since.\<close>

inductive system_run ::
    "('m, 'r) bpf_env \<Rightarrow> switch_cfg \<Rightarrow> ('m, 'r) system \<Rightarrow> keys \<Rightarrow> ('m, 'r) system \<Rightarrow> bool" for E cfg x where
  run_start: "system_run E cfg x no_keys x"
| run_step: "system_run E cfg x (D, C) y \<Longrightarrow> system_step E cfg y (D1, C1) (D2, C2) z \<Longrightarrow>
     system_run E cfg x ((D - D2) \<union> D1, (C - C2) \<union> C1) z"

text \<open>
  The invariant: the switch agent's tables after the pending announcements are the server
  agent's, but for the damaged entries.
\<close>

definition agree_off :: "'a set \<Rightarrow> ('a \<Rightarrow> 'b) \<Rightarrow> ('a \<Rightarrow> 'b) \<Rightarrow> bool" where
  "agree_off D f g \<longleftrightarrow> (\<forall>k. k \<notin> D \<longrightarrow> f k = g k)"

lemma agree_off_empty [simp]: "agree_off {} f g \<longleftrightarrow> f = g"
  by (auto simp: agree_off_def)

fun in_sync :: "keys \<Rightarrow> ('m, 'r) system \<Rightarrow> bool" where
  "in_sync (D, C) (s, q, st) \<longleftrightarrow> (\<forall>m \<in> set q. announcement m)
     \<and> agree_off D (sw_map_seeds (foldl sw_change_seed st q)) (fst (srv_tables s))
     \<and> agree_off C (sw_map_cookies (foldl sw_change_seed st q)) (snd (srv_tables s))"

text \<open>Entry by entry, pending announcements are writes to one cell.\<close>

lemma fold_change_seed_at:
  "sw_map_seeds (foldl sw_change_seed st q) k =
     foldl (\<lambda>v m. if tcp_window m 34 = k then tcp_seq m 34 else v) (sw_map_seeds st k) q"
  "sw_map_cookies (foldl sw_change_seed st q) j =
     foldl (\<lambda>v m. if tcp_source m 34 = j then tcp_dest m 34 else v) (sw_map_cookies st j) q"
  by (induction q arbitrary: st) (simp_all add: fun_upd_def eq_commute)

lemma foldl_write_skip: "\<forall>m \<in> set q. f m \<noteq> k \<Longrightarrow> foldl (\<lambda>v m. if f m = k then g m else v) v q = v"
  by (induction q arbitrary: v) auto

lemma foldl_write_early:
  "k \<notin> {f m} \<inter> f ` set q1 \<Longrightarrow>
     foldl (\<lambda>v m. if f m = k then g m else v) (if f m = k then g m else v) (q1 @ q2)
     = foldl (\<lambda>v m. if f m = k then g m else v) v (q1 @ m # q2)"
proof (cases "f m = k")
  case True
  assume "k \<notin> {f m} \<inter> f ` set q1"
  with True have "\<forall>m \<in> set q1. f m \<noteq> k" by (metis IntI imageI singletonI)
  then show ?thesis using True by (simp add: foldl_write_skip)
qed simp

lemma foldl_write_lose:
  "k \<notin> {f m} \<Longrightarrow> foldl (\<lambda>v m. if f m = k then g m else v) v (q1 @ q2)
     = foldl (\<lambda>v m. if f m = k then g m else v) v (q1 @ m # q2)"
  by simp

lemma deliver_seed:
  assumes "xsknf_packet_processor cfg st m len ifx w = Inr (r, st', m', len')" "ifx \<noteq> 0" "announcement m"
    "\<not> opt_drop cfg" "\<not> opt_forward cfg"
  shows "st' = sw_change_seed st m"
  using assms processor_change_seed [of cfg m ifx st len w] by (auto simp: active_def announcement_def)

lemma foreign_seed:
  assumes "xsknf_packet_processor cfg st m len ifx w = Inr (r, st', m', len')" "ifx \<noteq> 0" "tcp_ece m 34"
  shows "sw_tables st' = sw_tables st \<or> st' = sw_change_seed st m"
  using assms by (auto simp: processor_eq sw_drop_def sw_forward_eq split: if_splits)

lemma agree_after:
  assumes "in_sync (D, C) (s, q, st)" "\<forall>m \<in> set q'. announcement m"
    "\<And>k. k \<notin> D' \<Longrightarrow> k \<notin> D \<Longrightarrow> sw_map_seeds (foldl sw_change_seed st' q') k = sw_map_seeds (foldl sw_change_seed st q) k"
    "\<And>k. k \<notin> C' \<Longrightarrow> k \<notin> C \<Longrightarrow> sw_map_cookies (foldl sw_change_seed st' q') k = sw_map_cookies (foldl sw_change_seed st q) k"
  shows "in_sync (D \<union> D', C \<union> C') (s, q', st')"
  using assms by (auto simp: agree_off_def)

lemma step_in_sync:
  assumes "system_step E cfg x (D1, C1) (D2, C2) y" "in_sync (D, C) x" "\<not> opt_drop cfg" "\<not> opt_forward cfg"
  shows "in_sync ((D - D2) \<union> D1, (C - C2) \<union> C1) y"
  using assms(1)
proof (cases rule: system_step.cases)
  case (srv_receive r1 r2 data_end s m a s' m' q st)
  then show ?thesis using assms(2) server_in_quiet [OF srv_receive(7,8)] by simp
next
  case (srv_announce r1 r2 data_end s m s' m' q st)
  then show ?thesis
    using assms(2) server_in_announces [OF srv_announce(7,6)]
    by (auto simp: srv_tables_def touches_def agree_off_def)
next
  case (srv_announce_opts r1 r2 data_end s m s' m' q st)
  then show ?thesis using assms(2) by (auto simp: changed_def agree_off_def)
next
  case (srv_send data_end s m act s' m' q st)
  then show ?thesis using assms(2) server_en_quiet [OF srv_send(7)] by simp
next
  case (sw_traffic st m len ifx w r st' m' len' s q)
  then show ?thesis
    using assms(2) processor_tables [OF sw_traffic(7,8)] by (simp add: fold_change_seed_at sw_tables_def agree_off_def)
next
  case (sw_foreign st m len ifx w r st' m' len' s q)
  then show ?thesis
    using assms(2) foreign_seed [OF sw_foreign(6-8)]
    by (auto simp: fold_change_seed_at sw_tables_def touches_def agree_off_def)
next
  case (sw_deliver st m len ifx w r st' m' len' s q1 q2)
  then have "st' = sw_change_seed st m"
    using assms(2-4) by (intro deliver_seed [OF sw_deliver(6,7)]) simp_all
  then have "in_sync (D \<union> D1, C \<union> C1) (s, q1 @ q2, st')"
    using assms(2) sw_deliver(1-5)
    by (intro agree_after [of D C s "q1 @ m # q2" st])
      (auto simp: fold_change_seed_at overtakes_def touches_def foldl_write_early [symmetric] simp del: foldl_append)
  then show ?thesis using sw_deliver(1-5) by simp
next
  case (wire_lose s q1 m q2 st)
  then have "in_sync (D \<union> D1, C \<union> C1) (s, q1 @ q2, st)"
    using assms(2) by (intro agree_after [of D C s "q1 @ m # q2" st])
      (auto simp: fold_change_seed_at touches_def)
  then show ?thesis using wire_lose by simp
qed

lemma run_in_sync:
  assumes "system_run E cfg x L y" "in_sync no_keys x" "\<not> opt_drop cfg" "\<not> opt_forward cfg"
  shows "in_sync L y"
  using assms by (induction rule: system_run.induct) (auto intro: step_in_sync)

lemma foldl_keeps: "(\<And>st x. f (g st x) = f st) \<Longrightarrow> f (foldl g st xs) = f st"
  by (induction xs arbitrary: st) simp_all

lemma init_tables_kept:
  "sw_tables (init_salt rnd n st) = sw_tables st" "sw_tables (init_saopts n st) = sw_tables st"
  "sw_tables (init_sa_apache_opts n st) = sw_tables st"
  unfolding init_salt_def init_saopts_def init_sa_apache_opts_def
  by (rule foldl_keeps, simp add: sw_tables_def split: prod.split)+

lemma start_in_sync:
  assumes "\<not> init s"
  shows "sw_tables (sw_init rnd n st) = srv_tables s"
proof -
  have "sw_tables (sw_init rnd n st) = (\<lambda>i. ucast i, \<lambda>i. i)"
    using init_tables_kept [unfolded sw_tables_def]
    by (simp add: sw_init_def Let_def sw_tables_def init_global_maps_def)
  then show ?thesis using assms by (simp add: srv_tables_def init_tables_def)
qed

text \<open>
  C1: the seed tables stay synchronised but for the entries that foreign frames and the wire
  damage.  Whatever the two agents do after start-up, in every entry outside the sets \<open>D\<close> and
  \<open>C\<close> the server agent's tables are the switch agent's tables with the announcements
  still on the way applied in order.  In \<open>D\<close> and \<open>C\<close> are only the entries that were last overwritten
  by an ECE frame other than an announcement, lost or overtaken on the wire, or announced in a packet
  with IP options; an entry leaves the sets when it is announced again.  So without such events the
  tables are equal as soon as no announcement is on the way.
\<close>

theorem tables_synchronised:
  assumes "\<not> opt_drop cfg" "\<not> opt_forward cfg" "\<not> init s0"
    and "system_run E cfg (s0, [], sw_init rnd workers st0) (D, C) (s, q, st)" and "workers \<le> PER_WORKER"
  shows "(\<forall>k. k \<notin> D \<longrightarrow> sw_map_seeds (foldl sw_change_seed st q) k = fst (srv_tables s) k)
     \<and> (\<forall>k. k \<notin> C \<longrightarrow> sw_map_cookies (foldl sw_change_seed st q) k = snd (srv_tables s) k)
     \<and> (D = {} \<and> C = {} \<and> q = [] \<longrightarrow> sw_tables st = srv_tables s)"
proof -
  have "in_sync (D, C) (s, q, st)"
    by (rule run_in_sync [OF assms(4) _ assms(1,2)])
      (use start_in_sync [OF assms(3), of rnd workers st0] in \<open>simp add: sw_tables_def srv_tables_def\<close>)
  then show ?thesis by (auto simp: agree_off_def sw_tables_def prod_eq_iff fun_eq_iff)
qed

text \<open>
  The exception is real: one frame of a server with ECE set that is no announcement, such as the SYN-ACK
  of a server that accepts ECN, and the switch agent has a seed that the server agent never chose.
\<close>

theorem foreign_ece_desynchronises:
  assumes "active cfg m" "tcp_ece m 34" "tcp_seq m 34 \<noteq> fst (srv_tables s) (tcp_window m 34)"
  shows "\<exists>st'. system_step E cfg (s, q, st) (touches m) no_keys (s, q, st') \<and> sw_tables st' \<noteq> srv_tables s"
proof -
  have "sw_map_seeds (sw_change_seed st m) (tcp_window m 34) \<noteq> fst (srv_tables s) (tcp_window m 34)"
    using assms(3) by simp
  then have "sw_tables (sw_change_seed st m) \<noteq> srv_tables s"
    unfolding sw_tables_def by (metis fst_conv)
  moreover have "system_step E cfg (s, q, st) (touches m) no_keys (s, q, sw_change_seed st m)"
    using sw_foreign [OF processor_change_seed [OF assms(1) _ assms(2), of 1]] assms(2) by simp
  ultimately show ?thesis by blast
qed

section \<open>Cookies of the server agent at the switch agent\<close>

lemma map_cookie_agree: "get_map_cookie_sip st ip = get_map_cookie (sw_map_seeds st) ip"
  by (simp add: get_map_cookie_sip_def get_map_cookie_def get_cookie_key_def hsiphash_agree)

lemma server_in_is_syn:
  assumes "tcp_frame m data_end tcp" "tcp_syn m tcp" "\<not> tcp_ack m tcp"
    "bpf_parse_timestamp m (tcp + 20) tcp data_end = Some ts" "ts_tsecr m ts \<noteq> 0"
  shows "server_in E r1 r2 data_end s m =
     (XDP_PASS, (init_tables s)\<lparr>conntrack_map := map_update (conntrack_ops E) (conntrack_map s) (flow_key m 14 tcp)
        (map_val_zero\<lparr>delta := 0, hash_cookie := ts_tsecr m ts,
           hybrid_cookie := htonl (0x40000000 + (0x3fffffff AND
             get_hybrid_cookie (map_seeds (init_tables s)) (ts_tsecr m ts) (ip_saddr m 14))),
           cur_hash_seed := map_seeds (init_tables s) (ucast (ip_saddr m 14 AND 0xffff))\<rparr>) BPF_ANY\<rparr>,
      st32 m (ts + 6) 0)"
proof -
  have "\<not> data_end < tcp + tcp_doff m tcp * 4" "conntrack_map (init_tables s) = conntrack_map s"
    using assms(1) by (auto simp: tcp_frame_def init_tables_def)
  then show ?thesis
    using assms by (simp add: server_in_frame server_in_syn_def Let_def)
qed

lemma hc_first:
  "hc_counter (0x40000000 + (0x3fffffff AND h)) = 1" "hc_map (0x40000000 + (0x3fffffff AND h)) = hc_map h"
  using hc_tick [of "h AND 0x3fffffff"] hc_mask [of h] by (simp_all add: add.commute and.commute)

text \<open>
  The entries whose hybrid cookie the server agent has just made under its present seeds, for a client
  address: the entry that a SYN with a cookie in its echo leaves in the connection table, and the entry
  that a segment of a recorded flow brings up to date.
\<close>

inductive issued :: "('m, 'r) bpf_env \<Rightarrow> ('m, 'r) server \<Rightarrow> u32 \<Rightarrow> map_val_t \<Rightarrow> bool" for E s where
  on_syn: "tcp_frame m data_end tcp \<Longrightarrow> tcp_syn m tcp \<Longrightarrow> \<not> tcp_ack m tcp \<Longrightarrow>
     bpf_parse_timestamp m (tcp + 20) tcp data_end = Some ts \<Longrightarrow> ts_tsecr m ts \<noteq> 0 \<Longrightarrow>
     (\<And>v. update_elem (conntrack_ops E) (conntrack_map s) (flow_key m 14 tcp) v BPF_ANY \<noteq> None) \<Longrightarrow>
     server_in E r1 r2 data_end s m = (a, s', m') \<Longrightarrow>
     lookup_elem (conntrack_ops E) (conntrack_map s') (flow_key m 14 tcp) = Some v \<Longrightarrow>
     issued E s (ip_saddr m 14) v"
| on_refresh: "refresh_cookie (map_seeds (init_tables s)) saddr val = Some v \<Longrightarrow> issued E s saddr v"

context bpf_runtime
begin

lemma issued_map:
  assumes "issued E s saddr v"
  shows "hc_map (ntohl (hybrid_cookie v)) = get_map_cookie (map_seeds (init_tables s)) saddr"
  using assms
proof cases
  case (on_syn m data_end tcp ts r1 r2 a s' m')
  have "conntrack_map s' = map_update (conntrack_ops E) (conntrack_map s) (flow_key m 14 tcp)
      (map_val_zero\<lparr>delta := 0, hash_cookie := ts_tsecr m ts,
         hybrid_cookie := htonl (0x40000000 + (0x3fffffff AND
           get_hybrid_cookie (map_seeds (init_tables s)) (ts_tsecr m ts) (ip_saddr m 14))),
         cur_hash_seed := map_seeds (init_tables s) (ucast (ip_saddr m 14 AND 0xffff))\<rparr>) BPF_ANY"
    using on_syn(8) server_in_is_syn [OF on_syn(2-6), of E r1 r2 s] by auto
  with on_syn(9) ct.lookup_update_ok [OF on_syn(7)]
  have "ntohl (hybrid_cookie v) = 0x40000000 + (0x3fffffff AND
      get_hybrid_cookie (map_seeds (init_tables s)) (ts_tsecr m ts) (ip_saddr m 14))"
    by auto
  then show ?thesis
    using on_syn(1) by (simp add: hc_first hc_hybrid)
next
  case (on_refresh val)
  then show ?thesis by (rule refresh_parts(1))
qed

end

lemma map_cookie_entry:
  "seeds (ucast (a AND 0xffff)) = seeds' (ucast (a AND 0xffff)) \<Longrightarrow> get_map_cookie seeds a = get_map_cookie seeds' a"
  by (simp add: get_map_cookie_def get_cookie_key_def)

text \<open>
  C10: the hybrid cookies that the server agent makes for a flow, on the SYN path and when it brings
  an entry up to date, pass the switch agent.  If the agents have the same seed for the client's
  address, an ACK of the client that echoes the cookie is passed on with nothing but its MAC addresses
  changed.
\<close>

theorem current_cookie_accepted:
  assumes "bpf_runtime E" "active cfg m" "later_ack m len off" "w < PER_WORKER"
    and "sw_map_seeds st (ucast (ip_saddr m 14 AND 0xffff)) = fst (srv_tables s) (ucast (ip_saddr m 14 AND 0xffff))"
    and "issued E s (ip_saddr m 14) v" and "ts_tsecr m (54 + off) = hybrid_cookie v"
  shows "\<exists>r m'. xsknf_packet_processor cfg st m len 0 w = Inr (r, enter st w m, m', len) \<and> 0 \<le> r
     \<and> (\<forall>i \<ge> 12. m' i = m i)"
proof -
  have "hc_map (ntohl (ts_tsecr m (54 + off))) = get_map_cookie_sip st (ip_saddr m 14)"
    using bpf_runtime.issued_map [OF assms(1,6)] assms(5,7) map_cookie_entry [of "sw_map_seeds st" "ip_saddr m 14"]
    by (simp add: map_cookie_agree srv_tables_def)
  then have "hybrid_ok cfg w (enter st w m) m (54 + off)"
    by (simp add: hybrid_ok_def Let_def hc_map_low get_map_cookie_sip_def)
  then show ?thesis
    by (simp add: processor_later_ack [OF assms(2,3,4)] sw_forward_eq forward_mem)
qed

text \<open>
  Connections survive a seed change.  While a change is under way an ACK that echoes a
  cookie made under other seeds still passes, if the flow was recorded with the SYN cookie
  that this worker issued: the cookie carries 14 bits of the folded SYN cookie, in its first
  version and after every refresh.
\<close>

theorem old_cookie_accepted_during_change:
  assumes "active cfg m" "hash_option cfg = HARAKA" "later_ack m len off" "change_key_duration st \<noteq> 0"
    and "cur_hash_seed val = 0" "hash_cookie val = flow_cookie cfg st w m"
    and "refresh_cookie seeds1 saddr1 val = Some v1" "cur_hash_seed v1 \<noteq> 0"
    and "v = v1 \<or> refresh_cookie seeds2 saddr2 v1 = Some v"
    and "ts_tsecr m (54 + off) = hybrid_cookie v" and "w < PER_WORKER"
  shows "\<exists>r m'. xsknf_packet_processor cfg st m len 0 w = Inr (r, enter st w m, m', len) \<and> 0 \<le> r
     \<and> (\<forall>i \<ge> 12. m' i = m i)"
proof -
  have "hc_fold (ntohl (hybrid_cookie v1)) = take_bit 14 (ucast (get_hash_cookie (flow_cookie cfg st w m)))"
    using refresh_parts(5) [OF assms(7)] assms(5,6) by simp
  then have "hc_fold (ntohl (hybrid_cookie v)) = take_bit 14 (ucast (get_hash_cookie (flow_cookie cfg st w m)))"
    using assms(8,9) refresh_parts(5) [of seeds2 saddr2 v1 v] by auto
  then have "hybrid_ok cfg w (enter st w m) m (54 + off)"
    using assms(4,10) by (simp add: hybrid_ok_iff [OF assms(2)])
  then show ?thesis
    by (simp add: processor_later_ack [OF assms(1,3,11)] sw_forward_eq forward_mem)
qed

section \<open>The second SYN\<close>

context bpf_runtime
begin

lemma second_syn:
  assumes "active cfg m" "timestamp_option cfg = TS_ON" and "tcp_frame m (unat len) 34"
    and "tcp_syn m 34" "\<not> tcp_ack m 34" "bpf_parse_timestamp m 54 34 (unat len) = Some (54 + off)" "6 \<le> off"
    and "ts_tsecr m (54 + off) = 0"
    and "bloom_filter_test (bf st) (bytes32 (ip_saddr m 14)) = Inr True"
    and "syn_cache st (cache_index st (ip_saddr m 14)) = c" "c \<noteq> 0"
    and "\<And>v. update_elem (conntrack_ops E) (conntrack_map s) (flow_key m 14 34) v BPF_ANY \<noteq> None" and "w < PER_WORKER"
  shows "\<exists>r st' m' s' m'' v. xsknf_packet_processor cfg st m len 0 w = Inr (r, st', m', len) \<and> 0 \<le> r
     \<and> server_in E r1 r2 (unat len) s m' = (XDP_PASS, s', m'') \<and> (\<forall>i \<ge> 12. m'' i = m i)
     \<and> lookup_elem (conntrack_ops E) (conntrack_map s') (flow_key m 14 34) = Some v
     \<and> delta v = 0 \<and> hash_cookie v = c \<and> hc_counter (ntohl (hybrid_cookie v)) = 1
     \<and> hc_map (ntohl (hybrid_cookie v)) = get_map_cookie (map_seeds (init_tables s)) (ip_saddr m 14)"
proof -
  have off: "54 + off + 10 \<le> unat len"
    using bpf_parse_timestamp_range [of m 34 "unat len"] assms(6) by simp
  have "parse_timestamp m 34 = Some off"
    using parse_agree [OF assms(3), of "54 + off"] assms(4,6) by simp
  then have sf: "syn_frame m len off"
    using assms(4,5) off by (simp add: syn_frame_def)
  define m1 where "m1 = st32 m (60 + off) c"
  define m' where "m' = snd (forward cfg m1 0 14)"
  let ?st = "(enter st w m)\<lparr>syn_cache := (syn_cache st)(cache_index st (ip_saddr m 14) := 0)\<rparr>"
  have p: "xsknf_packet_processor cfg st m len 0 w = Inr (fst (forward cfg m1 0 14), ?st, m', len)"
    using processor_known_syn [OF assms(1,2) sf assms(9,13)] assms(10)
    by (simp add: sw_forward_eq m1_def m'_def)
  have low: "m' i = m i" if "12 \<le> i" "i < 60 + off \<or> 64 + off \<le> i" for i
    using that by (auto simp: m'_def m1_def forward_mem mem_simps)
  have fr: "tcp_frame m' (unat len) 34"
    by (rule tcp_frame_cong [OF assms(3)]) (simp add: low)
  have ts: "bpf_parse_timestamp m' (34 + 20) 34 (unat len) = Some (54 + off)"
    by (rule bpf_parse_cong [of m]) (use assms(6,7) low in simp_all)
  have e: "ts_tsecr m' (54 + off) = c" "flow_key m' 14 34 = flow_key m 14 34" "ip_saddr m' 14 = ip_saddr m 14"
    by (simp_all add: m'_def m1_def flow_key_def forward_mem mem_simps)
  let ?v = "map_val_zero\<lparr>delta := 0, hash_cookie := c,
     hybrid_cookie := htonl (0x40000000 + (0x3fffffff AND
       get_hybrid_cookie (map_seeds (init_tables s)) c (ip_saddr m 14))),
     cur_hash_seed := map_seeds (init_tables s) (ucast (ip_saddr m 14 AND 0xffff))\<rparr>"
  let ?s = "(init_tables s)\<lparr>conntrack_map := map_update (conntrack_ops E) (conntrack_map s) (flow_key m 14 34)
     ?v BPF_ANY\<rparr>"
  have r: "server_in E r1 r2 (unat len) s m' = (XDP_PASS, ?s, st32 m' (60 + off) 0)"
    using server_in_is_syn [OF fr _ _ ts, of E r1 r2 s] e assms(4,5,11) low [of 47] by simp
  have "st32 m (60 + off) 0 = m"
    using st32_ld32 [of m "60 + off"] assms(8) by simp
  then have same: "st32 m' (60 + off) 0 i = m i" if "12 \<le> i" for i
    using st32_cong [of i "60 + off" m' m 0] low [OF that] by auto
  have l: "lookup_elem (conntrack_ops E) (conntrack_map ?s) (flow_key m 14 34) = Some ?v"
    using ct.lookup_update_ok [OF assms(12), of ?v] by simp
  show ?thesis
    by (intro exI conjI, rule p, simp, rule r, use same in simp, rule l, simp_all add: hc_first hc_hybrid)
qed

end


section \<open>Witnesses\<close>


text \<open>The sample ACK with ECE set, as a server in an ECN connection sends it.\<close>

definition sample_ece :: mem where "sample_ece = set_flag sample_ack 34 ECE True"

lemma sample_ece_facts:
  "active cfg0 sample_ece" "tcp_ece sample_ece 34" "tcp_window sample_ece 34 = tcp_window sample_ack 34"
  "tcp_seq sample_ece 34 = tcp_seq sample_ack 34"
  using sample_ack_later(2) by (simp_all add: sample_ece_def active_def mem_simps)

lemma sample_ece_foreign: "tcp_seq sample_ack 34 \<noteq> ucast (tcp_window sample_ack 34)"
  by (simp add: sample_ack_def sample_eval)

text \<open>
  A run in which the server agent receives a packet and then the switch agent a foreign ECE frame: the
  tables agree off the entries of the frame, and differ there.
\<close>

theorem tables_synchronised_witness:
  "\<exists>s. system_run (ref_env 4) cfg0 (server0, [], sw0) (touches sample_ece) (s, [], sw_change_seed sw0 sample_ece) \<and> init s
     \<and> (\<forall>k. k \<noteq> tcp_window sample_ece 34 \<longrightarrow> sw_map_seeds (sw_change_seed sw0 sample_ece) k = fst (srv_tables s) k)
     \<and> sw_map_seeds (sw_change_seed sw0 sample_ece) (tcp_window sample_ece 34) \<noteq> fst (srv_tables server0) (tcp_window sample_ece 34)"
proof -
  obtain a s m where r: "server_in (ref_env 4) 1 2 66 server0 sample_ack = (a, s, m)"
    by (metis prod_cases3)
  have "a \<noteq> XDP_TX" "init s"
    using r server_in_is_unknown [OF sample_ack_frame sample_ack_fields(1,2), of 56 "ref_env 4" server0 1 2]
    by (auto simp: sample_simps ref_env_def htab_ops_def server0_def DROP_THRESH_def not_sym init_tables_def Let_def word_le_nat_alt)
  then have "system_run (ref_env 4) cfg0 (server0, [], sw0) (({} - {}) \<union> {}, ({} - {}) \<union> {}) (s, [], sw0)"
    using r by (intro run_step [OF run_start srv_receive]) simp_all
  moreover have "system_step (ref_env 4) cfg0 (s, [], sw0) ({tcp_window sample_ece 34}, {tcp_source sample_ece 34}) no_keys
      (s, [], sw_change_seed sw0 sample_ece)"
    using sw_foreign [OF processor_change_seed [OF sample_ece_facts(1), of 1 sw0 66 0]] sample_ece_facts(2)
    by (simp add: touches_def)
  ultimately have run: "system_run (ref_env 4) cfg0 (server0, [], sw0)
      ({tcp_window sample_ece 34}, {tcp_source sample_ece 34}) (s, [], sw_change_seed sw0 sample_ece)"
    using run_step [of "ref_env 4" cfg0 "(server0, [], sw0)" "{}" "{}" "(s, [], sw0)"] by fastforce
  have "fst (srv_tables server0) = ucast"
    by (simp add: srv_tables_def init_tables_def server0_def)
  moreover have "\<not> opt_drop cfg0" "\<not> opt_forward cfg0" "\<not> init server0"
    by (simp_all add: cfg0_def server0_def)
  note tables_synchronised [OF this run]
  ultimately show ?thesis
    using run \<open>init s\<close> sample_ece_facts(3,4) sample_ece_foreign
    by (intro exI [of _ s]) (simp add: touches_def)
qed

theorem foreign_ece_desynchronises_witness:
  "\<exists>st. system_step (ref_env 4) cfg0 (server0, [], sw0) (touches sample_ece) no_keys (server0, [], st)
     \<and> sw_tables st \<noteq> srv_tables server0"
  using foreign_ece_desynchronises [OF sample_ece_facts(1,2), of server0 "ref_env 4" "[]" sw0]
    sample_ece_facts(3,4) sample_ece_foreign
  by (simp add: srv_tables_def init_tables_def server0_def)

text \<open>The sample ACK with a chosen time stamp echo.\<close>

definition sample_echo :: "u32 \<Rightarrow> mem" where
  "sample_echo e = st32 sample_ack 62 e"

lemma sample_echo_facts:
  "e \<noteq> TS_START \<Longrightarrow> later_ack (sample_echo e) 66 2" "active cfg (sample_echo e) \<longleftrightarrow> active cfg sample_ack"
  "ts_tsecr (sample_echo e) (54 + 2) = e" "ip_saddr (sample_echo e) 14 = ip_saddr sample_ack 14"
  "flow_cookie cfg st w (sample_echo e) = flow_cookie cfg st w sample_ack"
proof -
  have low: "sample_echo e i = sample_ack i" if "i < 62" for i
    using that by (simp add: sample_echo_def mem_simps)
  have "parse_timestamp (sample_echo e) 34 = parse_timestamp sample_ack 34"
    by (simp add: parse_timestamp_def fast_parse_timestamp_def Let_def ld64_def ld32_def low sample_ack_def
        sample_eval ack_1_mask_def bit_simps)
  moreover show "ts_tsecr (sample_echo e) (54 + 2) = e"
    by (simp add: sample_echo_def mem_simps)
  ultimately show "e \<noteq> TS_START \<Longrightarrow> later_ack (sample_echo e) 66 2"
    using sample_ack_later(1) by (simp add: later_ack_def low)
  show "active cfg (sample_echo e) \<longleftrightarrow> active cfg sample_ack" "ip_saddr (sample_echo e) 14 = ip_saddr sample_ack 14"
    "flow_cookie cfg st w (sample_echo e) = flow_cookie cfg st w sample_ack"
    by (simp_all add: active_def ld16_def ld32_def low flow_cookie_def flow_of_def)
qed

text \<open>A first cookie is never \<open>TS_START\<close>: its counter is one.\<close>

lemma first_cookie_not_start:
  "refresh_cookie seeds a val = Some v \<Longrightarrow> cur_hash_seed val = 0 \<Longrightarrow> hybrid_cookie v \<noteq> TS_START"
  using refresh_parts(4) [of seeds a val v] by (auto simp: hc_counter_def)

lemma sample_refresh:
  "\<exists>v. refresh_cookie (map_seeds (init_tables server0)) (ip_saddr sample_ack 14) (map_val_zero\<lparr>hash_cookie := c\<rparr>) = Some v
     \<and> cur_hash_seed v \<noteq> 0"
  by (simp add: refresh_cookie_def map_val_zero_def init_tables_def server0_def Let_def sample_ack_def sample_eval)

theorem current_cookie_accepted_witness:
  "\<exists>v r m'. xsknf_packet_processor cfg0 sw0 (sample_echo (hybrid_cookie v)) 66 0 0
      = Inr (r, enter sw0 0 (sample_echo (hybrid_cookie v)), m', 66) \<and> 0 \<le> r
      \<and> refresh_cookie (map_seeds (init_tables server0)) (ip_saddr sample_ack 14) (map_val_zero\<lparr>hash_cookie := 7\<rparr>) = Some v"
proof -
  obtain v where v: "refresh_cookie (map_seeds (init_tables server0)) (ip_saddr sample_ack 14)
      (map_val_zero\<lparr>hash_cookie := 7\<rparr>) = Some v"
    using sample_refresh by blast
  let ?m = "sample_echo (hybrid_cookie v)"
  have l: "later_ack ?m 66 2"
    using first_cookie_not_start [OF v] by (intro sample_echo_facts) (simp add: map_val_zero_def)
  have t: "sw_map_seeds sw0 = fst (srv_tables server0)"
    using start_in_sync [of server0 "\<lambda>_. 7" 1 switch0]
    by (auto simp: server0_def sw_tables_def dest: arg_cong [of _ _ fst])
  have a: "active cfg0 ?m"
    using sample_ack_later(2) by (simp add: sample_echo_facts)
  have i: "issued (ref_env 4) server0 (ip_saddr ?m 14) v"
    unfolding sample_echo_facts(4) by (rule on_refresh [OF v])
  show ?thesis
    using current_cookie_accepted [OF ref_rt.bpf_runtime_axioms a l _ _ i, of 0 sw0] t v
    by (auto simp: sample_echo_facts(3) [simplified])
qed

text \<open>Both ways to make a cookie occur: the sample SYN with a cookie in its echo leaves an entry.\<close>

lemma issued_on_syn: "\<exists>v. issued (ref_env 4) server0 (ip_saddr sample_syn 14) v"
proof -
  let ?m = "st32 sample_syn 66 5"
  let ?k = "flow_key ?m 14 34"
  have g: "tcp_frame sample_syn 74 34" "tcp_syn sample_syn 34" "\<not> tcp_ack sample_syn 34"
    "bpf_parse_timestamp sample_syn (34 + 20) 34 74 = Some 60"
    by (simp_all add: sample_syn_def sample_eval bpf_parse_timestamp_def bpf_fast_timestamp_def Let_def
        syn_1_mask_def bit_simps)
  have f: "tcp_frame ?m 74 34" "tcp_syn ?m 34" "\<not> tcp_ack ?m 34" "bpf_parse_timestamp ?m (34 + 20) 34 74 = Some 60"
    "ts_tsecr ?m 60 \<noteq> 0"
    using g tcp_frame_cong [OF g(1), of ?m] bpf_parse_cong [OF g(4), of ?m] by (simp_all add: mem_simps)
  have u: "update_elem (conntrack_ops (ref_env 4)) (conntrack_map server0) ?k v BPF_ANY \<noteq> None" for v
    by (simp add: ref_env_def htab_ops_def htab_update_def server0_def)
  have "issued (ref_env 4) server0 (ip_saddr ?m 14) (map_val_zero\<lparr>delta := 0, hash_cookie := ts_tsecr ?m 60,
     hybrid_cookie := htonl (0x40000000 + (0x3fffffff AND
       get_hybrid_cookie (map_seeds (init_tables server0)) (ts_tsecr ?m 60) (ip_saddr ?m 14))),
     cur_hash_seed := map_seeds (init_tables server0) (ucast (ip_saddr ?m 14 AND 0xffff))\<rparr>)"
    by (rule on_syn [OF f u server_in_is_syn [OF f, of "ref_env 4" 1 2 server0]])
      (use ref_rt.ct.lookup_update_ok [OF u] in simp)
  then show ?thesis
    by (auto simp: mem_simps)
qed

theorem old_cookie_accepted_during_change_witness:
  "\<exists>(v :: map_val_t) r m'. xsknf_packet_processor cfg0 (sw0\<lparr>change_key_duration := 9\<rparr>) (sample_echo (hybrid_cookie v)) 66 0 0
      = Inr (r, enter (sw0\<lparr>change_key_duration := 9\<rparr>) 0 (sample_echo (hybrid_cookie v)), m', 66) \<and> 0 \<le> r"
proof -
  let ?st = "sw0\<lparr>change_key_duration := 9\<rparr>"
  let ?c = "flow_cookie cfg0 ?st 0 sample_ack"
  obtain v where v: "refresh_cookie (map_seeds (init_tables server0)) (ip_saddr sample_ack 14)
      (map_val_zero\<lparr>hash_cookie := ?c\<rparr>) = Some v" "cur_hash_seed v \<noteq> 0"
    using sample_refresh by blast
  let ?m = "sample_echo (hybrid_cookie v)"
  have l: "later_ack ?m 66 2"
    using first_cookie_not_start [OF v(1)] by (intro sample_echo_facts) (simp add: map_val_zero_def)
  have a: "active cfg0 ?m"
    using sample_ack_later(2) by (simp add: sample_echo_facts)
  have h: "hash_option cfg0 = HARAKA"
    by (simp add: cfg0_def)
  have "\<exists>r m'. xsknf_packet_processor cfg0 ?st ?m 66 0 0 = Inr (r, enter ?st 0 ?m, m', 66) \<and> 0 \<le> r
      \<and> (\<forall>i \<ge> 12. m' i = ?m i)"
    by (rule old_cookie_accepted_during_change [OF a h l _ _ _ v(1) v(2), of ?st 0 v])
      (simp_all add: sample_echo_facts sample_echo_facts [simplified] map_val_zero_def)
  then show ?thesis by blast
qed

end
