(* ===== verification/Xsk_Worker.thy ===== *)
theory Xsk_Worker
  imports Packet "HOL-Library.Multiset"
begin

text \<open>
  The AF_XDP workers of \<open>src/xsknf.c\<close>: a worker owns one socket per interface and moves
  frames between their rings.  It takes received frames from an rx ring, calls the
  application's packet processor, returns dropped frames to the fill ring, hands the others
  to a tx ring, and recycles completed frames to the fill ring of the socket that owns them.
  The rings of \<open>xsk.h\<close> are lists.  The consumer side of a ring keeps apart what it has
  seen when it last read the producer index (\<open>cached\<close>) from what the kernel has added since.
  The kernel's moves are a function of the environment and happen at system calls and in every
  turn of a waiting loop; the results of system calls, the wake-up flags and the packet
  processor are part of the environment too.
\<close>

section \<open>Rings\<close>

record 'a cons_ring =
  cached :: "'a list"
  fresh :: "'a list"

definition ring_all :: "'a cons_ring \<Rightarrow> 'a list" where
  "ring_all r = cached r @ fresh r"

text \<open>\<open>xsk_ring_cons__peek\<close> with the later \<open>xsk_ring_cons__release\<close> of all entries returned.\<close>

definition cons_peek :: "nat \<Rightarrow> 'a cons_ring \<Rightarrow> 'a list \<times> 'a cons_ring" where
  "cons_peek nb r =
     (let r = (if cached r = [] then \<lparr>cached = fresh r, fresh = []\<rparr> else r)
      in (take nb (cached r), r\<lparr>cached := drop nb (cached r)\<rparr>))"

definition NUM_DESCS :: nat where "NUM_DESCS = 2048"
definition FILL_SIZE :: nat where "FILL_SIZE = NUM_DESCS * 2"
definition FRAMES_PER_SOCKET_SHIFT :: nat where "FRAMES_PER_SOCKET_SHIFT = 12"
definition FRAMES_PER_SOCKET :: nat where "FRAMES_PER_SOCKET = 2 ^ FRAMES_PER_SOCKET_SHIFT"

text \<open>\<open>xsk_ring_prod__reserve\<close>: all the entries asked for or none.\<close>

definition prod_reserve :: "nat \<Rightarrow> 'a list \<Rightarrow> nat \<Rightarrow> bool" where
  "prod_reserve sz ring nb \<longleftrightarrow> length ring + nb \<le> sz"

section \<open>Sockets, configuration, workers\<close>

definition XDP_COPY :: u32 where "XDP_COPY = 2"
definition XDP_ZEROCOPY :: u32 where "XDP_ZEROCOPY = 4"
definition XDP_USE_NEED_WAKEUP :: u32 where "XDP_USE_NEED_WAKEUP = 8"

type_synonym pkt_info = "u64 \<times> u32"

record xsknf_socket_stats =
  rx_npkts :: u64
  tx_npkts :: u64
  rx_dropped_npkts :: u64
  rx_invalid_npkts :: u64
  tx_invalid_npkts :: u64
  rx_full_npkts :: u64
  rx_fill_empty_npkts :: u64
  tx_empty_npkts :: u64
  rx_empty_polls :: u64
  fill_fail_polls :: u64
  tx_wakeup_sendtos :: u64
  tx_trigger_sendtos :: u64
  opt_polls :: u64

record xsk_socket_info =
  bind_flags :: u32
  buffer :: nat
  rx :: "pkt_info cons_ring"
  tx :: "pkt_info list"
  fq :: "u64 list"
  cq :: "u64 cons_ring"
  stats :: xsknf_socket_stats
  outstanding_tx :: nat

text \<open>The part of \<open>struct xsknf_config\<close> that the workers read, with the global \<open>owner_shift\<close>.\<close>

record xsk_conf =
  num_interfaces :: nat
  batch_size :: nat
  opt_poll :: bool
  busy_poll :: bool
  owner_shift :: nat

datatype xsk_error = XskExit | XskFault | XskSpin

datatype send_result = SendOk | ENOBUFS | EAGAIN | EBUSY | ENETDOWN | SendOther

text \<open>A packet processor: verdict, new application state, new frame contents and length.\<close>

type_synonym ('e, 'st) processor = "'st \<Rightarrow> mem \<Rightarrow> u32 \<Rightarrow> nat \<Rightarrow> nat \<Rightarrow> 'e + (int \<times> 'st \<times> mem \<times> u32)"

record ('e, 'st) xsk_env =
  kern :: "nat \<Rightarrow> xsk_socket_info list \<Rightarrow> xsk_socket_info list"
  needs_wakeup :: "nat \<Rightarrow> bool"
  sendto :: "nat \<Rightarrow> send_result"
  poll_ready :: "nat \<Rightarrow> bool"
  proc :: "('e, 'st) processor"

record 'st worker =
  wid :: nat
  xsks :: "xsk_socket_info list"
  bufs :: "nat \<Rightarrow> mem"
  app :: 'st
  clock :: nat

text \<open>One step of the clock, in which the kernel may move frames.\<close>

definition kernel_turn :: "('e, 'st) xsk_env \<Rightarrow> 'st worker \<Rightarrow> 'st worker" where
  "kernel_turn E w = w\<lparr>xsks := kern E (clock w) (xsks w), clock := Suc (clock w)\<rparr>"

definition upd_sock :: "nat \<Rightarrow> (xsk_socket_info \<Rightarrow> xsk_socket_info) \<Rightarrow> 'st worker \<Rightarrow> 'st worker" where
  "upd_sock i f w = w\<lparr>xsks := (xsks w)[i := f (xsks w ! i)]\<rparr>"

definition kick_tx :: "('e, 'st) xsk_env \<Rightarrow> 'st worker \<Rightarrow> xsk_error + 'st worker" where
  "kick_tx E w =
     (if sendto E (clock w) = SendOther then Inl XskExit else Inr (kernel_turn E w))"

section \<open>The batch arrays\<close>

text \<open>
  \<open>to_fill\<close>, \<open>to_drop\<close> and \<open>to_tx\<close> with their 8-bit counters: an entry is stored at the
  index given by the counter, which is then incremented modulo 256.
\<close>

record 'a batch =
  arr :: "nat \<Rightarrow> nat \<Rightarrow> 'a option"
  cnt :: "nat \<Rightarrow> u8"

definition empty_batch :: "'a batch" where
  "empty_batch = \<lparr>arr = (\<lambda>_ _. None), cnt = (\<lambda>_. 0)\<rparr>"

definition push :: "nat \<Rightarrow> 'a \<Rightarrow> 'a batch \<Rightarrow> 'a batch" where
  "push i x b = \<lparr>arr = (arr b)(i := (arr b i)(unat (cnt b i) := Some x)), cnt = (cnt b)(i := cnt b i + 1)\<rparr>"

definition contents :: "'a batch \<Rightarrow> nat \<Rightarrow> 'a list" where
  "contents b i = map (\<lambda>j. the (arr b i j)) [0..<unat (cnt b i)]"

section \<open>Several interfaces\<close>

definition addr_owner :: "xsk_conf \<Rightarrow> u64 \<Rightarrow> nat" where
  "addr_owner conf addr = unat (ucast (drop_bit (owner_shift conf) addr) :: u32)"

fun map_owners :: "xsk_conf \<Rightarrow> u64 list \<Rightarrow> u64 batch \<Rightarrow> xsk_error + u64 batch" where
  "map_owners conf [] b = Inr b"
| "map_owners conf (addr # addrs) b =
     (let own = addr_owner conf addr
      in if own \<ge> num_interfaces conf \<or> unat (cnt b own) \<ge> batch_size conf then Inl XskFault
         else map_owners conf addrs (push own addr b))"

fun submit_fill :: "nat list \<Rightarrow> u64 batch \<Rightarrow> 'st worker \<Rightarrow> xsk_error + 'st worker" where
  "submit_fill [] b w = Inr w"
| "submit_fill (i # is) b w =
     (if cnt b i \<noteq> 0 then
        if \<not> prod_reserve FILL_SIZE (fq (xsks w ! i)) (unat (cnt b i)) then Inl XskExit
        else submit_fill is b (upd_sock i (\<lambda>x. x\<lparr>fq := fq x @ contents b i\<rparr>) w)
      else submit_fill is b w)"

definition trigger_tx :: "xsk_conf \<Rightarrow> ('e, 'st) xsk_env \<Rightarrow> nat \<Rightarrow> 'st worker \<Rightarrow> xsk_error + 'st worker" where
  "trigger_tx conf E ifindex w =
     (if bind_flags (xsks w ! ifindex) AND XDP_COPY \<noteq> 0
         \<or> \<not> opt_poll conf \<and> \<not> busy_poll conf \<and> needs_wakeup E (clock w)
      then kick_tx E (upd_sock ifindex
        (\<lambda>x. x\<lparr>stats := (stats x)\<lparr>tx_trigger_sendtos := tx_trigger_sendtos (stats x) + 1\<rparr>\<rparr>) w)
      else Inr w)"

definition complete_tx :: "xsk_conf \<Rightarrow> ('e, 'st) xsk_env \<Rightarrow> nat \<Rightarrow> 'st worker \<Rightarrow> xsk_error + 'st worker" where
  "complete_tx conf E ifindex w =
     (if outstanding_tx (xsks w ! ifindex) = 0 then Inr w
      else
        (case trigger_tx conf E ifindex w of
           Inl e \<Rightarrow> Inl e
         | Inr w \<Rightarrow>
             (let x = xsks w ! ifindex;
                  ndescs = (if outstanding_tx x > batch_size conf then batch_size conf else outstanding_tx x);
                  (sent, cq') = cons_peek ndescs (cq x)
              in if sent = [] then Inr (upd_sock ifindex (\<lambda>x. x\<lparr>cq := cq'\<rparr>) w)
                 else
                   (case map_owners conf sent empty_batch of
                      Inl e \<Rightarrow> Inl e
                    | Inr b \<Rightarrow>
                        (let w = upd_sock ifindex (\<lambda>x. x\<lparr>cq := cq', stats := (stats x)\<lparr>tx_npkts :=
                               tx_npkts (stats x) + of_nat (length sent)\<rparr>\<rparr>) w
                         in case submit_fill [0..<num_interfaces conf] b w of
                              Inl e \<Rightarrow> Inl e
                            | Inr w \<Rightarrow> Inr (upd_sock ifindex
                                (\<lambda>x. x\<lparr>outstanding_tx := outstanding_tx x - length sent\<rparr>) w))))))"

text \<open>
  \<open>xsk_umem__add_offset_to_addr\<close>: in unaligned mode the upper 16 bits of an address are an
  offset.
\<close>

definition add_offset_to_addr :: "u64 \<Rightarrow> u64" where
  "add_offset_to_addr addr = (addr AND 0xffffffffffff) + drop_bit 48 addr"

definition run_proc ::
    "('e, 'st) xsk_env \<Rightarrow> nat \<Rightarrow> pkt_info \<Rightarrow> 'st worker \<Rightarrow> xsk_error + (int \<times> u32 \<times> 'st worker)" where
  "run_proc E ifindex desc w =
     (let (addr, len) = desc;
          b = buffer (xsks w ! ifindex);
          pkt = unat (add_offset_to_addr addr)
      in case proc E (app w) (\<lambda>i. bufs w b (pkt + i)) len ifindex (wid w) of
           Inl e \<Rightarrow> Inl XskExit
         | Inr (ret, app', m, len) \<Rightarrow>
             Inr (ret, len, w\<lparr>app := app',
               bufs := (bufs w)(b := \<lambda>j. if j < pkt then bufs w b j else m (j - pkt))\<rparr>))"

fun process_pkts ::
    "xsk_conf \<Rightarrow> ('e, 'st) xsk_env \<Rightarrow> nat \<Rightarrow> pkt_info list \<Rightarrow> pkt_info batch \<Rightarrow> pkt_info batch \<Rightarrow>
     'st worker \<Rightarrow> xsk_error + (pkt_info batch \<times> pkt_info batch \<times> 'st worker)" where
  "process_pkts conf E ifindex [] dr ft w = Inr (dr, ft, w)"
| "process_pkts conf E ifindex (d # ds) dr ft w =
     (case run_proc E ifindex d w of
        Inl e \<Rightarrow> Inl e
      | Inr (ret, len, w) \<Rightarrow>
          if ret = -1 then
            if unat (cnt dr 0) \<ge> batch_size conf then Inl XskFault
            else process_pkts conf E ifindex ds (push 0 (fst d, len) dr) ft w
          else if ret < 0 \<or> nat ret \<ge> num_interfaces conf \<or> unat (cnt ft (nat ret)) \<ge> batch_size conf
            then Inl XskFault
          else process_pkts conf E ifindex ds dr (push (nat ret) (fst d, len) ft) w)"

text \<open>
  Waiting for room in the tx ring of interface \<open>i\<close>; the first argument bounds the turns of
  the loop.  The loop completes transmissions of the receiving interface \<open>ifindex\<close>.
\<close>

fun wait_tx ::
    "nat \<Rightarrow> xsk_conf \<Rightarrow> ('e, 'st) xsk_env \<Rightarrow> nat \<Rightarrow> nat \<Rightarrow> nat \<Rightarrow> 'st worker \<Rightarrow> xsk_error + 'st worker" where
  "wait_tx 0 conf E ifindex i n w = Inl XskSpin"
| "wait_tx (Suc k) conf E ifindex i n w =
     (if prod_reserve NUM_DESCS (tx (xsks w ! i)) n then Inr w
      else
        (case complete_tx conf E ifindex w of
           Inl e \<Rightarrow> Inl e
         | Inr w \<Rightarrow>
             (case (if busy_poll conf \<or> needs_wakeup E (clock w)
                    then kick_tx E (upd_sock i
                      (\<lambda>x. x\<lparr>stats := (stats x)\<lparr>tx_wakeup_sendtos := tx_wakeup_sendtos (stats x) + 1\<rparr>\<rparr>) w)
                    else Inr (kernel_turn E w)) of
                Inl e \<Rightarrow> Inl e
              | Inr w \<Rightarrow> wait_tx k conf E ifindex i n w)))"

text \<open>The \<open>memcpy\<close> of a frame between the buffers of two sockets.\<close>

definition copy_frame :: "nat \<Rightarrow> nat \<Rightarrow> pkt_info \<Rightarrow> (nat \<Rightarrow> mem) \<Rightarrow> (nat \<Rightarrow> mem)" where
  "copy_frame src dst d bs =
     bs(dst := \<lambda>j. if unat (fst d) \<le> j \<and> j < unat (fst d) + unat (snd d) then bs src j else bs dst j)"

fun submit_tx ::
    "nat \<Rightarrow> xsk_conf \<Rightarrow> ('e, 'st) xsk_env \<Rightarrow> nat \<Rightarrow> nat list \<Rightarrow> pkt_info batch \<Rightarrow> 'st worker \<Rightarrow>
     xsk_error + 'st worker" where
  "submit_tx k conf E ifindex [] ft w = Inr w"
| "submit_tx k conf E ifindex (i # is) ft w =
     (if cnt ft i \<noteq> 0 then
        (case wait_tx k conf E ifindex i (unat (cnt ft i)) w of
           Inl e \<Rightarrow> Inl e
         | Inr w \<Rightarrow>
             (let src = buffer (xsks w ! ifindex); dst = buffer (xsks w ! i);
                  w = (if src \<noteq> dst
                       then w\<lparr>bufs := fold (copy_frame src dst) (contents ft i) (bufs w)\<rparr> else w);
                  w = upd_sock i (\<lambda>x. x\<lparr>tx := tx x @ contents ft i,
                    outstanding_tx := outstanding_tx x + unat (cnt ft i)\<rparr>) w
              in submit_tx k conf E ifindex is ft w))
      else submit_tx k conf E ifindex is ft w)"

definition submit_drop :: "nat \<Rightarrow> pkt_info batch \<Rightarrow> 'st worker \<Rightarrow> xsk_error + 'st worker" where
  "submit_drop ifindex dr w =
     (if cnt dr 0 \<noteq> 0 then
        if \<not> prod_reserve FILL_SIZE (fq (xsks w ! ifindex)) (unat (cnt dr 0)) then Inl XskExit
        else Inr (upd_sock ifindex (\<lambda>x. x\<lparr>fq := fq x @ map fst (contents dr 0)\<rparr>) w)
      else Inr w)"

definition rx_empty :: "xsk_conf \<Rightarrow> ('e, 'st) xsk_env \<Rightarrow> nat \<Rightarrow> 'st worker \<Rightarrow> 'st worker" where
  "rx_empty conf E ifindex w =
     (if bind_flags (xsks w ! ifindex) AND XDP_COPY = 0 \<and> (busy_poll conf \<or> needs_wakeup E (clock w))
      then kernel_turn E (upd_sock ifindex
        (\<lambda>x. x\<lparr>stats := (stats x)\<lparr>rx_empty_polls := rx_empty_polls (stats x) + 1\<rparr>\<rparr>) w)
      else w)"

definition process_batch ::
    "nat \<Rightarrow> xsk_conf \<Rightarrow> ('e, 'st) xsk_env \<Rightarrow> nat \<Rightarrow> 'st worker \<Rightarrow> xsk_error + 'st worker" where
  "process_batch k conf E ifindex w =
     (case complete_tx conf E ifindex w of
        Inl e \<Rightarrow> Inl e
      | Inr w \<Rightarrow>
          (let (rcvd, rx') = cons_peek (batch_size conf) (rx (xsks w ! ifindex));
               w = upd_sock ifindex (\<lambda>x. x\<lparr>rx := rx'\<rparr>) w
           in if rcvd = [] then Inr (rx_empty conf E ifindex w)
              else
                (case process_pkts conf E ifindex rcvd empty_batch empty_batch w of
                   Inl e \<Rightarrow> Inl e
                 | Inr (dr, ft, w) \<Rightarrow>
                     (let w = upd_sock ifindex (\<lambda>x. x\<lparr>stats := (stats x)\<lparr>rx_npkts :=
                            rx_npkts (stats x) + of_nat (length rcvd)\<rparr>\<rparr>) w
                      in case submit_drop ifindex dr w of
                           Inl e \<Rightarrow> Inl e
                         | Inr w \<Rightarrow> submit_tx k conf E ifindex [0..<num_interfaces conf] ft w))))"

section \<open>One interface\<close>

definition complete_tx_1if :: "xsk_conf \<Rightarrow> ('e, 'st) xsk_env \<Rightarrow> 'st worker \<Rightarrow> xsk_error + 'st worker" where
  "complete_tx_1if conf E w =
     (if outstanding_tx (xsks w ! 0) = 0 then Inr w
      else
        (case trigger_tx conf E 0 w of
           Inl e \<Rightarrow> Inl e
         | Inr w \<Rightarrow>
             (let x = xsks w ! 0;
                  ndescs = (if outstanding_tx x > batch_size conf then batch_size conf else outstanding_tx x);
                  (sent, cq') = cons_peek ndescs (cq x)
              in if sent = [] then Inr (upd_sock 0 (\<lambda>x. x\<lparr>cq := cq'\<rparr>) w)
                 else if \<not> prod_reserve FILL_SIZE (fq x) (length sent) then Inl XskExit
                 else Inr (upd_sock 0 (\<lambda>x. x\<lparr>fq := fq x @ sent, cq := cq',
                        outstanding_tx := outstanding_tx x - length sent,
                        stats := (stats x)\<lparr>tx_npkts := tx_npkts (stats x) + of_nat (length sent)\<rparr>\<rparr>) w))))"

fun process_pkts_1if ::
    "xsk_conf \<Rightarrow> ('e, 'st) xsk_env \<Rightarrow> pkt_info list \<Rightarrow> pkt_info batch \<Rightarrow> pkt_info batch \<Rightarrow>
     'st worker \<Rightarrow> xsk_error + (pkt_info batch \<times> pkt_info batch \<times> 'st worker)" where
  "process_pkts_1if conf E [] dr ft w = Inr (dr, ft, w)"
| "process_pkts_1if conf E (d # ds) dr ft w =
     (case run_proc E 0 d w of
        Inl e \<Rightarrow> Inl e
      | Inr (ret, len, w) \<Rightarrow>
          if ret = -1 then
            if unat (cnt dr 0) \<ge> batch_size conf then Inl XskFault
            else process_pkts_1if conf E ds (push 0 (fst d, len) dr) ft w
          else if unat (cnt ft 0) \<ge> batch_size conf then Inl XskFault
          else process_pkts_1if conf E ds dr (push 0 (fst d, len) ft) w)"

fun wait_tx_1if ::
    "nat \<Rightarrow> xsk_conf \<Rightarrow> ('e, 'st) xsk_env \<Rightarrow> nat \<Rightarrow> 'st worker \<Rightarrow> xsk_error + 'st worker" where
  "wait_tx_1if 0 conf E n w = Inl XskSpin"
| "wait_tx_1if (Suc k) conf E n w =
     (if prod_reserve NUM_DESCS (tx (xsks w ! 0)) n then Inr w
      else
        (case complete_tx_1if conf E w of
           Inl e \<Rightarrow> Inl e
         | Inr w \<Rightarrow>
             (case (if busy_poll conf \<or> needs_wakeup E (clock w)
                    then kick_tx E (upd_sock 0
                      (\<lambda>x. x\<lparr>stats := (stats x)\<lparr>tx_wakeup_sendtos := tx_wakeup_sendtos (stats x) + 1\<rparr>\<rparr>) w)
                    else Inr (kernel_turn E w)) of
                Inl e \<Rightarrow> Inl e
              | Inr w \<Rightarrow> wait_tx_1if k conf E n w)))"

definition process_batch_1if ::
    "nat \<Rightarrow> xsk_conf \<Rightarrow> ('e, 'st) xsk_env \<Rightarrow> 'st worker \<Rightarrow> xsk_error + 'st worker" where
  "process_batch_1if k conf E w =
     (case complete_tx_1if conf E w of
        Inl e \<Rightarrow> Inl e
      | Inr w \<Rightarrow>
          (let (rcvd, rx') = cons_peek (batch_size conf) (rx (xsks w ! 0));
               w = upd_sock 0 (\<lambda>x. x\<lparr>rx := rx'\<rparr>) w
           in if rcvd = [] then Inr (rx_empty conf E 0 w)
              else
                (case process_pkts_1if conf E rcvd empty_batch empty_batch w of
                   Inl e \<Rightarrow> Inl e
                 | Inr (dr, ft, w) \<Rightarrow>
                     (let w = upd_sock 0 (\<lambda>x. x\<lparr>stats := (stats x)\<lparr>rx_npkts :=
                            rx_npkts (stats x) + of_nat (length rcvd)\<rparr>\<rparr>) w
                      in case submit_drop 0 dr w of
                           Inl e \<Rightarrow> Inl e
                         | Inr w \<Rightarrow>
                             if cnt ft 0 \<noteq> 0 then
                               (case wait_tx_1if k conf E (unat (cnt ft 0)) w of
                                  Inl e \<Rightarrow> Inl e
                                | Inr w \<Rightarrow> Inr (upd_sock 0 (\<lambda>x. x\<lparr>tx := tx x @ contents ft 0,
                                    outstanding_tx := outstanding_tx x + unat (cnt ft 0)\<rparr>) w))
                             else Inr w))))"

section \<open>The worker loop\<close>

text \<open>
  A turn of the loop: \<open>poll\<close> if asked for (its result is the environment's), then a batch of
  every interface.
\<close>

fun all_batches :: "nat \<Rightarrow> xsk_conf \<Rightarrow> ('e, 'st) xsk_env \<Rightarrow> nat list \<Rightarrow> 'st worker \<Rightarrow> xsk_error + 'st worker" where
  "all_batches k conf E [] w = Inr w"
| "all_batches k conf E (i # is) w =
     (case process_batch k conf E i w of Inl e \<Rightarrow> Inl e | Inr w \<Rightarrow> all_batches k conf E is w)"

definition do_poll :: "xsk_conf \<Rightarrow> ('e, 'st) xsk_env \<Rightarrow> 'st worker \<Rightarrow> 'st worker" where
  "do_poll conf E w =
     kernel_turn E (fold (\<lambda>i. upd_sock i (\<lambda>x. x\<lparr>stats := (stats x)\<lparr>opt_polls := opt_polls (stats x) + 1\<rparr>\<rparr>))
       [0..<num_interfaces conf] w)"

definition worker_turn :: "nat \<Rightarrow> xsk_conf \<Rightarrow> ('e, 'st) xsk_env \<Rightarrow> 'st worker \<Rightarrow> xsk_error + 'st worker" where
  "worker_turn k conf E w =
     (if opt_poll conf \<and> \<not> poll_ready E (clock w) then Inr (do_poll conf E w)
      else
        (let w = (if opt_poll conf then do_poll conf E w else w)
         in if num_interfaces conf > 1 then all_batches k conf E [0..<num_interfaces conf] w
            else process_batch_1if k conf E w))"

text \<open>The loop until \<open>stop_workers\<close> is set, after \<open>t\<close> turns.\<close>

fun worker_loop :: "nat \<Rightarrow> nat \<Rightarrow> xsk_conf \<Rightarrow> ('e, 'st) xsk_env \<Rightarrow> 'st worker \<Rightarrow> xsk_error + 'st worker" where
  "worker_loop 0 k conf E w = Inr w"
| "worker_loop (Suc t) k conf E w =
     (case worker_turn k conf E w of Inl e \<Rightarrow> Inl e | Inr w \<Rightarrow> worker_loop t k conf E w)"

section \<open>Start-up\<close>

text \<open>The fill ring of a new socket (the multiplication is 32-bit, the ring entries have 64 bits).\<close>

definition fill_addrs :: "u32 \<Rightarrow> u32 \<Rightarrow> u64 list" where
  "fill_addrs umem_offset frame_size = map (\<lambda>i. ucast ((umem_offset + of_nat i) * frame_size)) [0..<FRAMES_PER_SOCKET]"

definition no_stats :: xsknf_socket_stats where
  "no_stats = \<lparr>rx_npkts = 0, tx_npkts = 0, rx_dropped_npkts = 0, rx_invalid_npkts = 0, tx_invalid_npkts = 0,
     rx_full_npkts = 0, rx_fill_empty_npkts = 0, tx_empty_npkts = 0, rx_empty_polls = 0, fill_fail_polls = 0,
     tx_wakeup_sendtos = 0, tx_trigger_sendtos = 0, opt_polls = 0\<rparr>"

definition xsk_configure_socket :: "u32 \<Rightarrow> nat \<Rightarrow> u32 \<Rightarrow> u32 \<Rightarrow> xsk_socket_info" where
  "xsk_configure_socket flags buf umem_offset frame_size =
     \<lparr>bind_flags = flags, buffer = buf, rx = \<lparr>cached = [], fresh = []\<rparr>, tx = [],
      fq = fill_addrs umem_offset frame_size, cq = \<lparr>cached = [], fresh = []\<rparr>, stats = no_stats,
      outstanding_tx = 0\<rparr>"

text \<open>
  The sockets of a worker: those in copy mode share one buffer (1), the others another one (0).
  \<open>ffs\<close> is the position of the lowest set bit of the frame size.
\<close>

definition init_sockets :: "u32 list \<Rightarrow> u32 \<Rightarrow> xsk_socket_info list" where
  "init_sockets flags frame_size =
     map (\<lambda>(i, f). xsk_configure_socket f (if f AND XDP_COPY \<noteq> 0 then 1 else 0)
       (of_nat i * of_nat FRAMES_PER_SOCKET) frame_size) (enumerate 0 flags)"

fun ffs_from :: "nat \<Rightarrow> nat \<Rightarrow> u32 \<Rightarrow> nat" where
  "ffs_from 0 i x = 0"
| "ffs_from (Suc k) i x = (if bit x i then Suc i else ffs_from k (Suc i) x)"

definition ffs :: "u32 \<Rightarrow> nat" where "ffs x = ffs_from 32 0 x"

definition init_owner_shift :: "u32 \<Rightarrow> nat" where
  "init_owner_shift frame_size = FRAMES_PER_SOCKET_SHIFT + ffs frame_size - 1"

end
