(* ===== verification/Xsk_Proofs.thy ===== *)
theory Xsk_Proofs
  imports Xsk_Worker
begin

text \<open>
  Frame conservation of the AF_XDP workers.  Every UMEM frame of a worker is at every moment
  in exactly one ring or in the hands of the worker, a fill ring holds only frames of its own
  socket and therefore always has room for the frames it gets back, and \<open>outstanding_tx\<close>
  counts the frames between submission and completion.  The kernel is any party that moves
  frames from a fill ring to the rx ring and from the tx ring to the completion ring of the
  same socket; the packet processor is any function that answers with \<open>-1\<close> or an interface.
\<close>

section \<open>Frames and where they are\<close>

definition frame_id :: "xsk_conf \<Rightarrow> u64 \<Rightarrow> nat" where
  "frame_id conf a = unat (drop_bit (owner_shift conf - FRAMES_PER_SOCKET_SHIFT) a)"

definition ids :: "xsk_conf \<Rightarrow> u64 list \<Rightarrow> nat multiset" where
  "ids conf as = mset (map (frame_id conf) as)"

lemma ids_simps [simp]:
  "ids conf [] = {#}" "ids conf (as @ bs) = ids conf as + ids conf bs"
  "ids conf (a # as) = add_mset (frame_id conf a) (ids conf as)" "size (ids conf as) = length as"
  "set_mset (ids conf as) = frame_id conf ` set as"
  by (simp_all add: ids_def)

definition sock_frames :: "xsk_conf \<Rightarrow> xsk_socket_info \<Rightarrow> nat multiset" where
  "sock_frames conf x = ids conf (fq x) + ids conf (map fst (ring_all (rx x)))
     + ids conf (map fst (tx x)) + ids conf (ring_all (cq x))"

definition frames :: "xsk_conf \<Rightarrow> xsk_socket_info list \<Rightarrow> nat multiset" where
  "frames conf xs = (\<Sum>x\<leftarrow>xs. sock_frames conf x)"

lemma frames_update:
  "i < length xs \<Longrightarrow> frames conf (xs[i := y]) + sock_frames conf (xs ! i) = frames conf xs + sock_frames conf y"
  by (induction xs arbitrary: i) (auto simp: frames_def ac_simps split: nat.split)

lemma frames_add:
  "i < length xs \<Longrightarrow> sock_frames conf y = sock_frames conf (xs ! i) + d \<Longrightarrow>
     frames conf (xs[i := y]) = frames conf xs + d"
  using frames_update [of i xs conf y] by (simp add: ac_simps)

lemma frames_sub:
  "i < length xs \<Longrightarrow> sock_frames conf (xs ! i) = sock_frames conf y + d \<Longrightarrow>
     frames conf (xs[i := y]) + d = frames conf xs"
  using frames_update [of i xs conf y] by (simp add: ac_simps)

lemma frames_mem: "i < length xs \<Longrightarrow> sock_frames conf (xs ! i) \<subseteq># frames conf xs"
  by (induction xs arbitrary: i) (auto simp: frames_def nth_Cons split: nat.split intro: subset_mset.add_increasing)

section \<open>The invariant\<close>

definition all_frames :: "xsk_conf \<Rightarrow> nat multiset" where
  "all_frames conf = mset [0..<num_interfaces conf * FRAMES_PER_SOCKET]"

definition owned :: "xsk_conf \<Rightarrow> nat \<Rightarrow> u64 list \<Rightarrow> bool" where
  "owned conf i as \<longleftrightarrow> (\<forall>a \<in> set as. frame_id conf a div FRAMES_PER_SOCKET = i)"

lemma owned_simps [simp]:
  "owned conf i []" "owned conf i (as @ bs) \<longleftrightarrow> owned conf i as \<and> owned conf i bs"
  "owned conf i (a # as) \<longleftrightarrow> frame_id conf a div FRAMES_PER_SOCKET = i \<and> owned conf i as"
  by (auto simp: owned_def)

definition sock_ok :: "xsk_conf \<Rightarrow> nat \<Rightarrow> xsk_socket_info \<Rightarrow> bool" where
  "sock_ok conf i x \<longleftrightarrow> owned conf i (fq x) \<and> owned conf i (map fst (ring_all (rx x)))"

definition out_ok :: "xsk_socket_info \<Rightarrow> bool" where
  "out_ok x \<longleftrightarrow> outstanding_tx x = length (tx x) + length (ring_all (cq x))
     \<and> length (tx x) \<le> NUM_DESCS \<and> length (ring_all (cq x)) \<le> NUM_DESCS"

text \<open>\<open>held\<close> are the frames in the hands of the worker.\<close>

definition xinv :: "xsk_conf \<Rightarrow> nat multiset \<Rightarrow> xsk_socket_info list \<Rightarrow> bool" where
  "xinv conf held xs \<longleftrightarrow> length xs = num_interfaces conf \<and> frames conf xs + held = all_frames conf
     \<and> (\<forall>i < num_interfaces conf. sock_ok conf i (xs ! i))"

lemma xinv_upd:
  assumes "xinv conf h xs" "i < num_interfaces conf" "sock_ok conf i y"
    and "sock_frames conf y + h' = sock_frames conf (xs ! i) + h"
  shows "xinv conf h' (xs[i := y])"
proof -
  have "frames conf (xs[i := y]) + h' = frames conf xs + h"
  proof -
    have "frames conf (xs[i := y]) + h' + sock_frames conf (xs ! i) = frames conf xs + (sock_frames conf y + h')"
      using frames_update [of i xs conf y] assms(1,2) by (simp add: xinv_def ac_simps)
    then show ?thesis
      unfolding assms(4) by (simp add: ac_simps)
  qed
  then show ?thesis
    using assms by (auto simp: xinv_def nth_list_update)
qed

lemma div_eq_interval:
  assumes "0 < (c :: nat)"
  shows "f div c = i \<longleftrightarrow> i * c \<le> f \<and> f < i * c + c"
proof -
  have "f div c = i \<longleftrightarrow> i \<le> f div c \<and> f div c < Suc i"
    by auto
  then show ?thesis
    using assms by (simp add: less_eq_div_iff_mult_less_eq div_less_iff_less_mult add.commute)
qed

lemma size_all_of_owner:
  assumes "i < num_interfaces conf"
  shows "size (filter_mset (\<lambda>f. f div FRAMES_PER_SOCKET = i) (all_frames conf)) = FRAMES_PER_SOCKET"
proof -
  let ?P = "\<lambda>f. f div FRAMES_PER_SOCKET = i"
  have pos: "0 < FRAMES_PER_SOCKET"
    by (simp add: FRAMES_PER_SOCKET_def)
  have "i * FRAMES_PER_SOCKET + FRAMES_PER_SOCKET \<le> num_interfaces conf * FRAMES_PER_SOCKET"
    using mult_le_mono1 [of "Suc i" "num_interfaces conf" FRAMES_PER_SOCKET] assms by simp
  then have "{f. f < num_interfaces conf * FRAMES_PER_SOCKET \<and> ?P f}
      = {i * FRAMES_PER_SOCKET..<i * FRAMES_PER_SOCKET + FRAMES_PER_SOCKET}"
    using div_eq_interval [OF pos] by auto
  then have "card {f. f < num_interfaces conf * FRAMES_PER_SOCKET \<and> ?P f} = FRAMES_PER_SOCKET"
    by simp
  moreover have "length (filter ?P [0..<num_interfaces conf * FRAMES_PER_SOCKET])
      = card {f. f < num_interfaces conf * FRAMES_PER_SOCKET \<and> ?P f}"
  proof -
    have "distinct (filter ?P [0..<num_interfaces conf * FRAMES_PER_SOCKET])"
      by simp
    from distinct_card [OF this] show ?thesis
      by (simp add: atLeast_upt conj_commute)
  qed
  ultimately show ?thesis
    by (simp add: all_frames_def flip: mset_filter)
qed

lemma filter_owned:
  "owned conf i as \<Longrightarrow> filter_mset (\<lambda>f. f div FRAMES_PER_SOCKET = i) (ids conf as) = ids conf as"
  by (induction as) simp_all

text \<open>A fill ring always has room for frames of its own socket.\<close>

lemma fill_room:
  assumes "xinv conf (ids conf as + h) xs" "i < num_interfaces conf" "owned conf i as"
  shows "prod_reserve FILL_SIZE (fq (xs ! i)) (length as)"
proof -
  let ?P = "\<lambda>f. f div FRAMES_PER_SOCKET = i" and ?q = "fq (xs ! i)"
  obtain r where "frames conf xs = ids conf ?q + r"
    using frames_mem [of i xs conf] assms(1,2)
    by (auto simp: xinv_def sock_frames_def add.assoc mset_subset_eq_exists_conv)
  then have "all_frames conf = ids conf (?q @ as) + (r + h)"
    using assms(1) by (simp add: xinv_def ac_simps)
  then have "ids conf (?q @ as) \<subseteq># all_frames conf"
    by simp
  then have "filter_mset ?P (ids conf (?q @ as)) \<subseteq># filter_mset ?P (all_frames conf)"
    by (rule multiset_filter_mono)
  moreover have "filter_mset ?P (ids conf (?q @ as)) = ids conf (?q @ as)"
    using assms by (intro filter_owned) (simp add: xinv_def sock_ok_def)
  ultimately have "length (?q @ as) \<le> FRAMES_PER_SOCKET"
    using size_mset_mono size_all_of_owner [OF assms(2)] by (metis ids_simps(4))
  then show ?thesis
    by (simp add: prod_reserve_def FILL_SIZE_def NUM_DESCS_def FRAMES_PER_SOCKET_def FRAMES_PER_SOCKET_SHIFT_def)
qed

lemma peek_all: "cons_peek nb r = (ys, r') \<Longrightarrow> ring_all r = ys @ ring_all r'"
  by (auto simp: cons_peek_def ring_all_def Let_def split: if_splits)

lemma peek_len: "cons_peek nb r = (ys, r') \<Longrightarrow> length ys \<le> nb"
  by (auto simp: cons_peek_def Let_def)

text \<open>Two changes of a socket: frames come back to a fill ring, and the rest of the record changes.\<close>

lemma xinv_fill:
  assumes "xinv conf (ids conf as + h) xs" "i < num_interfaces conf" "owned conf i as"
  shows "xinv conf h (xs[i := (xs ! i)\<lparr>fq := fq (xs ! i) @ as\<rparr>])"
proof (rule xinv_upd [OF assms(1,2)])
  show "sock_ok conf i ((xs ! i)\<lparr>fq := fq (xs ! i) @ as\<rparr>)"
    using assms by (simp add: xinv_def sock_ok_def)
qed (simp add: sock_frames_def ac_simps)

lemma xinv_same:
  assumes "xinv conf h xs" "i < num_interfaces conf"
    and "fq y = fq (xs ! i)" "ring_all (rx y) = ring_all (rx (xs ! i))" "tx y = tx (xs ! i)"
      "ring_all (cq y) = ring_all (cq (xs ! i))"
  shows "xinv conf h (xs[i := y])"
  by (rule xinv_upd [OF assms(1,2)]) (use assms in \<open>simp_all add: xinv_def sock_ok_def sock_frames_def\<close>)

section \<open>The kernel\<close>

text \<open>
  A move of the kernel: receive into the frame at the head of a fill ring (anywhere inside
  the frame), or complete the transmission at the head of a tx ring; never beyond the size of
  a ring.
\<close>

inductive kernel_move :: "xsk_conf \<Rightarrow> xsk_socket_info list \<Rightarrow> xsk_socket_info list \<Rightarrow> bool" for conf where
  k_rx: "i < length xs \<Longrightarrow> fq (xs ! i) = a # q \<Longrightarrow> length (ring_all (rx (xs ! i))) < NUM_DESCS \<Longrightarrow>
     frame_id conf a' = frame_id conf a \<Longrightarrow>
     kernel_move conf xs (xs[i := (xs ! i)\<lparr>fq := q, rx := (rx (xs ! i))\<lparr>fresh := fresh (rx (xs ! i)) @ [(a', l)]\<rparr>\<rparr>])"
| k_tx: "i < length xs \<Longrightarrow> tx (xs ! i) = (a, l) # q \<Longrightarrow> length (ring_all (cq (xs ! i))) < NUM_DESCS \<Longrightarrow>
     kernel_move conf xs (xs[i := (xs ! i)\<lparr>tx := q, cq := (cq (xs ! i))\<lparr>fresh := fresh (cq (xs ! i)) @ [a]\<rparr>\<rparr>])"

lemma kernel_move_inv:
  assumes "kernel_move conf xs ys" "xinv conf h xs"
  shows "xinv conf h ys"
  using assms
proof (cases rule: kernel_move.cases)
  case (k_rx i a q a' l)
  then have i: "i < num_interfaces conf" and ok: "sock_ok conf i (xs ! i)"
    using assms(2) by (simp_all add: xinv_def)
  show ?thesis
    unfolding k_rx(1)
    by (rule xinv_upd [OF assms(2) i])
      (use ok k_rx in \<open>simp_all add: sock_ok_def sock_frames_def ring_all_def\<close>)
next
  case (k_tx i a l q)
  then have i: "i < num_interfaces conf" and ok: "sock_ok conf i (xs ! i)"
    using assms(2) by (simp_all add: xinv_def)
  show ?thesis
    unfolding k_tx(1)
    by (rule xinv_upd [OF assms(2) i])
      (use ok k_tx in \<open>simp_all add: sock_ok_def sock_frames_def ring_all_def\<close>)
qed

definition outs :: "xsk_socket_info list \<Rightarrow> bool" where
  "outs xs \<longleftrightarrow> (\<forall>x \<in> set xs. out_ok x)"

lemma outs_upd: "outs xs \<Longrightarrow> out_ok y \<Longrightarrow> outs (xs[i := y])"
  unfolding outs_def using set_update_subset_insert [of xs i y] by blast

lemma outs_nth: "outs xs \<Longrightarrow> i < length xs \<Longrightarrow> out_ok (xs ! i)"
  by (simp add: outs_def)

lemma kernel_move_out: "kernel_move conf xs ys \<Longrightarrow> outs xs \<Longrightarrow> outs ys"
proof (induction rule: kernel_move.induct)
  case (k_rx i xs a q a' l)
  then show ?case
    using outs_nth [of xs i] by (intro outs_upd) (simp_all add: out_ok_def)
next
  case (k_tx i xs a l q)
  then show ?case
    using outs_nth [of xs i] by (intro outs_upd) (simp_all add: out_ok_def ring_all_def)
qed

definition kernel_ok :: "xsk_conf \<Rightarrow> ('e, 'st) xsk_env \<Rightarrow> bool" where
  "kernel_ok conf E \<longleftrightarrow> (\<forall>t xs. (kernel_move conf)\<^sup>*\<^sup>* xs (kern E t xs))"

lemma kernel_ok_inv: "kernel_ok conf E \<Longrightarrow> xinv conf h xs \<Longrightarrow> xinv conf h (kern E t xs)"
proof -
  assume a: "kernel_ok conf E" "xinv conf h xs"
  have "xinv conf h ys" if "(kernel_move conf)\<^sup>*\<^sup>* xs ys" for ys
    using that a(2) by (induction rule: rtranclp_induct) (auto intro: kernel_move_inv)
  then show ?thesis using a(1) by (simp add: kernel_ok_def)
qed

lemma kernel_ok_out: "kernel_ok conf E \<Longrightarrow> outs xs \<Longrightarrow> outs (kern E t xs)"
proof -
  assume a: "kernel_ok conf E" "outs xs"
  have "outs ys" if "(kernel_move conf)\<^sup>*\<^sup>* xs ys" for ys
    using that a(2) by (induction rule: rtranclp_induct) (auto intro: kernel_move_out)
  then show ?thesis using a(1) by (simp add: kernel_ok_def)
qed

section \<open>Batches\<close>

lemma contents_empty [simp]: "contents empty_batch = (\<lambda>_. [])" "cnt empty_batch i = 0"
  by (simp_all add: contents_def empty_batch_def fun_eq_iff)

lemma length_contents [simp]: "length (contents b i) = unat (cnt b i)"
  by (simp add: contents_def)

lemma contents_push:
  assumes "unat (cnt b i) < 255"
  shows "contents (push i x b) j = (if j = i then contents b i @ [x] else contents b j)"
    "unat (cnt (push i x b) j) = (if j = i then Suc (unat (cnt b i)) else unat (cnt b j))"
proof -
  have u: "unat (cnt b i + 1) = Suc (unat (cnt b i))"
    using assms by (simp add: unat_word_ariths)
  show "contents (push i x b) j = (if j = i then contents b i @ [x] else contents b j)"
    using u by (simp add: contents_def push_def)
  show "unat (cnt (push i x b) j) = (if j = i then Suc (unat (cnt b i)) else unat (cnt b j))"
    using u by (simp add: push_def)
qed

text \<open>All frames of a batch, over the interfaces.\<close>

definition batch_ids :: "xsk_conf \<Rightarrow> nat list \<Rightarrow> (nat \<Rightarrow> u64 list) \<Rightarrow> nat multiset" where
  "batch_ids conf is f = (\<Sum>i\<leftarrow>is. ids conf (f i))"

lemma batch_ids_simps [simp]:
  "batch_ids conf [] f = {#}" "batch_ids conf (i # is) f = ids conf (f i) + batch_ids conf is f"
  "batch_ids conf is (\<lambda>_. []) = {#}"
  by (simp_all add: batch_ids_def)

lemma batch_ids_push:
  "distinct is \<Longrightarrow> i \<in> set is \<Longrightarrow> batch_ids conf is (\<lambda>j. if j = i then f i @ [a] else f j)
     = add_mset (frame_id conf a) (batch_ids conf is f)"
proof (induction "is")
  case (Cons k js)
  have "i \<notin> set js \<Longrightarrow> batch_ids conf js (\<lambda>j. if j = i then f i @ [a] else f j) = batch_ids conf js f"
    by (induction js) auto
  then show ?case using Cons by (cases "k = i") auto
qed simp

lemma map_owners_ok:
  assumes "\<forall>a \<in> set as. addr_owner conf a < num_interfaces conf"
    and "\<forall>i. unat (cnt b i) + length as \<le> batch_size conf" "batch_size conf \<le> 255"
    and "\<forall>i. \<forall>a \<in> set (contents b i). addr_owner conf a = i"
  shows "\<exists>b'. map_owners conf as b = Inr b' \<and> (\<forall>i. \<forall>a \<in> set (contents b' i). addr_owner conf a = i)
    \<and> (\<forall>i. set (contents b' i) \<subseteq> set (contents b i) \<union> set as)
    \<and> batch_ids conf [0..<num_interfaces conf] (contents b')
        = batch_ids conf [0..<num_interfaces conf] (contents b) + ids conf as"
  using assms
proof (induction as arbitrary: b)
  case (Cons a as)
  let ?o = "addr_owner conf a"
  have o: "?o < num_interfaces conf" using Cons.prems(1) by simp
  have lt: "unat (cnt b ?o) < batch_size conf" "unat (cnt b ?o) < 255"
    using Cons.prems(2) [rule_format, of ?o] Cons.prems(3) by simp_all
  note cp = contents_push [OF lt(2), of a]
  have cnts: "\<forall>i. unat (cnt (push ?o a b) i) + length as \<le> batch_size conf"
    using Cons.prems(2) by (auto simp: cp(2) intro: Suc_leD)
  have pure: "\<forall>i. \<forall>x \<in> set (contents (push ?o a b) i). addr_owner conf x = i"
    using Cons.prems(4) by (simp add: cp(1))
  have "\<forall>x \<in> set as. addr_owner conf x < num_interfaces conf"
    using Cons.prems(1) by simp
  from Cons.IH [OF this cnts Cons.prems(3) pure]
  obtain b' where b': "map_owners conf as (push ?o a b) = Inr b'"
    "\<forall>i. \<forall>a \<in> set (contents b' i). addr_owner conf a = i"
    "\<forall>i. set (contents b' i) \<subseteq> set (contents (push ?o a b) i) \<union> set as"
    "batch_ids conf [0..<num_interfaces conf] (contents b')
        = batch_ids conf [0..<num_interfaces conf] (contents (push ?o a b)) + ids conf as"
    by (elim exE conjE)
  have "contents (push ?o a b) = (\<lambda>j. if j = ?o then contents b ?o @ [a] else contents b j)"
    by (rule ext) (simp add: cp(1))
  then show ?case
    using b' o lt by (auto simp: Let_def batch_ids_push cp(1) split: if_splits)
qed simp

lemma unat_drop_u64: "unat (drop_bit k (x :: u64)) = unat x div 2 ^ k"
  using unsigned_less [of x, where 'a = nat]
  by (simp add: unsigned_drop_bit_eq drop_bit_eq_div [where 'a = nat] take_bit_nat_eq_self)

lemma addr_owner_frame:
  assumes "frame_id conf a < num_interfaces conf * FRAMES_PER_SOCKET" "num_interfaces conf \<le> 32"
    "FRAMES_PER_SOCKET_SHIFT \<le> owner_shift conf"
  shows "addr_owner conf a = frame_id conf a div FRAMES_PER_SOCKET"
proof -
  let ?k = "owner_shift conf - FRAMES_PER_SOCKET_SHIFT"
  have "(2 :: nat) ^ owner_shift conf = 2 ^ ?k * 2 ^ FRAMES_PER_SOCKET_SHIFT"
    using assms(3) by (simp flip: power_add)
  then have u: "unat (drop_bit (owner_shift conf) a) = frame_id conf a div FRAMES_PER_SOCKET"
    by (simp add: frame_id_def FRAMES_PER_SOCKET_def unat_drop_u64 div_mult2_eq)
  have "frame_id conf a div FRAMES_PER_SOCKET < num_interfaces conf"
    using assms(1) by (simp add: less_mult_imp_div_less)
  then have "unat (drop_bit (owner_shift conf) a) < 4294967296"
    using u assms(2) by simp
  then show ?thesis
    using u by (simp add: addr_owner_def unsigned_ucast_eq take_bit_eq_mod [where 'a = nat])
qed

section \<open>The worker\<close>

text \<open>
  What a worker relies on: its configuration, the kernel, the system calls, the application.  The condition
  \<open>app_ok\<close> under which the application answers may depend on the number of the worker.
\<close>

definition worker_good :: "xsk_conf \<Rightarrow> (nat \<Rightarrow> 'st \<Rightarrow> bool) \<Rightarrow> nat multiset \<Rightarrow> 'st worker \<Rightarrow> bool" where
  "worker_good conf app_ok h w \<longleftrightarrow> xinv conf h (xsks w) \<and> outs (xsks w) \<and> app_ok (wid w) (app w)"

locale xsk_world =
  fixes conf :: xsk_conf
    and E :: "('e, 'st) xsk_env"
    and app_ok :: "nat \<Rightarrow> 'st \<Rightarrow> bool"
  assumes interfaces: "0 < num_interfaces conf" "num_interfaces conf \<le> 32"
    and batch: "batch_size conf \<le> 255"
    and shift: "FRAMES_PER_SOCKET_SHIFT \<le> owner_shift conf"
    and kernel: "kernel_ok conf E"
    and calls: "sendto E t \<noteq> SendOther"
    and verdict: "app_ok i st \<Longrightarrow> \<exists>r st' m' len'. proc E st m len ifx i = Inr (r, st', m', len')
      \<and> app_ok i st' \<and> (r = -1 \<or> 0 \<le> r \<and> nat r < num_interfaces conf)"
begin

abbreviation (input) good :: "nat multiset \<Rightarrow> 'st worker \<Rightarrow> bool" where
  "good \<equiv> worker_good conf app_ok"

lemma good_len: "good h w \<Longrightarrow> length (xsks w) = num_interfaces conf"
  by (simp add: worker_good_def xinv_def)

lemma good_turn: "good h w \<Longrightarrow> good h (kernel_turn E w)"
  using kernel_ok_inv [OF kernel] kernel_ok_out [OF kernel] by (simp add: worker_good_def kernel_turn_def)

lemma good_kick: "good h w \<Longrightarrow> \<exists>w'. kick_tx E w = Inr w' \<and> good h w'"
  by (simp add: kick_tx_def calls good_turn)

lemma good_upd:
  assumes "good h w" "i < num_interfaces conf" "xinv conf h' ((xsks w)[i := f (xsks w ! i)])"
    "out_ok (xsks w ! i) \<Longrightarrow> out_ok (f (xsks w ! i))"
  shows "good h' (upd_sock i f w)"
proof -
  have "outs (xsks w)" "out_ok (xsks w ! i)"
    using assms(1,2) good_len [OF assms(1)] outs_nth [of "xsks w" i] by (simp_all add: worker_good_def)
  then have "outs ((xsks w)[i := f (xsks w ! i)])"
    using assms(4) by (intro outs_upd)
  then show ?thesis
    using assms(1,3) by (simp add: worker_good_def upd_sock_def)
qed

lemma good_stats: "good h w \<Longrightarrow> i < num_interfaces conf \<Longrightarrow> good h (upd_sock i (\<lambda>x. x\<lparr>stats := f x\<rparr>) w)"
  by (rule good_upd, assumption+, rule xinv_same) (simp_all add: worker_good_def out_ok_def)

lemma good_trigger: "good h w \<Longrightarrow> i < num_interfaces conf \<Longrightarrow> \<exists>w'. trigger_tx conf E i w = Inr w' \<and> good h w'"
  using good_kick [OF good_stats] by (auto simp: trigger_tx_def)

lemma frame_bound:
  "xinv conf (ids conf as + h) xs \<Longrightarrow> a \<in> set as \<Longrightarrow> frame_id conf a < num_interfaces conf * FRAMES_PER_SOCKET"
proof -
  assume a: "xinv conf (ids conf as + h) xs" "a \<in> set as"
  from a(2) have "frame_id conf a \<in># frames conf xs + (ids conf as + h)"
    by simp
  moreover from a(1) have "frames conf xs + (ids conf as + h) = all_frames conf"
    by (simp add: xinv_def)
  ultimately have "frame_id conf a \<in># all_frames conf"
    by (simp only:)
  then show ?thesis by (simp add: all_frames_def)
qed

lemma submit_fill_good:
  assumes "xinv conf (batch_ids conf is (contents b) + h) (xsks w)" "set is \<subseteq> {..<num_interfaces conf}"
    "\<forall>i. owned conf i (contents b i)"
  shows "\<exists>w'. submit_fill is b w = Inr w' \<and> xinv conf h (xsks w') \<and> app w' = app w \<and> wid w' = wid w
     \<and> map (\<lambda>x. (tx x, cq x, outstanding_tx x)) (xsks w') = map (\<lambda>x. (tx x, cq x, outstanding_tx x)) (xsks w)"
  using assms
proof (induction "is" arbitrary: w)
  case (Cons i js)
  have i: "i < num_interfaces conf" and js: "set js \<subseteq> {..<num_interfaces conf}"
    using Cons.prems(2) by auto
  let ?w = "upd_sock i (\<lambda>x. x\<lparr>fq := fq x @ contents b i\<rparr>) w"
  show ?case
  proof (cases "cnt b i = 0")
    case True
    then have "contents b i = []"
      by (simp add: contents_def)
    then show ?thesis using Cons js True by simp
  next
    case False
    have inv: "xinv conf (ids conf (contents b i) + (batch_ids conf js (contents b) + h)) (xsks w)"
      using Cons.prems(1) by (simp add: ac_simps)
    have "xinv conf (batch_ids conf js (contents b) + h) (xsks ?w)"
      using xinv_fill [OF inv i] Cons.prems(3) by (simp add: upd_sock_def)
    moreover have "prod_reserve FILL_SIZE (fq (xsks w ! i)) (unat (cnt b i))"
      using fill_room [OF inv i] Cons.prems(3) by simp
    moreover have "map (\<lambda>x. (tx x, cq x, outstanding_tx x)) (xsks ?w) = map (\<lambda>x. (tx x, cq x, outstanding_tx x)) (xsks w)"
      using i inv by (auto simp: upd_sock_def xinv_def list_eq_iff_nth_eq nth_list_update)
    ultimately show ?thesis
      using Cons.IH [of ?w] js Cons.prems(3) False by (auto simp: upd_sock_def)
  qed
qed simp

lemma owned_contents:
  assumes "xinv conf (ids conf as + h) xs" "\<forall>i. \<forall>a \<in> set (contents b i). addr_owner conf a = i"
    "\<forall>i. set (contents b i) \<subseteq> set as"
  shows "\<forall>i. owned conf i (contents b i)"
proof (intro allI, unfold owned_def, intro ballI)
  fix i a assume a: "a \<in> set (contents b i)"
  then have "frame_id conf a < num_interfaces conf * FRAMES_PER_SOCKET"
    using frame_bound [OF assms(1)] assms(3) by blast
  from addr_owner_frame [OF this interfaces(2) shift] a assms(2)
  show "frame_id conf a div FRAMES_PER_SOCKET = i" by simp
qed

lemma recycle_good:
  assumes "xinv conf (ids conf sent + h) (xsks w)" "length sent \<le> batch_size conf"
  shows "\<exists>b w'. map_owners conf sent empty_batch = Inr b \<and> submit_fill [0..<num_interfaces conf] b w = Inr w'
     \<and> xinv conf h (xsks w') \<and> app w' = app w \<and> wid w' = wid w
     \<and> map (\<lambda>x. (tx x, cq x, outstanding_tx x)) (xsks w') = map (\<lambda>x. (tx x, cq x, outstanding_tx x)) (xsks w)"
proof -
  have "\<forall>a \<in> set sent. addr_owner conf a < num_interfaces conf"
    using addr_owner_frame [OF frame_bound [OF assms(1)] interfaces(2) shift] frame_bound [OF assms(1)]
    by (simp add: less_mult_imp_div_less)
  from map_owners_ok [of sent conf empty_batch, OF this _ batch] assms(2)
  obtain b where b: "map_owners conf sent empty_batch = Inr b" "\<forall>i. \<forall>a \<in> set (contents b i). addr_owner conf a = i"
    "\<forall>i. set (contents b i) \<subseteq> set sent" "batch_ids conf [0..<num_interfaces conf] (contents b) = ids conf sent"
    by auto
  have "xinv conf (batch_ids conf [0..<num_interfaces conf] (contents b) + h) (xsks w)"
    using assms(1) b(4) by simp
  from submit_fill_good [OF this _ owned_contents [OF assms(1) b(2,3)]] b(1) show ?thesis
    by (auto simp: atLeast0LessThan)
qed

lemma outs_map:
  assumes "map (\<lambda>x. (tx x, cq x, outstanding_tx x)) ys = map (\<lambda>x. (tx x, cq x, outstanding_tx x)) xs" "j < length xs"
  shows "tx (ys ! j) = tx (xs ! j)" "cq (ys ! j) = cq (xs ! j)" "outstanding_tx (ys ! j) = outstanding_tx (xs ! j)"
  using arg_cong [OF assms(1), of "\<lambda>l. l ! j"] assms(2) map_eq_imp_length_eq [OF assms(1)] by simp_all

lemma complete_tx_good:
  assumes "good h w" "i < num_interfaces conf"
  shows "\<exists>w'. complete_tx conf E i w = Inr w' \<and> good h w'"
proof (cases "outstanding_tx (xsks w ! i) = 0")
  case False
  obtain w1 where w1: "trigger_tx conf E i w = Inr w1" "good h w1"
    using good_trigger [OF assms] by blast
  define x where "x = xsks w1 ! i"
  define nd where "nd = (if outstanding_tx x > batch_size conf then batch_size conf else outstanding_tx x)"
  obtain sent cq' where pk: "cons_peek nd (cq x) = (sent, cq')"
    by fastforce
  have all: "ring_all (cq x) = sent @ ring_all cq'"
    using peek_all [OF pk] .
  have len: "length sent \<le> batch_size conf"
    using peek_len [OF pk] by (simp add: nd_def split: if_splits)
  have inv: "xinv conf h (xsks w1)" and ok: "app_ok (wid w1) (app w1)" and o: "outs (xsks w1)"
    and l: "length (xsks w1) = num_interfaces conf"
    using w1(2) good_len by (simp_all add: worker_good_def)
  show ?thesis
  proof (cases "sent = []")
    case True
    have "good h (upd_sock i (\<lambda>x. x\<lparr>cq := cq'\<rparr>) w1)"
      by (rule good_upd [OF w1(2) assms(2)])
        (use inv assms(2) all True in \<open>auto simp: x_def out_ok_def intro: xinv_same\<close>)
    then show ?thesis
      using False w1(1) pk True by (simp add: complete_tx_def Let_def flip: x_def nd_def)
  next
    case ne: False
    define w2 where "w2 = upd_sock i (\<lambda>x. x\<lparr>cq := cq', stats := (stats x)\<lparr>tx_npkts :=
        tx_npkts (stats x) + of_nat (length sent)\<rparr>\<rparr>) w1"
    have "xinv conf (ids conf sent + h) (xsks w2)"
      unfolding w2_def upd_sock_def
      by (simp, rule xinv_upd [OF inv assms(2)])
        (use inv assms(2) all in \<open>auto simp: x_def xinv_def sock_ok_def sock_frames_def ac_simps\<close>)
    from recycle_good [OF this len] obtain b w3 where w3: "map_owners conf sent empty_batch = Inr b"
      "submit_fill [0..<num_interfaces conf] b w2 = Inr w3" "xinv conf h (xsks w3)" "app w3 = app w2" "wid w3 = wid w2"
      "map (\<lambda>x. (tx x, cq x, outstanding_tx x)) (xsks w3) = map (\<lambda>x. (tx x, cq x, outstanding_tx x)) (xsks w2)"
      by blast
    let ?w = "upd_sock i (\<lambda>x. x\<lparr>outstanding_tx := outstanding_tx x - length sent\<rparr>) w3"
    have res: "complete_tx conf E i w = Inr ?w"
      using False w1(1) pk ne w3(1,2) by (simp add: complete_tx_def Let_def flip: x_def nd_def w2_def)
    have l3: "length (xsks w3) = num_interfaces conf"
      using w3(3) by (simp add: xinv_def)
    have "xinv conf h (xsks ?w)"
      unfolding upd_sock_def by (simp, rule xinv_same [OF w3(3) assms(2)]) simp_all
    moreover have "out_ok (xsks ?w ! j)" if j: "j < num_interfaces conf" for j
    proof -
      have "out_ok (xsks w1 ! j)"
        using outs_nth [OF o] j l by simp
      moreover have "j < length (xsks w2)"
        using j l by (simp add: w2_def upd_sock_def)
      note outs_map [OF w3(6) this]
      ultimately show ?thesis
        using all j l l3 assms(2) by (cases "j = i") (auto simp: out_ok_def upd_sock_def w2_def x_def)
    qed
    ultimately have "good h ?w"
      using l3 ok w3(4,5) by (auto simp: worker_good_def outs_def in_set_conv_nth upd_sock_def w2_def)
    then show ?thesis using res by blast
  qed
qed (use assms in \<open>simp add: complete_tx_def\<close>)

lemma run_proc_good:
  assumes "app_ok (wid w) (app w)"
  shows "\<exists>ret len w'. run_proc E i d w = Inr (ret, len, w') \<and> xsks w' = xsks w \<and> app_ok (wid w') (app w')
     \<and> (ret = -1 \<or> 0 \<le> ret \<and> nat ret < num_interfaces conf)"
proof -
  obtain addr len where d: "d = (addr, len)" by fastforce
  obtain r st m l where "proc E (app w) (\<lambda>k. bufs w (buffer (xsks w ! i)) (unat (add_offset_to_addr addr) + k)) len i (wid w)
      = Inr (r, st, m, l)" "app_ok (wid w) st" "r = -1 \<or> 0 \<le> r \<and> nat r < num_interfaces conf"
    using verdict [OF assms] by blast
  then show ?thesis
    by (simp add: run_proc_def d Let_def)
qed

text \<open>Dropped and forwarded frames together are the received ones.\<close>

abbreviation (input) addrs :: "pkt_info batch \<Rightarrow> nat \<Rightarrow> u64 list" where
  "addrs b i \<equiv> map fst (contents b i)"

lemma addrs_push:
  assumes "unat (cnt b i) < 255"
  shows "addrs (push i (a, l) b) = (\<lambda>j. if j = i then addrs b i @ [a] else addrs b j)"
  by (rule ext) (simp add: contents_push [OF assms])

lemma process_pkts_good:
  assumes "app_ok (wid w) (app w)" "\<forall>j. unat (cnt dr j) + length ds \<le> batch_size conf"
    "\<forall>j. unat (cnt ft j) + length ds \<le> batch_size conf"
  shows "\<exists>dr' ft' w'. process_pkts conf E i ds dr ft w = Inr (dr', ft', w') \<and> xsks w' = xsks w \<and> app_ok (wid w') (app w')
     \<and> set (addrs dr' 0) \<subseteq> set (addrs dr 0) \<union> set (map fst ds)
     \<and> ids conf (addrs dr' 0) + batch_ids conf [0..<num_interfaces conf] (addrs ft')
       = ids conf (addrs dr 0) + batch_ids conf [0..<num_interfaces conf] (addrs ft) + ids conf (map fst ds)"
  using assms
proof (induction ds arbitrary: dr ft w)
  case (Cons d ds)
  obtain ret len w1 where r: "run_proc E i d w = Inr (ret, len, w1)" "xsks w1 = xsks w" "app_ok (wid w1) (app w1)"
    "ret = -1 \<or> 0 \<le> ret \<and> nat ret < num_interfaces conf"
    using run_proc_good [OF Cons.prems(1)] by blast
  have lt: "unat (cnt dr j) < batch_size conf" "unat (cnt ft j) < batch_size conf"
    "unat (cnt dr j) < 255" "unat (cnt ft j) < 255" for j
    using Cons.prems(2,3) [rule_format, of j] batch by simp_all
  have le: "\<forall>j. unat (cnt dr j) + length ds \<le> batch_size conf" "\<forall>j. unat (cnt ft j) + length ds \<le> batch_size conf"
    using Cons.prems(2,3) by (auto intro: Suc_leD)
  show ?case
  proof (cases "ret = -1")
    case True
    have "\<forall>j. unat (cnt (push 0 (fst d, len) dr) j) + length ds \<le> batch_size conf"
      using Cons.prems(2) le(1) by (simp add: contents_push(2) [OF lt(3)])
    from Cons.IH [OF r(3) this le(2)] obtain dr' ft' w' where
      "process_pkts conf E i ds (push 0 (fst d, len) dr) ft w1 = Inr (dr', ft', w')" "xsks w' = xsks w1" "app_ok (wid w') (app w')"
      "set (addrs dr' 0) \<subseteq> set (addrs dr 0 @ [fst d]) \<union> set (map fst ds)"
      "ids conf (addrs dr' 0) + batch_ids conf [0..<num_interfaces conf] (addrs ft')
        = ids conf (addrs dr 0 @ [fst d]) + batch_ids conf [0..<num_interfaces conf] (addrs ft) + ids conf (map fst ds)"
      by (auto simp: addrs_push [OF lt(3)] contents_push(1) [OF lt(3)])
    then show ?thesis
      using r(1,2) True lt(1) [of 0] by (simp add: not_le)
  next
    case False
    let ?j = "nat ret"
    have j: "0 \<le> ret" "?j < num_interfaces conf" "\<not> ret < 0"
      using r(4) False by auto
    have "\<forall>k. unat (cnt (push ?j (fst d, len) ft) k) + length ds \<le> batch_size conf"
      using Cons.prems(3) le(2) by (simp add: contents_push(2) [OF lt(4)])
    moreover have "batch_ids conf [0..<num_interfaces conf] (addrs (push ?j (fst d, len) ft))
        = add_mset (frame_id conf (fst d)) (batch_ids conf [0..<num_interfaces conf] (addrs ft))"
      using j(2) batch_ids_push [of "[0..<num_interfaces conf]" ?j conf "addrs ft" "fst d"]
      by (simp add: addrs_push [OF lt(4)])
    ultimately obtain dr' ft' w' where
      "process_pkts conf E i ds dr (push ?j (fst d, len) ft) w1 = Inr (dr', ft', w')" "xsks w' = xsks w1" "app_ok (wid w') (app w')"
      "set (addrs dr' 0) \<subseteq> set (addrs dr 0) \<union> set (map fst ds)"
      "ids conf (addrs dr' 0) + batch_ids conf [0..<num_interfaces conf] (addrs ft')
        = ids conf (addrs dr 0) + add_mset (frame_id conf (fst d)) (batch_ids conf [0..<num_interfaces conf] (addrs ft))
          + ids conf (map fst ds)"
      using Cons.IH [OF r(3) le(1), of "push ?j (fst d, len) ft"] by auto
    then show ?thesis
      using r(1,2) False j lt(2) [of ?j] by (auto simp: not_le)
  qed
qed simp

lemma wait_tx_good:
  assumes "good h w" "ifx < num_interfaces conf" "i < num_interfaces conf"
  shows "(\<exists>w'. wait_tx k conf E ifx i n w = Inr w' \<and> good h w') \<or> wait_tx k conf E ifx i n w = Inl XskSpin"
  using assms(1)
proof (induction k arbitrary: w)
  case (Suc k)
  obtain w1 where w1: "complete_tx conf E ifx w = Inr w1" "good h w1"
    using complete_tx_good [OF Suc.prems assms(2)] by blast
  let ?u = "upd_sock i (\<lambda>x. x\<lparr>stats := (stats x)\<lparr>tx_wakeup_sendtos := tx_wakeup_sendtos (stats x) + 1\<rparr>\<rparr>) w1"
  have "good h ?u"
    by (rule good_stats [OF w1(2) assms(3)])
  from good_kick [OF this] obtain w2 where "kick_tx E ?u = Inr w2" "good h w2"
    by blast
  then show ?case
    using Suc w1 good_turn [OF w1(2)] by simp
qed simp

lemma wait_tx_room: "wait_tx k conf E ifx i n w = Inr w' \<Longrightarrow> prod_reserve NUM_DESCS (tx (xsks w' ! i)) n"
  by (induction k arbitrary: w) (auto split: if_splits sum.splits)

lemma good_bufs: "good h (w\<lparr>bufs := b\<rparr>) \<longleftrightarrow> good h w"
  by (simp add: worker_good_def)

lemma submit_tx_good:
  assumes "good (batch_ids conf is (addrs ft) + h) w" "set is \<subseteq> {..<num_interfaces conf}" "ifx < num_interfaces conf"
  shows "(\<exists>w'. submit_tx k conf E ifx is ft w = Inr w' \<and> good h w') \<or> submit_tx k conf E ifx is ft w = Inl XskSpin"
  using assms(1,2)
proof (induction "is" arbitrary: w)
  case (Cons i js)
  have i: "i < num_interfaces conf" and js: "set js \<subseteq> {..<num_interfaces conf}"
    using Cons.prems(2) by auto
  show ?case
  proof (cases "cnt ft i = 0")
    case True
    then have "contents ft i = []" by (simp add: contents_def)
    then show ?thesis using Cons js True by simp
  next
    case False
    let ?n = "unat (cnt ft i)" and ?f = "\<lambda>x. x\<lparr>tx := tx x @ contents ft i, outstanding_tx := outstanding_tx x + unat (cnt ft i)\<rparr>"
    from wait_tx_good [OF Cons.prems(1) assms(3) i, of k ?n]
    show ?thesis
    proof
      assume "\<exists>w'. wait_tx k conf E ifx i ?n w = Inr w' \<and> good (batch_ids conf (i # js) (addrs ft) + h) w'"
      then obtain w1 where w1: "wait_tx k conf E ifx i ?n w = Inr w1" "good (batch_ids conf (i # js) (addrs ft) + h) w1"
        by blast
      have room: "prod_reserve NUM_DESCS (tx (xsks w1 ! i)) ?n"
        by (rule wait_tx_room [OF w1(1)])
      have inv: "xinv conf (batch_ids conf (i # js) (addrs ft) + h) (xsks w1)"
        using w1(2) by (simp add: worker_good_def)
      have nx: "good (batch_ids conf js (addrs ft) + h) (upd_sock i ?f (w1\<lparr>bufs := b\<rparr>))" for b
        by (rule good_upd [OF _ i], unfold good_bufs, rule w1(2), simp, rule xinv_upd [OF inv i])
          (use inv i room in \<open>auto simp: xinv_def sock_ok_def sock_frames_def out_ok_def prod_reserve_def ac_simps\<close>)
      from nx [of "bufs w1"] nx show ?thesis
        using Cons.IH [OF nx js] Cons.IH [OF nx [of "bufs w1"] js] w1(1) False by (simp add: Let_def)
    qed (use False in simp)
  qed
qed simp

lemma submit_drop_good:
  assumes "good (ids conf (addrs dr 0) + h) w" "owned conf i (addrs dr 0)" "i < num_interfaces conf"
  shows "\<exists>w'. submit_drop i dr w = Inr w' \<and> good h w'"
proof (cases "cnt dr 0 = 0")
  case True
  then have "contents dr 0 = []" by (simp add: contents_def)
  then show ?thesis using assms True by (simp add: submit_drop_def)
next
  case False
  have inv: "xinv conf (ids conf (addrs dr 0) + h) (xsks w)"
    using assms(1) by (simp add: worker_good_def)
  have "good h (upd_sock i (\<lambda>x. x\<lparr>fq := fq x @ addrs dr 0\<rparr>) w)"
    by (rule good_upd [OF assms(1,3)], rule xinv_fill [OF inv assms(3,2)]) (simp add: out_ok_def)
  then show ?thesis
    using fill_room [OF inv assms(3,2)] False by (simp add: submit_drop_def)
qed

text \<open>The states of a batch up to the submission of the transmissions.\<close>

lemma batch_front:
  assumes "good h w" "i < num_interfaces conf"
  obtains w1 rcvd rx' w2 where "complete_tx conf E i w = Inr w1" "good h w1"
    "cons_peek (batch_size conf) (rx (xsks w1 ! i)) = (rcvd, rx')" "w2 = upd_sock i (\<lambda>x. x\<lparr>rx := rx'\<rparr>) w1"
    "app_ok (wid w2) (app w2)" "length rcvd \<le> batch_size conf" "good (ids conf (map fst rcvd) + h) w2" "owned conf i (map fst rcvd)"
proof -
  obtain w1 where w1: "complete_tx conf E i w = Inr w1" "good h w1"
    using complete_tx_good [OF assms] by blast
  obtain rcvd rx' where pk: "cons_peek (batch_size conf) (rx (xsks w1 ! i)) = (rcvd, rx')"
    by fastforce
  note all = peek_all [OF pk] and len = peek_len [OF pk]
  define w2 where "w2 = upd_sock i (\<lambda>x. x\<lparr>rx := rx'\<rparr>) w1"
  have inv: "xinv conf h (xsks w1)" and own: "owned conf i (map fst rcvd)"
    using w1(2) all assms(2) by (auto simp: worker_good_def xinv_def sock_ok_def)
  have g2: "good (ids conf (map fst rcvd) + h) w2"
    unfolding w2_def
    by (rule good_upd [OF w1(2) assms(2)], rule xinv_upd [OF inv assms(2)])
      (use inv assms(2) all in \<open>auto simp: xinv_def sock_ok_def sock_frames_def out_ok_def ac_simps\<close>)
  then have "app_ok (wid w2) (app w2)" by (simp add: worker_good_def)
  from that [OF w1 pk w2_def this len g2 own] show thesis .
qed

lemma batch_back:
  assumes g2: "good (ids conf (map fst rcvd) + h) w2" "owned conf i (map fst rcvd)"
    and "i < num_interfaces conf" "length rcvd \<le> batch_size conf"
  obtains dr ft w3 w4 where "process_pkts conf E i rcvd empty_batch empty_batch w2 = Inr (dr, ft, w3)"
    "submit_drop i dr (upd_sock i (\<lambda>x. x\<lparr>stats := (stats x)\<lparr>rx_npkts := rx_npkts (stats x) + of_nat (length rcvd)\<rparr>\<rparr>) w3)
       = Inr w4" "good (batch_ids conf [0..<num_interfaces conf] (addrs ft) + h) w4"
proof -
  have "app_ok (wid w2) (app w2)"
    using g2 by (simp add: worker_good_def)
  from process_pkts_good [OF this, of empty_batch rcvd empty_batch i] assms(4)
  obtain dr ft w3 where w3: "process_pkts conf E i rcvd empty_batch empty_batch w2 = Inr (dr, ft, w3)"
    "xsks w3 = xsks w2" "app_ok (wid w3) (app w3)" "set (addrs dr 0) \<subseteq> set (map fst rcvd)"
    "ids conf (addrs dr 0) + batch_ids conf [0..<num_interfaces conf] (addrs ft) = ids conf (map fst rcvd)"
    by auto
  let ?w = "upd_sock i (\<lambda>x. x\<lparr>stats := (stats x)\<lparr>rx_npkts := rx_npkts (stats x) + of_nat (length rcvd)\<rparr>\<rparr>) w3"
  have "good (ids conf (map fst rcvd) + h) w3"
    using g2 w3(2,3) by (simp add: worker_good_def)
  then have "good (ids conf (addrs dr 0) + (batch_ids conf [0..<num_interfaces conf] (addrs ft) + h)) ?w"
    using good_stats [OF _ assms(3)] w3(5) by (simp add: add.assoc [symmetric])
  moreover have "owned conf i (addrs dr 0)"
    using assms(2) w3(4) unfolding owned_def by blast
  ultimately obtain w4 where w4: "submit_drop i dr ?w = Inr w4"
    "good (batch_ids conf [0..<num_interfaces conf] (addrs ft) + h) w4"
    using submit_drop_good [OF _ _ assms(3)] by blast
  from that [OF w3(1) w4] show thesis .
qed

lemma process_batch_good:
  assumes "good h w" "i < num_interfaces conf"
  shows "(\<exists>w'. process_batch k conf E i w = Inr w' \<and> good h w') \<or> process_batch k conf E i w = Inl XskSpin"
proof -
  obtain w1 rcvd rx' w2 where w1: "complete_tx conf E i w = Inr w1" "good h w1"
    and pk: "cons_peek (batch_size conf) (rx (xsks w1 ! i)) = (rcvd, rx')" and w2: "w2 = upd_sock i (\<lambda>x. x\<lparr>rx := rx'\<rparr>) w1"
    and len: "length rcvd \<le> batch_size conf" and g2: "good (ids conf (map fst rcvd) + h) w2" "owned conf i (map fst rcvd)"
    by (rule batch_front [OF assms])
  show ?thesis
  proof (cases "rcvd = []")
    case True
    have "good h (rx_empty conf E i w2)"
      using g2 True good_turn [OF good_stats [OF _ assms(2)]] by (simp add: rx_empty_def)
    then show ?thesis
      using w1(1) pk True by (simp add: process_batch_def Let_def w2)
  next
    case False
    obtain dr ft w3 w4 where w3: "process_pkts conf E i rcvd empty_batch empty_batch w2 = Inr (dr, ft, w3)"
      and w4: "submit_drop i dr (upd_sock i (\<lambda>x. x\<lparr>stats := (stats x)\<lparr>rx_npkts := rx_npkts (stats x) + of_nat (length rcvd)\<rparr>\<rparr>) w3)
       = Inr w4" "good (batch_ids conf [0..<num_interfaces conf] (addrs ft) + h) w4"
      by (rule batch_back [OF g2 assms(2) len])
    from submit_tx_good [OF w4(2) _ assms(2), of k] w1(1) pk False w3 w4(1) show ?thesis
      by (simp add: process_batch_def Let_def atLeast0LessThan flip: w2)
  qed
qed

subsection \<open>The code for one interface\<close>

lemma upd_upd:
  "i < length (xsks w) \<Longrightarrow> upd_sock i f (upd_sock i g w) = upd_sock i (\<lambda>x. f (g x)) w"
  by (simp add: upd_sock_def)

lemma upd_len: "length (xsks (upd_sock i f w)) = length (xsks w)"
  by (simp add: upd_sock_def)

lemma upd_nth: "i < length (xsks w) \<Longrightarrow> xsks (upd_sock i f w) ! i = f (xsks w ! i)"
  by (simp add: upd_sock_def)

lemma map_owners_single:
  assumes "num_interfaces conf = 1" "\<forall>a \<in> set as. addr_owner conf a = 0"
    "unat (cnt b 0) + length as \<le> batch_size conf"
  shows "\<exists>b'. map_owners conf as b = Inr b' \<and> contents b' 0 = contents b 0 @ as"
  using assms
proof (induction as arbitrary: b)
  case (Cons a as)
  have lt: "unat (cnt b 0) < 255" "unat (cnt b 0) < batch_size conf"
    using Cons.prems(3) batch by simp_all
  note cp = contents_push [OF lt(1), of a]
  have "unat (cnt (push 0 a b) 0) + length as \<le> batch_size conf"
    using Cons.prems(3) by (simp add: cp)
  from Cons.IH [OF Cons.prems(1) _ this] show ?case
    using Cons.prems lt(2) by (auto simp: cp Let_def not_le)
qed simp

lemma recycle_order:
  "(\<lambda>x :: xsk_socket_info. x\<lparr>fq := fq x @ sent, cq := cq', outstanding_tx := outstanding_tx x - length sent,
      stats := (stats x)\<lparr>tx_npkts := tx_npkts (stats x) + of_nat (length sent)\<rparr>\<rparr>)
   = (\<lambda>x. x\<lparr>cq := cq', stats := (stats x)\<lparr>tx_npkts := tx_npkts (stats x) + of_nat (length sent)\<rparr>,
      fq := fq x @ sent, outstanding_tx := outstanding_tx x - length sent\<rparr>)"
  by (rule ext) simp

lemma complete_tx_single:
  assumes "num_interfaces conf = 1" "good h w"
  shows "complete_tx_1if conf E w = complete_tx conf E 0 w"
proof (cases "outstanding_tx (xsks w ! 0) = 0")
  case False
  obtain w1 where w1: "trigger_tx conf E 0 w = Inr w1" "good h w1"
    using good_trigger [OF assms(2)] assms(1) by auto
  define x where "x = xsks w1 ! 0"
  define nd where "nd = (if outstanding_tx x > batch_size conf then batch_size conf else outstanding_tx x)"
  obtain sent cq' where pk: "cons_peek nd (cq x) = (sent, cq')"
    by fastforce
  have len: "length sent \<le> batch_size conf"
    using peek_len [OF pk] by (simp add: nd_def split: if_splits)
  have l: "0 < length (xsks w1)"
    using good_len [OF w1(2)] assms(1) by simp
  have own: "\<forall>a \<in> set sent. addr_owner conf a = 0"
  proof
    fix a assume "a \<in> set sent"
    then have "frame_id conf a \<in># sock_frames conf x"
      using peek_all [OF pk] by (auto simp: sock_frames_def)
    then have "frame_id conf a \<in># frames conf (xsks w1) + h"
      using mset_subset_eqD [OF frames_mem [of 0 "xsks w1" conf]] l by (simp add: x_def)
    moreover have "frames conf (xsks w1) + h = all_frames conf"
      using w1(2) by (simp add: worker_good_def xinv_def)
    ultimately have "frame_id conf a \<in># all_frames conf" by argo
    then have "frame_id conf a < num_interfaces conf * FRAMES_PER_SOCKET"
      by (simp add: all_frames_def)
    from addr_owner_frame [OF this interfaces(2) shift] this show "addr_owner conf a = 0"
      using assms(1) by simp
  qed
  obtain b where b: "map_owners conf sent empty_batch = Inr b" "contents b 0 = sent"
    using map_owners_single [OF assms(1) own, of empty_batch] len by auto
  have "cnt b 0 = 0 \<longleftrightarrow> sent = []" "unat (cnt b 0) = length sent"
    using length_contents [of b 0] b(2) by (auto simp: unat_eq_zero contents_def)
  then show ?thesis
    using False w1(1) pk b l assms(1)
    by (simp add: complete_tx_def complete_tx_1if_def Let_def upd_upd upd_len upd_nth recycle_order [of sent cq'] flip: x_def nd_def)
qed (simp add: complete_tx_def complete_tx_1if_def)

lemma wait_tx_single:
  assumes "num_interfaces conf = 1" "good h w"
  shows "wait_tx_1if k conf E n w = wait_tx k conf E 0 0 n w"
  using assms(2)
proof (induction k arbitrary: w)
  case (Suc k)
  obtain w1 where w1: "complete_tx conf E 0 w = Inr w1" "good h w1"
    using complete_tx_good [OF Suc.prems, of 0] assms(1) by auto
  let ?u = "upd_sock 0 (\<lambda>x. x\<lparr>stats := (stats x)\<lparr>tx_wakeup_sendtos := tx_wakeup_sendtos (stats x) + 1\<rparr>\<rparr>) w1"
  have "good h ?u"
    by (rule good_stats [OF w1(2)]) (simp add: assms(1))
  from good_kick [OF this] obtain w2 where "kick_tx E ?u = Inr w2" "good h w2"
    by blast
  then show ?case
    using Suc w1 good_turn [OF w1(2)] complete_tx_single [OF assms(1) Suc.prems] by simp
qed simp

lemma process_pkts_single:
  assumes "num_interfaces conf = 1" "app_ok (wid w) (app w)"
  shows "process_pkts_1if conf E ds dr ft w = process_pkts conf E 0 ds dr ft w"
  using assms(2)
proof (induction ds arbitrary: dr ft w)
  case (Cons d ds)
  obtain ret len w1 where "run_proc E 0 d w = Inr (ret, len, w1)" "app_ok (wid w1) (app w1)"
    "ret = -1 \<or> 0 \<le> ret \<and> nat ret < num_interfaces conf"
    using run_proc_good [OF Cons.prems] by blast
  then show ?case
    using Cons.IH assms(1) by auto
qed simp

lemma process_batch_single:
  assumes "num_interfaces conf = 1" "good h w"
  shows "process_batch_1if k conf E w = process_batch k conf E 0 w"
proof -
  have i: "0 < num_interfaces conf" using assms(1) by simp
  obtain w1 rcvd rx' w2 where w1: "complete_tx conf E 0 w = Inr w1" "good h w1"
    and pk: "cons_peek (batch_size conf) (rx (xsks w1 ! 0)) = (rcvd, rx')" and w2: "w2 = upd_sock 0 (\<lambda>x. x\<lparr>rx := rx'\<rparr>) w1"
    and ap: "app_ok (wid w2) (app w2)"
    and len: "length rcvd \<le> batch_size conf" and g2: "good (ids conf (map fst rcvd) + h) w2" "owned conf 0 (map fst rcvd)"
    by (rule batch_front [OF assms(2) i])
  obtain dr ft w3 w4 where w3: "process_pkts conf E 0 rcvd empty_batch empty_batch w2 = Inr (dr, ft, w3)"
    and w4: "submit_drop 0 dr (upd_sock 0 (\<lambda>x. x\<lparr>stats := (stats x)\<lparr>rx_npkts := rx_npkts (stats x) + of_nat (length rcvd)\<rparr>\<rparr>) w3)
       = Inr w4" "good (batch_ids conf [0..<num_interfaces conf] (addrs ft) + h) w4"
    by (rule batch_back [OF g2 i len])
  have tx: "(if cnt ft 0 \<noteq> 0 then
       (case wait_tx_1if k conf E (unat (cnt ft 0)) w4 of Inl e \<Rightarrow> Inl e
        | Inr w \<Rightarrow> Inr (upd_sock 0 (\<lambda>x. x\<lparr>tx := tx x @ contents ft 0,
            outstanding_tx := outstanding_tx x + unat (cnt ft 0)\<rparr>) w))
     else Inr w4) = submit_tx k conf E 0 [0] ft w4"
    by (simp add: wait_tx_single [OF assms(1) w4(2)] Let_def split: sum.split)
  show ?thesis
    using w1(1) pk w3 w4(1) tx assms(1)
    by (simp add: process_batch_def process_batch_1if_def Let_def complete_tx_single [OF assms]
        process_pkts_single [OF assms(1) ap] flip: w2)
qed

end

end
