(* ===== verification/Xsk_Live.thy ===== *)
theory Xsk_Live
  imports Xsk_Proofs
begin

text \<open>
  The worker loop as a whole: every turn keeps the frames, the waiting loop for room in a tx
  ring ends or does not, and the state after start-up.
\<close>

lemma unat_bound: "unat (x :: u8) < 256"
  using unsigned_less [of x] by simp

context xsk_world
begin

section \<open>Turns of the loop\<close>

lemma all_batches_good:
  assumes "good h w" "set is \<subseteq> {..<num_interfaces conf}"
  shows "(\<exists>w'. all_batches k conf E is w = Inr w' \<and> good h w') \<or> all_batches k conf E is w = Inl XskSpin"
  using assms
proof (induction "is" arbitrary: w)
  case (Cons i js)
  then show ?case
    using process_batch_good [OF Cons.prems(1), of i k] by fastforce
qed simp

lemma do_poll_good: "good h w \<Longrightarrow> good h (do_poll conf E w)"
proof -
  let ?f = "\<lambda>i. upd_sock i (\<lambda>x. x\<lparr>stats := (stats x)\<lparr>opt_polls := opt_polls (stats x) + 1\<rparr>\<rparr>)"
  have "set is \<subseteq> {..<num_interfaces conf} \<Longrightarrow> good h w \<Longrightarrow> good h (fold ?f is w)" for "is" w
    by (induction "is" arbitrary: w) (simp_all add: good_stats)
  then show "good h w \<Longrightarrow> good h (do_poll conf E w)"
    by (simp add: do_poll_def good_turn atLeast0LessThan)
qed

lemma worker_turn_good:
  assumes "good h w"
  shows "(\<exists>w'. worker_turn k conf E w = Inr w' \<and> good h w') \<or> worker_turn k conf E w = Inl XskSpin"
proof -
  let ?w = "if opt_poll conf then do_poll conf E w else w"
  have g: "good h ?w"
    using assms do_poll_good by simp
  show ?thesis
  proof (cases "num_interfaces conf > 1")
    case True
    then show ?thesis
      using assms do_poll_good all_batches_good [OF g, of "[0..<num_interfaces conf]" k]
      by (auto simp: worker_turn_def atLeast0LessThan)
  next
    case False
    then have "num_interfaces conf = 1"
      using interfaces(1) by simp
    from process_batch_single [OF this g] process_batch_good [OF g interfaces(1), of k] False show ?thesis
      using assms do_poll_good by (auto simp: worker_turn_def)
  qed
qed

lemma worker_loop_good:
  "good h w \<Longrightarrow> (\<exists>w'. worker_loop t k conf E w = Inr w' \<and> good h w') \<or> worker_loop t k conf E w = Inl XskSpin"
proof (induction t arbitrary: w)
  case (Suc t)
  then show ?case
    using worker_turn_good [OF Suc.prems, of k] by fastforce
qed simp

end

section \<open>What a wait does to the other sockets\<close>

text \<open>Tx rings only shrink, and no socket but \<open>i\<close> changes the number of its outstanding frames.\<close>

definition quiet :: "nat \<Rightarrow> xsk_socket_info list \<Rightarrow> xsk_socket_info list \<Rightarrow> bool" where
  "quiet i xs ys \<longleftrightarrow> length ys = length xs \<and> (\<forall>j < length xs. length (tx (ys ! j)) \<le> length (tx (xs ! j))
     \<and> (j \<noteq> i \<longrightarrow> outstanding_tx (ys ! j) = outstanding_tx (xs ! j)))"

lemma quiet_refl [simp]: "quiet i xs xs"
  by (simp add: quiet_def)

lemma quiet_trans [trans]: "quiet i xs ys \<Longrightarrow> quiet i ys zs \<Longrightarrow> quiet i xs zs"
  by (auto simp: quiet_def intro: le_trans)

lemma quiet_upd:
  "tx y = tx (xs ! j) \<Longrightarrow> j = i \<or> outstanding_tx y = outstanding_tx (xs ! j) \<Longrightarrow> quiet i xs (xs[j := y])"
  by (cases "j < length xs") (auto simp: quiet_def nth_list_update)

lemma quiet_move: "kernel_move conf xs ys \<Longrightarrow> quiet i xs ys"
  by (induction rule: kernel_move.induct) (auto simp: quiet_def nth_list_update)

lemma quiet_kern: "kernel_ok conf E \<Longrightarrow> quiet i xs (kern E t xs)"
proof -
  have "quiet i xs ys" if "(kernel_move conf)\<^sup>*\<^sup>* xs ys" for ys
    using that by (induction rule: rtranclp_induct) (auto intro: quiet_trans quiet_move)
  then show "kernel_ok conf E \<Longrightarrow> quiet i xs (kern E t xs)"
    by (simp add: kernel_ok_def)
qed

lemma quiet_sock [intro]:
  "(\<And>x. tx (f x) = tx x) \<Longrightarrow> j = i \<or> (\<forall>x. outstanding_tx (f x) = outstanding_tx x) \<Longrightarrow> quiet i (xsks w) (xsks (upd_sock j f w))"
  by (auto simp: upd_sock_def intro: quiet_upd)

lemma quiet_fill: "submit_fill is b w = Inr w' \<Longrightarrow> quiet i (xsks w) (xsks w')"
proof (induction "is" arbitrary: w)
  case (Cons j js)
  have "quiet i (xsks w) (xsks (upd_sock j (\<lambda>x. x\<lparr>fq := fq x @ contents b j\<rparr>) w))"
    by (rule quiet_sock) simp_all
  then show ?case
    using Cons by (auto split: if_splits intro: quiet_trans)
qed simp

lemma fill_cq: "submit_fill is b w = Inr w' \<Longrightarrow> map cq (xsks w') = map cq (xsks w)"
proof (induction "is" arbitrary: w)
  case (Cons j js)
  have "map cq (xsks (upd_sock j (\<lambda>x. x\<lparr>fq := fq x @ contents b j\<rparr>) w)) = map cq (xsks w)"
    by (cases "j < length (xsks w)") (simp_all add: upd_sock_def map_update list_update_same_conv list_update_beyond)
  then show ?case
    using Cons by (auto split: if_splits)
qed simp

context xsk_world
begin

lemma quiet_turn: "quiet i (xsks w) (xsks (kernel_turn E w))"
  by (simp add: kernel_turn_def quiet_kern [OF kernel])

lemma quiet_kick: "kick_tx E w = Inr w' \<Longrightarrow> quiet i (xsks w) (xsks w')"
  by (auto simp: kick_tx_def quiet_turn split: if_splits)

lemma quiet_trigger: "trigger_tx conf E j w = Inr w' \<Longrightarrow> quiet i (xsks w) (xsks w')"
proof -
  have "quiet i (xsks w) (xsks (upd_sock j (\<lambda>x. x\<lparr>stats := f x\<rparr>) w))" for f
    by (rule quiet_sock) simp_all
  from quiet_trans [OF this quiet_kick]
  show "trigger_tx conf E j w = Inr w' \<Longrightarrow> quiet i (xsks w) (xsks w')"
    by (auto simp: trigger_tx_def split: if_splits)
qed

lemma quiet_complete:
  assumes "complete_tx conf E i w = Inr w'"
  shows "quiet i (xsks w) (xsks w')"
proof (cases "outstanding_tx (xsks w ! i) = 0")
  case False
  obtain w1 where w1: "trigger_tx conf E i w = Inr w1"
    using assms False by (auto simp: complete_tx_def split: sum.splits)
  note q1 = quiet_trigger [OF w1, of i]
  obtain sent cq' where pk: "cons_peek (if batch_size conf < outstanding_tx (xsks w1 ! i) then batch_size conf
      else outstanding_tx (xsks w1 ! i)) (cq (xsks w1 ! i)) = (sent, cq')"
    by fastforce
  show ?thesis
  proof (cases "sent = []")
    case True
    have "quiet i (xsks w1) (xsks (upd_sock i (\<lambda>x. x\<lparr>cq := cq'\<rparr>) w1))"
      by (rule quiet_sock) simp_all
    then show ?thesis
      using assms False w1 pk True q1 by (auto simp: complete_tx_def Let_def intro: quiet_trans)
  next
    case ne: False
    let ?w = "upd_sock i (\<lambda>x. x\<lparr>cq := cq', stats := (stats x)\<lparr>tx_npkts := tx_npkts (stats x) + of_nat (length sent)\<rparr>\<rparr>) w1"
    obtain b w3 where w3: "submit_fill [0..<num_interfaces conf] b ?w = Inr w3"
      "w' = upd_sock i (\<lambda>x. x\<lparr>outstanding_tx := outstanding_tx x - length sent\<rparr>) w3"
      using assms False w1 pk ne by (auto simp: complete_tx_def Let_def split: sum.splits)
    have "quiet i (xsks w1) (xsks ?w)" "quiet i (xsks w3) (xsks w')"
      unfolding w3(2) by (rule quiet_sock; simp)+
    then show ?thesis
      using q1 quiet_fill [OF w3(1), of i] by (blast intro: quiet_trans)
  qed
qed (use assms in \<open>simp add: complete_tx_def\<close>)

lemma good_out: "good h w \<Longrightarrow> i < num_interfaces conf \<Longrightarrow> out_ok (xsks w ! i)"
  using outs_nth [of "xsks w" i] by (simp add: worker_good_def xinv_def)

text \<open>After a completion the completion ring has room.\<close>

lemma complete_tx_room:
  assumes "good h w" "i < num_interfaces conf" "0 < batch_size conf" "complete_tx conf E i w = Inr w'"
  shows "length (ring_all (cq (xsks w' ! i))) < NUM_DESCS"
proof (cases "outstanding_tx (xsks w ! i) = 0")
  case True
  then show ?thesis
    using good_out [OF assms(1,2)] assms(4) by (simp add: complete_tx_def out_ok_def NUM_DESCS_def)
next
  case False
  obtain w1 where w1: "trigger_tx conf E i w = Inr w1" "good h w1"
    using good_trigger [OF assms(1,2)] by blast
  have l: "i < length (xsks w1)"
    using good_len [OF w1(2)] assms(2) by simp
  let ?x = "xsks w1 ! i"
  obtain sent cq' where pk: "cons_peek (if batch_size conf < outstanding_tx ?x then batch_size conf
      else outstanding_tx ?x) (cq ?x) = (sent, cq')"
    by fastforce
  note out = good_out [OF w1(2) assms(2)] and all = peek_all [OF pk]
  show ?thesis
  proof (cases "sent = []")
    case True
    then have "ring_all (cq ?x) = []"
      using pk out assms(3) by (auto simp: cons_peek_def ring_all_def out_ok_def Let_def split: if_splits)
    moreover have "w' = upd_sock i (\<lambda>x. x\<lparr>cq := cq'\<rparr>) w1"
      using assms(4) False w1(1) pk True by (simp add: complete_tx_def Let_def)
    ultimately show ?thesis
      using True all l by (simp add: upd_nth NUM_DESCS_def)
  next
    case ne: False
    let ?w = "upd_sock i (\<lambda>x. x\<lparr>cq := cq', stats := (stats x)\<lparr>tx_npkts := tx_npkts (stats x) + of_nat (length sent)\<rparr>\<rparr>) w1"
    obtain b w3 where w3: "submit_fill [0..<num_interfaces conf] b ?w = Inr w3"
      "w' = upd_sock i (\<lambda>x. x\<lparr>outstanding_tx := outstanding_tx x - length sent\<rparr>) w3"
      using assms(4) False w1(1) pk ne by (auto simp: complete_tx_def Let_def split: sum.splits)
    have "map cq (xsks w3) = map cq (xsks ?w)"
      by (rule fill_cq [OF w3(1)])
    then have "cq (xsks w' ! i) = cq'" "i < length (xsks w3)"
      using l map_eq_imp_length_eq [of cq "xsks w3" cq "xsks ?w"] nth_map [of i "xsks w3" cq] nth_map [of i "xsks ?w" cq]
      by (simp_all add: w3(2) upd_nth upd_len)
    then show ?thesis
      using all ne out by (cases sent) (auto simp: out_ok_def)
  qed
qed

text \<open>One round of the waiting loop.\<close>

lemma wait_round:
  assumes "good h w" "ifx < num_interfaces conf" "i < num_interfaces conf"
    "\<not> prod_reserve NUM_DESCS (tx (xsks w ! i)) n"
  obtains w1 w2 where "complete_tx conf E ifx w = Inr w1" "good h w1" "good h w2" "quiet ifx (xsks w1) (xsks w2)"
    "\<exists>t ys. xsks w2 = kern E t ys \<and> length ys = num_interfaces conf \<and> map tx ys = map tx (xsks w1) \<and> map cq ys = map cq (xsks w1)"
    "\<forall>k. wait_tx (Suc k) conf E ifx i n w = wait_tx k conf E ifx i n w2"
proof -
  obtain w1 where w1: "complete_tx conf E ifx w = Inr w1" "good h w1"
    using complete_tx_good [OF assms(1,2)] by blast
  define u where "u = (if busy_poll conf \<or> needs_wakeup E (clock w1) then
      upd_sock i (\<lambda>x. x\<lparr>stats := (stats x)\<lparr>tx_wakeup_sendtos := tx_wakeup_sendtos (stats x) + 1\<rparr>\<rparr>) w1 else w1)"
  have u: "good h u" "quiet ifx (xsks w1) (xsks u)" "length (xsks u) = num_interfaces conf"
    "map tx (xsks u) = map tx (xsks w1)" "map cq (xsks u) = map cq (xsks w1)"
    unfolding u_def using good_stats [OF w1(2) assms(3)] good_len [OF w1(2)] w1(2)
    by (auto simp: upd_sock_def map_update list_update_same_conv assms(3) intro: quiet_upd)
  show thesis
  proof (rule that [OF w1 good_turn [OF u(1)]])
    show "quiet ifx (xsks w1) (xsks (kernel_turn E u))"
      by (rule quiet_trans [OF u(2) quiet_turn])
    show "\<exists>t ys. xsks (kernel_turn E u) = kern E t ys \<and> length ys = num_interfaces conf
        \<and> map tx ys = map tx (xsks w1) \<and> map cq ys = map cq (xsks w1)"
      using u(3-) by (auto simp: kernel_turn_def)
    show "\<forall>k. wait_tx (Suc k) conf E ifx i n w = wait_tx k conf E ifx i n (kernel_turn E u)"
      using assms(4) w1(1) by (simp add: u_def kick_tx_def calls)
  qed
qed

text \<open>
  The transmissions of another interface are not completed while the worker waits: with too
  many of them outstanding the loop never ends.
\<close>

lemma wait_stuck:
  assumes "good h w" "ifx < num_interfaces conf" "i < num_interfaces conf" "i \<noteq> ifx"
    "2 * NUM_DESCS < outstanding_tx (xsks w ! i) + n"
  shows "wait_tx k conf E ifx i n w = Inl XskSpin"
  using assms(1,5)
proof (induction k arbitrary: w)
  case (Suc k)
  have full: "\<not> prod_reserve NUM_DESCS (tx (xsks w ! i)) n"
    using good_out [OF Suc.prems(1) assms(3)] Suc.prems(2) by (simp add: out_ok_def prod_reserve_def)
  obtain w1 w2 where w: "complete_tx conf E ifx w = Inr w1" "good h w2" "quiet ifx (xsks w1) (xsks w2)"
    "\<forall>k. wait_tx (Suc k) conf E ifx i n w = wait_tx k conf E ifx i n w2"
    by (rule wait_round [OF Suc.prems(1) assms(2,3) full])
  have "quiet ifx (xsks w) (xsks w2)"
    by (rule quiet_trans [OF quiet_complete [OF w(1)] w(3)])
  then have "outstanding_tx (xsks w2 ! i) = outstanding_tx (xsks w ! i)"
    using assms(3,4) good_len [OF Suc.prems(1)] by (simp add: quiet_def)
  then show ?case
    using Suc.IH [OF w(2)] Suc.prems(2) by (simp only: w(4) [rule_format])
qed simp

end

section \<open>A kernel that makes progress\<close>

locale xsk_fair = xsk_world +
  assumes some: "0 < batch_size conf"
    and progress: "length xs = num_interfaces conf \<Longrightarrow> i < num_interfaces conf \<Longrightarrow> tx (xs ! i) \<noteq> [] \<Longrightarrow>
      length (ring_all (cq (xs ! i))) < NUM_DESCS \<Longrightarrow> length (tx (kern E t xs ! i)) < length (tx (xs ! i))"
begin

lemma wait_ends:
  assumes "good h w" "ifx < num_interfaces conf" "i < num_interfaces conf" "n \<le> NUM_DESCS"
    "i = ifx \<or> outstanding_tx (xsks w ! i) + n \<le> 2 * NUM_DESCS" "length (tx (xsks w ! i)) < k"
  shows "\<exists>w'. wait_tx k conf E ifx i n w = Inr w' \<and> good h w'"
  using assms(1,5,6)
proof (induction k arbitrary: w)
  case (Suc k)
  show ?case
  proof (cases "prod_reserve NUM_DESCS (tx (xsks w ! i)) n")
    case False
    obtain w1 w2 where w: "complete_tx conf E ifx w = Inr w1" "good h w1" "good h w2" "quiet ifx (xsks w1) (xsks w2)"
      "\<exists>t ys. xsks w2 = kern E t ys \<and> length ys = num_interfaces conf \<and> map tx ys = map tx (xsks w1) \<and> map cq ys = map cq (xsks w1)"
      "\<forall>k. wait_tx (Suc k) conf E ifx i n w = wait_tx k conf E ifx i n w2"
      by (rule wait_round [OF Suc.prems(1) assms(2,3) False])
    note q1 = quiet_complete [OF w(1)]
    note q = quiet_trans [OF q1 w(4)]
    have l: "length (xsks w) = num_interfaces conf" "length (xsks w1) = num_interfaces conf"
      using good_len Suc.prems(1) w(2) by auto
    have out2: "i = ifx \<or> outstanding_tx (xsks w2 ! i) + n \<le> 2 * NUM_DESCS"
      using q Suc.prems(2) assms(3) l by (auto simp: quiet_def)
    have le: "length (tx (xsks w2 ! i)) \<le> length (tx (xsks w1 ! i))" "length (tx (xsks w1 ! i)) \<le> length (tx (xsks w ! i))"
      using q1 w(4) assms(3) l by (simp_all add: quiet_def)
    have pos: "0 < k"
      using Suc.prems(3) False assms(4) by (simp add: prod_reserve_def)
    show ?thesis
    proof (cases "prod_reserve NUM_DESCS (tx (xsks w1 ! i)) n")
      case True
      then have "prod_reserve NUM_DESCS (tx (xsks w2 ! i)) n"
        using le(1) by (simp add: prod_reserve_def)
      then show ?thesis
        using pos w(3) by (cases k) (simp_all only: w(6) [rule_format], simp_all)
    next
      case full: False
      have "length (ring_all (cq (xsks w1 ! i))) < NUM_DESCS"
      proof (cases "i = ifx")
        case True
        then show ?thesis
          using complete_tx_room [OF Suc.prems(1) assms(2) some w(1)] by simp
      next
        case other: False
        have "outstanding_tx (xsks w1 ! i) = outstanding_tx (xsks w ! i)"
          using q1 other assms(3) l by (simp add: quiet_def)
        then show ?thesis
          using good_out [OF w(2) assms(3)] Suc.prems(2) full other by (simp add: out_ok_def prod_reserve_def)
      qed
      moreover obtain t ys where ys: "xsks w2 = kern E t ys" "length ys = num_interfaces conf"
        "map tx ys = map tx (xsks w1)" "map cq ys = map cq (xsks w1)"
        using w(5) by blast
      moreover have "tx (ys ! i) = tx (xsks w1 ! i)" "cq (ys ! i) = cq (xsks w1 ! i)"
        using ys(2-) assms(3) l by (metis nth_map)+
      moreover have "tx (xsks w1 ! i) \<noteq> []"
        using full assms(4) by (auto simp: prod_reserve_def)
      ultimately have "length (tx (xsks w2 ! i)) < length (tx (xsks w1 ! i))"
        using progress [of ys i t] assms(3) by simp
      then have "length (tx (xsks w2 ! i)) < k"
        using le(2) Suc.prems(3) by simp
      from Suc.IH [OF w(3) out2 this] show ?thesis
        by (simp only: w(6) [rule_format])
    qed
  qed (use Suc.prems in simp)
qed simp

text \<open>With one interface every wait ends, so that the loop always goes on.\<close>

lemma submit_tx_live:
  assumes "good h w" "0 < num_interfaces conf" "NUM_DESCS < k"
  shows "\<exists>w'. submit_tx k conf E 0 [0] ft w = Inr w'"
proof -
  have n: "unat (cnt ft 0) \<le> NUM_DESCS"
    using unat_bound [of "cnt ft 0"] by (simp add: NUM_DESCS_def)
  have "length (tx (xsks w ! 0)) < k"
    using good_out [OF assms(1,2)] assms(3) by (simp add: out_ok_def)
  from wait_ends [OF assms(1,2,2) n _ this] show ?thesis
    by (auto simp: Let_def)
qed

lemma process_batch_live:
  assumes "good h w" "num_interfaces conf = 1" "NUM_DESCS < k"
  shows "\<exists>w'. process_batch k conf E 0 w = Inr w' \<and> good h w'"
proof -
  have i: "0 < num_interfaces conf" using assms(2) by simp
  obtain w1 rcvd rx' w2 where w1: "complete_tx conf E 0 w = Inr w1" "good h w1"
    and pk: "cons_peek (batch_size conf) (rx (xsks w1 ! 0)) = (rcvd, rx')" and w2: "w2 = upd_sock 0 (\<lambda>x. x\<lparr>rx := rx'\<rparr>) w1"
    and ap: "app_ok (wid w2) (app w2)"
    and len: "length rcvd \<le> batch_size conf" and g2: "good (ids conf (map fst rcvd) + h) w2" "owned conf 0 (map fst rcvd)"
    by (rule batch_front [OF assms(1) i])
  obtain dr ft w3 w4 where w3: "process_pkts conf E 0 rcvd empty_batch empty_batch w2 = Inr (dr, ft, w3)"
    and w4: "submit_drop 0 dr (upd_sock 0 (\<lambda>x. x\<lparr>stats := (stats x)\<lparr>rx_npkts := rx_npkts (stats x) + of_nat (length rcvd)\<rparr>\<rparr>) w3)
       = Inr w4" "good (batch_ids conf [0..<num_interfaces conf] (\<lambda>i. map fst (contents ft i)) + h) w4"
    by (rule batch_back [OF g2 i len])
  obtain w5 where "submit_tx k conf E 0 [0] ft w4 = Inr w5"
    using submit_tx_live [OF w4(2) i assms(3)] by blast
  then have "\<exists>w'. process_batch k conf E 0 w = Inr w'"
    using w1(1) pk w3 w4(1) assms(2) by (simp add: process_batch_def Let_def flip: w2)
  then show ?thesis
    using process_batch_good [OF assms(1) i, of k] by auto
qed

lemma worker_turn_live:
  assumes "good h w" "num_interfaces conf = 1" "NUM_DESCS < k"
  shows "\<exists>w'. worker_turn k conf E w = Inr w' \<and> good h w'"
proof -
  have g: "good h (if opt_poll conf then do_poll conf E w else w)"
    using assms(1) do_poll_good by simp
  show ?thesis
    using process_batch_single [OF assms(2) g] process_batch_live [OF g assms(2,3)] assms(1,2) do_poll_good
    by (auto simp: worker_turn_def)
qed

lemma worker_loop_live:
  assumes "good h w" "num_interfaces conf = 1" "NUM_DESCS < k"
  shows "\<exists>w'. worker_loop t k conf E w = Inr w' \<and> good h w'"
  using assms(1)
proof (induction t arbitrary: w)
  case (Suc t)
  then show ?case
    using worker_turn_live [OF Suc.prems assms(2,3)] by fastforce
qed simp

end

end
