(* ===== verification/Xsk_Start.thy ===== *)
theory Xsk_Start
  imports Xsk_Live
begin

text \<open>
  The AF_XDP workers at work: the state after start-up, a kernel that follows an arbitrary
  schedule of receptions and completions, and the workers of the switch agent as an instance.
\<close>

section \<open>Addresses of frames\<close>

lemma frame_id_addr:
  assumes "owner_shift conf = FRAMES_PER_SOCKET_SHIFT + s" "k * 2 ^ s < 2 ^ 32" "s \<le> 31"
  shows "frame_id conf (ucast (of_nat (k * 2 ^ s) :: u32)) = k"
proof -
  have "unat (ucast (of_nat (k * 2 ^ s) :: u32) :: u64) = k * 2 ^ s"
    using assms(2) by (simp add: unsigned_ucast_eq unsigned_of_nat take_bit_nat_eq_self del: of_nat_mult of_nat_power)
  moreover have "take_bit 64 (k * 2 ^ s) = k * 2 ^ s"
    by (rule take_bit_nat_eq_self) (use assms(2) in simp)
  ultimately show ?thesis
    unfolding frame_id_def unsigned_drop_bit_eq using assms(1) by (simp add: drop_bit_eq_div)
qed

lemma fill_addrs_ids:
  assumes "owner_shift conf = FRAMES_PER_SOCKET_SHIFT + s" "s \<le> 31" "i < num_interfaces conf"
    "num_interfaces conf * FRAMES_PER_SOCKET * 2 ^ s \<le> 2 ^ 32"
  shows "map (frame_id conf) (fill_addrs (of_nat i * of_nat FRAMES_PER_SOCKET) (2 ^ s))
     = [i * FRAMES_PER_SOCKET..<i * FRAMES_PER_SOCKET + FRAMES_PER_SOCKET]"
proof -
  have "frame_id conf (ucast ((of_nat i * of_nat FRAMES_PER_SOCKET + of_nat j) * 2 ^ s :: u32))
      = i * FRAMES_PER_SOCKET + j" if "j < FRAMES_PER_SOCKET" for j
  proof -
    have "i * FRAMES_PER_SOCKET + j < num_interfaces conf * FRAMES_PER_SOCKET"
      using that assms(3) mult_le_mono1 [of "Suc i" "num_interfaces conf" FRAMES_PER_SOCKET] by simp
    then have "(i * FRAMES_PER_SOCKET + j) * 2 ^ s < num_interfaces conf * FRAMES_PER_SOCKET * 2 ^ s"
      by simp
    then have "(i * FRAMES_PER_SOCKET + j) * 2 ^ s < 2 ^ 32"
      using assms(4) by (rule less_le_trans)
    from frame_id_addr [OF assms(1) this assms(2)] show ?thesis by simp
  qed
  then show ?thesis
    by (simp add: fill_addrs_def list_eq_iff_nth_eq)
qed

section \<open>The sockets after start-up\<close>

lemma frames_ranges:
  "(\<And>i. i < length xs \<Longrightarrow> sock_frames conf (xs ! i) = mset [i * c..<i * c + c]) \<Longrightarrow>
     frames conf xs = mset [0..<length xs * c]"
proof (induction xs rule: rev_induct)
  case (snoc x xs)
  have "sock_frames conf ((xs @ [x]) ! i) = mset [i * c..<i * c + c]" if "i \<le> length xs" for i
    using snoc.prems that by simp
  from this [of "length xs"] have x: "sock_frames conf x = mset [length xs * c..<length xs * c + c]"
    by (simp del: mset_upt)
  have "frames conf xs = mset [0..<length xs * c]"
  proof (rule snoc.IH)
    show "sock_frames conf (xs ! i) = mset [i * c..<i * c + c]" if "i < length xs" for i
      using snoc.prems [of i] that by (simp add: nth_append del: mset_upt)
  qed
  then show ?case
    using x upt_add_eq_append [of 0 "length xs * c" c] by (simp add: frames_def add.commute del: mset_upt flip: mset_append)
qed (simp add: frames_def)

lemma init_sockets_good:
  assumes "owner_shift conf = FRAMES_PER_SOCKET_SHIFT + s" "s \<le> 31" "num_interfaces conf = length flags"
    "num_interfaces conf * FRAMES_PER_SOCKET * 2 ^ s \<le> 2 ^ 32"
  shows "xinv conf {#} (init_sockets flags (2 ^ s)) \<and> outs (init_sockets flags (2 ^ s))"
proof -
  let ?xs = "init_sockets flags (2 ^ s)"
  have len: "length ?xs = num_interfaces conf"
    by (simp add: init_sockets_def assms(3))
  have nth: "\<exists>f b. ?xs ! i = xsk_configure_socket f b (of_nat i * of_nat FRAMES_PER_SOCKET) (2 ^ s)"
    if "i < num_interfaces conf" for i
    using that assms(3) by (auto simp: init_sockets_def nth_enumerate_eq)
  have fr: "sock_frames conf (?xs ! i) = mset [i * FRAMES_PER_SOCKET..<i * FRAMES_PER_SOCKET + FRAMES_PER_SOCKET]
      \<and> sock_ok conf i (?xs ! i) \<and> out_ok (?xs ! i)" if i: "i < num_interfaces conf" for i
  proof -
    note ids = fill_addrs_ids [OF assms(1,2) i assms(4)]
    have "owned conf i (fill_addrs (of_nat i * of_nat FRAMES_PER_SOCKET) (2 ^ s))"
    proof -
      have "f div FRAMES_PER_SOCKET = i" if "f \<in> set [i * FRAMES_PER_SOCKET..<i * FRAMES_PER_SOCKET + FRAMES_PER_SOCKET]" for f
        using that div_eq_interval [of FRAMES_PER_SOCKET f i] by (simp add: FRAMES_PER_SOCKET_def)
      then show ?thesis
        unfolding owned_def using ids by (metis image_eqI list.set_map)
    qed
    moreover obtain f b where "?xs ! i = xsk_configure_socket f b (of_nat i * of_nat FRAMES_PER_SOCKET) (2 ^ s)"
      using nth [OF i] by blast
    ultimately show ?thesis
      using arg_cong [OF ids, of mset]
      by (simp add: xsk_configure_socket_def sock_frames_def ids_def ring_all_def sock_ok_def out_ok_def del: mset_upt mset_map)
  qed
  show ?thesis
    using len fr frames_ranges [of ?xs conf FRAMES_PER_SOCKET]
    by (auto simp: xinv_def all_frames_def outs_def in_set_conv_nth simp del: mset_upt)
qed

lemma ffs_from_pow: "i \<le> s \<Longrightarrow> s < i + k \<Longrightarrow> s < 32 \<Longrightarrow> ffs_from k i (2 ^ s :: u32) = Suc s"
proof (induction k arbitrary: i)
  case (Suc k)
  then show ?case
    by (cases "i = s") (auto simp: bit_exp_iff)
qed simp

text \<open>The shift that start-up computes for a power of two is the one that divides addresses among sockets.\<close>

lemma init_owner_shift_pow: "s < 32 \<Longrightarrow> init_owner_shift (2 ^ s) = FRAMES_PER_SOCKET_SHIFT + s"
  using ffs_from_pow [of 0 s 32] by (simp add: init_owner_shift_def ffs_def)

section \<open>A kernel that follows a schedule\<close>

text \<open>
  The kernel receives frames and completes transmissions in any order that the schedule gives;
  what the state of the rings does not allow does not happen.  \<open>sched_kern\<close> also completes a
  transmission of every socket per turn, if the completion ring has room.
\<close>

datatype kernel_action = Receive nat u64 u32 | Complete nat

fun do_action :: "xsk_conf \<Rightarrow> kernel_action \<Rightarrow> xsk_socket_info list \<Rightarrow> xsk_socket_info list" where
  "do_action conf (Receive i a' l) xs =
     (if i < length xs \<and> length (ring_all (rx (xs ! i))) < NUM_DESCS then
        (case fq (xs ! i) of
           [] \<Rightarrow> xs
         | a # q \<Rightarrow>
             if frame_id conf a' = frame_id conf a then
               xs[i := (xs ! i)\<lparr>fq := q, rx := (rx (xs ! i))\<lparr>fresh := fresh (rx (xs ! i)) @ [(a', l)]\<rparr>\<rparr>]
             else xs)
      else xs)"
| "do_action conf (Complete i) xs =
     (if i < length xs \<and> length (ring_all (cq (xs ! i))) < NUM_DESCS then
        (case tx (xs ! i) of
           [] \<Rightarrow> xs
         | (a, l) # q \<Rightarrow> xs[i := (xs ! i)\<lparr>tx := q, cq := (cq (xs ! i))\<lparr>fresh := fresh (cq (xs ! i)) @ [a]\<rparr>\<rparr>])
      else xs)"

definition sched_kern :: "xsk_conf \<Rightarrow> (nat \<Rightarrow> kernel_action list) \<Rightarrow> nat \<Rightarrow> xsk_socket_info list \<Rightarrow> xsk_socket_info list" where
  "sched_kern conf sched t xs = fold (do_action conf) (map Complete [0..<length xs] @ sched t) xs"

lemma do_action_move: "(kernel_move conf)\<^sup>*\<^sup>* xs (do_action conf act xs)"
  by (cases act) (auto split: list.split intro!: r_into_rtranclp kernel_move.intros)

lemma do_actions_move: "(kernel_move conf)\<^sup>*\<^sup>* xs (fold (do_action conf) acts xs)"
proof (induction acts arbitrary: xs)
  case (Cons act acts)
  show ?case
    using rtranclp_trans [OF do_action_move Cons.IH] by simp
qed simp

lemma quiet_actions: "quiet i xs (fold (do_action conf) acts xs)"
proof -
  have "quiet i xs ys" if "(kernel_move conf)\<^sup>*\<^sup>* xs ys" for ys
    using that by (induction rule: rtranclp_induct) (auto intro: quiet_trans quiet_move)
  then show ?thesis using do_actions_move by blast
qed

lemma do_complete_other: "j \<noteq> i \<Longrightarrow> do_action conf (Complete j) xs ! i = xs ! i"
  by (auto split: list.split)

lemma do_complete_progress:
  "i < length xs \<Longrightarrow> tx (xs ! i) \<noteq> [] \<Longrightarrow> length (ring_all (cq (xs ! i))) < NUM_DESCS \<Longrightarrow>
     length (tx (do_action conf (Complete i) xs ! i)) < length (tx (xs ! i))"
  by (auto split: list.split)

lemma completes_progress:
  assumes "i \<in> set is" "i < length xs" "tx (xs ! i) \<noteq> []" "length (ring_all (cq (xs ! i))) < NUM_DESCS"
  shows "length (tx (fold (do_action conf) (map Complete is) xs ! i)) < length (tx (xs ! i))"
  using assms
proof (induction "is" arbitrary: xs)
  case (Cons j js)
  let ?ys = "do_action conf (Complete j) xs"
  show ?case
  proof (cases "j = i")
    case True
    have "quiet 0 ?ys (fold (do_action conf) (map Complete js) ?ys)"
      by (rule quiet_actions)
    moreover have "quiet 0 xs ?ys"
      using quiet_actions [of 0 xs conf "[Complete j]"] by simp
    ultimately show ?thesis
      using do_complete_progress [OF Cons.prems(2-), of conf] Cons.prems(2) True
      by (auto simp: quiet_def simp del: do_action.simps intro: le_less_trans)
  next
    case False
    have "length ?ys = length xs"
      by (auto split: list.split)
    then show ?thesis
      using Cons.IH [of ?ys] Cons.prems do_complete_other [OF False, of conf xs] False by (simp del: do_action.simps)
  qed
qed simp

lemma sched_progress:
  assumes "i < length xs" "tx (xs ! i) \<noteq> []" "length (ring_all (cq (xs ! i))) < NUM_DESCS"
  shows "length (tx (sched_kern conf sched t xs ! i)) < length (tx (xs ! i))"
proof -
  let ?ys = "fold (do_action conf) (map Complete [0..<length xs]) xs"
  have "quiet 0 xs ?ys" "quiet 0 ?ys (sched_kern conf sched t xs)"
    unfolding sched_kern_def using quiet_actions by auto
  then show ?thesis
    using completes_progress [of i "[0..<length xs]" xs conf] assms by (auto simp: quiet_def intro: le_less_trans)
qed

lemma sched_kernel_ok: "kern E = sched_kern conf sched \<Longrightarrow> kernel_ok conf E"
  by (simp add: kernel_ok_def sched_kern_def do_actions_move del: fold_append)

section \<open>Statistics\<close>

text \<open>
  \<open>getsockopt\<close> is a parameter: it is called with the length of the caller's buffer and gives
  \<open>Inl\<close> an error number or \<open>Inr\<close> the statistics and the length that it has stored.
\<close>

record xdp_statistics =
  rx_dropped :: u64
  rx_invalid_descs :: u64
  tx_invalid_descs :: u64
  rx_ring_full :: u64
  rx_fill_ring_empty_descs :: u64
  tx_ring_empty_descs :: u64

definition sizeof_pointer :: nat where "sizeof_pointer = 8"
definition sizeof_xdp_statistics :: nat where "sizeof_xdp_statistics = 48"
definition EINVAL :: int where "EINVAL = 22"

type_synonym getsockopt_t = "nat \<Rightarrow> int + (xdp_statistics \<times> nat)"

definition xsk_get_xdp_stats :: "getsockopt_t \<Rightarrow> xsknf_socket_stats \<Rightarrow> int \<times> xsknf_socket_stats" where
  "xsk_get_xdp_stats getsockopt st =
     (case getsockopt sizeof_pointer of
        Inl err \<Rightarrow> (err, st)
      | Inr (xs, optlen) \<Rightarrow>
          if optlen = sizeof_xdp_statistics
          then (0, st\<lparr>rx_dropped_npkts := rx_dropped xs, rx_invalid_npkts := rx_invalid_descs xs,
                 tx_invalid_npkts := tx_invalid_descs xs, rx_full_npkts := rx_ring_full xs,
                 rx_fill_empty_npkts := rx_fill_ring_empty_descs xs, tx_empty_npkts := tx_ring_empty_descs xs\<rparr>)
          else (- EINVAL, st))"

definition xsknf_get_socket_stats :: "getsockopt_t \<Rightarrow> nat \<Rightarrow> 'st worker \<Rightarrow> xsknf_socket_stats \<times> 'st worker" where
  "xsknf_get_socket_stats getsockopt iface_idx w =
     (let w = upd_sock iface_idx (\<lambda>x. x\<lparr>stats := snd (xsk_get_xdp_stats getsockopt (stats x))\<rparr>) w
      in (stats (xsks w ! iface_idx), w))"

text \<open>
  The length passed is that of a pointer.  A \<open>getsockopt\<close> that never stores more than the length
  it was given therefore fills in nothing: the caller sees the six kernel counters as they were.
\<close>

theorem kernel_stats_never_read:
  assumes "iface < length (xsks w)" "\<And>len v. getsockopt len = Inr v \<Longrightarrow> snd v \<le> len"
  shows "xsknf_get_socket_stats getsockopt iface w = (stats (xsks w ! iface), w)"
proof -
  have "snd (xsk_get_xdp_stats getsockopt st) = st" for st
    using assms(2) [of sizeof_pointer]
    by (auto simp: xsk_get_xdp_stats_def sizeof_pointer_def sizeof_xdp_statistics_def split: sum.split)
  then show ?thesis
    using assms(1) by (simp add: xsknf_get_socket_stats_def upd_sock_def)
qed

end
