(* ===== verification/Xsk_Config.thy ===== *)
theory Xsk_Config
  imports Xsk_Start
begin

text \<open>
  The configuration of the framework: the options of \<open>xsknf_parse_args\<close>, the bind flags and the
  socket layout of \<open>xsknf_init\<close>.  The options come as the sequence of results of
  \<open>getopt_long\<close>, each with its argument; leaving the program with the usage text and writing
  outside an array of \<open>struct xsknf_config\<close> are error values.
\<close>

section \<open>Numbers\<close>

text \<open>\<open>atoi\<close>: white space, a sign, decimal digits, the result of \<open>strtol\<close> cut to an \<open>int\<close>.\<close>

definition is_space :: "char \<Rightarrow> bool" where
  "is_space c \<longleftrightarrow> c \<in> {CHR '' '', CHR 0x09, CHR 0x0a, CHR 0x0b, CHR 0x0c, CHR 0x0d}"

fun digits :: "nat \<Rightarrow> string \<Rightarrow> nat" where
  "digits acc [] = acc"
| "digits acc (c # cs) =
     (let d = of_char c :: nat in if 48 \<le> d \<and> d \<le> 57 then digits (acc * 10 + (d - 48)) cs else acc)"

definition strtol10 :: "string \<Rightarrow> int" where
  "strtol10 s =
     (let v = (case dropWhile is_space s of
                 [] \<Rightarrow> 0
               | c # cs \<Rightarrow> if c = CHR ''-'' then - int (digits 0 cs)
                          else if c = CHR ''+'' then int (digits 0 cs) else int (digits 0 (c # cs)))
      in max (- (2 ^ 63)) (min (2 ^ 63 - 1) v))"

definition atoi :: "string \<Rightarrow> u32" where
  "atoi s = word_of_int (strtol10 s)"

section \<open>Options\<close>

definition XSKNF_MAX_INTERFACES :: nat where "XSKNF_MAX_INTERFACES = 32"
definition MODE_AF_XDP :: u32 where "MODE_AF_XDP = 1"
definition MODE_XDP :: u32 where "MODE_XDP = 2"
definition MODE_COMBINED :: u32 where "MODE_COMBINED = MODE_AF_XDP OR MODE_XDP"
definition XDP_FLAGS_UPDATE_IF_NOEXIST :: u32 where "XDP_FLAGS_UPDATE_IF_NOEXIST = 1"
definition XDP_FLAGS_SKB_MODE :: u32 where "XDP_FLAGS_SKB_MODE = 2"
definition XDP_FLAGS_DRV_MODE :: u32 where "XDP_FLAGS_DRV_MODE = 4"
definition DEFAULT_BIND_FLAGS :: u32 where "DEFAULT_BIND_FLAGS = XDP_USE_NEED_WAKEUP"

text \<open>The arrays \<open>interfaces\<close> and \<open>bind_flags\<close> are lists of \<open>num_interfaces\<close> entries.\<close>

record xsknf_config =
  c_interfaces :: "string list"
  c_bind_flags :: "u32 list"
  c_workers :: u32
  c_working_mode :: u32
  c_xdp_flags :: u32
  c_batch_size :: u32
  c_poll :: bool
  c_unaligned_chunks :: bool
  c_xsk_frame_size :: u32
  c_busy_poll :: bool
  c_ebpf_filename :: string

datatype conf_error = Usage | ConfFault

definition default_conf :: xsknf_config where
  "default_conf = \<lparr>c_interfaces = [], c_bind_flags = [], c_workers = 1, c_working_mode = MODE_AF_XDP,
     c_xdp_flags = XDP_FLAGS_UPDATE_IF_NOEXIST, c_batch_size = 64, c_poll = False, c_unaligned_chunks = False,
     c_xsk_frame_size = 4096, c_busy_poll = False, c_ebpf_filename = ''''\<rparr>"

text \<open>The argument of \<open>-i\<close>: a name, optionally with a colon and a copy mode.\<close>

definition iface_flags :: "string \<Rightarrow> conf_error + u32" where
  "iface_flags arg =
     (case dropWhile (\<lambda>x. x \<noteq> CHR '':'') arg of
        [] \<Rightarrow> Inr DEFAULT_BIND_FLAGS
      | _ # mode \<Rightarrow>
          if take 1 mode = ''c'' then Inr (DEFAULT_BIND_FLAGS OR XDP_COPY)
          else if take 1 mode = ''z'' then Inr (DEFAULT_BIND_FLAGS OR XDP_ZEROCOPY)
          else Inl Usage)"

text \<open>
  The code does not check the number of interfaces.  At the 33rd it writes \<open>bind_flags[32]\<close>, outside
  the array (the memory of \<open>num_interfaces\<close>); what the program does from there on is undefined, and the
  error value \<open>ConfFault\<close> stands for it.
\<close>

definition parse_iface :: "string \<Rightarrow> xsknf_config \<Rightarrow> conf_error + xsknf_config" where
  "parse_iface arg c =
     (if length (c_interfaces c) \<ge> XSKNF_MAX_INTERFACES then Inl ConfFault
      else
        (case iface_flags arg of
           Inl e \<Rightarrow> Inl e
         | Inr f \<Rightarrow> Inr (c\<lparr>c_interfaces := c_interfaces c @ [takeWhile (\<lambda>x. x \<noteq> CHR '':'') arg],
                         c_bind_flags := c_bind_flags c @ [f]\<rparr>)))"

definition parse_opt :: "char \<times> string \<Rightarrow> xsknf_config \<Rightarrow> conf_error + xsknf_config" where
  "parse_opt opt c =
     (let (ch, optarg) = opt
      in if ch = CHR ''i'' then parse_iface optarg c
         else if ch = CHR ''p'' then Inr (c\<lparr>c_poll := True\<rparr>)
         else if ch = CHR ''S'' then Inr (c\<lparr>c_xdp_flags := c_xdp_flags c OR XDP_FLAGS_SKB_MODE\<rparr>)
         else if ch = CHR ''u'' then Inr (c\<lparr>c_unaligned_chunks := True\<rparr>)
         else if ch = CHR ''f'' then Inr (c\<lparr>c_xsk_frame_size := atoi optarg\<rparr>)
         else if ch = CHR ''b'' then Inr (c\<lparr>c_batch_size := atoi optarg\<rparr>)
         else if ch = CHR ''B'' then Inr (c\<lparr>c_busy_poll := True\<rparr>)
         else if ch = CHR ''M'' then
           if optarg = ''AF_XDP'' then Inr (c\<lparr>c_working_mode := MODE_AF_XDP\<rparr>)
           else if optarg = ''XDP'' then Inr (c\<lparr>c_working_mode := MODE_XDP\<rparr>)
           else if optarg = ''COMBINED'' then Inr (c\<lparr>c_working_mode := MODE_COMBINED\<rparr>)
           else Inl Usage
         else if ch = CHR ''w'' then
           if atoi optarg < 1 then Inl Usage else Inr (c\<lparr>c_workers := atoi optarg\<rparr>)
         else Inl Usage)"

fun parse_opts :: "(char \<times> string) list \<Rightarrow> xsknf_config \<Rightarrow> conf_error + xsknf_config" where
  "parse_opts [] c = Inr c"
| "parse_opts (x # xs) c = (case parse_opt x c of Inl e \<Rightarrow> Inl e | Inr c \<Rightarrow> parse_opts xs c)"

definition xsknf_parse_args :: "string \<Rightarrow> (char \<times> string) list \<Rightarrow> conf_error + xsknf_config" where
  "xsknf_parse_args argv0 opts =
     (if length argv0 + 8 > 256 then Inl ConfFault
      else
        (case parse_opts opts (default_conf\<lparr>c_ebpf_filename := argv0 @ ''_kern.o''\<rparr>) of
           Inl e \<Rightarrow> Inl e
         | Inr c \<Rightarrow>
             if c_interfaces c = [] then Inl Usage
             else
               (let c = (if c_xdp_flags c AND XDP_FLAGS_SKB_MODE = 0
                         then c\<lparr>c_xdp_flags := c_xdp_flags c OR XDP_FLAGS_DRV_MODE\<rparr> else c)
                in if c_xsk_frame_size c AND (c_xsk_frame_size c - 1) \<noteq> 0 \<and> \<not> c_unaligned_chunks c then Inl Usage
                   else Inr c)))"

section \<open>Initialisation\<close>

text \<open>The copy mode of a socket.\<close>

definition init_bind_flags :: "u32 \<Rightarrow> u32 \<Rightarrow> u32" where
  "init_bind_flags xdp_flags f =
     (let f = (if xdp_flags AND XDP_FLAGS_SKB_MODE \<noteq> 0 then (f AND NOT XDP_ZEROCOPY) OR XDP_COPY else f)
      in if f AND (XDP_COPY OR XDP_ZEROCOPY) = 0 then f OR XDP_ZEROCOPY else f)"

definition worker_conf :: "xsknf_config \<Rightarrow> xsk_conf" where
  "worker_conf c = \<lparr>num_interfaces = length (c_interfaces c), batch_size = unat (c_batch_size c), opt_poll = c_poll c,
     busy_poll = c_busy_poll c, owner_shift = init_owner_shift (c_xsk_frame_size c)\<rparr>"

text \<open>The sockets of a worker.\<close>

definition xsknf_init_sockets :: "xsknf_config \<Rightarrow> xsk_socket_info list" where
  "xsknf_init_sockets c = init_sockets (map (init_bind_flags (c_xdp_flags c)) (c_bind_flags c)) (c_xsk_frame_size c)"

text \<open>
  The map \<open>xsks\<close> has a fixed number of entries; an update with a key beyond them fails, and the code then
  leaves the program (\<open>None\<close>).
\<close>

definition enter_xsks_into_map :: "nat \<Rightarrow> nat \<Rightarrow> nat \<Rightarrow> (nat \<Rightarrow> nat \<Rightarrow> 'fd) \<Rightarrow> (nat \<times> 'fd) list option" where
  "enter_xsks_into_map max_entries num_ifaces workers fd =
     foldl (\<lambda>r (if_idx, wrk_idx). case r of
         None \<Rightarrow> None
       | Some xmap \<Rightarrow>
           (let key = if_idx * workers + wrk_idx
            in if key < max_entries then Some (xmap @ [(key, fd wrk_idx if_idx)]) else None))
       (Some []) (List.product [0..<num_ifaces] [0..<workers])"

section \<open>Accepted configurations\<close>

text \<open>Every entry of \<open>bind_flags\<close> that an option writes.\<close>

definition opt_flags :: "u32 set" where
  "opt_flags = {DEFAULT_BIND_FLAGS, DEFAULT_BIND_FLAGS OR XDP_COPY, DEFAULT_BIND_FLAGS OR XDP_ZEROCOPY}"

definition conf_ok :: "xsknf_config \<Rightarrow> bool" where
  "conf_ok c \<longleftrightarrow> length (c_bind_flags c) = length (c_interfaces c) \<and> length (c_interfaces c) \<le> XSKNF_MAX_INTERFACES
     \<and> set (c_bind_flags c) \<subseteq> opt_flags \<and> c_workers c \<noteq> 0
     \<and> c_working_mode c \<in> {MODE_AF_XDP, MODE_XDP, MODE_COMBINED}
     \<and> c_xdp_flags c \<in> {XDP_FLAGS_UPDATE_IF_NOEXIST, XDP_FLAGS_UPDATE_IF_NOEXIST OR XDP_FLAGS_SKB_MODE}"

lemma default_conf_ok: "conf_ok (default_conf\<lparr>c_ebpf_filename := f\<rparr>)"
  by (simp add: conf_ok_def default_conf_def)

lemma iface_flags_ok: "iface_flags arg = Inr f \<Longrightarrow> f \<in> opt_flags"
  by (auto simp: iface_flags_def opt_flags_def split: list.splits if_splits)

lemma parse_iface_ok: "parse_iface arg c = Inr c' \<Longrightarrow> conf_ok c \<Longrightarrow> conf_ok c'"
  by (auto simp: parse_iface_def conf_ok_def iface_flags_ok split: if_splits sum.splits)

lemma conf_ok_upd:
  "conf_ok (c\<lparr>c_poll := b\<rparr>) = conf_ok c" "conf_ok (c\<lparr>c_unaligned_chunks := b\<rparr>) = conf_ok c"
  "conf_ok (c\<lparr>c_busy_poll := b\<rparr>) = conf_ok c" "conf_ok (c\<lparr>c_batch_size := v\<rparr>) = conf_ok c"
  "conf_ok (c\<lparr>c_xsk_frame_size := v\<rparr>) = conf_ok c"
  by (simp_all add: conf_ok_def)

lemma conf_ok_skb: "conf_ok c \<Longrightarrow> conf_ok (c\<lparr>c_xdp_flags := c_xdp_flags c OR XDP_FLAGS_SKB_MODE\<rparr>)"
  by (auto simp: conf_ok_def or.assoc)

lemma conf_ok_mode: "conf_ok c \<Longrightarrow> v \<in> {MODE_AF_XDP, MODE_XDP, MODE_COMBINED} \<Longrightarrow> conf_ok (c\<lparr>c_working_mode := v\<rparr>)"
  by (simp add: conf_ok_def)

lemma conf_ok_workers: "conf_ok c \<Longrightarrow> v \<noteq> 0 \<Longrightarrow> conf_ok (c\<lparr>c_workers := v\<rparr>)"
  by (simp add: conf_ok_def)

lemmas conf_ok_step = conf_ok_upd conf_ok_skb conf_ok_mode conf_ok_workers parse_iface_ok

lemma parse_opt_ok:
  assumes "parse_opt x c = Inr c'" "conf_ok c"
  shows "conf_ok c'"
proof -
  obtain ch arg where "x = (ch, arg)" by fastforce
  with assms(1) show ?thesis
    unfolding parse_opt_def Let_def
    by (simp split: if_split_asm del: insert_iff) (use assms(2) in \<open>auto simp: conf_ok_step\<close>)
qed

lemma parse_opts_ok: "parse_opts xs c = Inr c' \<Longrightarrow> conf_ok c \<Longrightarrow> conf_ok c'"
  by (induction xs arbitrary: c) (auto split: sum.splits dest: parse_opt_ok)



lemma parsed_flags:
  assumes "xsknf_parse_args argv0 opts = Inr c"
  shows "length (c_bind_flags c) = length (c_interfaces c) \<and> set (c_bind_flags c) \<subseteq> opt_flags"
proof -
  obtain c1 where "parse_opts opts (default_conf\<lparr>c_ebpf_filename := argv0 @ ''_kern.o''\<rparr>) = Inr c1"
    "c_interfaces c1 = c_interfaces c" "c_bind_flags c1 = c_bind_flags c"
    using assms by (auto simp: xsknf_parse_args_def Let_def split: sum.splits if_splits)
  then show ?thesis
    using parse_opts_ok [OF _ default_conf_ok, of opts] by (metis conf_ok_def)
qed










text \<open>Two interfaces, one in copy mode, with busy polling and two workers.\<close>

definition sample_opts :: "(char \<times> string) list" where
  "sample_opts = [(CHR ''i'', ''eth0:c''), (CHR ''i'', ''eth1''), (CHR ''B'', ''''), (CHR ''w'', ''2''), (CHR ''f'', ''2048'')]"

definition sample_conf :: xsknf_config where
  "sample_conf = default_conf\<lparr>c_interfaces := [''eth0'', ''eth1''], c_bind_flags := [10, 8], c_workers := 2,
     c_xdp_flags := 5, c_busy_poll := True, c_xsk_frame_size := 2048, c_ebpf_filename := ''agent_kern.o''\<rparr>"

lemma sample_opts_parse: "xsknf_parse_args ''agent'' sample_opts = Inr sample_conf"
  by (simp add: xsknf_parse_args_def sample_opts_def sample_conf_def parse_opt_def parse_iface_def iface_flags_def
      default_conf_def DEFAULT_BIND_FLAGS_def XDP_COPY_def XDP_ZEROCOPY_def XDP_USE_NEED_WAKEUP_def XSKNF_MAX_INTERFACES_def
      atoi_def strtol10_def is_space_def XDP_FLAGS_UPDATE_IF_NOEXIST_def XDP_FLAGS_SKB_MODE_def XDP_FLAGS_DRV_MODE_def Let_def)



text \<open>The frame size zero is accepted.\<close>

lemma zero_frame_size_accepted:
  "\<exists>c. xsknf_parse_args ''agent'' [(CHR ''i'', ''eth0''), (CHR ''f'', ''0'')] = Inr c \<and> c_xsk_frame_size c = 0 \<and> \<not> c_unaligned_chunks c"
  by (simp add: xsknf_parse_args_def parse_opt_def parse_iface_def iface_flags_def default_conf_def XSKNF_MAX_INTERFACES_def
      atoi_def strtol10_def is_space_def Let_def XDP_FLAGS_UPDATE_IF_NOEXIST_def XDP_FLAGS_SKB_MODE_def)

section \<open>From options to workers\<close>

text \<open>Every socket gets exactly one copy mode, and in SKB mode it is copy mode.\<close>

lemma init_bind_flags_mode:
  "f \<in> opt_flags \<Longrightarrow> (init_bind_flags x f AND XDP_COPY \<noteq> 0) \<noteq> (init_bind_flags x f AND XDP_ZEROCOPY \<noteq> 0)
     \<and> (x AND XDP_FLAGS_SKB_MODE \<noteq> 0 \<longrightarrow> init_bind_flags x f AND XDP_COPY \<noteq> 0)"
  by (auto simp: opt_flags_def init_bind_flags_def Let_def DEFAULT_BIND_FLAGS_def XDP_COPY_def XDP_ZEROCOPY_def
      XDP_USE_NEED_WAKEUP_def)

text \<open>
  From the command line to the first turn of the loop.  Every accepted configuration with
  aligned chunks of a power of two whose UMEM fits 32 bits starts its workers with every frame in
  the fill ring of the socket that owns it, and every socket has exactly one copy mode.
\<close>

theorem configured_workers_start:
  assumes "xsknf_parse_args argv0 opts = Inr c" "c_xsk_frame_size c = 2 ^ s" "s < 32"
    "length (c_interfaces c) * FRAMES_PER_SOCKET * 2 ^ s \<le> 2 ^ 32"
  shows "xinv (worker_conf c) {#} (xsknf_init_sockets c) \<and> outs (xsknf_init_sockets c)
    \<and> (\<forall>x \<in> set (xsknf_init_sockets c). (bind_flags x AND XDP_COPY \<noteq> 0) \<noteq> (bind_flags x AND XDP_ZEROCOPY \<noteq> 0))"
proof -
  let ?fl = "map (init_bind_flags (c_xdp_flags c)) (c_bind_flags c)"
  have l: "length (c_bind_flags c) = length (c_interfaces c)" and fl: "set (c_bind_flags c) \<subseteq> opt_flags"
    using parsed_flags [OF assms(1)] by blast+
  have "owner_shift (worker_conf c) = FRAMES_PER_SOCKET_SHIFT + s"
    using init_owner_shift_pow [OF assms(3)] by (simp add: worker_conf_def assms(2))
  then have "xinv (worker_conf c) {#} (init_sockets ?fl (2 ^ s)) \<and> outs (init_sockets ?fl (2 ^ s))"
    by (rule init_sockets_good) (use assms l in \<open>simp_all add: worker_conf_def\<close>)
  moreover have "(bind_flags x AND XDP_COPY \<noteq> 0) \<noteq> (bind_flags x AND XDP_ZEROCOPY \<noteq> 0)"
    if x: "x \<in> set (xsknf_init_sockets c)" for x
  proof -
    obtain a where "a < length (c_bind_flags c)" "bind_flags x = init_bind_flags (c_xdp_flags c) (c_bind_flags c ! a)"
      using x by (auto simp: xsknf_init_sockets_def init_sockets_def xsk_configure_socket_def in_set_enumerate_eq)
    then show ?thesis
      using init_bind_flags_mode fl nth_mem by (metis subsetD)
  qed
  ultimately show ?thesis
    by (auto simp: xsknf_init_sockets_def assms(2))
qed

theorem configured_workers_start_witness:
  "xinv (worker_conf sample_conf) {#} (xsknf_init_sockets sample_conf)"
  using configured_workers_start [OF sample_opts_parse, of 11]
  by (simp add: sample_conf_def FRAMES_PER_SOCKET_def FRAMES_PER_SOCKET_SHIFT_def)

end
