(* ===== verification/Switch_Start.thy ===== *)
theory Switch_Start
  imports Deployment Xsk_Config
begin

text \<open>
  The switch agent as a process, \<open>swich_agent\<close> in \<open>examples/htscookie/switch_agent_user.c\<close>: its
  command line, the addresses of \<open>common/address.h\<close>, the start-up, and the main loop, which ends
  the periods during which cookies made under old seeds are accepted.  Workers handle frames
  while the main loop sleeps; a step of either is atomic.
\<close>

section \<open>Addresses\<close>

text \<open>
  The conversion \<open>%hhx\<close> of \<open>sscanf\<close>: white space, a sign, a prefix \<open>0x\<close>, hexadecimal digits; the
  number is cut to a byte.  \<open>None\<close> is a matching failure.
\<close>

definition hex_digit :: "char \<Rightarrow> nat option" where
  "hex_digit c =
     (let d = of_char c :: nat
      in if 48 \<le> d \<and> d \<le> 57 then Some (d - 48)
         else if 97 \<le> d \<and> d \<le> 102 then Some (d - 87)
         else if 65 \<le> d \<and> d \<le> 70 then Some (d - 55)
         else None)"

fun hex_digits :: "nat \<Rightarrow> string \<Rightarrow> nat \<times> string" where
  "hex_digits acc [] = (acc, [])"
| "hex_digits acc (c # cs) =
     (case hex_digit c of None \<Rightarrow> (acc, c # cs) | Some d \<Rightarrow> hex_digits (acc * 16 + d) cs)"

definition scan_hhx :: "string \<Rightarrow> (u8 \<times> string) option" where
  "scan_hhx s =
     (let s = dropWhile is_space s;
          neg = (take 1 s = ''-'');
          s = (if take 1 s = ''-'' \<or> take 1 s = ''+'' then drop 1 s else s);
          s = (if take 2 s = ''0x'' \<or> take 2 s = ''0X'' then drop 2 s else s)
      in case s of
           [] \<Rightarrow> None
         | c # _ \<Rightarrow>
             if hex_digit c = None then None
             else (let (v, rest) = hex_digits 0 s;
                       w = of_nat (min v (2 ^ 64 - 1)) :: u64
                   in Some (ucast (if neg then - w else w), rest)))"

text \<open>The bytes that the format of \<open>MACstoi\<close> assigns.\<close>

fun scan_mac :: "nat \<Rightarrow> string \<Rightarrow> u8 list" where
  "scan_mac 0 s = []"
| "scan_mac (Suc n) s =
     (case scan_hhx s of
        None \<Rightarrow> []
      | Some (b, rest) \<Rightarrow> b # (if take 1 rest = '':'' then scan_mac n (drop 1 rest) else []))"

text \<open>\<open>a\<close> is what the array holds before; bytes that are not assigned keep it.\<close>

definition MACstoi :: "u8 list \<Rightarrow> string \<Rightarrow> u64" where
  "MACstoi a str =
     (let bs = scan_mac 6 str;
          a = bs @ drop (length bs) a
      in push_bit 40 (ucast (a ! 5)) OR push_bit 32 (ucast (a ! 4))
         OR ucast (push_bit 24 (ucast (a ! 3) :: u32) OR push_bit 16 (ucast (a ! 2))
                   OR push_bit 8 (ucast (a ! 1)) OR ucast (a ! 0)))"

text \<open>\<open>inet_addr\<close> on dotted decimal addresses; the first number is the first byte in memory.\<close>

fun dotted :: "nat \<Rightarrow> string \<Rightarrow> u8 list" where
  "dotted acc [] = [of_nat acc]"
| "dotted acc (c # cs) =
     (if c = CHR ''.'' then of_nat acc # dotted 0 cs else dotted (acc * 10 + (of_char c - 48)) cs)"

definition inet_addr :: "string \<Rightarrow> u32" where
  "inet_addr s = (let bs = dotted 0 s in mk32 (bs ! 0) (bs ! 1) (bs ! 2) (bs ! 3))"

definition CLIENT_MAC :: string where "CLIENT_MAC = ''3c:fd:fe:b3:12:cc''"
definition SERVER_MAC :: string where "SERVER_MAC = ''3c:fd:fe:b0:f5:24''"
definition ATTACKER_MAC :: string where "ATTACKER_MAC = ''3c:fd:fe:b5:00:4''"
definition CLIENT_R_MAC :: string where "CLIENT_R_MAC = ''90:e2:ba:b3:bb:7c''"
definition SERVER_R_MAC :: string where "SERVER_R_MAC = ''90:e2:ba:b3:bb:7d''"
definition ATTACKER_R_MAC :: string where "ATTACKER_R_MAC = ''90:e2:ba:b3:bb:7c''"
definition CLIENT_IP :: string where "CLIENT_IP = ''10.18.0.3''"
definition SERVER_IP :: string where "SERVER_IP = ''10.19.0.3''"
definition ATTACKER_IP :: string where "ATTACKER_IP = ''10.18.0.4''"

definition init_MAC :: "u8 list \<Rightarrow> switch_cfg \<Rightarrow> switch_cfg" where
  "init_MAC a cfg = cfg\<lparr>client_mac_64 := MACstoi a CLIENT_MAC, server_mac_64 := MACstoi a SERVER_MAC,
     attacker_mac_64 := MACstoi a ATTACKER_MAC, client_r_mac_64 := MACstoi a CLIENT_R_MAC,
     server_r_mac_64 := MACstoi a SERVER_R_MAC, attacker_r_mac_64 := MACstoi a ATTACKER_R_MAC\<rparr>"

text \<open>\<open>attacker_ip\<close>, which is set too, is not read by this agent.\<close>

definition init_ip :: "switch_cfg \<Rightarrow> switch_cfg" where
  "init_ip cfg = cfg\<lparr>client_ip := inet_addr CLIENT_IP, server_ip := inet_addr SERVER_IP\<rparr>"

section \<open>The command line\<close>

text \<open>The options for output (\<open>-q\<close>, \<open>-x\<close>, \<open>-a\<close>) have no effect on the configuration of the agent.\<close>

definition app_opt :: "char \<times> string \<Rightarrow> switch_cfg \<Rightarrow> conf_error + switch_cfg" where
  "app_opt opt c =
     (let (ch, optarg) = opt
      in if ch = CHR ''h'' then
           if optarg = ''HARAKA'' then Inr (c\<lparr>hash_option := HARAKA\<rparr>)
           else if optarg = ''HSIPHASH'' then Inr (c\<lparr>hash_option := HSIPHASH\<rparr>)
           else if optarg = ''OFF'' then Inr (c\<lparr>hash_option := HASH_OFF\<rparr>)
           else Inl Usage
         else if ch = CHR ''s'' then
           if optarg = ''ON'' then Inr (c\<lparr>tcpcsum_option := CSUM_ON\<rparr>)
           else if optarg = ''OFF'' then Inr (c\<lparr>tcpcsum_option := CSUM_OFF\<rparr>)
           else Inl Usage
         else if ch = CHR ''t'' then
           if optarg = ''ON'' then Inr (c\<lparr>timestamp_option := TS_ON\<rparr>)
           else if optarg = ''OFF'' then Inr (c\<lparr>timestamp_option := TS_OFF\<rparr>)
           else Inl Usage
         else if ch = CHR ''c'' then Inr (c\<lparr>opt_ab_test := True\<rparr>)
         else if ch = CHR ''k'' then Inr (c\<lparr>opt_change_key := True\<rparr>)
         else if ch = CHR ''p'' then Inr (c\<lparr>opt_pressure := True\<rparr>)
         else if ch = CHR ''d'' then Inr (c\<lparr>opt_drop := True\<rparr>)
         else if ch = CHR ''f'' then Inr (c\<lparr>opt_forward := True\<rparr>)
         else if ch = CHR ''q'' \<or> ch = CHR ''x'' \<or> ch = CHR ''a'' then Inr c
         else Inl Usage)"

fun parse_command_line :: "(char \<times> string) list \<Rightarrow> switch_cfg \<Rightarrow> conf_error + switch_cfg" where
  "parse_command_line [] c = Inr c"
| "parse_command_line (x # xs) c = (case app_opt x c of Inl e \<Rightarrow> Inl e | Inr c \<Rightarrow> parse_command_line xs c)"

text \<open>The globals before \<open>main\<close>.\<close>

definition cfg_globals :: "(m128 \<Rightarrow> m128 \<Rightarrow> m128) \<Rightarrow> switch_cfg" where
  "cfg_globals aes = \<lparr>opt_drop = False, opt_forward = False, opt_ab_test = False, opt_pressure = False,
     opt_change_key = False, hash_option = HARAKA, tcpcsum_option = CSUM_ON, timestamp_option = TS_ON,
     client_mac_64 = 0, server_mac_64 = 0, attacker_mac_64 = 0, client_r_mac_64 = 0, server_r_mac_64 = 0,
     attacker_r_mac_64 = 0, client_ip = 0, server_ip = 0, aesenc = aes\<rparr>"

text \<open>
  Start-up: both parsers, then the tables.  The arrays \<open>flows\<close>, \<open>sa_opts\<close> and \<open>sa_apache_opts\<close>
  have 16 entries; initialising more is \<open>ConfFault\<close>.
\<close>

definition swich_agent ::
    "(m128 \<Rightarrow> m128 \<Rightarrow> m128) \<Rightarrow> u8 list \<Rightarrow> (nat \<Rightarrow> u32) \<Rightarrow> string \<Rightarrow> (char \<times> string) list \<Rightarrow> (char \<times> string) list \<Rightarrow>
     switch \<Rightarrow> conf_error + (xsknf_config \<times> switch_cfg \<times> switch)" where
  "swich_agent aes a rand argv0 xsk_opts app_opts st =
     (case xsknf_parse_args argv0 xsk_opts of
        Inl e \<Rightarrow> Inl e
      | Inr c \<Rightarrow>
          (case parse_command_line app_opts (cfg_globals aes) of
             Inl e \<Rightarrow> Inl e
           | Inr cfg \<Rightarrow>
               (let global_workers_num = sint (c_workers c)
                in if global_workers_num > 16 then Inl ConfFault
                   else Inr (c, init_ip (init_MAC a cfg), sw_init rand (nat global_workers_num) st))))"

section \<open>Round trip of MAC addresses\<close>

definition hex_char :: "nat \<Rightarrow> char" where
  "hex_char d = (if d < 10 then char_of (d + 48) else char_of (d + 87))"

definition hex_byte :: "u8 \<Rightarrow> string" where
  "hex_byte b = [hex_char (unat b div 16), hex_char (unat b mod 16)]"

fun mac_string :: "u8 list \<Rightarrow> string" where
  "mac_string [] = []"
| "mac_string [b] = hex_byte b"
| "mac_string (b # bs) = hex_byte b @ '':'' @ mac_string bs"

lemma hex_char_digit: "d < 16 \<Longrightarrow> hex_digit (hex_char d) = Some d"
  by (auto simp: hex_digit_def hex_char_def Let_def)

lemma hex_char_plain:
  assumes "d < 16"
  shows "\<not> is_space (hex_char d)" "hex_char d \<notin> set ''-+xX''"
proof -
  have "\<forall>d < 16. \<not> is_space (hex_char d) \<and> hex_char d \<notin> set ''-+xX''"
    by code_simp
  with assms show "\<not> is_space (hex_char d)" "hex_char d \<notin> set ''-+xX''" by blast+
qed

lemma scan_hex_byte:
  assumes "rest = [] \<or> hex_digit (hd rest) = None"
  shows "scan_hhx (hex_byte b @ rest) = Some (b, rest)"
proof -
  have d: "unat b div 16 < 16" "unat b mod 16 < 16"
    using unat_u8_less [of b] by (simp_all add: less_mult_imp_div_less)
  have v: "(unat b div 16) * 16 + unat b mod 16 = unat b"
    by simp
  have "ucast (of_nat (unat b) :: u64) = b" "min (unat b) (2 ^ 64 - 1) = unat b"
    using unat_u8_less [of b] by (simp_all add: ucast_up_ucast_id is_up)
  then show ?thesis
    using hex_char_digit [OF d(1)] hex_char_digit [OF d(2)] hex_char_plain [OF d(1)] hex_char_plain [OF d(2)] assms v
    by (cases rest) (auto simp: scan_hhx_def hex_byte_def Let_def)
qed

lemma scan_mac_string: "bs \<noteq> [] \<Longrightarrow> scan_mac (length bs) (mac_string bs) = bs"
proof (induction bs rule: mac_string.induct)
  case (2 b)
  then show ?case using scan_hex_byte [of "[]" b] by simp
next
  case (3 b c bs)
  have "hex_digit (CHR '':'') = None"
    by (simp add: hex_digit_def)
  then show ?case
    using 3 scan_hex_byte [of "'':'' @ mac_string (c # bs)" b] by simp
qed simp

lemma MACstoi_bytes: "scan_mac 6 s = [b0, b1, b2, b3, b4, b5] \<Longrightarrow> mac_bytes (MACstoi a s) = [b0, b1, b2, b3, b4, b5]"
  by (auto simp: mac_bytes_def MACstoi_def byte_def upt_rec intro!: bit_word_eqI)
    (auto simp: bit_simps dest: bit_imp_le_length)

text \<open>
  \<open>MACstoi\<close> reads what a MAC address in the usual notation says: the six bytes that
  \<open>forward\<close> copies into a frame are the bytes of the text in their order, whatever the stack
  held before.
\<close>

theorem MACstoi_roundtrip:
  assumes "length bs = 6"
  shows "mac_bytes (MACstoi a (mac_string bs)) = bs"
proof -
  obtain b0 b1 b2 b3 b4 b5 where bs: "bs = [b0, b1, b2, b3, b4, b5]"
    using assms by (auto simp: numeral_eq_Suc length_Suc_conv)
  then have "scan_mac 6 (mac_string bs) = bs"
    using scan_mac_string [of bs] by (simp add: eval_nat_numeral)
  then show ?thesis
    using MACstoi_bytes bs by simp
qed

theorem MACstoi_roundtrip_witness:
  "mac_bytes (MACstoi [] (mac_string [0x3c, 0xfd, 0xfe, 0xb3, 0x12, 0xcc])) = [0x3c, 0xfd, 0xfe, 0xb3, 0x12, 0xcc]"
  by (rule MACstoi_roundtrip) simp

section \<open>Start-up\<close>

lemma scan_mac_6: "scan_mac 6 s = scan_mac (Suc (Suc (Suc (Suc (Suc (Suc 0)))))) s"
  by (rule arg_cong [where f = "\<lambda>n. scan_mac n s"]) simp

lemmas scan_eval = scan_mac_6 scan_hhx_def hex_digit_def is_space_def Let_def

lemma started_macs:
  "scan_mac 6 CLIENT_MAC = [0x3c, 0xfd, 0xfe, 0xb3, 0x12, 0xcc]" "scan_mac 6 SERVER_MAC = [0x3c, 0xfd, 0xfe, 0xb0, 0xf5, 0x24]"
  "scan_mac 6 ATTACKER_MAC = [0x3c, 0xfd, 0xfe, 0xb5, 0x00, 0x04]"
  by (simp_all add: CLIENT_MAC_def SERVER_MAC_def ATTACKER_MAC_def scan_eval)

lemma started_router_macs:
  "scan_mac 6 CLIENT_R_MAC = [0x90, 0xe2, 0xba, 0xb3, 0xbb, 0x7c]"
  "scan_mac 6 SERVER_R_MAC = [0x90, 0xe2, 0xba, 0xb3, 0xbb, 0x7d]" "scan_mac 6 ATTACKER_R_MAC = [0x90, 0xe2, 0xba, 0xb3, 0xbb, 0x7c]"
  by (simp_all add: CLIENT_R_MAC_def SERVER_R_MAC_def ATTACKER_R_MAC_def scan_eval)

lemma started_ips: "inet_addr CLIENT_IP = 0x0300120a" "inet_addr SERVER_IP = 0x0300130a"
  by (simp_all add: inet_addr_def CLIENT_IP_def SERVER_IP_def Let_def mk32_def)

text \<open>
  Without options the agent runs with the configuration \<open>cfg0\<close>, the one of the concrete
  examples of this development.
\<close>

theorem default_configuration:
  "parse_command_line [] (cfg_globals mm_xor_si128) = Inr cfg \<Longrightarrow> init_ip (init_MAC a cfg) = cfg0"
  by (auto simp: cfg_globals_def cfg0_def init_ip_def init_MAC_def MACstoi_def started_macs started_router_macs started_ips)

section \<open>The main loop\<close>

text \<open>
  \<open>nanosleep\<close> with the time of the loop: the product is computed in 32 bits, and a value of
  \<open>tv_nsec\<close> above 999999999 is refused without sleeping.
\<close>

definition MSTONS :: u32 where "MSTONS = 1000000"

definition nap :: "u32 \<Rightarrow> nat" where
  "nap duration = (let tv_nsec = unat ((duration + 1) * MSTONS) in if tv_nsec < 1000000000 then tv_nsec else 0)"

text \<open>Where the main thread is, with the time at which it wakes up; times are in nanoseconds.\<close>

datatype main_pc = Check | Nap nat | Sleep nat

record agent =
  pc :: main_pc
  now :: nat
  sw :: switch

datatype agent_event = Main | Frame mem u32 nat nat | Tick nat

inductive agent_step :: "switch_cfg \<Rightarrow> agent \<Rightarrow> agent_event \<Rightarrow> agent \<Rightarrow> bool" for cfg where
  check_nap: "pc a = Check \<Longrightarrow> change_key_duration (sw a) \<noteq> 0 \<Longrightarrow>
    agent_step cfg a Main (a\<lparr>pc := Nap (now a + nap (change_key_duration (sw a)))\<rparr>)"
| check_sleep: "pc a = Check \<Longrightarrow> change_key_duration (sw a) = 0 \<Longrightarrow>
    agent_step cfg a Main (a\<lparr>pc := Sleep (now a + 1000000000)\<rparr>)"
| wake_nap: "pc a = Nap t \<Longrightarrow> t \<le> now a \<Longrightarrow>
    agent_step cfg a Main (a\<lparr>sw := (sw a)\<lparr>change_key_duration := 0\<rparr>, pc := Sleep (now a + 1000000000)\<rparr>)"
| wake_sleep: "pc a = Sleep t \<Longrightarrow> t \<le> now a \<Longrightarrow> agent_step cfg a Main (a\<lparr>pc := Check\<rparr>)"
| frame: "xsknf_packet_processor cfg (sw a) m len ifx w = Inr (r, st, m', len') \<Longrightarrow>
    agent_step cfg a (Frame m len ifx w) (a\<lparr>sw := st\<rparr>)"
| tick: "agent_step cfg a (Tick n) (a\<lparr>now := now a + n\<rparr>)"

inductive agent_run :: "switch_cfg \<Rightarrow> agent \<Rightarrow> agent_event list \<Rightarrow> agent \<Rightarrow> bool" for cfg where
  run_Nil: "agent_run cfg a [] a"
| run_snoc: "agent_run cfg a es b \<Longrightarrow> agent_step cfg b e c \<Longrightarrow> agent_run cfg a (es @ [e]) c"

inductive_cases agent_step_MainE: "agent_step cfg a Main b"
inductive_cases agent_step_FrameE: "agent_step cfg a (Frame m len ifx w) b"
inductive_cases agent_step_TickE: "agent_step cfg a (Tick n) b"

text \<open>An event that, if it announces a change at all, asks for at least \<open>d\<close> milliseconds (below 999).\<close>

fun asks_at_least :: "u32 \<Rightarrow> agent_event \<Rightarrow> bool" where
  "asks_at_least d (Frame m len ifx w) =
     (ifx = 0 \<or> \<not> tcp_ece m 34 \<or> unat d \<le> unat (tcp_ack_seq m 34) \<and> unat (tcp_ack_seq m 34) < 999)"
| "asks_at_least d _ = True"

lemma processor_duration:
  assumes "xsknf_packet_processor cfg st m len ifx w = Inr (r, st', m', len')"
  shows "change_key_duration st' = change_key_duration st
    \<or> ifx \<noteq> 0 \<and> tcp_ece m 34 \<and> change_key_duration st' = tcp_ack_seq m 34"
proof (cases "ifx = 0 \<or> \<not> tcp_ece m 34")
  case True
  have "keeps change_key_duration st (xsknf_packet_processor cfg st m len ifx w)"
    unfolding processor_eq
    using True syn_keeps(4) [of "enter st w m"] ack_keeps(3) [of "enter st w m"]
    by (auto simp: out_syn_keeps intro!: keeps_from [of _ "enter st w m" st])
  then show ?thesis
    using assms by (simp add: keeps_def)
next
  case False
  with assms show ?thesis
    by (auto simp: processor_eq sw_drop_def sw_forward_eq split: if_splits)
qed

lemma nap_exact: "unat d < 999 \<Longrightarrow> nap d = (unat d + 1) * 1000000"
proof -
  assume d: "unat d < 999"
  then have "unat (d + 1) = unat d + 1"
    by (subst unat_add_lem [THEN iffD1]) simp_all
  moreover have "unat ((d + 1) * MSTONS) = unat (d + 1) * 1000000"
    using d calculation by (subst unat_mult_lem [THEN iffD1]) (simp_all add: MSTONS_def)
  ultimately show ?thesis
    using d by (simp add: nap_def)
qed

text \<open>
  C24: the main loop waits for at least the announced number of milliseconds exactly if that
  number is below 999.  For longer times \<open>tv_nsec\<close> is out of range, or has wrapped around, and
  the period ends almost at once.
\<close>

theorem nap_long_enough: "unat d * 1000000 \<le> nap d \<longleftrightarrow> unat d < 999"
proof
  assume n: "unat d * 1000000 \<le> nap d"
  show "unat d < 999"
  proof (rule ccontr)
    assume "\<not> unat d < 999"
    moreover have "nap d < 1000000000"
      by (simp add: nap_def Let_def)
    ultimately have "unat d = unat (999 :: u32)"
      using n by simp
    then have "d = 999"
      by (simp only: word_unat_eq_iff)
    then show False
      using n by (simp add: nap_def MSTONS_def)
  qed
qed (simp add: nap_exact)

lemma nap_mono: "unat d \<le> unat e \<Longrightarrow> unat e < 999 \<Longrightarrow> nap d \<le> nap e"
  using nap_exact [of d] nap_exact [of e] by simp

text \<open>
  The invariant of the main loop up to a time \<open>u\<close>: a duration of at least \<open>d\<close> is set, and the loop does
  not clear it before \<open>u\<close>.
\<close>

definition window_open :: "u32 \<Rightarrow> nat \<Rightarrow> agent \<Rightarrow> bool" where
  "window_open d u a \<longleftrightarrow> unat d \<le> unat (change_key_duration (sw a)) \<and> unat (change_key_duration (sw a)) < 999
     \<and> u \<le> now a + nap d \<and> (\<forall>t. pc a = Nap t \<longrightarrow> u \<le> t)"

lemma agent_step_now: "agent_step cfg a e b \<Longrightarrow> now a \<le> now b"
  by (auto elim!: agent_step.cases)

lemma agent_step_window:
  assumes "agent_step cfg a e b" "window_open d u a" "now b < u" "asks_at_least d e" "d \<noteq> 0"
  shows "window_open d u b"
  using assms(1)
proof cases
  case check_nap
  then show ?thesis
    using assms(2) nap_mono [of d "change_key_duration (sw a)"] by (auto simp: window_open_def)
next
  case (frame m len ifx w r st m' len')
  then show ?thesis
    using assms(2,4) processor_duration [OF frame(3)] by (auto simp: window_open_def)
qed (use assms(2,3,5) in \<open>auto simp: window_open_def\<close>)

lemma window_kept:
  "agent_run cfg a es b \<Longrightarrow> window_open d u a \<Longrightarrow> d \<noteq> 0 \<Longrightarrow> \<forall>e \<in> set es. asks_at_least d e \<Longrightarrow> now b < u \<Longrightarrow>
     window_open d u b"
proof (induction rule: agent_run.induct)
  case (run_snoc a es b e c)
  then have "now b < u"
    using agent_step_now [OF run_snoc.hyps(2)] by simp
  then show ?case
    using run_snoc by (intro agent_step_window [OF run_snoc.hyps(2)]) simp_all
qed simp

text \<open>
  C19: connections survive a seed change for as long as the server agent asks.  Let a duration \<open>d\<close>
  below 999 milliseconds be announced while the main loop is not in the middle of waiting for the end
  of an earlier change.  Until \<open>d\<close> and one more milliseconds have passed, an ACK whose echo carries the
  folded SYN cookie of its flow passes, whatever else happens on the workers and in the main thread,
  provided that further announcements meanwhile ask for at least as long (and for less than 999
  milliseconds).  Both provisos are needed: \<open>nap_long_enough\<close> and \<open>second_announcement_cut\<close> show what
  happens otherwise.
\<close>

theorem seed_change_window:
  assumes "agent_run cfg a es b" "\<forall>t. pc a \<noteq> Nap t" "change_key_duration (sw a) = d" "d \<noteq> 0" "unat d < 999"
    and "\<forall>e \<in> set es. asks_at_least d e" "now b < now a + (unat d + 1) * 1000000"
    and "active cfg m" "hash_option cfg = HARAKA" "later_ack m len off" "w < PER_WORKER"
    and "hc_fold (ntohl (ts_tsecr m (54 + off))) = take_bit 14 (ucast (get_hash_cookie (flow_cookie cfg (sw b) w m)))"
  shows "\<exists>r st m'. xsknf_packet_processor cfg (sw b) m len 0 w = Inr (r, st, m', len) \<and> 0 \<le> r \<and> (\<forall>i \<ge> 12. m' i = m i)"
proof -
  have "window_open d (now a + nap d) a"
    using assms(2,3,5) by (simp add: window_open_def)
  then have "window_open d (now a + nap d) b"
    using window_kept [OF assms(1) _ assms(4,6)] assms(7) nap_exact [OF assms(5)] by simp
  then have "change_key_duration (sw b) \<noteq> 0"
    using assms(4) by (auto simp: window_open_def unat_eq_zero)
  then have "hybrid_ok cfg w (enter (sw b) w m) m (54 + off)"
    using assms(12) by (simp add: hybrid_ok_iff [OF assms(9)])
  then show ?thesis
    by (simp add: processor_later_ack [OF assms(8,10,11)] sw_forward_eq forward_mem)
qed

text \<open>
  An announcement that arrives while the main loop waits for the end of an earlier one is
  cut short: when the loop wakes up it clears the new duration, however long it is, so that
  cookies made before the second change may be refused at once.
\<close>

theorem second_announcement_cut:
  assumes "pc a = Nap t" "t \<le> now a" "active cfg m" "ifx \<noteq> 0" "tcp_ece m 34"
  shows "\<exists>b c. agent_run cfg a [Frame m len ifx w, Main] c
    \<and> agent_step cfg a (Frame m len ifx w) b \<and> change_key_duration (sw b) = tcp_ack_seq m 34
    \<and> now c = now a \<and> change_key_duration (sw c) = 0 \<and> sw_tables (sw c) = sw_tables (sw b)"
proof -
  let ?b = "a\<lparr>sw := sw_change_seed (sw a) m\<rparr>"
  let ?c = "?b\<lparr>sw := (sw ?b)\<lparr>change_key_duration := 0\<rparr>, pc := Sleep (now ?b + 1000000000)\<rparr>"
  have 1: "agent_step cfg a (Frame m len ifx w) ?b"
    using processor_change_seed [OF assms(3-5)] by (rule agent_step.frame)
  have 2: "agent_step cfg ?b Main ?c"
    by (rule agent_step.wake_nap [of _ t]) (use assms(1,2) in simp_all)
  have "agent_run cfg a ([] @ [Frame m len ifx w] @ [Main]) ?c"
    using run_snoc [OF run_snoc [OF run_Nil 1] 2] by simp
  then show ?thesis
    using 1 by (intro exI [of _ ?b] exI [of _ ?c]) (simp add: sw_tables_def)
qed

section \<open>A started agent\<close>

lemma swich_agent_Inr:
  assumes "swich_agent aes a rand argv0 xsk_opts app_opts st0 = Inr (c, cfg, st)"
  obtains cfg1 n where "parse_command_line app_opts (cfg_globals aes) = Inr cfg1" "cfg = init_ip (init_MAC a cfg1)"
    "st = sw_init rand n st0" "n \<le> 16" "n = nat (sint (c_workers c))"
  using assms by (auto simp: swich_agent_def Let_def split: sum.splits if_splits)

lemma processor_bf:
  assumes "xsknf_packet_processor cfg st m len ifx w = Inr (r, st', m', len')" "bloom_ok (bf st)"
  shows "bloom_ok (bf st')"
proof (cases "w < PER_WORKER")
  case True
  with processor_fine [OF assms(2) this] assms(1) show ?thesis
    unfolding sw_fine_def by (metis old.prod.inject sum.inject(2))
next
  case False
  with assms show ?thesis
    by (auto simp: processor_eq sw_out_syn_def sw_drop_def sw_forward_eq Let_def split: if_splits option.splits)
qed

lemma agent_run_bf: "agent_run cfg a es b \<Longrightarrow> bloom_ok (bf (sw a)) \<Longrightarrow> bloom_ok (bf (sw b))"
proof (induction rule: agent_run.induct)
  case (run_snoc a es b e c)
  then show ?case
    using processor_bf by (auto elim!: agent_step.cases)
qed

text \<open>
  Whatever the command line, an agent that has started handles every frame: it has at most 16
  workers, and after any sequence of frames, wake-ups of the main loop and passing time, the packet
  processor on each of its workers returns with the order of an interface or drops the frame.
\<close>

theorem started_agent_never_fails:
  assumes "swich_agent aes a rand argv0 xsk_opts app_opts st0 = Inr (c, cfg, st)"
    and "agent_run cfg \<lparr>pc = Check, now = 0, sw = st\<rparr> es b" "int w < sint (c_workers c)"
  shows "\<exists>r st' m' len'. xsknf_packet_processor cfg (sw b) m len ifx w = Inr (r, st', m', len') \<and> r \<in> {-1, 0, 1}"
proof -
  obtain n where n: "st = sw_init rand n st0" "n \<le> 16" "n = nat (sint (c_workers c))"
    by (rule swich_agent_Inr [OF assms(1)])
  have ok: "bloom_ok (bf st)" and w: "w < PER_WORKER"
    using assms(3) n by (simp_all add: sw_init_bf)
  have "bloom_ok (bf (sw b))"
    using agent_run_bf [OF assms(2)] ok by simp
  from processor_fine [OF this w] show ?thesis
    by (fastforce simp: sw_fine_def)
qed

text \<open>
  A started agent routes by the texts of \<open>address.h\<close>: a frame for 10.19.0.3 leaves through
  the server's interface from 90:e2:ba:b3:bb:7d to 3c:fd:fe:b0:f5:24, a frame for 10.18.0.3 through
  the client's from 90:e2:ba:b3:bb:7c to 3c:fd:fe:b3:12:cc, any other frame through the attacker's
  from 90:e2:ba:b3:bb:7c to 3c:fd:fe:b5:00:04; the rest of the frame is unchanged.
\<close>

theorem started_agent_routes:
  assumes "swich_agent aes a rand argv0 xsk_opts app_opts st0 = Inr (c, cfg, st)"
    and "forward cfg m 0 14 = (r, m')"
  shows "(r, map m' [0..<12]) =
      (if ip_daddr m 14 = inet_addr CLIENT_IP
       then (CLIENT_R_IF_ORDER, [0x3c, 0xfd, 0xfe, 0xb3, 0x12, 0xcc, 0x90, 0xe2, 0xba, 0xb3, 0xbb, 0x7c])
       else if ip_daddr m 14 = inet_addr SERVER_IP
       then (SERVER_R_IF_ORDER, [0x3c, 0xfd, 0xfe, 0xb0, 0xf5, 0x24, 0x90, 0xe2, 0xba, 0xb3, 0xbb, 0x7d])
       else (ATTACKER_R_IF_ORDER, [0x3c, 0xfd, 0xfe, 0xb5, 0x00, 0x04, 0x90, 0xe2, 0xba, 0xb3, 0xbb, 0x7c]))
    \<and> (\<forall>i \<ge> 12. m' i = m i)"
proof -
  obtain cfg1 where cfg: "cfg = init_ip (init_MAC a cfg1)"
    by (rule swich_agent_Inr [OF assms(1)]) blast
  note macs = started_macs [THEN MACstoi_bytes] started_router_macs [THEN MACstoi_bytes]
  have w: "map (wr_bytes (wr_bytes m 6 [b0, b1, b2, b3, b4, b5]) 0 [a0, a1, a2, a3, a4, a5]) [0..<12]
      = [a0, a1, a2, a3, a4, a5, b0, b1, b2, b3, b4, b5]" for b0 b1 b2 b3 b4 b5 a0 a1 a2 a3 a4 a5
    by (simp add: upt_rec wr_bytes_def)
  have "map (snd (forward cfg m 0 14)) [0..<12] = snd (if ip_daddr m 14 = inet_addr CLIENT_IP
       then (CLIENT_R_IF_ORDER, [0x3c, 0xfd, 0xfe, 0xb3, 0x12, 0xcc, 0x90, 0xe2, 0xba, 0xb3, 0xbb, 0x7c])
       else if ip_daddr m 14 = inet_addr SERVER_IP
       then (SERVER_R_IF_ORDER, [0x3c, 0xfd, 0xfe, 0xb0, 0xf5, 0x24, 0x90, 0xe2, 0xba, 0xb3, 0xbb, 0x7d])
       else (ATTACKER_R_IF_ORDER, [0x3c, 0xfd, 0xfe, 0xb5, 0x00, 0x04, 0x90, 0xe2, 0xba, 0xb3, 0xbb, 0x7c]))"
    by (simp add: forward_def Let_def cfg init_ip_def init_MAC_def macs w)
  then show ?thesis
    using assms(2) forward_mem(1) [of _ cfg m] by (auto simp: forward_def Let_def cfg init_ip_def init_MAC_def)
qed

section \<open>Witnesses\<close>

lemma sample_start:
  "swich_agent mm_xor_si128 [] (\<lambda>_. 7) ''agent'' sample_opts [] switch0 = Inr (sample_conf, cfg0, sw_init (\<lambda>_. 7) 2 switch0)"
  using default_configuration [of "cfg_globals mm_xor_si128" "[]"]
  by (simp add: swich_agent_def sample_opts_parse) (simp add: sample_conf_def)

text \<open>With seventeen workers the initialisation of the tables leaves the arrays.\<close>

lemma seventeen_workers_overflow:
  "swich_agent aes a rand ''agent'' [(CHR ''i'', ''eth0''), (CHR ''w'', ''17'')] [] st = Inl ConfFault"
  by (simp add: swich_agent_def xsknf_parse_args_def parse_opt_def parse_iface_def iface_flags_def default_conf_def
      XSKNF_MAX_INTERFACES_def atoi_def strtol10_def is_space_def XDP_FLAGS_UPDATE_IF_NOEXIST_def XDP_FLAGS_SKB_MODE_def
      XDP_FLAGS_DRV_MODE_def Let_def)

theorem default_configuration_witness: "init_ip (init_MAC [] (cfg_globals mm_xor_si128)) = cfg0"
  using default_configuration [of "cfg_globals mm_xor_si128" "[]"] by simp

theorem started_agent_never_fails_witness:
  "\<exists>r st' m' len'. xsknf_packet_processor cfg0 (sw_init (\<lambda>_. 7) 2 switch0) sample_syn 74 0 1 = Inr (r, st', m', len') \<and> r \<in> {-1, 0, 1}"
  using started_agent_never_fails [OF sample_start run_Nil, of 1 sample_syn 74 0] by (simp add: sample_conf_def)

theorem started_agent_routes_witness:
  "map (snd (forward cfg0 sample_syn 0 14)) [0..<6] = [0x3c, 0xfd, 0xfe, 0xb0, 0xf5, 0x24]"
proof -
  have "ip_daddr sample_syn 14 = 0x0300130a"
    by (simp add: sample_syn_def sample_eval)
  then have "map (snd (forward cfg0 sample_syn 0 14)) [0..<12]
      = [0x3c, 0xfd, 0xfe, 0xb0, 0xf5, 0x24, 0x90, 0xe2, 0xba, 0xb3, 0xbb, 0x7d]"
    using started_agent_routes [OF sample_start, of sample_syn "fst (forward cfg0 sample_syn 0 14)" "snd (forward cfg0 sample_syn 0 14)"]
    by (simp only: started_ips prod.collapse simp_thms if_False prod.inject) simp
  then have "take 6 (map (snd (forward cfg0 sample_syn 0 14)) [0..<12]) = [0x3c, 0xfd, 0xfe, 0xb0, 0xf5, 0x24]"
    by simp
  then show ?thesis
    by (simp add: take_map)
qed

text \<open>An agent that is told of a change for nine milliseconds, and a cookie of one of its flows.\<close>

definition agent9 :: agent where
  "agent9 = \<lparr>pc = Check, now = 0, sw = sw0\<lparr>change_key_duration := 9\<rparr>\<rparr>"

lemma agent9_run: "agent_run cfg0 agent9 [Main, Tick 5] (agent9\<lparr>pc := Nap (nap 9), now := 5\<rparr>)"
proof -
  have 1: "agent_step cfg0 agent9 Main (agent9\<lparr>pc := Nap (nap 9)\<rparr>)"
    using agent_step.check_nap [of agent9 cfg0] by (simp add: agent9_def)
  have 2: "agent_step cfg0 (agent9\<lparr>pc := Nap (nap 9)\<rparr>) (Tick 5) (agent9\<lparr>pc := Nap (nap 9), now := 5\<rparr>)"
    using agent_step.tick [of cfg0 "agent9\<lparr>pc := Nap (nap 9)\<rparr>" 5] by (simp add: agent9_def)
  show ?thesis
    using run_snoc [OF run_snoc [OF run_Nil 1] 2] by simp
qed

theorem seed_change_window_witness:
  "\<exists>e r st m'. xsknf_packet_processor cfg0 (sw0\<lparr>change_key_duration := 9\<rparr>) (sample_echo e) 66 0 0 = Inr (r, st, m', 66) \<and> 0 \<le> r"
proof -
  let ?st = "sw0\<lparr>change_key_duration := 9\<rparr>"
  let ?c = "flow_cookie cfg0 ?st 0 sample_ack"
  obtain v where v: "refresh_cookie (map_seeds (init_tables server0)) (ip_saddr sample_ack 14)
      (map_val_zero\<lparr>hash_cookie := ?c\<rparr>) = Some v"
    using sample_refresh by blast
  let ?m = "sample_echo (hybrid_cookie v)"
  have l: "later_ack ?m 66 2"
    using first_cookie_not_start [OF v] by (intro sample_echo_facts) (simp add: map_val_zero_def)
  have a: "active cfg0 ?m" "hash_option cfg0 = HARAKA"
    using sample_ack_later(2) by (simp_all add: sample_echo_facts cfg0_def)
  have "hc_fold (ntohl (ts_tsecr ?m (54 + 2))) = take_bit 14 (ucast (get_hash_cookie (flow_cookie cfg0 ?st 0 ?m)))"
    using refresh_parts(5) [OF v] sample_echo_facts(3) [of "hybrid_cookie v"]
    by (simp add: sample_echo_facts(5) map_val_zero_def)
  with seed_change_window [OF agent9_run _ _ _ _ _ _ a l, of 9 0] show ?thesis
    by (auto simp: agent9_def)
qed

theorem second_announcement_cut_witness:
  "\<exists>c. agent_run cfg0 (agent9\<lparr>pc := Nap 0\<rparr>) [Frame (sample_ack(47 := 0x50)) 66 1 0, Main] c \<and> change_key_duration (sw c) = 0"
proof -
  let ?m = "sample_ack(47 := 0x50)"
  have "active cfg0 ?m" "tcp_ece ?m 34"
    using sample_ack_later(2) by (simp_all add: active_def ld16_def)
  then show ?thesis
    using second_announcement_cut [of "agent9\<lparr>pc := Nap 0\<rparr>" 0 cfg0 ?m 1 66 0] by (auto simp: agent9_def)
qed

end
