(* ===== verification/Sc_Start.thy ===== *)
theory Sc_Start
  imports Sc_Deploy Switch_Start
begin

text \<open>
  The smartcookie switch agent as a process: the command line and the start-up of \<open>swich_agent\<close>
  in \<open>examples/smartcookie/switch_agent_user.c\<close>.  \<open>MACstoi\<close>, \<open>init_MAC\<close> and \<open>init_ip\<close> are copies of
  those in \<open>Switch_Start\<close>, here with the attacker's address.
\<close>

section \<open>Command line and start-up\<close>

text \<open>\<open>-c\<close> sets the number of random flows to enter into the filter.\<close>

definition sc_app_opt :: "char \<times> string \<Rightarrow> sc_cfg \<times> u32 \<Rightarrow> conf_error + (sc_cfg \<times> u32)" where
  "sc_app_opt opt cn =
     (let (ch, optarg) = opt; (c, opt_add_connection) = cn
      in if ch = CHR ''c'' then Inr (c, atoi optarg)
         else if ch = CHR ''o'' then Inr (c\<lparr>sc_opt_tcpoption := True\<rparr>, opt_add_connection)
         else if ch = CHR ''p'' then Inr (c\<lparr>sc_opt_pressure := True\<rparr>, opt_add_connection)
         else if ch = CHR ''d'' then Inr (c\<lparr>sc_opt_drop := True\<rparr>, opt_add_connection)
         else if ch = CHR ''f'' then Inr (c\<lparr>sc_opt_forward := True\<rparr>, opt_add_connection)
         else if ch = CHR ''q'' \<or> ch = CHR ''x'' \<or> ch = CHR ''a'' then Inr (c, opt_add_connection)
         else Inl Usage)"

fun sc_parse_command_line :: "(char \<times> string) list \<Rightarrow> sc_cfg \<times> u32 \<Rightarrow> conf_error + (sc_cfg \<times> u32)" where
  "sc_parse_command_line [] c = Inr c"
| "sc_parse_command_line (x # xs) c =
     (case sc_app_opt x c of Inl e \<Rightarrow> Inl e | Inr c \<Rightarrow> sc_parse_command_line xs c)"

definition sc_globals :: sc_cfg where
  "sc_globals = \<lparr>sc_opt_drop = False, sc_opt_pressure = False, sc_opt_forward = False, sc_opt_tcpoption = False,
     sc_opt_ab_test = True, sc_client_mac_64 = 0, sc_server_mac_64 = 0, sc_attacker_mac_64 = 0, sc_client_r_mac_64 = 0,
     sc_server_r_mac_64 = 0, sc_attacker_r_mac_64 = 0, sc_client_ip = 0, sc_server_ip = 0, sc_attacker_ip = 0\<rparr>"

definition sc_init_MAC :: "u8 list \<Rightarrow> sc_cfg \<Rightarrow> sc_cfg" where
  "sc_init_MAC a cfg = cfg\<lparr>sc_client_mac_64 := MACstoi a CLIENT_MAC, sc_server_mac_64 := MACstoi a SERVER_MAC,
     sc_attacker_mac_64 := MACstoi a ATTACKER_MAC, sc_client_r_mac_64 := MACstoi a CLIENT_R_MAC,
     sc_server_r_mac_64 := MACstoi a SERVER_R_MAC, sc_attacker_r_mac_64 := MACstoi a ATTACKER_R_MAC\<rparr>"

definition sc_init_ip :: "sc_cfg \<Rightarrow> sc_cfg" where
  "sc_init_ip cfg = cfg\<lparr>sc_client_ip := inet_addr CLIENT_IP, sc_server_ip := inet_addr SERVER_IP,
     sc_attacker_ip := inet_addr ATTACKER_IP\<rparr>"

datatype sc_start_error = ScConf conf_error | ScFilter bv_error

text \<open>The arrays of the agent have 16 entries; a negative number of flows enters none.\<close>

definition sc_swich_agent ::
    "u8 list \<Rightarrow> (nat \<Rightarrow> u32) \<Rightarrow> string \<Rightarrow> (char \<times> string) list \<Rightarrow> (char \<times> string) list \<Rightarrow> sc_switch \<Rightarrow>
     sc_start_error + (xsknf_config \<times> sc_cfg \<times> sc_switch)" where
  "sc_swich_agent a rand argv0 xsk_opts app_opts st =
     (case xsknf_parse_args argv0 xsk_opts of
        Inl e \<Rightarrow> Inl (ScConf e)
      | Inr c \<Rightarrow>
          (case sc_parse_command_line app_opts (sc_globals, 0) of
             Inl e \<Rightarrow> Inl (ScConf e)
           | Inr (cfg, opt_add_connection) \<Rightarrow>
               (let global_workers_num = sint (c_workers c)
                in if global_workers_num > 16 then Inl (ScConf ConfFault)
                   else
                     (case sc_init rand (nat global_workers_num) (nat (sint opt_add_connection)) st of
                        Inl e \<Rightarrow> Inl (ScFilter e)
                      | Inr st \<Rightarrow> Inr (c, sc_init_ip (sc_init_MAC a cfg), st)))))"

section \<open>The filter after start-up\<close>

lemma sc_init_bf: "sc_bf (sc_init_saopts n st) = sc_bf st" "sc_bf (sc_init_sa_apache_opts n st) = sc_bf st"
  unfolding sc_init_saopts_def sc_init_sa_apache_opts_def by (rule foldl_keeps, simp)+

text \<open>Filling the filter succeeds, and every flow that was entered is found.\<close>

lemma add_bf_ok:
  assumes "bloom_ok (sc_bf st)"
  shows "\<exists>st'. add_bf rand n st = Inr st' \<and> bloom_ok (sc_bf st')
    \<and> (\<forall>d. bloom_filter_test (sc_bf st) d = Inr True \<longrightarrow> bloom_filter_test (sc_bf st') d = Inr True)
    \<and> (\<forall>i < n. bloom_filter_test (sc_bf st') (concat (map (\<lambda>j. bytes32 (rand (3 * i + j))) [0..<3])) = Inr True)"
proof (induction n)
  case 0
  then show ?case using assms by (simp add: add_bf_def)
next
  case (Suc n)
  then obtain st1 where 1: "add_bf rand n st = Inr st1" "bloom_ok (sc_bf st1)"
    "\<forall>d. bloom_filter_test (sc_bf st) d = Inr True \<longrightarrow> bloom_filter_test (sc_bf st1) d = Inr True"
    "\<forall>i < n. bloom_filter_test (sc_bf st1) (concat (map (\<lambda>j. bytes32 (rand (3 * i + j))) [0..<3])) = Inr True"
    by blast
  let ?d = "concat (map (\<lambda>j. bytes32 (rand (3 * n + j))) [0..<3])"
  obtain b where b: "bloom_filter_put (sc_bf st1) ?d = Inr b" "bloom_ok b"
    using bloom.put_ok [OF 1(2)] by blast
  have "add_bf rand (Suc n) st = Inr (st1\<lparr>sc_bf := b\<rparr>)"
    using 1(1) b(1) by (simp add: add_bf_def Let_def)
  then show ?case
    using 1(3,4) b bloom.test_put [OF 1(2) b(1)] bloom.put_mono [OF 1(2) b(1)] by (auto simp: less_Suc_eq)
qed

text \<open>
  Start-up never fails in the filter.  With options that both parsers accept and at most 16
  workers the agent starts; the filter then contains every random flow that was asked for, and
  the Apache workaround is on.
\<close>

theorem sc_start_total:
  assumes "xsknf_parse_args argv0 xsk_opts = Inr c" "sc_parse_command_line app_opts (sc_globals, 0) = Inr (cfg1, n)"
    and "sint (c_workers c) \<le> 16"
  shows "\<exists>cfg st'. sc_swich_agent a rand argv0 xsk_opts app_opts st = Inr (c, cfg, st') \<and> bloom_ok (sc_bf st')
    \<and> cfg = sc_init_ip (sc_init_MAC a cfg1)
    \<and> (\<forall>i < nat (sint n). bloom_filter_test (sc_bf st') (concat (map (\<lambda>j. bytes32 (rand (3 * i + j))) [0..<3])) = Inr True)"
proof -
  let ?st = "sc_init_sa_apache_opts (nat (sint (c_workers c))) (sc_init_saopts (nat (sint (c_workers c)))
      (st\<lparr>sc_bf := bloom_filter_new 3145728 [djb2, sdbm, mm2]\<rparr>))"
  have "bloom_ok (sc_bf ?st)"
    by (simp add: sc_init_bf bloom_new_ok)
  then show ?thesis
    using add_bf_ok [of ?st rand "nat (sint n)"] assms by (auto simp: sc_swich_agent_def sc_init_def Let_def)
qed

section \<open>A SYN without options\<close>

lemma sc_app_opt_ab: "sc_app_opt x (c, n) = Inr (c', n') \<Longrightarrow> sc_opt_ab_test c' = sc_opt_ab_test c"
  by (cases x) (auto simp: sc_app_opt_def Let_def split: if_splits)

text \<open>No option turns the Apache workaround off.\<close>

lemma sc_parse_ab: "sc_parse_command_line xs (c, n) = Inr (c', n') \<Longrightarrow> sc_opt_ab_test c' = sc_opt_ab_test c"
proof (induction xs arbitrary: c n)
  case (Cons x xs)
  then obtain c1 n1 where "sc_app_opt x (c, n) = Inr (c1, n1)" "sc_parse_command_line xs (c1, n1) = Inr (c', n')"
    by (auto split: sum.splits)
  then show ?case
    using Cons.IH sc_app_opt_ab [of x c n c1 n1] by simp
qed simp

lemma sc_started:
  assumes "sc_swich_agent a rand argv0 xsk_opts app_opts st0 = Inr (c, cfg, st)"
  shows "bloom_ok (sc_bf st)" "sc_opt_ab_test cfg"
proof -
  obtain c1 cfg1 n where p: "xsknf_parse_args argv0 xsk_opts = Inr c1" "sint (c_workers c1) \<le> 16"
    "sc_parse_command_line app_opts (sc_globals, 0) = Inr (cfg1, n)"
    using assms by (auto simp: sc_swich_agent_def Let_def split: sum.splits if_splits)
  show "bloom_ok (sc_bf st)" "sc_opt_ab_test cfg"
    using sc_start_total [OF p(1,3,2), of a rand st0] assms sc_parse_ab [OF p(3)]
    by (auto simp: sc_init_ip_def sc_init_MAC_def sc_globals_def)
qed

lemma sc_ack_bf:
  assumes "sc_ack cfg w st m len ts = Inr (r, st', m', len')" "bloom_ok (sc_bf st)"
  shows "bloom_ok (sc_bf st')"
proof -
  have fin: "sc_bf st' = sc_bf st1" if "sc_ack_finish cfg w st1 m1 len ts = Inr (r, st', m', len')" for st1 m1
    using that by (auto simp: sc_ack_finish_def sc_ack_options_def sc_pass_eq Let_def case_prod_unfold split: option.splits if_splits)
  show ?thesis
    using assms bloom.put_ok [OF assms(2), of "flow_bytes (sc_flows st w)"] fin
    by (auto simp: sc_ack_def sc_drop_def Let_def split: sum.splits bool.splits if_splits)
qed

lemma sc_processor_bf:
  assumes "sc_processor cfg st m len ifx w = Inr (r, st', m', len')" "bloom_ok (sc_bf st)"
  shows "bloom_ok (sc_bf st')"
proof -
  have syn: "sc_bf st' = sc_bf st1" if "sc_syn cfg w st1 m len ts = Inr (r, st', m', len')" for st1 ts
    using that by (auto simp: sc_syn_def sc_syn_options_def sc_pass_eq sc_drop_def Let_def case_prod_unfold split: if_splits)
  have out: "bloom_ok (sc_bf st')" if "sc_out_tagged w st m len = Inr (r, st', m', len')"
    using that bloom.put_ok [OF assms(2)] by (auto simp: sc_out_tagged_def sc_drop_def Let_def split: sum.splits if_splits) (metis sum.inject(2))
  show ?thesis
    using assms syn out sc_ack_bf
    by (auto simp: sc_processor_def sc_pass_eq sc_drop_def Let_def split: option.splits if_splits)
qed

text \<open>Frames one after the other, each with its length, interface and worker.\<close>

fun sc_frames :: "sc_cfg \<Rightarrow> sc_switch \<Rightarrow> (mem \<times> u32 \<times> nat \<times> nat) list \<Rightarrow> sc_error + sc_switch" where
  "sc_frames cfg st [] = Inr st"
| "sc_frames cfg st ((m, len, ifx, w) # fs) =
     (case sc_processor cfg st m len ifx w of Inl e \<Rightarrow> Inl e | Inr (r, st', m', len') \<Rightarrow> sc_frames cfg st' fs)"

lemma sc_frames_bf: "sc_frames cfg st fs = Inr st' \<Longrightarrow> bloom_ok (sc_bf st) \<Longrightarrow> bloom_ok (sc_bf st')"
proof (induction cfg st fs rule: sc_frames.induct)
  case (2 cfg st m len ifx w fs)
  then show ?case
    by (auto split: sum.splits dest: sc_processor_bf)
qed simp

text \<open>
  Whatever the command line of a started agent and whatever frames it has handled, the next
  SYN with a header of fewer than eight words stops it, unless it only drops or forwards, and so
  does, because no option turns the Apache workaround off, the next such ACK that carries a
  valid cookie.
\<close>

theorem sc_bare_segment_stops:
  assumes "sc_swich_agent a rand argv0 xsk_opts app_opts st0 = Inr (c, cfg, st)" "sc_frames cfg st fs = Inr st'"
    and "sc_active cfg m" "tcp_doff m 34 < 8" "tcp_syn m 34 \<noteq> tcp_ack m 34" "tcp_ack m 34 \<Longrightarrow> cookie_ack m 34" "w < PER_WORKER"
  shows "sc_processor cfg st' m len 0 w = Inl ScNull"
proof -
  have ok: "bloom_ok (sc_bf st')" "sc_opt_ab_test cfg"
    using sc_frames_bf [OF assms(2)] sc_started [OF assms(1)] by blast+
  obtain b f where "bloom_filter_test (sc_bf st') (flow_bytes (sc_flow_of st' w m)) = Inr b"
    "bloom_filter_put (sc_bf st') (flow_bytes (sc_flow_of st' w m)) = Inr f"
    using bloom.test_ok [OF ok(1)] bloom.put_ok [OF ok(1)] by blast
  then show ?thesis
    using assms(3-7) ok(2) by (cases b) (auto simp: sc_processor_inbound sc_sw_ts_def sc_ack_def sc_ack_finish_def
        cookie_ack_def sc_hash_agree Let_def)
qed

section \<open>Witnesses\<close>

definition sc_cfg_started :: sc_cfg where
  "sc_cfg_started = sc_init_ip (sc_init_MAC [] sc_globals)"

lemma sc_sample_start:
  "\<exists>st'. sc_swich_agent [] (\<lambda>_. 7) ''agent'' sample_opts [(CHR ''c'', ''2'')] sc_sw0 = Inr (sample_conf, sc_cfg_started, st')"
proof -
  have p: "sc_parse_command_line [(CHR ''c'', ''2'')] (sc_globals, 0) = Inr (sc_globals, 2)"
    by (simp add: sc_app_opt_def atoi_def strtol10_def is_space_def)
  have "sint (c_workers sample_conf) \<le> 16"
    by (simp add: sample_conf_def)
  from sc_start_total [OF sample_opts_parse p this, of "[]" "\<lambda>_. 7" sc_sw0] show ?thesis
    by (auto simp: sc_cfg_started_def)
qed

theorem sc_bare_segment_stops_witness:
  "\<exists>st. sc_swich_agent [] (\<lambda>_. 7) ''agent'' sample_opts [(CHR ''c'', ''2'')] sc_sw0 = Inr (sample_conf, sc_cfg_started, st)
     \<and> sc_processor sc_cfg_started st sample_bare_syn 74 0 0 = Inl ScNull"
proof -
  obtain st where st: "sc_swich_agent [] (\<lambda>_. 7) ''agent'' sample_opts [(CHR ''c'', ''2'')] sc_sw0 = Inr (sample_conf, sc_cfg_started, st)"
    using sc_sample_start by blast
  have a: "sc_active sc_cfg_started sample_bare_syn"
    by (simp add: sc_active_def sc_cfg_started_def sc_init_ip_def sc_init_MAC_def sc_globals_def sample_bare_syn_def
        sample_syn_def sample_eval)
  have "tcp_doff sample_bare_syn 34 < 8" "tcp_syn sample_bare_syn 34" "\<not> tcp_ack sample_bare_syn 34"
    by (simp_all add: sample_bare_syn_def sample_syn_def mem_of_def)
  with sc_bare_segment_stops [OF st sc_frames.simps(1) a, of 0 74] st show ?thesis
    by auto
qed

end
