(* ===== verification/Crc32.thy ===== *)
theory Crc32
  imports EC_Prelude
begin

text \<open>
  The table-driven CRC of \<open>crc32.c\<close> and its equivalence with the division of the message
  polynomial by \<open>0x04c11db7\<close>, bit by bit from the most significant bit.
\<close>

section \<open>The routine\<close>

definition crc32_table :: "u32 list" where
  "crc32_table =
    [0x00000000, 0x04c11db7, 0x09823b6e, 0x0d4326d9, 0x130476dc, 0x17c56b6b, 0x1a864db2, 0x1e475005,
     0x2608edb8, 0x22c9f00f, 0x2f8ad6d6, 0x2b4bcb61, 0x350c9b64, 0x31cd86d3, 0x3c8ea00a, 0x384fbdbd,
     0x4c11db70, 0x48d0c6c7, 0x4593e01e, 0x4152fda9, 0x5f15adac, 0x5bd4b01b, 0x569796c2, 0x52568b75,
     0x6a1936c8, 0x6ed82b7f, 0x639b0da6, 0x675a1011, 0x791d4014, 0x7ddc5da3, 0x709f7b7a, 0x745e66cd,
     0x9823b6e0, 0x9ce2ab57, 0x91a18d8e, 0x95609039, 0x8b27c03c, 0x8fe6dd8b, 0x82a5fb52, 0x8664e6e5,
     0xbe2b5b58, 0xbaea46ef, 0xb7a96036, 0xb3687d81, 0xad2f2d84, 0xa9ee3033, 0xa4ad16ea, 0xa06c0b5d,
     0xd4326d90, 0xd0f37027, 0xddb056fe, 0xd9714b49, 0xc7361b4c, 0xc3f706fb, 0xceb42022, 0xca753d95,
     0xf23a8028, 0xf6fb9d9f, 0xfbb8bb46, 0xff79a6f1, 0xe13ef6f4, 0xe5ffeb43, 0xe8bccd9a, 0xec7dd02d,
     0x34867077, 0x30476dc0, 0x3d044b19, 0x39c556ae, 0x278206ab, 0x23431b1c, 0x2e003dc5, 0x2ac12072,
     0x128e9dcf, 0x164f8078, 0x1b0ca6a1, 0x1fcdbb16, 0x018aeb13, 0x054bf6a4, 0x0808d07d, 0x0cc9cdca,
     0x7897ab07, 0x7c56b6b0, 0x71159069, 0x75d48dde, 0x6b93dddb, 0x6f52c06c, 0x6211e6b5, 0x66d0fb02,
     0x5e9f46bf, 0x5a5e5b08, 0x571d7dd1, 0x53dc6066, 0x4d9b3063, 0x495a2dd4, 0x44190b0d, 0x40d816ba,
     0xaca5c697, 0xa864db20, 0xa527fdf9, 0xa1e6e04e, 0xbfa1b04b, 0xbb60adfc, 0xb6238b25, 0xb2e29692,
     0x8aad2b2f, 0x8e6c3698, 0x832f1041, 0x87ee0df6, 0x99a95df3, 0x9d684044, 0x902b669d, 0x94ea7b2a,
     0xe0b41de7, 0xe4750050, 0xe9362689, 0xedf73b3e, 0xf3b06b3b, 0xf771768c, 0xfa325055, 0xfef34de2,
     0xc6bcf05f, 0xc27dede8, 0xcf3ecb31, 0xcbffd686, 0xd5b88683, 0xd1799b34, 0xdc3abded, 0xd8fba05a,
     0x690ce0ee, 0x6dcdfd59, 0x608edb80, 0x644fc637, 0x7a089632, 0x7ec98b85, 0x738aad5c, 0x774bb0eb,
     0x4f040d56, 0x4bc510e1, 0x46863638, 0x42472b8f, 0x5c007b8a, 0x58c1663d, 0x558240e4, 0x51435d53,
     0x251d3b9e, 0x21dc2629, 0x2c9f00f0, 0x285e1d47, 0x36194d42, 0x32d850f5, 0x3f9b762c, 0x3b5a6b9b,
     0x0315d626, 0x07d4cb91, 0x0a97ed48, 0x0e56f0ff, 0x1011a0fa, 0x14d0bd4d, 0x19939b94, 0x1d528623,
     0xf12f560e, 0xf5ee4bb9, 0xf8ad6d60, 0xfc6c70d7, 0xe22b20d2, 0xe6ea3d65, 0xeba91bbc, 0xef68060b,
     0xd727bbb6, 0xd3e6a601, 0xdea580d8, 0xda649d6f, 0xc423cd6a, 0xc0e2d0dd, 0xcda1f604, 0xc960ebb3,
     0xbd3e8d7e, 0xb9ff90c9, 0xb4bcb610, 0xb07daba7, 0xae3afba2, 0xaafbe615, 0xa7b8c0cc, 0xa379dd7b,
     0x9b3660c6, 0x9ff77d71, 0x92b45ba8, 0x9675461f, 0x8832161a, 0x8cf30bad, 0x81b02d74, 0x857130c3,
     0x5d8a9099, 0x594b8d2e, 0x5408abf7, 0x50c9b640, 0x4e8ee645, 0x4a4ffbf2, 0x470cdd2b, 0x43cdc09c,
     0x7b827d21, 0x7f436096, 0x7200464f, 0x76c15bf8, 0x68860bfd, 0x6c47164a, 0x61043093, 0x65c52d24,
     0x119b4be9, 0x155a565e, 0x18197087, 0x1cd86d30, 0x029f3d35, 0x065e2082, 0x0b1d065b, 0x0fdc1bec,
     0x3793a651, 0x3352bbe6, 0x3e119d3f, 0x3ad08088, 0x2497d08d, 0x2056cd3a, 0x2d15ebe3, 0x29d4f654,
     0xc5a92679, 0xc1683bce, 0xcc2b1d17, 0xc8ea00a0, 0xd6ad50a5, 0xd26c4d12, 0xdf2f6bcb, 0xdbee767c,
     0xe3a1cbc1, 0xe760d676, 0xea23f0af, 0xeee2ed18, 0xf0a5bd1d, 0xf464a0aa, 0xf9278673, 0xfde69bc4,
     0x89b8fd09, 0x8d79e0be, 0x803ac667, 0x84fbdbd0, 0x9abc8bd5, 0x9e7d9662, 0x933eb0bb, 0x97ffad0c,
     0xafb010b1, 0xab710d06, 0xa6322bdf, 0xa2f33668, 0xbcb4666d, 0xb8757bda, 0xb5365d03, 0xb1f740b4]"

fun xcrc32 :: "u8 list \<Rightarrow> u32 \<Rightarrow> u32" where
  "xcrc32 [] crc = crc"
| "xcrc32 (b # buf) crc =
     xcrc32 buf (push_bit 8 crc XOR crc32_table ! unat ((drop_bit 24 crc XOR ucast b) AND 255))"

section \<open>Division of polynomials\<close>

definition crc_poly :: u32 where "crc_poly = 0x04c11db7"

definition crc_bit :: "u32 \<Rightarrow> u32" where
  "crc_bit c = (if bit c 31 then push_bit 1 c XOR crc_poly else push_bit 1 c)"

text \<open>A byte enters at the top; eight steps shift it out.\<close>

fun crc_ref :: "u8 list \<Rightarrow> u32 \<Rightarrow> u32" where
  "crc_ref [] crc = crc"
| "crc_ref (b # buf) crc = crc_ref buf ((crc_bit ^^ 8) (crc XOR push_bit 24 (ucast b)))"

lemma crc_bit_xor: "crc_bit (x XOR y) = crc_bit x XOR crc_bit y"
  by (simp add: crc_bit_def bit_xor_iff push_bit_xor ac_simps)

lemma crc_bits_xor: "(crc_bit ^^ n) (x XOR y) = (crc_bit ^^ n) x XOR (crc_bit ^^ n) y"
  by (induction n) (simp_all add: crc_bit_xor)

text \<open>
  The remainders are linear in the byte, so the table is determined by its entries at powers
  of two: each half of it is the other half plus one such entry.
\<close>

definition crc_byte :: "nat \<Rightarrow> u32" where
  "crc_byte i = (crc_bit ^^ 8) (push_bit 24 (of_nat i))"

lemma of_nat_xor_pow: "i < 2 ^ k \<Longrightarrow> of_nat (2 ^ k + i) = (2 ^ k XOR of_nat i :: u32)"
proof -
  assume "i < 2 ^ k"
  then have "\<not> bit i k"
    by (simp add: bit_iff_odd)
  then have "(2 ^ k + i :: nat) = 2 ^ k XOR i"
    by (intro disjunctive_add_eq_xor bit_eqI) (auto simp: bit_and_iff bit_exp_iff)
  then show ?thesis
    by (metis of_nat_numeral of_nat_power of_nat_xor_eq)
qed

lemma crc_byte_pow: "i < 2 ^ k \<Longrightarrow> crc_byte (2 ^ k + i) = crc_byte (2 ^ k) XOR crc_byte i"
  using of_nat_xor_pow [of i k] by (simp add: crc_byte_def push_bit_xor crc_bits_xor)

lemma crc_bytes_double:
  "map crc_byte [0..<2 ^ Suc k] = map crc_byte [0..<2 ^ k] @ map (\<lambda>x. crc_byte (2 ^ k) XOR x) (map crc_byte [0..<2 ^ k])"
proof -
  have "[0..<2 ^ Suc k] = [0..<2 ^ k] @ map (\<lambda>i. 2 ^ k + i) [0..<2 ^ k :: nat]"
    using upt_add_eq_append [of 0 "2 ^ k" "2 ^ k"] map_add_upt [of "2 ^ k" "2 ^ k"] by (simp add: mult_2 add.commute)
  then show ?thesis
    by (simp add: crc_byte_pow)
qed

lemma funpow_8: "(f ^^ 8) x = f (f (f (f (f (f (f (f x)))))))"
  by (simp add: numeral_eq_Suc)

lemma crc_byte_powers:
  "crc_byte 0 = 0" "crc_byte 1 = 0x04c11db7" "crc_byte 2 = 0x09823b6e" "crc_byte 4 = 0x130476dc" "crc_byte 8 = 0x2608edb8"
  "crc_byte 16 = 0x4c11db70" "crc_byte 32 = 0x9823b6e0" "crc_byte 64 = 0x34867077" "crc_byte 128 = 0x690ce0ee"
  by (simp_all add: crc_byte_def crc_bit_def crc_poly_def funpow_8)

lemma crc32_table_ok: "crc32_table = map crc_byte [0..<256]"
proof -
  have d: "map crc_byte [0..<2 * n] = map crc_byte [0..<n] @ map (\<lambda>x. crc_byte n XOR x) (map crc_byte [0..<n])"
    if "n = 2 ^ k" for n k
    using crc_bytes_double [of k] that by simp
  have "map crc_byte [0..<1] = [0]"
    by (simp add: crc_byte_powers)
  note t1 = this
  have t2: "map crc_byte [0..<2] = [0, 0x04c11db7]"
    using d [of 1 0] crc_byte_powers(2) by (simp add: t1 crc_byte_powers(1))
  have t4: "map crc_byte [0..<4] = take 4 crc32_table"
    using d [of 2 1] unfolding t2 by (simp add: crc_byte_powers crc32_table_def)
  have t8: "map crc_byte [0..<8] = take 8 crc32_table"
    using d [of 4 2] unfolding t4 by (simp add: crc_byte_powers crc32_table_def)
  have t16: "map crc_byte [0..<16] = take 16 crc32_table"
    using d [of 8 3] unfolding t8 by (simp add: crc_byte_powers crc32_table_def)
  have t32: "map crc_byte [0..<32] = take 32 crc32_table"
    using d [of 16 4] unfolding t16 by (simp add: crc_byte_powers crc32_table_def)
  have t64: "map crc_byte [0..<64] = take 64 crc32_table"
    using d [of 32 5] unfolding t32 by (simp add: crc_byte_powers crc32_table_def)
  have t128: "map crc_byte [0..<128] = take 128 crc32_table"
    using d [of 64 6] unfolding t64 by (simp add: crc_byte_powers crc32_table_def)
  show ?thesis
    using d [of 128 7] unfolding t128 by (simp add: crc_byte_powers crc32_table_def)
qed

lemma crc32_table_nth: "i < 256 \<Longrightarrow> crc32_table ! i = crc_byte i"
  by (simp add: crc32_table_ok)

text \<open>One byte: the lower 24 bits only move, the upper eight select the remainder.\<close>

lemma crc_bits_low: "n \<le> 8 \<Longrightarrow> (crc_bit ^^ n) (take_bit 24 x) = push_bit n (take_bit 24 x)"
proof (induction n)
  case (Suc n)
  then have "\<not> bit (push_bit n (take_bit 24 x)) 31"
    by (auto simp: bit_simps)
  then show ?case
    using Suc by (simp add: crc_bit_def)
qed simp

lemma crc_split: "c XOR push_bit 24 (ucast b) = take_bit 24 c XOR push_bit 24 (drop_bit 24 c XOR ucast (b :: u8))" for c :: u32
  by (rule bit_word_eqI) (auto simp: bit_simps)

lemma crc_step:
  fixes b :: u8
  shows "push_bit 8 c XOR crc32_table ! unat ((drop_bit 24 c XOR ucast b) AND 255) = (crc_bit ^^ 8) (c XOR push_bit 24 (ucast b))"
proof -
  let ?t = "drop_bit 24 c XOR ucast b :: u32"
  have m: "(255 :: u32) = mask 8"
    by (simp add: mask_eq_exp_minus_1)
  have t: "?t AND 255 = ?t"
    unfolding m by (rule bit_word_eqI) (use bit_imp_le_length [of c] bit_imp_le_length [of b] in \<open>force simp: bit_simps\<close>)
  have "unat ?t < 256"
  proof -
    have "?t = take_bit 8 ?t"
      using t by (simp add: take_bit_eq_mask m)
    then have "unat ?t = take_bit 8 (unat ?t)"
      by (metis unsigned_take_bit_eq)
    also have "\<dots> < 2 ^ 8" by (rule take_bit_nat_less_exp)
    finally show ?thesis by simp
  qed
  then have tab: "crc32_table ! unat ?t = (crc_bit ^^ 8) (push_bit 24 ?t)"
    by (simp add: crc32_table_nth crc_byte_def)
  have "push_bit 8 c = push_bit 8 (take_bit 24 c)"
    by (rule bit_word_eqI) (auto simp: bit_simps)
  also have "\<dots> = (crc_bit ^^ 8) (take_bit 24 c)"
    by (rule crc_bits_low [symmetric]) simp
  finally show ?thesis
    unfolding t tab crc_split crc_bits_xor by (rule arg_cong)
qed

text \<open>
  C37: \<open>xcrc32\<close> computes the CRC-32 of its input, most significant bit first, for every message
  and start value: the table-driven loop does the division by the generator polynomial.
\<close>

theorem xcrc32_correct: "xcrc32 buf crc = crc_ref buf crc"
  by (induction buf arbitrary: crc) (simp_all only: xcrc32.simps crc_ref.simps crc_step)

end
