(* ===== verification/Jhash.thy ===== *)
theory Jhash
  imports EC_Prelude
begin

text \<open>
  The Jenkins hash of \<open>headers/linux/jhash.h\<close>: the byte version that \<open>khashmap.c\<close> uses, the
  version for arrays of words and those for one to three words, and their agreement on
  little-endian words.
\<close>

section \<open>Mixing\<close>

definition rol32 :: "u32 \<Rightarrow> nat \<Rightarrow> u32" where
  "rol32 word shift = push_bit (shift mod 32) word OR drop_bit ((32 - shift mod 32) mod 32) word"

definition jhash_mix :: "u32 \<times> u32 \<times> u32 \<Rightarrow> u32 \<times> u32 \<times> u32" where
  "jhash_mix v =
     (let (a, b, c) = v;
          a = a - c; a = a XOR rol32 c 4; c = c + b;
          b = b - a; b = b XOR rol32 a 6; a = a + c;
          c = c - b; c = c XOR rol32 b 8; b = b + a;
          a = a - c; a = a XOR rol32 c 16; c = c + b;
          b = b - a; b = b XOR rol32 a 19; a = a + c;
          c = c - b; c = c XOR rol32 b 4; b = b + a
      in (a, b, c))"

definition jhash_final :: "u32 \<times> u32 \<times> u32 \<Rightarrow> u32 \<times> u32 \<times> u32" where
  "jhash_final v =
     (let (a, b, c) = v;
          c = c XOR b; c = c - rol32 b 14;
          a = a XOR c; a = a - rol32 c 11;
          b = b XOR a; b = b - rol32 a 25;
          c = c XOR b; c = c - rol32 b 16;
          a = a XOR c; a = a - rol32 c 4;
          b = b XOR a; b = b - rol32 a 14;
          c = c XOR b; c = c - rol32 b 24
      in (a, b, c))"

definition JHASH_INITVAL :: u32 where "JHASH_INITVAL = 0xdeadbeef"

section \<open>Bytes\<close>

text \<open>\<open>__get_unaligned_cpuint32_t\<close> at an offset of the key.\<close>

definition get32 :: "u8 list \<Rightarrow> nat \<Rightarrow> u32" where
  "get32 k i = mk32 (k ! i) (k ! (i + 1)) (k ! (i + 2)) (k ! (i + 3))"

text \<open>The switch over the remaining length, with its falling through.\<close>

definition jhash_tail :: "u8 list \<Rightarrow> u32 \<times> u32 \<times> u32 \<Rightarrow> u32" where
  "jhash_tail k v =
     (let (a, b, c) = v; n = length k;
          at = (\<lambda>i s. if i < n then push_bit s (ucast (k ! i)) else 0);
          c = c + at 11 24; c = c + at 10 16; c = c + at 9 8; c = c + at 8 0;
          b = b + at 7 24; b = b + at 6 16; b = b + at 5 8; b = b + at 4 0;
          a = a + at 3 24; a = a + at 2 16; a = a + at 1 8; a = a + at 0 0
      in if n = 0 then c else (case jhash_final (a, b, c) of (a, b, c) \<Rightarrow> c))"

fun jhash_loop :: "u8 list \<Rightarrow> u32 \<times> u32 \<times> u32 \<Rightarrow> u32" where
  "jhash_loop k (a, b, c) =
     (if length k > 12 then jhash_loop (drop 12 k) (jhash_mix (a + get32 k 0, b + get32 k 4, c + get32 k 8))
      else jhash_tail k (a, b, c))"

definition jhash :: "u8 list \<Rightarrow> u32 \<Rightarrow> u32" where
  "jhash key initval = (let v = JHASH_INITVAL + of_nat (length key) + initval in jhash_loop key (v, v, v))"

section \<open>Words\<close>

definition jhash2_tail :: "u32 list \<Rightarrow> u32 \<times> u32 \<times> u32 \<Rightarrow> u32" where
  "jhash2_tail k v =
     (let (a, b, c) = v; n = length k;
          c = (if 2 < n then c + k ! 2 else c);
          b = (if 1 < n then b + k ! 1 else b);
          a = (if 0 < n then a + k ! 0 else a)
      in if n = 0 then c else (case jhash_final (a, b, c) of (a, b, c) \<Rightarrow> c))"

fun jhash2_loop :: "u32 list \<Rightarrow> u32 \<times> u32 \<times> u32 \<Rightarrow> u32" where
  "jhash2_loop k (a, b, c) =
     (if length k > 3 then jhash2_loop (drop 3 k) (jhash_mix (a + k ! 0, b + k ! 1, c + k ! 2))
      else jhash2_tail k (a, b, c))"

definition jhash2 :: "u32 list \<Rightarrow> u32 \<Rightarrow> u32" where
  "jhash2 k initval = (let v = JHASH_INITVAL + push_bit 2 (of_nat (length k)) + initval in jhash2_loop k (v, v, v))"

definition jhash_nwords :: "u32 \<Rightarrow> u32 \<Rightarrow> u32 \<Rightarrow> u32 \<Rightarrow> u32" where
  "jhash_nwords a b c initval =
     (let a = a + initval; b = b + initval; c = c + initval
      in case jhash_final (a, b, c) of (a, b, c) \<Rightarrow> c)"

definition jhash_3words :: "u32 \<Rightarrow> u32 \<Rightarrow> u32 \<Rightarrow> u32 \<Rightarrow> u32" where
  "jhash_3words a b c initval = jhash_nwords a b c (initval + JHASH_INITVAL + push_bit 2 3)"

definition jhash_2words :: "u32 \<Rightarrow> u32 \<Rightarrow> u32 \<Rightarrow> u32" where
  "jhash_2words a b initval = jhash_nwords a b 0 (initval + JHASH_INITVAL + push_bit 2 2)"

definition jhash_1word :: "u32 \<Rightarrow> u32 \<Rightarrow> u32" where
  "jhash_1word a initval = jhash_nwords a 0 0 (initval + JHASH_INITVAL + push_bit 2 1)"

section \<open>Agreement\<close>

lemma jhash_words_eq: "jhash_3words a b c iv = jhash2 [a, b, c] iv" "jhash_2words a b iv = jhash2 [a, b] iv"
  "jhash_1word a iv = jhash2 [a] iv"
  by (simp_all add: jhash_3words_def jhash_2words_def jhash_1word_def jhash_nwords_def jhash2_def jhash2_tail_def Let_def
      ac_simps)

definition le_bytes :: "u32 list \<Rightarrow> u8 list" where
  "le_bytes k = concat (map bytes32 k)"

lemma le_bytes_simps [simp]: "le_bytes [] = []" "le_bytes (x # k) = bytes32 x @ le_bytes k"
  by (simp_all add: le_bytes_def)

lemma length_le_bytes [simp]: "length (le_bytes k) = 4 * length k"
  by (induction k) simp_all

lemma mk32_sum:
  "a + push_bit 24 (ucast b3) + push_bit 16 (ucast b2) + push_bit 8 (ucast b1) + ucast b0 = a + mk32 b0 b1 b2 b3"
  by (simp add: mk32_def push_bit_eq_mult ac_simps)

lemma mk32_sum_byte:
  "a + push_bit 24 (ucast (byte 3 x)) + push_bit 16 (ucast (byte 2 x)) + push_bit 8 (ucast (byte (Suc 0) x))
     + ucast (byte 0 x) = a + (x :: u32)"
  by (simp only: mk32_sum mk32_byte)

lemma jhash_tail_words: "length k \<le> 3 \<Longrightarrow> jhash_tail (le_bytes k) v = jhash2_tail k v"
proof -
  assume "length k \<le> 3"
  then consider "k = []" | x where "k = [x]" | x y where "k = [x, y]" | x y z where "k = [x, y, z]"
    by (cases k; cases "tl k"; cases "tl (tl k)"; cases "tl (tl (tl k))") auto
  then show ?thesis
    by cases (simp_all add: jhash_tail_def jhash2_tail_def bytes32_def nth_Cons' mk32_sum_byte split: prod.split
        del: push_bit_numeral_minus_1)
qed

lemma jhash_loop_words: "jhash_loop (le_bytes k) v = jhash2_loop k v"
proof (induction k v rule: jhash2_loop.induct)
  case (1 k a b c)
  show ?case
  proof (cases "length k > 3")
    case True
    then obtain x y z k' where "k = x # y # z # k'"
      by (cases k; cases "tl k"; cases "tl (tl k)") auto
    then have "drop 12 (le_bytes k) = le_bytes (drop 3 k)" "get32 (le_bytes k) 0 = k ! 0"
      "get32 (le_bytes k) 4 = k ! 1" "get32 (le_bytes k) 8 = k ! 2"
      by (simp_all add: get32_def bytes32_def)
    moreover have "jhash_loop (le_bytes k) (a, b, c)
        = jhash_loop (drop 12 (le_bytes k)) (jhash_mix (a + get32 (le_bytes k) 0, b + get32 (le_bytes k) 4, c + get32 (le_bytes k) 8))"
      by (subst jhash_loop.simps) (use True in simp)
    ultimately show ?thesis
      using 1 True by (simp del: jhash_loop.simps)
  next
    case False
    then show ?thesis by (simp add: jhash_tail_words)
  qed
qed

text \<open>
  The versions of the hash agree: an array of words hashes like its little-endian bytes, and
  the versions for one, two and three words like arrays of that length.
\<close>

theorem jhash_versions_agree:
  "jhash2 k iv = jhash (le_bytes k) iv \<and> jhash_3words a b c iv = jhash2 [a, b, c] iv
   \<and> jhash_2words a b iv = jhash2 [a, b] iv \<and> jhash_1word a iv = jhash2 [a] iv"
  by (simp_all add: jhash_words_eq jhash2_def jhash_def jhash_loop_words push_bit_eq_mult mult.commute
      del: jhash_loop.simps jhash2_loop.simps)

text \<open>The mixing step loses nothing: it can be undone.\<close>

definition jhash_unmix :: "u32 \<times> u32 \<times> u32 \<Rightarrow> u32 \<times> u32 \<times> u32" where
  "jhash_unmix v =
     (let (a, b, c) = v;
          b = b - a; c = c XOR rol32 b 4; c = c + b;
          a = a - c; b = b XOR rol32 a 19; b = b + a;
          c = c - b; a = a XOR rol32 c 16; a = a + c;
          b = b - a; c = c XOR rol32 b 8; c = c + b;
          a = a - c; b = b XOR rol32 a 6; b = b + a;
          c = c - b; a = a XOR rol32 c 4; a = a + c
      in (a, b, c))"

lemma jhash_mix_reversible: "jhash_unmix (jhash_mix v) = v" "jhash_mix (jhash_unmix v) = v"
  by (simp_all add: jhash_mix_def jhash_unmix_def Let_def xor.assoc split: prod.split)

end
