(* ===== verification/Hlist.thy ===== *)
theory Hlist
  imports EC_Prelude
begin

text \<open>
  The hash chains of \<open>headers/linux/list_nulls.h\<close>: singly linked lists with a back pointer to
  the cell that points to a node, ended by a marker that carries a number.  Pointers to nodes
  are numbers of nodes, a pointer to a cell is the head of a chain or the \<open>next\<close> field of a
  node, and an end marker is the word it is in C, with its lowest bit set.
\<close>

section \<open>Operations\<close>

datatype nptr = Node nat | Nulls u64
datatype pcell = Head nat | Next nat | PNull

record hlist_nulls =
  first :: "nat \<Rightarrow> nptr"
  nxt :: "nat \<Rightarrow> nptr"
  pprev :: "nat \<Rightarrow> pcell"

definition NULLS_MARKER :: "u64 \<Rightarrow> u64" where
  "NULLS_MARKER v = 1 OR push_bit 1 v"

definition INIT_HLIST_NULLS_HEAD :: "nat \<Rightarrow> u64 \<Rightarrow> 'a hlist_nulls_scheme \<Rightarrow> 'a hlist_nulls_scheme" where
  "INIT_HLIST_NULLS_HEAD b nulls h = h\<lparr>first := (first h)(b := Nulls (NULLS_MARKER nulls))\<rparr>"

fun is_a_nulls :: "nptr \<Rightarrow> bool" where
  "is_a_nulls (Nulls _) = True"
| "is_a_nulls (Node _) = False"

definition get_nulls_value :: "u64 \<Rightarrow> u64" where
  "get_nulls_value p = drop_bit 1 p"

definition hlist_nulls_unhashed :: "nat \<Rightarrow> 'a hlist_nulls_scheme \<Rightarrow> bool" where
  "hlist_nulls_unhashed n h \<longleftrightarrow> pprev h n = PNull"

definition hlist_nulls_empty :: "nat \<Rightarrow> 'a hlist_nulls_scheme \<Rightarrow> bool" where
  "hlist_nulls_empty b h \<longleftrightarrow> is_a_nulls (first h b)"

text \<open>A write to the \<open>pprev\<close> field of the node a pointer leads to, if it leads to one.\<close>

definition set_pprev :: "nptr \<Rightarrow> pcell \<Rightarrow> 'a hlist_nulls_scheme \<Rightarrow> 'a hlist_nulls_scheme" where
  "set_pprev p c h = (case p of Node n \<Rightarrow> h\<lparr>pprev := (pprev h)(n := c)\<rparr> | Nulls _ \<Rightarrow> h)"

definition hlist_nulls_add_head :: "nat \<Rightarrow> nat \<Rightarrow> 'a hlist_nulls_scheme \<Rightarrow> 'a hlist_nulls_scheme" where
  "hlist_nulls_add_head n b h =
     (let f = first h b;
          h = h\<lparr>nxt := (nxt h)(n := f)\<rparr>;
          h = h\<lparr>pprev := (pprev h)(n := Head b)\<rparr>;
          h = h\<lparr>first := (first h)(b := Node n)\<rparr>
      in set_pprev f (Next n) h)"

text \<open>A write through a pointer to a cell; through the null pointer it fails.\<close>

definition write_cell :: "pcell \<Rightarrow> nptr \<Rightarrow> 'a hlist_nulls_scheme \<Rightarrow> 'a hlist_nulls_scheme option" where
  "write_cell c p h =
     (case c of
        Head b \<Rightarrow> Some (h\<lparr>first := (first h)(b := p)\<rparr>)
      | Next n \<Rightarrow> Some (h\<lparr>nxt := (nxt h)(n := p)\<rparr>)
      | PNull \<Rightarrow> None)"

definition hlist_nulls_unlink :: "nat \<Rightarrow> 'a hlist_nulls_scheme \<Rightarrow> 'a hlist_nulls_scheme option" where
  "hlist_nulls_unlink n h =
     (let nx = nxt h n; pp = pprev h n in map_option (set_pprev nx pp) (write_cell pp nx h))"

definition hlist_nulls_del :: "nat \<Rightarrow> 'a hlist_nulls_scheme \<Rightarrow> 'a hlist_nulls_scheme option" where
  "hlist_nulls_del n h = map_option (\<lambda>h. h\<lparr>pprev := (pprev h)(n := PNull)\<rparr>) (hlist_nulls_unlink n h)"

text \<open>
  A loop over a chain that leaves it at the first node with a property: \<open>None\<close> is a loop that
  does not end, \<open>Inr\<close> the end marker.
\<close>

partial_function (option) hlist_find :: "'a hlist_nulls_scheme \<Rightarrow> (nat \<Rightarrow> bool) \<Rightarrow> nptr \<Rightarrow> (nat + u64) option" where
  "hlist_find h P pos =
     (case pos of
        Nulls v \<Rightarrow> Some (Inr v)
      | Node n \<Rightarrow> if P n then Some (Inl n) else hlist_find h P (nxt h n))"

section \<open>Chains\<close>

lemma nulls_odd: "odd (NULLS_MARKER v)"
  by (simp add: NULLS_MARKER_def even_or_iff)

lemma bit_marker: "bit (NULLS_MARKER x) (1 + n) \<longleftrightarrow> n < 63 \<and> bit x n"
  unfolding NULLS_MARKER_def bit_or_iff bit_push_bit_iff bit_1_iff by auto

lemma marker_value: "\<not> bit x 63 \<Longrightarrow> get_nulls_value (NULLS_MARKER x) = x"
proof (rule bit_word_eqI)
  fix n assume a: "\<not> bit x 63" "n < LENGTH(64)"
  then have "n < 63 \<or> n = 63" by auto
  with a(1) show "bit (get_nulls_value (NULLS_MARKER x)) n \<longleftrightarrow> bit x n"
    unfolding get_nulls_value_def bit_drop_bit_eq comp_def bit_marker by auto
qed

lemma nulls_roundtrip: "b < 2 ^ 32 \<Longrightarrow> get_nulls_value (NULLS_MARKER (of_nat b)) = of_nat b"
proof -
  assume "b < 2 ^ 32"
  then have "\<not> bit b 63"
    by (simp add: bit_iff_odd)
  moreover have "unat (of_nat b :: u64) = b"
    using \<open>b < 2 ^ 32\<close> by (simp add: unsigned_of_nat take_bit_nat_eq_self)
  ultimately have "\<not> bit (unat (of_nat b :: u64)) 63"
    by simp
  then have "\<not> bit (of_nat b :: u64) 63"
    by (simp only: bit_unsigned_iff) simp
  then show ?thesis
    by (rule marker_value)
qed

fun seg :: "'a hlist_nulls_scheme \<Rightarrow> nptr \<Rightarrow> nat list \<Rightarrow> nptr \<Rightarrow> bool" where
  "seg h p [] q \<longleftrightarrow> p = q"
| "seg h p (n # ns) q \<longleftrightarrow> p = Node n \<and> seg h (nxt h n) ns q"

text \<open>The back pointers of a chain whose first node is pointed to by the cell \<open>c\<close>.\<close>

fun backs :: "'a hlist_nulls_scheme \<Rightarrow> pcell \<Rightarrow> nat list \<Rightarrow> bool" where
  "backs h c [] \<longleftrightarrow> True"
| "backs h c (n # ns) \<longleftrightarrow> pprev h n = c \<and> backs h (Next n) ns"

definition is_list :: "'a hlist_nulls_scheme \<Rightarrow> nat \<Rightarrow> nat list \<Rightarrow> u64 \<Rightarrow> bool" where
  "is_list h b ns v \<longleftrightarrow> seg h (first h b) ns (Nulls v) \<and> backs h (Head b) ns \<and> distinct ns"

definition last_cell :: "nat \<Rightarrow> nat list \<Rightarrow> pcell" where
  "last_cell b ns = (if ns = [] then Head b else Next (last ns))"

lemma seg_append: "seg h p (ms @ ns) q \<longleftrightarrow> (\<exists>r. seg h p ms r \<and> seg h r ns q)"
  by (induction ms arbitrary: p) auto

lemma seg_cong: "\<forall>n \<in> set ns. nxt h' n = nxt h n \<Longrightarrow> seg h' p ns q = seg h p ns q"
  by (induction ns arbitrary: p) auto

lemma backs_cong: "\<forall>n \<in> set ns. pprev h' n = pprev h n \<Longrightarrow> backs h' c ns = backs h c ns"
  by (induction ns arbitrary: c) auto

lemma backs_append: "backs h c (ms @ ns) \<longleftrightarrow> backs h c ms \<and> backs h (if ms = [] then c else Next (last ms)) ns"
  by (induction ms arbitrary: c) auto

lemma seg_cell: "seg h p ns (Node n) \<Longrightarrow> seg h p ns (Nulls v) \<Longrightarrow> False"
  by (induction ns arbitrary: p) auto

text \<open>A loop over a chain ends and finds the first node with the property.\<close>

lemma hlist_find_seg:
  "seg h p ns (Nulls v) \<Longrightarrow> hlist_find h P p = Some (case find P ns of Some n \<Rightarrow> Inl n | None \<Rightarrow> Inr v)"
  by (induction ns arbitrary: p) (auto simp: hlist_find.simps)

lemma set_pprev_simps [simp]:
  "nxt (set_pprev p c h) = nxt h" "first (set_pprev p c h) = first h" "hlist_nulls.more (set_pprev p c h) = hlist_nulls.more h"
  by (simp_all add: set_pprev_def split: nptr.split)

lemma set_pprev_at: "pprev (set_pprev p c h) n = (if p = Node n then c else pprev h n)"
  by (simp add: set_pprev_def split: nptr.split)

section \<open>Adding a node\<close>

lemma add_head_fields:
  "nxt (hlist_nulls_add_head n b h) = (nxt h)(n := first h b)"
  "first (hlist_nulls_add_head n b h) = (first h)(b := Node n)"
  "pprev (hlist_nulls_add_head n b h) m = (if first h b = Node m then Next n else if m = n then Head b else pprev h m)"
  "hlist_nulls.more (hlist_nulls_add_head n b h) = hlist_nulls.more h"
  by (simp_all add: hlist_nulls_add_head_def Let_def set_pprev_at)

lemma add_head_list:
  assumes "is_list h b ns v" "n \<notin> set ns"
  shows "is_list (hlist_nulls_add_head n b h) b (n # ns) v"
proof -
  let ?h = "hlist_nulls_add_head n b h"
  have "seg ?h (first h b) ns (Nulls v) = seg h (first h b) ns (Nulls v)"
    by (rule seg_cong) (use assms(2) in \<open>auto simp: add_head_fields\<close>)
  moreover have "backs ?h (Next n) ns"
  proof (cases ns)
    case (Cons m ms)
    have "backs ?h (Next m) ms = backs h (Next m) ms"
      by (rule backs_cong) (use assms Cons in \<open>auto simp: add_head_fields is_list_def\<close>)
    then show ?thesis
      using assms Cons by (auto simp: is_list_def add_head_fields)
  qed simp
  moreover have "first h b \<noteq> Node n"
    using assms by (cases ns) (auto simp: is_list_def)
  ultimately show ?thesis
    using assms by (simp add: is_list_def add_head_fields)
qed

lemma add_head_other:
  assumes "is_list h b ns v" "is_list h c ms w" "c \<noteq> b" "n \<notin> set ms" "set ms \<inter> set ns = {}"
  shows "is_list (hlist_nulls_add_head n b h) c ms w"
proof -
  let ?h = "hlist_nulls_add_head n b h"
  have "seg ?h (first h c) ms (Nulls w) = seg h (first h c) ms (Nulls w)"
    by (rule seg_cong) (use assms in \<open>auto simp: add_head_fields\<close>)
  moreover have "backs ?h (Head c) ms = backs h (Head c) ms"
  proof (rule backs_cong, intro ballI)
    fix m assume m: "m \<in> set ms"
    have "first h b \<noteq> Node m"
      using assms(1,5) m by (cases ns) (auto simp: is_list_def)
    then show "pprev ?h m = pprev h m"
      using m assms(4) by (auto simp: add_head_fields)
  qed
  ultimately show ?thesis
    using assms by (simp add: is_list_def add_head_fields)
qed

section \<open>Deleting a node\<close>

lemma seg_unique: "seg h p ns q \<Longrightarrow> seg h p ns r \<Longrightarrow> q = r"
  by (induction ns arbitrary: p) auto

lemma del_list:
  assumes l: "is_list h b (ms @ n # ns) v"
  shows "\<exists>h'. hlist_nulls_del n h = Some h' \<and> is_list h' b (ms @ ns) v \<and> hlist_nulls.more h' = hlist_nulls.more h
    \<and> (\<forall>c ks w. c \<noteq> b \<longrightarrow> set ks \<inter> set (ms @ n # ns) = {} \<longrightarrow> is_list h c ks w \<longrightarrow> is_list h' c ks w)"
proof -
  have pp: "pprev h n = last_cell b ms" and sg: "seg h (first h b) ms (Node n)" "seg h (nxt h n) ns (Nulls v)"
    and bk: "backs h (Head b) ms" "backs h (Next n) ns" and d: "distinct (ms @ n # ns)"
    using l by (auto simp: is_list_def seg_append backs_append last_cell_def)
  define h1 where "h1 = (if ms = [] then h\<lparr>first := (first h)(b := nxt h n)\<rparr> else h\<lparr>nxt := (nxt h)(last ms := nxt h n)\<rparr>)"
  have h1: "write_cell (last_cell b ms) (nxt h n) h = Some h1"
    by (simp add: h1_def write_cell_def last_cell_def)
  have f1: "pprev h1 = pprev h" "hlist_nulls.more h1 = hlist_nulls.more h"
    "first h1 = (if ms = [] then (first h)(b := nxt h n) else first h)"
    "nxt h1 = (if ms = [] then nxt h else (nxt h)(last ms := nxt h n))"
    by (simp_all add: h1_def)
  define h' where "h' = (set_pprev (nxt h n) (last_cell b ms) h1)\<lparr>pprev := (pprev (set_pprev (nxt h n) (last_cell b ms) h1))(n := PNull)\<rparr>"
  have del: "hlist_nulls_del n h = Some h'"
    by (simp add: hlist_nulls_del_def hlist_nulls_unlink_def pp h1 h'_def Let_def)
  have f: "first h' = first h1" "nxt h' = nxt h1" "hlist_nulls.more h' = hlist_nulls.more h"
    "pprev h' m = (if m = n then PNull else if nxt h n = Node m then last_cell b ms else pprev h m)" for m
    by (simp_all add: h'_def set_pprev_at f1)
  have nn: "nxt h n = Node m \<Longrightarrow> m \<in> set ns" for m
    using sg(2) by (cases ns) auto
  have seg1: "seg h' (first h' b) ms (nxt h n)"
  proof (cases ms rule: rev_cases)
    case Nil
    then show ?thesis by (simp add: f f1)
  next
    case (snoc ms' m)
    have "seg h' (first h b) ms' q = seg h (first h b) ms' q" for q
      by (rule seg_cong) (use d snoc in \<open>auto simp: f f1\<close>)
    then show ?thesis
      using sg(1) snoc by (auto simp: seg_append f f1)
  qed
  have seg2: "seg h' (nxt h n) ns (Nulls v)"
    by (subst seg_cong [of _ _ h]) (use sg(2) d in \<open>auto simp: f f1 dest: last_in_set\<close>)
  have b1: "backs h' (Head b) ms"
    by (subst backs_cong [of _ _ h]) (use bk(1) d nn in \<open>auto simp: f\<close>)
  have b2: "backs h' (if ms = [] then Head b else Next (last ms)) ns"
  proof (cases ns)
    case (Cons m ks)
    have "backs h' (Next m) ks = backs h (Next m) ks"
      by (rule backs_cong) (use d sg(2) Cons in \<open>auto simp: f\<close>)
    then show ?thesis
      using Cons bk(2) sg(2) d by (auto simp: f last_cell_def)
  qed simp
  have "is_list h' b (ms @ ns) v"
    using seg1 seg2 b1 b2 d by (auto simp: is_list_def seg_append backs_append)
  moreover have "is_list h' c ks w" if c: "c \<noteq> b" "set ks \<inter> set (ms @ n # ns) = {}" "is_list h c ks w" for c ks w
  proof -
    have "first h' c = first h c"
      using c(1) by (simp add: f f1)
    moreover have "seg h' p ks q = seg h p ks q" for p q
      by (rule seg_cong) (use c(2) in \<open>auto simp: f f1\<close>)
    moreover have "backs h' p ks = backs h p ks" for p
      by (rule backs_cong) (use c(2) nn in \<open>auto simp: f\<close>)
    ultimately show ?thesis
      using c(3) by (simp add: is_list_def)
  qed
  ultimately show ?thesis
    using del f(3) by blast
qed

end
