(* ===== verification/Khashmap.thy ===== *)
theory Khashmap
  imports Jhash Hlist
begin

text \<open>
  The hash map of \<open>examples/common/khashmap.c\<close>, a copy of the kernel's \<open>htab\<close> for user space:
  an array of buckets with chains of elements, elements taken one after the other from one
  allocation and never given back.  The elements are the numbered slots of that allocation; a
  write to a slot outside of it or an access to a bucket outside the array is an error, \<open>None\<close>
  is a lookup that does not end, and the result of \<open>pthread_spin_lock\<close> is an argument.
\<close>

section \<open>State\<close>

record khashmap = hlist_nulls +
  key_size :: u32
  value_size :: u32
  max_entries :: u32
  n_buckets :: u32
  elem_size :: u32
  hashrnd :: u32
  el_hash :: "nat \<Rightarrow> u32"
  el_key :: "nat \<Rightarrow> u8 list"
  el_value :: "nat \<Rightarrow> u8 list"
  next_free :: nat
  kh_count :: u32

datatype kh_error = KhFault

definition round_up :: "u32 \<Rightarrow> u32 \<Rightarrow> u32" where
  "round_up x y = ((x - 1) OR (y - 1)) + 1"

text \<open>The loop runs from bit 62 down to bit 0: \<open>i--\<close> is its condition.\<close>

fun roundup_loop :: "nat \<Rightarrow> u64 \<Rightarrow> u64" where
  "roundup_loop 0 n = 1"
| "roundup_loop (Suc i) n = (if push_bit i 1 < n then push_bit (i + 1) 1 else roundup_loop i n)"

definition roundup_pow_of_two :: "u64 \<Rightarrow> u64" where
  "roundup_pow_of_two n = roundup_loop 63 n"

definition sizeof_khashmap_elem :: u32 where "sizeof_khashmap_elem = 24"

text \<open>Initialisation; the arguments tell whether the two allocations succeed.\<close>

definition khashmap_init :: "bool \<Rightarrow> bool \<Rightarrow> u32 \<Rightarrow> u32 \<Rightarrow> u32 \<Rightarrow> khashmap \<Rightarrow> int \<times> khashmap" where
  "khashmap_init buckets_ok elems_ok ks vs me m =
     (let m = m\<lparr>key_size := ks, value_size := vs, max_entries := me, kh_count := 0,
            n_buckets := ucast (roundup_pow_of_two (ucast me)),
            elem_size := sizeof_khashmap_elem + round_up ks 8 + round_up vs 8\<rparr>
      in if \<not> buckets_ok then (1, m)
         else
           (let m = m\<lparr>hashrnd := 0\<rparr>;
                m = fold (\<lambda>i. INIT_HLIST_NULLS_HEAD i (of_nat i)) [0..<unat (n_buckets m)] m
            in if \<not> elems_ok then (1, m) else (0, m\<lparr>next_free := 0\<rparr>)))"

text \<open>Both arrays are gone and every field is zero.\<close>

definition khashmap_free :: "khashmap \<Rightarrow> khashmap" where
  "khashmap_free m = m\<lparr>key_size := 0, value_size := 0, max_entries := 0, n_buckets := 0, elem_size := 0, hashrnd := 0,
     next_free := 0, kh_count := 0\<rparr>"

definition khashmap_size :: "khashmap \<Rightarrow> u32" where
  "khashmap_size m = kh_count m"

section \<open>Operations\<close>

definition select_bucket :: "khashmap \<Rightarrow> u32 \<Rightarrow> nat" where
  "select_bucket m hash = unat (hash AND (n_buckets m - 1))"

definition kh_key :: "khashmap \<Rightarrow> u8 list \<Rightarrow> u8 list" where
  "kh_key m key = take (unat (key_size m)) key"

definition kh_hash :: "khashmap \<Rightarrow> u8 list \<Rightarrow> u32" where
  "kh_hash m key = jhash (kh_key m key) (hashrnd m)"

definition elem_matches :: "khashmap \<Rightarrow> u32 \<Rightarrow> u8 list \<Rightarrow> nat \<Rightarrow> bool" where
  "elem_matches m hash key n \<longleftrightarrow> el_hash m n = hash \<and> kh_key m (el_key m n) = kh_key m key"

definition lookup_elem_raw :: "khashmap \<Rightarrow> nat \<Rightarrow> u32 \<Rightarrow> u8 list \<Rightarrow> nat option option" where
  "lookup_elem_raw m b hash key =
     (case hlist_find m (elem_matches m hash key) (first m b) of
        None \<Rightarrow> None
      | Some (Inl n) \<Rightarrow> Some (Some n)
      | Some (Inr _) \<Rightarrow> Some None)"

text \<open>The walk starts again when it ended in the chain of another bucket.\<close>

partial_function (option) lookup_nulls_elem_raw :: "khashmap \<Rightarrow> nat \<Rightarrow> u32 \<Rightarrow> u8 list \<Rightarrow> nat option option" where
  "lookup_nulls_elem_raw m b hash key =
     (case hlist_find m (elem_matches m hash key) (first m b) of
        None \<Rightarrow> None
      | Some (Inl n) \<Rightarrow> Some (Some n)
      | Some (Inr v) \<Rightarrow>
          if get_nulls_value v \<noteq> ucast (hash AND (n_buckets m - 1)) then lookup_nulls_elem_raw m b hash key
          else Some None)"

definition khashmap_update_elem ::
    "int \<Rightarrow> khashmap \<Rightarrow> u8 list \<Rightarrow> u8 list \<Rightarrow> (kh_error + int \<times> khashmap) option" where
  "khashmap_update_elem lock m key val =
     (let hash = kh_hash m key; b = select_bucket m hash
      in if b \<ge> unat (n_buckets m) then Some (Inl KhFault)
         else if lock \<noteq> 0 then Some (Inr (1, m))
         else
           (case lookup_elem_raw m b hash key of
              None \<Rightarrow> None
            | Some found \<Rightarrow>
                (let n = (case found of None \<Rightarrow> next_free m | Some n \<Rightarrow> n)
                 in if n \<ge> unat (max_entries m) then Some (Inl KhFault)
                    else
                      (let m = (if found = None
                                then (hlist_nulls_add_head n b (m\<lparr>next_free := next_free m + 1\<rparr>))\<lparr>kh_count := kh_count m + 1\<rparr>
                                else m);
                           m = m\<lparr>el_hash := (el_hash m)(n := hash)\<rparr>;
                           m = m\<lparr>el_key := (el_key m)(n := kh_key m key)\<rparr>;
                           m = m\<lparr>el_value := (el_value m)(n := take (unat (value_size m)) val)\<rparr>
                       in Some (Inr (0, m))))))"

definition khashmap_lookup_elem :: "khashmap \<Rightarrow> u8 list \<Rightarrow> (kh_error + u8 list option) option" where
  "khashmap_lookup_elem m key =
     (let hash = kh_hash m key; b = select_bucket m hash
      in if b \<ge> unat (n_buckets m) then Some (Inl KhFault)
         else
           (case lookup_nulls_elem_raw m b hash key of
              None \<Rightarrow> None
            | Some found \<Rightarrow> Some (Inr (map_option (el_value m) found))))"

definition khashmap_delete_elem :: "int \<Rightarrow> khashmap \<Rightarrow> u8 list \<Rightarrow> (kh_error + int \<times> khashmap) option" where
  "khashmap_delete_elem lock m key =
     (let hash = kh_hash m key; b = select_bucket m hash
      in if b \<ge> unat (n_buckets m) then Some (Inl KhFault)
         else if lock \<noteq> 0 then Some (Inr (1, m))
         else
           (case lookup_elem_raw m b hash key of
              None \<Rightarrow> None
            | Some None \<Rightarrow> Some (Inr (2, m))
            | Some (Some n) \<Rightarrow>
                (case hlist_nulls_del n m of
                   None \<Rightarrow> Some (Inl KhFault)
                 | Some m \<Rightarrow> Some (Inr (0, m\<lparr>kh_count := kh_count m - 1\<rparr>)))))"

fun clear_buckets :: "(nat \<Rightarrow> int) \<Rightarrow> nat list \<Rightarrow> khashmap \<Rightarrow> int \<times> khashmap" where
  "clear_buckets lock [] m = (0, m)"
| "clear_buckets lock (i # is) m =
     (if lock i \<noteq> 0 then (1, m) else clear_buckets lock is (INIT_HLIST_NULLS_HEAD i (of_nat i) m))"

definition khashmap_clear :: "(nat \<Rightarrow> int) \<Rightarrow> khashmap \<Rightarrow> int \<times> khashmap" where
  "khashmap_clear lock m =
     (let (ret, m) = clear_buckets lock [0..<unat (n_buckets m)] m
      in if ret \<noteq> 0 then (1, m) else (0, m\<lparr>next_free := 0\<rparr>))"

section \<open>The number of buckets\<close>

lemma roundup_loop_pow:
  "n \<le> 2 ^ i \<Longrightarrow> i \<le> 63 \<Longrightarrow> \<exists>s \<le> i. roundup_loop i (of_nat n) = 2 ^ s \<and> n \<le> 2 ^ s \<and> (s = 0 \<or> 2 ^ (s - 1) < n)"
proof (induction i)
  case (Suc i)
  have "(of_nat (2 ^ i) :: u64) < of_nat n \<longleftrightarrow> 2 ^ i < n"
  proof -
    have "n < 2 ^ 64" "(2 ^ i :: nat) < 2 ^ 64"
      using Suc.prems le_less_trans [of n "2 ^ Suc i" "2 ^ 64"] power_strict_increasing [of "Suc i" 64 "2 :: nat"]
        power_strict_increasing [of i 64 "2 :: nat"] by simp_all
    then show ?thesis
      using Suc.prems(2) by (simp add: word_less_nat_alt unsigned_of_nat take_bit_nat_eq_self del: of_nat_power)
  qed
  then have lt: "push_bit i 1 < (of_nat n :: u64) \<longleftrightarrow> 2 ^ i < n"
    by simp
  show ?case
  proof (cases "2 ^ i < n")
    case True
    then show ?thesis
      using Suc.prems lt by (auto intro!: exI [of _ "Suc i"])
  next
    case False
    then obtain s where "s \<le> i" "roundup_loop i (of_nat n) = 2 ^ s" "n \<le> 2 ^ s" "s = 0 \<or> 2 ^ (s - 1) < n"
      using Suc by auto
    then show ?thesis
      using lt False by (intro exI [of _ s]) auto
  qed
qed simp

lemma unat_pow2: "s < 32 \<Longrightarrow> unat (2 ^ s :: u32) = 2 ^ s"
proof -
  assume s: "s < 32"
  then have "(2 :: nat) ^ s < 2 ^ 32"
    by (rule power_strict_increasing) simp
  then have "unat (of_nat (2 ^ s) :: u32) = 2 ^ s"
    using s by (simp add: unsigned_of_nat take_bit_nat_eq_self del: of_nat_power)
  then show ?thesis by simp
qed

lemma n_buckets_pow:
  assumes "unat me \<le> 2 ^ 31"
  shows "\<exists>s < 32. (ucast (roundup_pow_of_two (ucast (me :: u32))) :: u32) = 2 ^ s \<and> unat me \<le> 2 ^ s"
proof -
  have "unat me \<le> 2 ^ 63"
    using assms le_trans [of "unat me" "2 ^ 31" "2 ^ 63"] by simp
  then obtain s where s: "roundup_loop 63 (of_nat (unat me)) = 2 ^ s" "unat me \<le> 2 ^ s" "s = 0 \<or> 2 ^ (s - 1) < unat me"
    using roundup_loop_pow [of "unat me" 63] by auto
  have "s < 32"
  proof (rule ccontr)
    assume "\<not> s < 32"
    then have "s \<noteq> 0" "(2 :: nat) ^ 31 \<le> 2 ^ (s - 1)"
      using power_increasing [of 31 "s - 1" "2 :: nat"] by simp_all
    then show False using s(3) assms by simp
  qed
  moreover have "(ucast (2 ^ s :: u64) :: u32) = 2 ^ s"
    by (rule bit_word_eqI) (use \<open>s < 32\<close> in \<open>auto simp: bit_simps\<close>)
  ultimately show ?thesis
    using s by (auto simp: roundup_pow_of_two_def)
qed

section \<open>The invariant\<close>

text \<open>\<open>L\<close> gives the chain of every bucket.\<close>

definition elem_ok :: "khashmap \<Rightarrow> nat \<Rightarrow> nat \<Rightarrow> bool" where
  "elem_ok m b n \<longleftrightarrow> n < next_free m \<and> length (el_key m n) = unat (key_size m)
     \<and> el_hash m n = jhash (el_key m n) (hashrnd m) \<and> select_bucket m (el_hash m n) = b"

definition kh_ok :: "khashmap \<Rightarrow> (nat \<Rightarrow> nat list) \<Rightarrow> bool" where
  "kh_ok m L \<longleftrightarrow> (\<exists>s < 32. n_buckets m = 2 ^ s) \<and> next_free m \<le> unat (max_entries m)
     \<and> (\<forall>b < unat (n_buckets m). is_list m b (L b) (NULLS_MARKER (of_nat b)) \<and> (\<forall>n \<in> set (L b). elem_ok m b n)
          \<and> inj_on (el_key m) (set (L b)))"

text \<open>The map that the chains hold.\<close>

definition kh_map :: "khashmap \<Rightarrow> (nat \<Rightarrow> nat list) \<Rightarrow> u8 list \<rightharpoonup> u8 list" where
  "kh_map m L key =
     (if length key = unat (key_size m)
      then map_option (el_value m) (find (\<lambda>n. el_key m n = key) (L (select_bucket m (kh_hash m key)))) else None)"

lemma kh_okD:
  assumes "kh_ok m L" "b < unat (n_buckets m)"
  shows "is_list m b (L b) (NULLS_MARKER (of_nat b))" "n \<in> set (L b) \<Longrightarrow> elem_ok m b n" "inj_on (el_key m) (set (L b))"
  using assms by (auto simp: kh_ok_def)

lemma kh_ok_disjoint:
  assumes "kh_ok m L" "b < unat (n_buckets m)" "c < unat (n_buckets m)" "b \<noteq> c"
  shows "set (L b) \<inter> set (L c) = {}"
  using kh_okD(2) [OF assms(1,2)] kh_okD(2) [OF assms(1,3)] assms(4) unfolding elem_ok_def by blast

lemma select_bucket_less: "kh_ok m L \<Longrightarrow> select_bucket m h < unat (n_buckets m)"
proof -
  assume "kh_ok m L"
  then obtain s where s: "s < 32" "n_buckets m = 2 ^ s"
    by (auto simp: kh_ok_def)
  have "h AND (n_buckets m - 1) = take_bit s h"
    by (simp add: s take_bit_eq_mask mask_eq_exp_minus_1)
  then have "select_bucket m h = take_bit s (unat h)"
    by (simp add: select_bucket_def unsigned_take_bit_eq)
  moreover have "unat (n_buckets m) = 2 ^ s"
    by (simp add: s unat_pow2)
  ultimately show ?thesis
    using take_bit_nat_less_exp [of s "unat h"] by simp
qed

lemma kh_key_id [simp]: "length key = unat (key_size m) \<Longrightarrow> kh_key m key = key"
  by (simp add: kh_key_def)

lemma find_key:
  assumes "kh_ok m L" "length key = unat (key_size m)" "b = select_bucket m (kh_hash m key)"
  shows "find (elem_matches m (kh_hash m key) key) (L b) = find (\<lambda>n. el_key m n = key) (L b)"
proof (rule find_cong [OF refl])
  fix n assume "n \<in> set (L b)"
  then have "elem_ok m b n"
    using kh_okD(2) [OF assms(1)] select_bucket_less [OF assms(1)] assms(3) by simp
  then show "elem_matches m (kh_hash m key) key n \<longleftrightarrow> el_key m n = key"
    using assms(2) by (auto simp: elem_matches_def elem_ok_def kh_hash_def)
qed

lemma lookup_raw_ok:
  assumes "kh_ok m L" "length key = unat (key_size m)" "b = select_bucket m (kh_hash m key)"
  shows "lookup_elem_raw m b (kh_hash m key) key = Some (find (\<lambda>n. el_key m n = key) (L b))"
    "lookup_nulls_elem_raw m b (kh_hash m key) key = Some (find (\<lambda>n. el_key m n = key) (L b))"
proof -
  let ?h = "kh_hash m key"
  have b: "b < unat (n_buckets m)"
    using select_bucket_less [OF assms(1)] assms(3) by simp
  have "seg m (first m b) (L b) (Nulls (NULLS_MARKER (of_nat b)))"
    using kh_okD(1) [OF assms(1) b] by (simp add: is_list_def)
  note fnd = hlist_find_seg [OF this, of "elem_matches m ?h key", unfolded find_key [OF assms]]
  show "lookup_elem_raw m b ?h key = Some (find (\<lambda>n. el_key m n = key) (L b))"
    by (simp add: lookup_elem_raw_def fnd split: option.split)
  have "b < 2 ^ 32"
    using less_trans [OF b unsigned_less] by simp
  then have "get_nulls_value (NULLS_MARKER (of_nat b)) = of_nat b"
    by (rule nulls_roundtrip)
  also have "\<dots> = ucast (?h AND (n_buckets m - 1))"
    by (simp add: assms(3) select_bucket_def)
  finally show "lookup_nulls_elem_raw m b ?h key = Some (find (\<lambda>n. el_key m n = key) (L b))"
    by (subst lookup_nulls_elem_raw.simps) (simp add: fnd split: option.split)
qed

lemma kh_lookup:
  assumes "kh_ok m L" "length key = unat (key_size m)"
  shows "khashmap_lookup_elem m key = Some (Inr (kh_map m L key))"
  using select_bucket_less [OF assms(1), of "kh_hash m key"] lookup_raw_ok(2) [OF assms refl] assms(2)
  by (simp add: khashmap_lookup_elem_def Let_def kh_map_def)

section \<open>Updating\<close>

lemma find_other: "\<not> P n \<Longrightarrow> find P (xs @ n # ys) = find P (xs @ ys)"
  by (induction xs) auto

text \<open>Operations on the chains leave the elements alone.\<close>

definition same_elems :: "khashmap \<Rightarrow> khashmap \<Rightarrow> bool" where
  "same_elems m m' \<longleftrightarrow> key_size m' = key_size m \<and> value_size m' = value_size m \<and> max_entries m' = max_entries m
     \<and> n_buckets m' = n_buckets m \<and> hashrnd m' = hashrnd m \<and> el_hash m' = el_hash m \<and> el_key m' = el_key m
     \<and> el_value m' = el_value m \<and> next_free m' = next_free m"

lemma add_head_same: "same_elems m (hlist_nulls_add_head n b m)"
  by (simp add: same_elems_def hlist_nulls_add_head_def set_pprev_def Let_def split: nptr.split)

lemma del_same: "hlist_nulls_del n m = Some m' \<Longrightarrow> same_elems m m'"
  by (auto simp: same_elems_def hlist_nulls_del_def hlist_nulls_unlink_def write_cell_def set_pprev_def Let_def
      split: pcell.splits nptr.splits)

lemma is_list_cong: "first h' = first h \<Longrightarrow> nxt h' = nxt h \<Longrightarrow> pprev h' = pprev h \<Longrightarrow> is_list h' b ns v = is_list h b ns v"
  for h :: "'a hlist_nulls_scheme" and h' :: "'a hlist_nulls_scheme"
  using seg_cong [of ns h' h] backs_cong [of ns h' h] by (simp add: is_list_def)

text \<open>The key is there: only the value of its element changes.\<close>

lemma kh_update_found:
  assumes "kh_ok m L" "length key = unat (key_size m)" "length val = unat (value_size m)" "kh_map m L key = Some old"
  shows "\<exists>m'. khashmap_update_elem 0 m key val = Some (Inr (0, m')) \<and> kh_ok m' L \<and> kh_map m' L = (kh_map m L)(key \<mapsto> val)
    \<and> next_free m' = next_free m \<and> key_size m' = key_size m \<and> value_size m' = value_size m \<and> max_entries m' = max_entries m"
proof -
  define b where "b = select_bucket m (kh_hash m key)"
  have b: "b < unat (n_buckets m)"
    using select_bucket_less [OF assms(1)] by (simp add: b_def)
  obtain n where n: "find (\<lambda>n. el_key m n = key) (L b) = Some n"
    using assms(2,4) by (auto simp: kh_map_def b_def)
  then have "n \<in> set (L b)" "el_key m n = key"
    by (auto simp: find_Some_iff)
  then have e: "elem_ok m b n"
    using kh_okD(2) [OF assms(1) b] by blast
  let ?m = "m\<lparr>el_value := (el_value m)(n := val)\<rparr>"
  have lt: "n < unat (max_entries m)"
    using e assms(1) by (auto simp: elem_ok_def kh_ok_def)
  have "(el_hash m)(n := kh_hash m key) = el_hash m" "(el_key m)(n := key) = el_key m"
    using e \<open>el_key m n = key\<close> assms(2) by (auto simp: elem_ok_def kh_hash_def)
  then have res: "khashmap_update_elem 0 m key val = Some (Inr (0, ?m))"
    using b lt n lookup_raw_ok(1) [OF assms(1,2) b_def] assms(2,3)
    by (simp add: khashmap_update_elem_def Let_def flip: b_def)
  have "is_list ?m c ns v = is_list m c ns v" for c ns v
    by (rule is_list_cong) simp_all
  moreover have "elem_ok ?m c k = elem_ok m c k" for c k
    by (simp add: elem_ok_def select_bucket_def)
  ultimately have ok: "kh_ok ?m L"
    using assms(1) by (simp add: kh_ok_def)
  have "kh_map ?m L = (kh_map m L)(key \<mapsto> val)"
  proof
    fix k
    have "kh_map ?m L k = kh_map m L k" if "k \<noteq> key"
      using that \<open>el_key m n = key\<close>
      by (auto simp: kh_map_def kh_hash_def kh_key_def select_bucket_def find_Some_iff intro!: option.map_cong)
    moreover have "kh_map ?m L key = Some val"
      using n assms(2) by (simp add: kh_map_def kh_hash_def kh_key_def select_bucket_def b_def)
    ultimately show "kh_map ?m L k = ((kh_map m L)(key \<mapsto> val)) k"
      by simp
  qed
  with res ok show ?thesis by auto
qed

text \<open>The key is new: the next slot becomes the head of its chain.\<close>

definition kh_insert :: "khashmap \<Rightarrow> u8 list \<Rightarrow> u8 list \<Rightarrow> khashmap" where
  "kh_insert m key val =
     (let n = next_free m;
          m1 = hlist_nulls_add_head n (select_bucket m (kh_hash m key)) (m\<lparr>next_free := n + 1\<rparr>)
      in m1\<lparr>kh_count := kh_count m + 1, el_hash := (el_hash m1)(n := kh_hash m key),
           el_key := (el_key m1)(n := key), el_value := (el_value m1)(n := val)\<rparr>)"

definition chain_insert :: "khashmap \<Rightarrow> u8 list \<Rightarrow> (nat \<Rightarrow> nat list) \<Rightarrow> nat \<Rightarrow> nat list" where
  "chain_insert m key L = L(select_bucket m (kh_hash m key) := next_free m # L (select_bucket m (kh_hash m key)))"

lemma kh_insert_fields:
  "n_buckets (kh_insert m key val) = n_buckets m" "key_size (kh_insert m key val) = key_size m"
  "value_size (kh_insert m key val) = value_size m" "max_entries (kh_insert m key val) = max_entries m"
  "hashrnd (kh_insert m key val) = hashrnd m" "next_free (kh_insert m key val) = Suc (next_free m)"
  "el_hash (kh_insert m key val) = (el_hash m)(next_free m := kh_hash m key)"
  "el_key (kh_insert m key val) = (el_key m)(next_free m := key)"
  "el_value (kh_insert m key val) = (el_value m)(next_free m := val)"
  "select_bucket (kh_insert m key val) h = select_bucket m h" "kh_hash (kh_insert m key val) k = kh_hash m k"
  using add_head_same [of "m\<lparr>next_free := next_free m + 1\<rparr>"]
  by (simp_all add: kh_insert_def Let_def same_elems_def select_bucket_def kh_hash_def kh_key_def)

lemma next_free_fresh: "kh_ok m L \<Longrightarrow> c < unat (n_buckets m) \<Longrightarrow> next_free m \<notin> set (L c)"
  using kh_okD(2) by (auto simp: elem_ok_def)

lemma kh_insert_lists:
  assumes "kh_ok m L" "c < unat (n_buckets m)"
  shows "is_list (kh_insert m key val) c (chain_insert m key L c) (NULLS_MARKER (of_nat c))"
proof -
  let ?b = "select_bucket m (kh_hash m key)" and ?m = "m\<lparr>next_free := next_free m + 1\<rparr>"
  have b: "?b < unat (n_buckets m)"
    by (rule select_bucket_less [OF assms(1)])
  have l: "is_list ?m d (L d) (NULLS_MARKER (of_nat d))" if "d < unat (n_buckets m)" for d
    using kh_okD(1) [OF assms(1) that] by (subst is_list_cong [of _ m]) simp_all
  have "is_list (hlist_nulls_add_head (next_free m) ?b ?m) c (chain_insert m key L c) (NULLS_MARKER (of_nat c))"
  proof (cases "c = ?b")
    case True
    then show ?thesis
      using add_head_list [OF l [OF b] next_free_fresh [OF assms(1) b]] by (simp add: chain_insert_def)
  next
    case False
    then show ?thesis
      using add_head_other [OF l [OF b] l [OF assms(2)] False next_free_fresh [OF assms]] kh_ok_disjoint [OF assms b]
      by (simp add: chain_insert_def)
  qed
  then show ?thesis
    unfolding kh_insert_def Let_def by (subst is_list_cong) simp_all
qed

lemma kh_insert_ok:
  assumes "kh_ok m L" "length key = unat (key_size m)" "kh_map m L key = None" "next_free m < unat (max_entries m)"
  shows "kh_ok (kh_insert m key val) (chain_insert m key L)"
proof -
  let ?m = "kh_insert m key val" and ?L = "chain_insert m key L" and ?b = "select_bucket m (kh_hash m key)"
  have none: "find (\<lambda>n. el_key m n = key) (L ?b) = None"
    using assms(2,3) by (simp add: kh_map_def)
  have elems: "elem_ok ?m c k" if "c < unat (n_buckets m)" "k \<in> set (?L c)" for c k
    using that kh_okD(2) [OF assms(1)] assms(2)
    by (auto simp: elem_ok_def kh_insert_fields chain_insert_def kh_hash_def split: if_splits) force+
  have "inj_on (el_key ?m) (set (?L c))" if c: "c < unat (n_buckets m)" for c
    using kh_okD(3) [OF assms(1) c] next_free_fresh [OF assms(1) c] none
    by (auto simp: kh_insert_fields chain_insert_def inj_on_def find_None_iff)
  then show ?thesis
    using assms(1,4) kh_insert_lists [OF assms(1)] elems by (simp add: kh_ok_def kh_insert_fields)
qed

lemma kh_insert_map:
  assumes "kh_ok m L" "length key = unat (key_size m)"
  shows "kh_map (kh_insert m key val) (chain_insert m key L) = (kh_map m L)(key \<mapsto> val)"
proof
  fix k
  let ?m = "kh_insert m key val" and ?L = "chain_insert m key L"
  show "kh_map ?m ?L k = ((kh_map m L)(key \<mapsto> val)) k"
  proof (cases "k = key \<or> length k \<noteq> unat (key_size m)")
    case True
    then show ?thesis
      using assms(2) by (auto simp: kh_map_def kh_insert_fields chain_insert_def)
  next
    case False
    let ?c = "select_bucket m (kh_hash m k)"
    note fresh = next_free_fresh [OF assms(1) select_bucket_less [OF assms(1), of "kh_hash m k"]]
    have "find (\<lambda>j. el_key ?m j = k) (L ?c) = find (\<lambda>j. el_key m j = k) (L ?c)"
      by (rule find_cong) (use fresh in \<open>auto simp: kh_insert_fields\<close>)
    moreover have "map_option (el_value ?m) (find (\<lambda>j. el_key m j = k) (L ?c))
        = map_option (el_value m) (find (\<lambda>j. el_key m j = k) (L ?c))"
      by (rule option.map_cong) (use fresh in \<open>auto simp: kh_insert_fields find_Some_iff in_set_conv_nth\<close>)
    moreover have "el_key ?m (next_free m) = key"
      by (simp add: kh_insert_fields)
    ultimately show ?thesis
      using False by (auto simp: kh_map_def kh_insert_fields(2,10,11) chain_insert_def)
  qed
qed

lemma kh_update_new:
  assumes "kh_ok m L" "length key = unat (key_size m)" "length val = unat (value_size m)" "kh_map m L key = None"
  shows "khashmap_update_elem 0 m key val =
    (if next_free m < unat (max_entries m) then Some (Inr (0, kh_insert m key val)) else Some (Inl KhFault))"
proof -
  define b where "b = select_bucket m (kh_hash m key)"
  have "find (\<lambda>n. el_key m n = key) (L b) = None" "b < unat (n_buckets m)"
    using assms(2,4) select_bucket_less [OF assms(1)] by (simp_all add: kh_map_def b_def)
  then show ?thesis
    using lookup_raw_ok(1) [OF assms(1,2) b_def] assms(2,3) add_head_same [of "m\<lparr>next_free := Suc (next_free m)\<rparr>" "next_free m" b]
    by (simp add: khashmap_update_elem_def Let_def kh_insert_def same_elems_def kh_key_def flip: b_def)
qed

section \<open>Deleting and clearing\<close>

lemma kh_delete_absent:
  assumes "kh_ok m L" "length key = unat (key_size m)" "kh_map m L key = None"
  shows "khashmap_delete_elem 0 m key = Some (Inr (2, m))"
  using lookup_raw_ok(1) [OF assms(1,2) refl] select_bucket_less [OF assms(1), of "kh_hash m key"] assms(2,3)
  by (simp add: khashmap_delete_elem_def kh_map_def Let_def)

lemma elem_ok_same: "same_elems m m' \<Longrightarrow> elem_ok m' b n = elem_ok m b n"
  by (simp add: same_elems_def elem_ok_def select_bucket_def)

text \<open>Unlinking a node of one chain.\<close>

lemma kh_unlink_ok:
  assumes "kh_ok m L" "b < unat (n_buckets m)" "L b = xs @ n # ys"
  obtains m' where "hlist_nulls_del n m = Some m'" "same_elems m m'" "kh_ok m' (L(b := xs @ ys))"
proof -
  have "is_list m b (xs @ n # ys) (NULLS_MARKER (of_nat b))"
    using kh_okD(1) [OF assms(1,2)] assms(3) by simp
  from del_list [OF this] obtain m' where m': "hlist_nulls_del n m = Some m'"
    "is_list m' b (xs @ ys) (NULLS_MARKER (of_nat b))"
    "\<forall>c ks w. c \<noteq> b \<longrightarrow> set ks \<inter> set (xs @ n # ys) = {} \<longrightarrow> is_list m c ks w \<longrightarrow> is_list m' c ks w"
    by blast
  have same: "same_elems m m'"
    by (rule del_same [OF m'(1)])
  have sub: "set ((L(b := xs @ ys)) c) \<subseteq> set (L c)" for c
    using assms(3) by auto
  have "is_list m' c ((L(b := xs @ ys)) c) (NULLS_MARKER (of_nat c))" if c: "c < unat (n_buckets m)" for c
    using m'(2,3) kh_okD(1) [OF assms(1) c] kh_ok_disjoint [OF assms(1) c assms(2)] assms(3) by (cases "c = b") auto
  moreover have "inj_on (el_key m) (set ((L(b := xs @ ys)) c))" if "c < unat (n_buckets m)" for c
    using kh_okD(3) [OF assms(1) that] sub by (rule inj_on_subset)
  moreover have "elem_ok m c k" if "c < unat (n_buckets m)" "k \<in> set ((L(b := xs @ ys)) c)" for c k
    using kh_okD(2) [OF assms(1) that(1)] sub that(2) by blast
  ultimately have "kh_ok m' (L(b := xs @ ys))"
    using assms(1) same elem_ok_same [OF same] unfolding kh_ok_def same_elems_def by metis
  from that [OF m'(1) same this] show thesis .
qed

lemma kh_delete_found:
  assumes "kh_ok m L" "length key = unat (key_size m)" "kh_map m L key = Some v"
  shows "\<exists>m' L'. khashmap_delete_elem 0 m key = Some (Inr (0, m')) \<and> kh_ok m' L' \<and> kh_map m' L' = (kh_map m L)(key := None)
    \<and> next_free m' = next_free m \<and> key_size m' = key_size m \<and> value_size m' = value_size m \<and> max_entries m' = max_entries m"
proof -
  define b where "b = select_bucket m (kh_hash m key)"
  have b: "b < unat (n_buckets m)"
    using select_bucket_less [OF assms(1)] by (simp add: b_def)
  obtain n where n: "find (\<lambda>n. el_key m n = key) (L b) = Some n"
    using assms(2,3) by (auto simp: kh_map_def b_def)
  then have nk: "n \<in> set (L b)" "el_key m n = key"
    by (auto simp: find_Some_iff)
  then obtain xs ys where sp: "L b = xs @ n # ys"
    by (meson split_list)
  obtain m1 where m1: "hlist_nulls_del n m = Some m1" "same_elems m m1" "kh_ok m1 (L(b := xs @ ys))"
    by (rule kh_unlink_ok [OF assms(1) b sp])
  let ?m = "m1\<lparr>kh_count := kh_count m1 - 1\<rparr>" and ?L = "L(b := xs @ ys)"
  have "khashmap_delete_elem 0 m key = Some (Inr (0, ?m))"
    using lookup_raw_ok(1) [OF assms(1,2) b_def] n b m1(1) by (simp add: khashmap_delete_elem_def Let_def flip: b_def)
  moreover have "is_list ?m c ns w = is_list m1 c ns w" for c ns w
    by (rule is_list_cong) simp_all
  moreover have "elem_ok ?m c k = elem_ok m1 c k" for c k
    by (simp add: elem_ok_def select_bucket_def)
  ultimately have r: "khashmap_delete_elem 0 m key = Some (Inr (0, ?m))" "kh_ok ?m ?L"
    using m1(3) by (simp_all add: kh_ok_def)
  have sb: "select_bucket ?m h = select_bucket m h" "kh_hash ?m k = kh_hash m k" for h k
    using m1(2) by (simp_all add: select_bucket_def kh_hash_def kh_key_def same_elems_def)
  have "distinct (xs @ n # ys)" "inj_on (el_key m) (set (xs @ n # ys))"
    using kh_okD(1,3) [OF assms(1) b] sp by (simp_all add: is_list_def)
  then have gone: "find (\<lambda>n. el_key m n = key) (xs @ ys) = None"
    using nk(2) by (auto simp: find_None_iff inj_on_def)
  have "kh_map ?m ?L = (kh_map m L)(key := None)"
  proof
    fix k
    show "kh_map ?m ?L k = ((kh_map m L)(key := None)) k"
      using m1(2) gone find_other [of "\<lambda>j. el_key m j = k" n xs ys] sp nk(2) sb
      by (auto simp: kh_map_def same_elems_def b_def)
  qed
  with r m1(2) show ?thesis
    by (auto simp: same_elems_def)
qed

lemma init_heads:
  "is_list (fold (\<lambda>i. INIT_HLIST_NULLS_HEAD i (of_nat i)) is m) c [] (NULLS_MARKER (of_nat c))" if "c \<in> set is"
  for m :: "'a hlist_nulls_scheme"
proof -
  have "first (fold (\<lambda>i. INIT_HLIST_NULLS_HEAD i (of_nat i)) is m) c
      = (if c \<in> set is then Nulls (NULLS_MARKER (of_nat c)) else first m c)" for m :: "'a hlist_nulls_scheme"
    by (induction "is" arbitrary: m) (auto simp: INIT_HLIST_NULLS_HEAD_def)
  then show ?thesis
    using that by (simp add: is_list_def)
qed

lemma init_heads_same: "same_elems m (fold (\<lambda>i. INIT_HLIST_NULLS_HEAD i (of_nat i)) is m)"
proof (induction "is" arbitrary: m)
  case (Cons i js)
  from Cons [of "INIT_HLIST_NULLS_HEAD i (of_nat i) m"] show ?case
    by (simp add: same_elems_def INIT_HLIST_NULLS_HEAD_def)
qed (simp add: same_elems_def)

lemma clear_buckets_ok: "\<forall>i \<in> set is. lock i = 0 \<Longrightarrow>
    clear_buckets lock is m = (0, fold (\<lambda>i. INIT_HLIST_NULLS_HEAD i (of_nat i)) is m)"
  by (induction "is" arbitrary: m) simp_all

text \<open>Empty chains in all buckets.\<close>

lemma empty_ok:
  assumes "\<exists>s < 32. n_buckets m = 2 ^ s" "next_free m \<le> unat (max_entries m)"
    "\<forall>b < unat (n_buckets m). is_list m b [] (NULLS_MARKER (of_nat b))"
  shows "kh_ok m (\<lambda>_. [])" "kh_map m (\<lambda>_. []) = Map.empty"
  using assms by (auto simp: kh_ok_def kh_map_def)

lemma kh_clear:
  assumes "kh_ok m L" "\<forall>i. lock i = 0"
  shows "\<exists>m'. khashmap_clear lock m = (0, m') \<and> kh_ok m' (\<lambda>_. []) \<and> kh_map m' (\<lambda>_. []) = Map.empty \<and> next_free m' = 0
    \<and> key_size m' = key_size m \<and> value_size m' = value_size m \<and> max_entries m' = max_entries m"
proof -
  let ?f = "fold (\<lambda>i. INIT_HLIST_NULLS_HEAD i (of_nat i)) [0..<unat (n_buckets m)] m"
  let ?m = "?f\<lparr>next_free := 0\<rparr>"
  have same: "same_elems m ?f"
    by (rule init_heads_same)
  have "is_list ?m b [] (NULLS_MARKER (of_nat b))" if "b < unat (n_buckets m)" for b
    using init_heads [of b "[0..<unat (n_buckets m)]" m] that by (subst is_list_cong [of _ ?f]) simp_all
  then have "kh_ok ?m (\<lambda>_. [])" "kh_map ?m (\<lambda>_. []) = Map.empty"
    using same assms(1) by (intro empty_ok; simp add: same_elems_def kh_ok_def)+
  then show ?thesis
    using same clear_buckets_ok [of "[0..<unat (n_buckets m)]" lock m] assms(2)
    by (simp add: khashmap_clear_def same_elems_def)
qed

lemma kh_init:
  assumes "unat me \<le> 2 ^ 31"
  shows "\<exists>m'. khashmap_init True True ks vs me m = (0, m') \<and> kh_ok m' (\<lambda>_. []) \<and> kh_map m' (\<lambda>_. []) = Map.empty \<and> next_free m' = 0
    \<and> key_size m' = ks \<and> value_size m' = vs \<and> max_entries m' = me \<and> kh_count m' = 0"
proof -
  define m1 where "m1 = m\<lparr>key_size := ks, value_size := vs, max_entries := me, kh_count := 0,
    n_buckets := ucast (roundup_pow_of_two (ucast me)), elem_size := sizeof_khashmap_elem + round_up ks 8 + round_up vs 8,
    hashrnd := 0\<rparr>"
  let ?f = "fold (\<lambda>i. INIT_HLIST_NULLS_HEAD i (of_nat i)) [0..<unat (n_buckets m1)] m1"
  let ?m = "?f\<lparr>next_free := 0\<rparr>"
  have same: "same_elems m1 ?f"
    by (rule init_heads_same)
  have cnt: "kh_count (fold (\<lambda>i. INIT_HLIST_NULLS_HEAD i (of_nat i)) is k) = kh_count k" for "is" and k :: khashmap
    by (induction "is" arbitrary: k) (simp_all add: INIT_HLIST_NULLS_HEAD_def)
  have "is_list ?m b [] (NULLS_MARKER (of_nat b))" if "b < unat (n_buckets m1)" for b
    using init_heads [of b "[0..<unat (n_buckets m1)]" m1] that by (subst is_list_cong [of _ ?f]) simp_all
  moreover have "\<exists>s < 32. n_buckets m1 = 2 ^ s"
    using n_buckets_pow [OF assms] by (auto simp: m1_def)
  ultimately have "kh_ok ?m (\<lambda>_. [])" "kh_map ?m (\<lambda>_. []) = Map.empty"
    using same by (intro empty_ok; simp add: same_elems_def)+
  moreover have "khashmap_init True True ks vs me m = (0, ?m)"
    by (simp add: khashmap_init_def Let_def m1_def)
  ultimately show ?thesis
    using same cnt by (simp add: same_elems_def m1_def)
qed

section \<open>The contract of a map\<close>

text \<open>
  What a client may rely on: an implementation of a partial map with room for a number of new
  keys, whose operations return and agree with the map.
\<close>

datatype ('k, 'v) table_op = Put 'k 'v | Get 'k | Del 'k

fun op_ok :: "('k \<Rightarrow> bool) \<Rightarrow> ('v \<Rightarrow> bool) \<Rightarrow> ('k, 'v) table_op \<Rightarrow> bool" where
  "op_ok kok vok (Put k v) \<longleftrightarrow> kok k \<and> vok v"
| "op_ok kok vok (Get k) \<longleftrightarrow> kok k"
| "op_ok kok vok (Del k) \<longleftrightarrow> kok k"

text \<open>The answers of a sequence of operations on a map: the value a lookup finds, or the status.\<close>

fun spec_run :: "('k, 'v) table_op list \<Rightarrow> ('k \<rightharpoonup> 'v) \<Rightarrow> (int + 'v option) list \<times> ('k \<rightharpoonup> 'v)" where
  "spec_run [] A = ([], A)"
| "spec_run (Put k v # ops) A = (let (rs, A) = spec_run ops (A(k \<mapsto> v)) in (Inl 0 # rs, A))"
| "spec_run (Get k # ops) A = (let (rs, A') = spec_run ops A in (Inr (A k) # rs, A'))"
| "spec_run (Del k # ops) A = (let (rs, A') = spec_run ops (A(k := None)) in (Inl (if A k = None then 2 else 0) # rs, A'))"

fun puts :: "('k, 'v) table_op list \<Rightarrow> nat" where
  "puts [] = 0"
| "puts (Put k v # ops) = Suc (puts ops)"
| "puts (Get k # ops) = puts ops"
| "puts (Del k # ops) = puts ops"

text \<open>The same for an implementation; \<open>None\<close> if an operation does not return or fails.\<close>

fun impl_run ::
    "('m \<Rightarrow> 'k \<Rightarrow> 'v \<Rightarrow> ('e + int \<times> 'm) option) \<Rightarrow> ('m \<Rightarrow> 'k \<Rightarrow> ('e + 'v option) option) \<Rightarrow>
     ('m \<Rightarrow> 'k \<Rightarrow> ('e + int \<times> 'm) option) \<Rightarrow> ('k, 'v) table_op list \<Rightarrow> 'm \<Rightarrow> ((int + 'v option) list \<times> 'm) option" where
  "impl_run put get del [] m = Some ([], m)"
| "impl_run put get del (Put k v # ops) m =
     (case put m k v of
        Some (Inr (r, m)) \<Rightarrow> map_option (\<lambda>(rs, m). (Inl r # rs, m)) (impl_run put get del ops m)
      | _ \<Rightarrow> None)"
| "impl_run put get del (Get k # ops) m =
     (case get m k of
        Some (Inr r) \<Rightarrow> map_option (\<lambda>(rs, m). (Inr r # rs, m)) (impl_run put get del ops m)
      | _ \<Rightarrow> None)"
| "impl_run put get del (Del k # ops) m =
     (case del m k of
        Some (Inr (r, m)) \<Rightarrow> map_option (\<lambda>(rs, m). (Inl r # rs, m)) (impl_run put get del ops m)
      | _ \<Rightarrow> None)"

locale table =
  fixes put :: "'m \<Rightarrow> 'k \<Rightarrow> 'v \<Rightarrow> ('e + int \<times> 'm) option"
    and get :: "'m \<Rightarrow> 'k \<Rightarrow> ('e + 'v option) option"
    and del :: "'m \<Rightarrow> 'k \<Rightarrow> ('e + int \<times> 'm) option"
    and rel :: "nat \<Rightarrow> 'm \<Rightarrow> ('k \<rightharpoonup> 'v) \<Rightarrow> bool"
    and kok :: "'k \<Rightarrow> bool"
    and vok :: "'v \<Rightarrow> bool"
  assumes get_ok: "rel n m A \<Longrightarrow> kok k \<Longrightarrow> get m k = Some (Inr (A k))"
    and put_ok: "rel (Suc n) m A \<Longrightarrow> kok k \<Longrightarrow> vok v \<Longrightarrow> \<exists>m'. put m k v = Some (Inr (0, m')) \<and> rel n m' (A(k \<mapsto> v))"
    and del_ok: "rel n m A \<Longrightarrow> kok k \<Longrightarrow>
      \<exists>m'. del m k = Some (Inr (if A k = None then 2 else 0, m')) \<and> rel n m' (A(k := None))"
begin

lemma run_refines:
  assumes "rel (puts ops + n) m A" "\<forall>x \<in> set ops. op_ok kok vok x"
  shows "\<exists>m'. impl_run put get del ops m = Some (fst (spec_run ops A), m') \<and> rel n m' (snd (spec_run ops A))"
  using assms
proof (induction ops arbitrary: m A)
  case (Cons x ops)
  show ?case
  proof (cases x)
    case (Put k v)
    then obtain m1 where "put m k v = Some (Inr (0, m1))" "rel (puts ops + n) m1 (A(k \<mapsto> v))"
      using put_ok [of "puts ops + n" m A k v] Cons.prems by auto
    then show ?thesis
      using Cons Put by (fastforce simp: split_beta Let_def)
  next
    case (Get k)
    then show ?thesis
      using Cons get_ok [of "puts ops + n" m A k] by (fastforce simp: split_beta Let_def)
  next
    case (Del k)
    then obtain m1 where "del m k = Some (Inr (if A k = None then 2 else 0, m1))" "rel (puts ops + n) m1 (A(k := None))"
      using del_ok [of "puts ops + n" m A k] Cons.prems by auto
    then show ?thesis
      using Cons Del by (fastforce simp: split_beta Let_def)
  qed
qed simp

end

section \<open>The hash map is a table\<close>

definition kh_rel :: "u32 \<Rightarrow> u32 \<Rightarrow> nat \<Rightarrow> khashmap \<Rightarrow> (u8 list \<rightharpoonup> u8 list) \<Rightarrow> bool" where
  "kh_rel ks vs n m A \<longleftrightarrow> (\<exists>L. kh_ok m L \<and> A = kh_map m L) \<and> key_size m = ks \<and> value_size m = vs
     \<and> next_free m + n \<le> unat (max_entries m)"

interpretation kh: table "khashmap_update_elem 0" khashmap_lookup_elem "khashmap_delete_elem 0" "kh_rel ks vs"
    "\<lambda>k. length k = unat ks" "\<lambda>v. length v = unat vs" for ks vs
proof
  fix n m A k v
  show "khashmap_lookup_elem m k = Some (Inr (A k))" if "kh_rel ks vs n m A" "length k = unat ks"
    using that kh_lookup by (auto simp: kh_rel_def)
  show "\<exists>m'. khashmap_update_elem 0 m k v = Some (Inr (0, m')) \<and> kh_rel ks vs n m' (A(k \<mapsto> v))"
    if rel: "kh_rel ks vs (Suc n) m A" and k: "length k = unat ks" and v: "length v = unat vs"
  proof -
    obtain L where L: "kh_ok m L" "A = kh_map m L" and f: "key_size m = ks" "value_size m = vs"
      "next_free m + Suc n \<le> unat (max_entries m)"
      using rel by (auto simp: kh_rel_def)
    show ?thesis
    proof (cases "A k")
      case None
      then show ?thesis
        using kh_update_new [OF L(1), of k v] kh_insert_ok [OF L(1), of k v] kh_insert_map [OF L(1), of k v] L(2) f k v
        by (auto simp: kh_rel_def kh_insert_fields)
    next
      case (Some old)
      then show ?thesis
        using kh_update_found [OF L(1), of k v old] L(2) f k v by (auto simp: kh_rel_def) metis
    qed
  qed
  show "\<exists>m'. khashmap_delete_elem 0 m k = Some (Inr (if A k = None then 2 else 0, m')) \<and> kh_rel ks vs n m' (A(k := None))"
    if rel: "kh_rel ks vs n m A" and k: "length k = unat ks"
  proof -
    obtain L where L: "kh_ok m L" "A = kh_map m L" and f: "key_size m = ks" "value_size m = vs"
      "next_free m + n \<le> unat (max_entries m)"
      using rel by (auto simp: kh_rel_def)
    show ?thesis
    proof (cases "A k")
      case None
      then have "A(k := None) = A" by auto
      then show ?thesis
        using None kh_delete_absent [OF L(1), of k] L f k rel by simp
    next
      case (Some v)
      then show ?thesis
        using kh_delete_found [OF L(1), of k v] L(2) f k by (auto simp: kh_rel_def) metis
    qed
  qed
qed

text \<open>
  C34: the hash map refines a finite map.  After initialisation for \<open>me\<close> entries, every sequence
  of insertions, lookups and deletions with keys and values of the configured sizes and at most
  \<open>me\<close> insertions returns, call by call, what the map specification returns: every walk along a
  chain ends, no access leaves the allocations, and chains, hashes and keys stay consistent.
\<close>

theorem khashmap_refines_map:
  assumes "unat me \<le> 2 ^ 31" "puts ops \<le> unat me" "\<forall>x \<in> set ops. op_ok (\<lambda>k. length k = unat ks) (\<lambda>v. length v = unat vs) x"
  shows "\<exists>m'. impl_run (khashmap_update_elem 0) khashmap_lookup_elem (khashmap_delete_elem 0) ops
      (snd (khashmap_init True True ks vs me m)) = Some (fst (spec_run ops Map.empty), m')"
proof -
  obtain m1 where "khashmap_init True True ks vs me m = (0, m1)" "kh_ok m1 (\<lambda>_. [])" "kh_map m1 (\<lambda>_. []) = Map.empty"
    "next_free m1 = 0" "key_size m1 = ks" "value_size m1 = vs" "max_entries m1 = me"
    using kh_init [OF assms(1), of ks vs m] by blast
  moreover from this have "kh_rel ks vs (puts ops + 0) m1 Map.empty"
    using assms(2) unfolding kh_rel_def by fastforce
  ultimately show ?thesis
    using kh.run_refines [OF _ assms(3)] by fastforce
qed

definition kh0 :: khashmap where
  "kh0 = \<lparr>first = (\<lambda>_. Nulls 0), nxt = (\<lambda>_. Nulls 0), pprev = (\<lambda>_. PNull), key_size = 0, value_size = 0, max_entries = 0,
     n_buckets = 0, elem_size = 0, hashrnd = 0, el_hash = (\<lambda>_. 0), el_key = (\<lambda>_. []), el_value = (\<lambda>_. []), next_free = 0,
     kh_count = 0\<rparr>"

theorem khashmap_refines_map_witness:
  "\<exists>m'. impl_run (khashmap_update_elem 0) khashmap_lookup_elem (khashmap_delete_elem 0)
      [Put [1, 2, 3, 4] [9], Get [1, 2, 3, 4], Put [1, 2, 3, 5] [8], Del [1, 2, 3, 4], Get [1, 2, 3, 4], Del [1, 2, 3, 4]]
      (snd (khashmap_init True True 4 1 2 kh0)) = Some ([Inl 0, Inr (Some [9]), Inl 0, Inl 0, Inr None, Inl 2], m')"
  using khashmap_refines_map [of 2 "[Put [1, 2, 3, 4] [9], Get [1, 2, 3, 4], Put [1, 2, 3, 5] [8], Del [1, 2, 3, 4],
    Get [1, 2, 3, 4], Del [1, 2, 3, 4]]" 4 1 kh0] by simp

text \<open>
  C36: slots are never given back.  When the last slot has been used, deleting a key and inserting
  it again writes behind the allocation, although the map has one entry less than its maximum:
  there is no check against \<open>max_entries\<close> and no free list.
\<close>

theorem khashmap_reinsert_overflows:
  assumes "kh_ok m L" "kh_map m L key = Some v" "next_free m = unat (max_entries m)"
    "length key = unat (key_size m)" "length val = unat (value_size m)"
  shows "\<exists>m'. khashmap_delete_elem 0 m key = Some (Inr (0, m')) \<and> khashmap_update_elem 0 m' key val = Some (Inl KhFault)"
proof -
  obtain m' L' where m': "khashmap_delete_elem 0 m key = Some (Inr (0, m'))" "kh_ok m' L'"
    "kh_map m' L' = (kh_map m L)(key := None)" "next_free m' = next_free m" "key_size m' = key_size m"
    "value_size m' = value_size m" "max_entries m' = max_entries m"
    using kh_delete_found [OF assms(1,4,2)] by blast
  then show ?thesis
    using kh_update_new [OF m'(2), of key val] assms(3-) by auto
qed

text \<open>A map for one entry with its entry.\<close>

definition kh1 :: khashmap where
  "kh1 = kh_insert (snd (khashmap_init True True 4 1 1 kh0)) [1, 2, 3, 4] [9]"

theorem khashmap_reinsert_overflows_witness:
  "\<exists>m'. khashmap_delete_elem 0 kh1 [1, 2, 3, 4] = Some (Inr (0, m')) \<and> khashmap_update_elem 0 m' [1, 2, 3, 4] [9] = Some (Inl KhFault)"
proof -
  obtain m where m: "khashmap_init True True 4 1 1 kh0 = (0, m)" "kh_ok m (\<lambda>_. [])" "kh_map m (\<lambda>_. []) = Map.empty"
    "next_free m = 0" "key_size m = 4" "value_size m = 1" "max_entries m = 1"
    using kh_init [of 1 4 1 kh0] by auto
  then have k: "kh1 = kh_insert m [1, 2, 3, 4] [9]"
    by (simp add: kh1_def)
  have "kh_ok kh1 (chain_insert m [1, 2, 3, 4] (\<lambda>_. []))"
    unfolding k by (rule kh_insert_ok [OF m(2)]) (simp_all add: m)
  moreover have "kh_map kh1 (chain_insert m [1, 2, 3, 4] (\<lambda>_. [])) [1, 2, 3, 4] = Some [9]"
    unfolding k using kh_insert_map [OF m(2), of "[1, 2, 3, 4]"] by (simp add: m)
  ultimately show ?thesis
    by (rule khashmap_reinsert_overflows) (simp_all add: k kh_insert_fields m)
qed

text \<open>A map that was freed reports no elements, and can be set up again whatever it held.\<close>

theorem khashmap_free_init:
  assumes "unat me \<le> 2 ^ 31"
  shows "khashmap_size (khashmap_free m) = 0 \<and> (\<exists>m'. khashmap_init True True ks vs me (khashmap_free m) = (0, m')
    \<and> kh_ok m' (\<lambda>_. []) \<and> kh_map m' (\<lambda>_. []) = Map.empty \<and> khashmap_size m' = 0)"
  using kh_init [OF assms, of ks vs "khashmap_free m"] by (auto simp: khashmap_size_def khashmap_free_def)

text \<open>
  Clearing empties the map and makes all slots available, but the count of elements that
  \<open>khashmap_size\<close> reports stays as it was.
\<close>

theorem khashmap_clear_keeps_count:
  assumes "kh_ok m L" "\<forall>i. lock i = 0"
  shows "\<exists>m'. khashmap_clear lock m = (0, m') \<and> kh_ok m' (\<lambda>_. []) \<and> kh_map m' (\<lambda>_. []) = Map.empty \<and> next_free m' = 0
    \<and> khashmap_size m' = khashmap_size m"
proof -
  have "kh_count (fold (\<lambda>i. INIT_HLIST_NULLS_HEAD i (of_nat i)) is k) = kh_count k" for "is" and k :: khashmap
    by (induction "is" arbitrary: k) (simp_all add: INIT_HLIST_NULLS_HEAD_def)
  then have "kh_count (snd (khashmap_clear lock m)) = kh_count m"
    using clear_buckets_ok [of "[0..<unat (n_buckets m)]" lock m] assms(2) by (simp add: khashmap_clear_def)
  then show ?thesis
    using kh_clear [OF assms] by (auto simp: khashmap_size_def)
qed

theorem khashmap_clear_keeps_count_witness:
  "\<exists>m'. khashmap_clear (\<lambda>_. 0) kh1 = (0, m') \<and> khashmap_size m' = khashmap_size kh1"
proof -
  obtain m where m: "khashmap_init True True 4 1 1 kh0 = (0, m)" "kh_ok m (\<lambda>_. [])" "kh_map m (\<lambda>_. []) = Map.empty"
    "next_free m = 0" "key_size m = 4" "max_entries m = 1"
    using kh_init [of 1 4 1 kh0] by auto
  have "kh_ok kh1 (chain_insert m [1, 2, 3, 4] (\<lambda>_. []))"
    unfolding kh1_def m(1) snd_conv by (rule kh_insert_ok [OF m(2)]) (simp_all add: m)
  from khashmap_clear_keeps_count [OF this, of "\<lambda>_. 0"] show ?thesis
    by blast
qed

end
