(* ===== verification/Xsk_Ring.thy ===== *)
theory Xsk_Ring
  imports Xsk_Worker
begin

text \<open>
  The rings of \<open>xsk.h\<close> as they are in memory: an array of a power of two of slots, a shared
  producer and a shared consumer index that run through all 32-bit numbers and wrap around, and
  private copies of both.  The lists and \<open>cons_ring\<close> records that the model of the workers uses
  are the abstraction of these rings.
\<close>

section \<open>The functions of the header\<close>

record 'a xsk_ring =
  cached_prod :: u32
  cached_cons :: u32
  ring_mask :: u32
  ring_size :: u32
  producer :: u32
  consumer :: u32
  slots :: "u32 \<Rightarrow> 'a"

definition ring_get :: "'a xsk_ring \<Rightarrow> u32 \<Rightarrow> 'a" where
  "ring_get r idx = slots r (idx AND ring_mask r)"

definition ring_put :: "u32 \<Rightarrow> 'a \<Rightarrow> 'a xsk_ring \<Rightarrow> 'a xsk_ring" where
  "ring_put idx x r = r\<lparr>slots := (slots r)(idx AND ring_mask r := x)\<rparr>"

definition xsk_prod_nb_free :: "'a xsk_ring \<Rightarrow> u32 \<Rightarrow> u32 \<times> 'a xsk_ring" where
  "xsk_prod_nb_free r nb =
     (let free_entries = cached_cons r - cached_prod r
      in if free_entries \<ge> nb then (free_entries, r)
         else
           (let r = r\<lparr>cached_cons := consumer r\<rparr>;
                r = r\<lparr>cached_cons := cached_cons r + ring_size r\<rparr>
            in (cached_cons r - cached_prod r, r)))"

definition xsk_cons_nb_avail :: "'a xsk_ring \<Rightarrow> u32 \<Rightarrow> u32 \<times> 'a xsk_ring" where
  "xsk_cons_nb_avail r nb =
     (let entries = cached_prod r - cached_cons r;
          (entries, r) = (if entries = 0
             then (let r = r\<lparr>cached_prod := producer r\<rparr> in (cached_prod r - cached_cons r, r)) else (entries, r))
      in (if entries > nb then nb else entries, r))"

definition xsk_ring_prod_reserve :: "'a xsk_ring \<Rightarrow> u32 \<Rightarrow> u32 \<times> u32 \<times> 'a xsk_ring" where
  "xsk_ring_prod_reserve r nb =
     (let (free, r) = xsk_prod_nb_free r nb
      in if free < nb then (0, 0, r) else (nb, cached_prod r, r\<lparr>cached_prod := cached_prod r + nb\<rparr>))"

definition xsk_ring_prod_submit :: "'a xsk_ring \<Rightarrow> u32 \<Rightarrow> 'a xsk_ring" where
  "xsk_ring_prod_submit r nb = r\<lparr>producer := producer r + nb\<rparr>"

definition xsk_ring_cons_peek :: "'a xsk_ring \<Rightarrow> u32 \<Rightarrow> u32 \<times> u32 \<times> 'a xsk_ring" where
  "xsk_ring_cons_peek r nb =
     (let (entries, r) = xsk_cons_nb_avail r nb
      in if entries > 0 then (entries, cached_cons r, r\<lparr>cached_cons := cached_cons r + entries\<rparr>) else (entries, 0, r))"

definition xsk_ring_cons_cancel :: "'a xsk_ring \<Rightarrow> u32 \<Rightarrow> 'a xsk_ring" where
  "xsk_ring_cons_cancel r nb = r\<lparr>cached_cons := cached_cons r - nb\<rparr>"

definition xsk_ring_cons_release :: "'a xsk_ring \<Rightarrow> u32 \<Rightarrow> 'a xsk_ring" where
  "xsk_ring_cons_release r nb = r\<lparr>consumer := consumer r + nb\<rparr>"

text \<open>How the workers use them: reserve, store, submit; peek, read, release.\<close>

fun put_all :: "u32 \<Rightarrow> 'a list \<Rightarrow> 'a xsk_ring \<Rightarrow> 'a xsk_ring" where
  "put_all idx [] r = r"
| "put_all idx (x # xs) r = put_all (idx + 1) xs (ring_put idx x r)"

definition produce :: "'a list \<Rightarrow> 'a xsk_ring \<Rightarrow> bool \<times> 'a xsk_ring" where
  "produce xs r =
     (let nb = of_nat (length xs); (ret, idx, r) = xsk_ring_prod_reserve r nb
      in if ret \<noteq> nb then (False, r) else (True, xsk_ring_prod_submit (put_all idx xs r) nb))"

definition consume :: "nat \<Rightarrow> 'a xsk_ring \<Rightarrow> 'a list \<times> 'a xsk_ring" where
  "consume nb r =
     (let (n, idx, r) = xsk_ring_cons_peek r (of_nat nb)
      in (map (\<lambda>i. ring_get r (idx + of_nat i)) [0..<unat n], xsk_ring_cons_release r n))"

section \<open>Indices\<close>

text \<open>A ring of \<open>2 ^ k\<close> slots whose index \<open>c\<close> is followed by the entries \<open>xs\<close>.\<close>

definition ring_shape :: "nat \<Rightarrow> 'a xsk_ring \<Rightarrow> bool" where
  "ring_shape k r \<longleftrightarrow> k < 31 \<and> ring_size r = 2 ^ k \<and> ring_mask r = 2 ^ k - 1"

definition holds :: "'a xsk_ring \<Rightarrow> u32 \<Rightarrow> 'a list \<Rightarrow> bool" where
  "holds r c xs \<longleftrightarrow> (\<forall>i < length xs. ring_get r (c + of_nat i) = xs ! i)"

lemma unat_of_nat_u32: "n < 2 ^ 32 \<Longrightarrow> unat (of_nat n :: u32) = n"
  by (simp add: unsigned_of_nat take_bit_nat_eq_self)

lemma unat_index:
  assumes "k < 31"
  shows "unat ((c + of_nat i) AND (2 ^ k - 1 :: u32)) = (unat c + i) mod 2 ^ k"
proof -
  have "(c + of_nat i) AND (2 ^ k - 1 :: u32) = take_bit k (c + of_nat i)"
    by (simp add: take_bit_eq_mask mask_eq_exp_minus_1)
  then have "unat ((c + of_nat i) AND (2 ^ k - 1 :: u32)) = take_bit k (unat (c + of_nat i))"
    by (simp only: unsigned_take_bit_eq)
  also have "\<dots> = unat (c + of_nat i) mod 2 ^ k"
    by (rule take_bit_eq_mod)
  also have "unat (c + of_nat i) = (unat c + i) mod 2 ^ 32"
    by (simp add: unat_word_ariths unsigned_of_nat take_bit_eq_mod mod_simps)
  also have "(unat c + i) mod 2 ^ 32 mod 2 ^ k = (unat c + i) mod 2 ^ k"
    using assms by (intro mod_mod_cancel le_imp_power_dvd) simp
  finally show ?thesis .
qed

lemma index_inj:
  assumes "(c + of_nat i) AND (2 ^ k - 1) = (c + of_nat j) AND (2 ^ k - 1 :: u32)" "i < 2 ^ k" "j < 2 ^ k" "k < 31"
  shows "i = j"
proof -
  have "(unat c + i) mod 2 ^ k = (unat c + j) mod 2 ^ k"
    using assms(1) unat_index [OF assms(4)] by metis
  then have "int (unat c + i) mod 2 ^ k = int (unat c + j) mod 2 ^ k"
    by (metis of_nat_mod of_nat_numeral of_nat_power)
  from mod_diff_cong [OF this refl, of "int (unat c)"] have "int i mod 2 ^ k = int j mod 2 ^ k"
    by simp
  then show ?thesis
    using assms(2,3) by simp
qed

lemma ring_put_get:
  assumes "ring_shape k r" "i < 2 ^ k" "j < 2 ^ k"
  shows "ring_get (ring_put (c + of_nat i) x r) (c + of_nat j) = (if i = j then x else ring_get r (c + of_nat j))"
  using assms index_inj [of c j k i] by (auto simp: ring_get_def ring_put_def ring_shape_def)

lemma put_all_fields [simp]:
  "cached_prod (put_all idx xs r) = cached_prod r" "cached_cons (put_all idx xs r) = cached_cons r"
  "ring_mask (put_all idx xs r) = ring_mask r" "ring_size (put_all idx xs r) = ring_size r"
  "producer (put_all idx xs r) = producer r" "consumer (put_all idx xs r) = consumer r"
  by (induction xs arbitrary: idx r) (simp_all add: ring_put_def)

lemma put_all_get:
  assumes "ring_shape k r" "n + length xs \<le> 2 ^ k" "j < 2 ^ k"
  shows "ring_get (put_all (c + of_nat n) xs r) (c + of_nat j)
     = (if n \<le> j \<and> j < n + length xs then xs ! (j - n) else ring_get r (c + of_nat j))"
  using assms
proof (induction xs arbitrary: n r)
  case (Cons x xs)
  have "ring_shape k (ring_put (c + of_nat n) x r)"
    using Cons.prems(1) by (simp add: ring_shape_def ring_put_def)
  from Cons.IH [OF this, of "Suc n"] Cons.prems show ?case
    using ring_put_get [OF Cons.prems(1), of n j c x] by (auto simp: add.assoc nth_Cons' ac_simps)
qed auto

text \<open>Entries after an index, and new ones behind them.\<close>

lemma holds_append:
  assumes "ring_shape k r" "holds r c ys" "length ys + length xs \<le> 2 ^ k"
  shows "holds (put_all (c + of_nat (length ys)) xs r) c (ys @ xs)"
  using assms put_all_get [OF assms(1), of "length ys" xs _ c] by (auto simp: holds_def nth_append)

section \<open>Producing\<close>

text \<open>
  A ring on whose producer side the worker is, with the entries that the kernel has not taken yet.
  The private copy of the consumer index lags behind by \<open>d\<close>.
\<close>

definition prod_rel :: "nat \<Rightarrow> 'a xsk_ring \<Rightarrow> 'a list \<Rightarrow> bool" where
  "prod_rel k r xs \<longleftrightarrow> ring_shape k r \<and> holds r (consumer r) xs \<and> producer r = consumer r + of_nat (length xs)
     \<and> cached_prod r = producer r
     \<and> (\<exists>d. d + length xs \<le> 2 ^ k \<and> cached_cons r + of_nat d = consumer r + ring_size r)"

lemma pow_of_nat: "(2 ^ k :: u32) = of_nat (2 ^ k)"
  by simp

text \<open>The number of free slots that the copies show, without wrap-around.\<close>

lemma free_entries:
  assumes "k < 31" "d + n \<le> 2 ^ k" "cc + of_nat d = c + 2 ^ k"
  shows "unat (cc - (c + of_nat n) :: u32) = 2 ^ k - d - n"
proof -
  have "cc - (c + of_nat n) = of_nat (2 ^ k - d - n)"
    using assms(2,3) by (simp add: of_nat_diff eq_diff_eq diff_diff_eq ac_simps flip: pow_of_nat) (simp add: algebra_simps)
  moreover have "2 ^ k - d - n < (2 :: nat) ^ 32"
    using assms(1) power_strict_increasing [of k 32 "2 :: nat"] by simp
  ultimately show ?thesis
    by (simp only: unat_of_nat_u32)
qed

lemma reserve_exact:
  assumes "prod_rel k r xs" "nb \<le> 2 ^ k"
  shows "\<exists>cc. xsk_ring_prod_reserve r (of_nat nb) =
     (if length xs + nb \<le> 2 ^ k then (of_nat nb, producer r, r\<lparr>cached_cons := cc, cached_prod := producer r + of_nat nb\<rparr>)
      else (0, 0, r\<lparr>cached_cons := cc\<rparr>))
     \<and> (\<exists>d. d + length xs + (if length xs + nb \<le> 2 ^ k then nb else 0) \<le> 2 ^ k \<and> cc + of_nat d = consumer r + ring_size r)"
proof -
  let ?n = "length xs"
  have k: "k < 31" "ring_size r = 2 ^ k" and p: "cached_prod r = consumer r + of_nat ?n" "producer r = cached_prod r"
    using assms(1) by (simp_all add: prod_rel_def ring_shape_def)
  obtain d where d: "d + ?n \<le> 2 ^ k" "cached_cons r + of_nat d = consumer r + 2 ^ k"
    using assms(1) k by (auto simp: prod_rel_def)
  have nb: "unat (of_nat nb :: u32) = nb"
    using assms(2) k(1) power_strict_increasing [of k 32 "2 :: nat"] by (intro unat_of_nat_u32) simp
  have f1: "unat (cached_cons r - cached_prod r) = 2 ^ k - d - ?n"
    unfolding p by (rule free_entries [OF k(1) d])
  have f2: "unat (consumer r + 2 ^ k - cached_prod r) = 2 ^ k - 0 - ?n"
    unfolding p by (rule free_entries [OF k(1)]) (use d in simp_all)
  show ?thesis
  proof (cases "nb \<le> 2 ^ k - d - ?n")
    case True
    then have "\<not> cached_cons r - cached_prod r < of_nat nb"
      using f1 nb by (simp add: word_less_nat_alt)
    then show ?thesis
      using True d k p by (intro exI [of _ "cached_cons r"] conjI exI [of _ d])
        (auto simp: xsk_ring_prod_reserve_def xsk_prod_nb_free_def Let_def not_less)
  next
    case False
    then have a: "cached_cons r - cached_prod r < of_nat nb"
      using f1 nb by (simp add: word_less_nat_alt)
    have b: "consumer r + 2 ^ k - cached_prod r < of_nat nb \<longleftrightarrow> \<not> ?n + nb \<le> 2 ^ k"
      using f2 nb d(1) by (auto simp: word_less_nat_alt)
    show ?thesis
      using a b d k p by (intro exI [of _ "consumer r + 2 ^ k"] conjI exI [of _ 0])
        (auto simp: xsk_ring_prod_reserve_def xsk_prod_nb_free_def Let_def not_le [symmetric])
  qed
qed

lemma produce_refines:
  assumes "prod_rel k r xs" "length ys \<le> 2 ^ k"
  shows "fst (produce ys r) = prod_reserve (2 ^ k) xs (length ys)"
    "prod_rel k (snd (produce ys r)) (if prod_reserve (2 ^ k) xs (length ys) then xs @ ys else xs)"
proof -
  let ?n = "length xs" and ?nb = "length ys"
  obtain cc d where res: "xsk_ring_prod_reserve r (of_nat ?nb) =
     (if ?n + ?nb \<le> 2 ^ k then (of_nat ?nb, producer r, r\<lparr>cached_cons := cc, cached_prod := producer r + of_nat ?nb\<rparr>)
      else (0, 0, r\<lparr>cached_cons := cc\<rparr>))"
    and d: "d + ?n + (if ?n + ?nb \<le> 2 ^ k then ?nb else 0) \<le> 2 ^ k" "cc + of_nat d = consumer r + ring_size r"
    using reserve_exact [OF assms] by blast
  have sh: "ring_shape k r" and h: "holds r (consumer r) xs" and p: "producer r = consumer r + of_nat ?n" "cached_prod r = producer r"
    using assms(1) by (simp_all add: prod_rel_def)
  have "fst (produce ys r) = (?n + ?nb \<le> 2 ^ k)
    \<and> prod_rel k (snd (produce ys r)) (if ?n + ?nb \<le> 2 ^ k then xs @ ys else xs)"
  proof (cases "?n + ?nb \<le> 2 ^ k")
    case True
    let ?r = "put_all (producer r) ys (r\<lparr>cached_cons := cc, cached_prod := producer r + of_nat ?nb\<rparr>)"
    have "holds ?r (consumer r) (xs @ ys)"
      unfolding p using True sh h by (intro holds_append [of k]) (simp_all add: ring_shape_def holds_def ring_get_def)
    then have "holds (xsk_ring_prod_submit ?r (of_nat ?nb)) (consumer r) (xs @ ys)"
      by (simp add: holds_def ring_get_def xsk_ring_prod_submit_def)
    moreover have "produce ys r = (True, xsk_ring_prod_submit ?r (of_nat ?nb))"
      using res True by (simp add: produce_def Let_def)
    moreover have "\<exists>d. d + length (xs @ ys) \<le> 2 ^ k \<and> cc + of_nat d = consumer r + ring_size r"
      using d True by (intro exI [of _ d]) simp
    ultimately show ?thesis
      using True sh p by (simp add: prod_rel_def xsk_ring_prod_submit_def ring_shape_def add.assoc)
  next
    case False
    then have "(of_nat ?nb :: u32) \<noteq> 0"
      using assms d(1) sh power_strict_increasing [of k 32 "2 :: nat"] unat_of_nat_u32 [of ?nb]
      by (auto simp: ring_shape_def)
    then show ?thesis
      using res False d sh h p
      by (auto simp: produce_def Let_def prod_rel_def ring_shape_def holds_def ring_get_def)
  qed
  then show "fst (produce ys r) = prod_reserve (2 ^ k) xs (length ys)"
    "prod_rel k (snd (produce ys r)) (if prod_reserve (2 ^ k) xs (length ys) then xs @ ys else xs)"
    by (simp_all add: prod_reserve_def)
qed

text \<open>The kernel takes the entry at its consumer index.\<close>

lemma kernel_take:
  assumes "prod_rel k r (x # xs)"
  shows "ring_get r (consumer r) = x" "prod_rel k (r\<lparr>consumer := consumer r + 1\<rparr>) xs"
proof -
  have h: "ring_get r (consumer r + of_nat i) = (x # xs) ! i" if "i < Suc (length xs)" for i
    using assms that by (simp add: prod_rel_def holds_def)
  show "ring_get r (consumer r) = x"
    using h [of 0] by simp
  obtain d where d: "d + length (x # xs) \<le> 2 ^ k" "cached_cons r + of_nat d = consumer r + ring_size r"
    using assms by (auto simp: prod_rel_def)
  have "holds (r\<lparr>consumer := consumer r + 1\<rparr>) (consumer r + 1) xs"
    using h [of "Suc i" for i] by (auto simp: holds_def ring_get_def add.assoc)
  then show "prod_rel k (r\<lparr>consumer := consumer r + 1\<rparr>) xs"
    using assms d by (auto simp: prod_rel_def ring_shape_def ac_simps intro!: exI [of _ "Suc d"])
qed

section \<open>Consuming\<close>

text \<open>
  A ring on whose consumer side the worker is: \<open>cached\<close> are the entries up to the private copy of
  the producer index, \<open>fresh\<close> those that the kernel has added since.
\<close>

definition cons_rel :: "nat \<Rightarrow> 'a xsk_ring \<Rightarrow> 'a cons_ring \<Rightarrow> bool" where
  "cons_rel k r cr \<longleftrightarrow> ring_shape k r \<and> holds r (consumer r) (ring_all cr) \<and> length (ring_all cr) \<le> 2 ^ k
     \<and> cached_cons r = consumer r \<and> cached_prod r = consumer r + of_nat (length (cached cr))
     \<and> producer r = consumer r + of_nat (length (ring_all cr))"

lemma cons_refresh:
  assumes "cons_rel k r cr" "nb < 2 ^ 32"
  defines "cr1 \<equiv> (if cached cr = [] then \<lparr>cached = fresh cr, fresh = []\<rparr> else cr)"
  shows "\<exists>cp. xsk_cons_nb_avail r (of_nat nb) = (of_nat (min nb (length (cached cr1))), r\<lparr>cached_prod := cp\<rparr>)
    \<and> cons_rel k (r\<lparr>cached_prod := cp\<rparr>) cr1"
proof -
  have k: "(2 :: nat) ^ k < 2 ^ 32" and le: "length (ring_all cr) \<le> 2 ^ k"
    using assms(1) power_strict_increasing [of k 32 "2 :: nat"] by (simp_all add: cons_rel_def ring_shape_def)
  have len: "unat (of_nat (length (cached cr)) :: u32) = length (cached cr)"
    "unat (of_nat (length (fresh cr)) :: u32) = length (fresh cr)" "unat (of_nat nb :: u32) = nb"
    using k le assms(2) by (auto simp: ring_all_def intro!: unat_of_nat_u32)
  have z: "(of_nat (length (cached cr)) :: u32) = 0 \<longleftrightarrow> cached cr = []"
    using unat_eq_zero [of "of_nat (length (cached cr)) :: u32"] by (simp only: len(1) length_0_conv)
  have m: "(if (of_nat a :: u32) > of_nat nb then of_nat nb else of_nat a) = (of_nat (min nb a) :: u32)"
    if "unat (of_nat a :: u32) = a" for a
    by (simp only: word_less_nat_alt that len(3)) (simp add: min_def)
  show ?thesis
  proof (cases "cached cr = []")
    case True
    then show ?thesis
      using assms(1) z m [OF len(2)] unfolding cr1_def
      by (intro exI [of _ "producer r"]) (auto simp: xsk_cons_nb_avail_def Let_def cons_rel_def ring_all_def ring_shape_def holds_def ring_get_def)
  next
    case False
    then show ?thesis
      using assms(1) z m [OF len(1)] unfolding cr1_def
      by (intro exI [of _ "cached_prod r"])
        (auto simp: xsk_cons_nb_avail_def Let_def cons_rel_def ring_all_def ring_shape_def holds_def ring_get_def)
  qed
qed

lemma consume_refines:
  assumes "cons_rel k r cr" "nb < 2 ^ 32"
  shows "fst (consume nb r) = fst (cons_peek nb cr)" "cons_rel k (snd (consume nb r)) (snd (cons_peek nb cr))"
proof -
  define cr1 where "cr1 = (if cached cr = [] then \<lparr>cached = fresh cr, fresh = []\<rparr> else cr)"
  define n where "n = min nb (length (cached cr1))"
  obtain cp where av: "xsk_cons_nb_avail r (of_nat nb) = (of_nat n, r\<lparr>cached_prod := cp\<rparr>)"
    and rel: "cons_rel k (r\<lparr>cached_prod := cp\<rparr>) cr1"
    using cons_refresh [OF assms] by (auto simp: cr1_def n_def)
  have le: "n \<le> length (cached cr1)" "unat (of_nat n :: u32) = n"
    using assms(2) by (auto simp: n_def intro!: unat_of_nat_u32)
  have tk: "take nb (cached cr1) = take n (cached cr1)" "drop nb (cached cr1) = drop n (cached cr1)"
    by (simp_all add: n_def min_def)
  have h: "ring_get r (consumer r + of_nat i) = ring_all cr1 ! i" if "i < length (ring_all cr1)" for i
    using rel that by (simp add: cons_rel_def holds_def ring_get_def)
  have pk: "cons_peek nb cr = (take n (cached cr1), cr1\<lparr>cached := drop n (cached cr1)\<rparr>)"
    by (simp add: cons_peek_def cr1_def [symmetric] tk)
  have co: "consume nb r = (map (\<lambda>i. ring_get r (consumer r + of_nat i)) [0..<n],
      r\<lparr>cached_prod := cp, cached_cons := consumer r + of_nat n, consumer := consumer r + of_nat n\<rparr>)"
  proof (cases "n = 0")
    case True
    then show ?thesis
      using av rel by (simp add: consume_def xsk_ring_cons_peek_def xsk_ring_cons_release_def cons_rel_def Let_def)
  next
    case False
    then have "0 < (of_nat n :: u32)"
      using le(2) by (simp add: word_less_nat_alt)
    then show ?thesis
      using av rel le(2)
      by (simp add: consume_def xsk_ring_cons_peek_def xsk_ring_cons_release_def cons_rel_def ring_get_def Let_def)
  qed
  show "fst (consume nb r) = fst (cons_peek nb cr)"
    using le(1) h by (simp add: pk co list_eq_iff_nth_eq ring_all_def nth_append)
  have "holds (snd (consume nb r)) (consumer r + of_nat n) (drop n (ring_all cr1))"
    using h [of "n + i" for i] by (auto simp: holds_def co ring_get_def add.assoc)
  then show "cons_rel k (snd (consume nb r)) (snd (cons_peek nb cr))"
    using rel le(1) by (auto simp: cons_rel_def pk co ring_shape_def ring_all_def of_nat_diff)
qed

text \<open>The kernel stores an entry at its producer index.\<close>

lemma kernel_store:
  assumes "cons_rel k r cr" "length (ring_all cr) < 2 ^ k"
  shows "cons_rel k ((ring_put (producer r) x r)\<lparr>producer := producer r + 1\<rparr>) (cr\<lparr>fresh := fresh cr @ [x]\<rparr>)"
proof -
  have sh: "ring_shape k r" and h: "holds r (consumer r) (ring_all cr)" and p: "producer r = consumer r + of_nat (length (ring_all cr))"
    using assms(1) by (simp_all add: cons_rel_def)
  have "holds (put_all (producer r) [x] r) (consumer r) (ring_all cr @ [x])"
    unfolding p by (rule holds_append [OF sh h]) (use assms(2) in simp)
  then show ?thesis
    using assms by (auto simp: cons_rel_def ring_all_def ring_shape_def ring_put_def holds_def ring_get_def ac_simps)
qed

text \<open>
  C30: the rings in memory are the lists of the worker model.  Reserving, storing and submitting
  entries succeeds exactly if the list has room and appends them; peeking, reading and releasing
  returns and removes the entries that the list model gives.  This holds for every position of
  the 32-bit indices, across their wrap-around, although the private copies of the indices are
  out of date.
\<close>

theorem rings_refine_lists:
  assumes "prod_rel k r xs" "length ys \<le> 2 ^ k" "cons_rel k s cr" "nb < 2 ^ 32"
  shows "fst (produce ys r) = prod_reserve (2 ^ k) xs (length ys)
    \<and> prod_rel k (snd (produce ys r)) (if prod_reserve (2 ^ k) xs (length ys) then xs @ ys else xs)
    \<and> fst (consume nb s) = fst (cons_peek nb cr) \<and> cons_rel k (snd (consume nb s)) (snd (cons_peek nb cr))"
  using produce_refines [OF assms(1,2)] consume_refines [OF assms(3,4)] by blast

text \<open>Rings of four slots just before the wrap-around of their indices.\<close>

definition ring4 :: "u32 xsk_ring" where
  "ring4 = \<lparr>cached_prod = 0xffffffff, cached_cons = 2, ring_mask = 3, ring_size = 4, producer = 0xffffffff,
     consumer = 0xfffffffe, slots = (\<lambda>i. i + 10)\<rparr>"

definition ring4c :: "u32 xsk_ring" where
  "ring4c = \<lparr>cached_prod = 0xffffffff, cached_cons = 0xfffffffe, ring_mask = 3, ring_size = 4, producer = 1,
     consumer = 0xfffffffe, slots = (\<lambda>i. i + 10)\<rparr>"

theorem rings_refine_lists_witness:
  "fst (produce [7, 8, 9] ring4) \<and> prod_rel 2 (snd (produce [7, 8, 9] ring4)) [12, 7, 8, 9]
    \<and> fst (consume 2 ring4c) = [12] \<and> cons_rel 2 (snd (consume 2 ring4c)) \<lparr>cached = [], fresh = [13, 10]\<rparr>"
proof -
  have p: "prod_rel 2 ring4 [12]"
    by (simp add: prod_rel_def ring_shape_def holds_def ring_get_def ring4_def) (rule exI [of _ 0], simp)
  have c: "cons_rel 2 ring4c \<lparr>cached = [12], fresh = [13, 10]\<rparr>"
    by (simp add: cons_rel_def ring_shape_def holds_def ring_get_def ring4c_def ring_all_def less_Suc_eq numeral_3_eq_3)
  show ?thesis
    using rings_refine_lists [OF p _ c, of "[7, 8, 9]" 2] by (simp add: prod_reserve_def cons_peek_def)
qed

end
