(* ===== verification/Xsk_Dispatch.thy ===== *)
theory Xsk_Dispatch
  imports Xsk_Config
begin

text \<open>
  The XDP program of the switch agent, \<open>switch_agent_kern.c\<close>, which hands TCP frames to the
  AF_XDP sockets through the map \<open>xsks\<close>, with the keys that \<open>enter_xsks_into_map\<close> gives the
  sockets.
\<close>

section \<open>The program\<close>

definition CLIENT_R_IF :: u32 where "CLIENT_R_IF = 8"
definition SERVER_R_IF :: u32 where "SERVER_R_IF = 3"
definition ATTACKER_R_IF :: u32 where "ATTACKER_R_IF = 5"

record global_data =
  client_r_if_order :: u32
  server_r_if_order :: u32
  attacker_r_if_order :: u32
  workers_num :: u32

text \<open>\<open>cache\<close> holds the static copies of the global data once \<open>init\<close> is set.\<close>

record dispatch =
  init :: bool
  cache :: global_data

datatype 'fd disp_result = DispAborted | DispPass | DispRedirect 'fd

text \<open>\<open>bpf_redirect_map\<close> with \<open>XDP_PASS\<close> as the result for a key without entry.\<close>

definition redirect_map :: "(nat \<times> 'fd) list \<Rightarrow> u32 \<Rightarrow> 'fd disp_result" where
  "redirect_map xmap key = (case map_of xmap (unat key) of None \<Rightarrow> DispPass | Some fd \<Rightarrow> DispRedirect fd)"

definition handle_xdp ::
    "(nat \<times> 'fd) list \<Rightarrow> global_data \<Rightarrow> dispatch \<Rightarrow> u32 \<Rightarrow> u32 \<Rightarrow> nat \<Rightarrow> mem \<Rightarrow> 'fd disp_result \<times> dispatch" where
  "handle_xdp xmap global st ingress_ifindex rx_queue_index data_end m =
     (let st = (if init st then st else \<lparr>init = True, cache = global\<rparr>);
          workers = workers_num (cache st)
      in if 14 > data_end then (DispAborted, st)
         else if ntohs (eth_proto m 0) = ETH_P_IP then
           if 34 > data_end then (DispAborted, st)
           else if ip_protocol m 14 = IPPROTO_TCP then
             if ingress_ifindex = CLIENT_R_IF
             then (redirect_map xmap (rx_queue_index + (workers - 1) * client_r_if_order (cache st)), st)
             else if ingress_ifindex = SERVER_R_IF
             then (redirect_map xmap (rx_queue_index + (workers - 1) * server_r_if_order (cache st)), st)
             else if ingress_ifindex = ATTACKER_R_IF
             then (redirect_map xmap (rx_queue_index + (workers - 1) * attacker_r_if_order (cache st)), st)
             else (DispPass, st)
           else (DispPass, st)
         else (DispPass, st))"

definition sw_global :: "u32 \<Rightarrow> global_data" where
  "sw_global n = \<lparr>client_r_if_order = 0, server_r_if_order = 1, attacker_r_if_order = 0, workers_num = n\<rparr>"

section \<open>Which socket a frame reaches\<close>

lemma enter_exit: "foldl (\<lambda>r (i, j). case r of None \<Rightarrow> None | Some xmap \<Rightarrow> f xmap i j) None ps = None"
  by (induction ps) auto

lemma enter_entries:
  assumes "enter_xsks_into_map N n W fd = Some xmap"
  shows "xmap = map (\<lambda>(i, j). (i * W + j, fd j i)) (List.product [0..<n] [0..<W])
    \<and> (\<forall>(i, j) \<in> set (List.product [0..<n] [0..<W]). i * W + j < N)"
proof -
  let ?f = "\<lambda>r (i, j). case r of None \<Rightarrow> None
    | Some xmap \<Rightarrow> (let key = i * W + j in if key < N then Some (xmap @ [(key, fd j i)]) else None)"
  have "foldl ?f (Some xs) ps = Some ys \<Longrightarrow> ys = xs @ map (\<lambda>(i, j). (i * W + j, fd j i)) ps
      \<and> (\<forall>(i, j) \<in> set ps. i * W + j < N)" for xs ys ps
  proof (induction ps arbitrary: xs)
    case (Cons p ps)
    obtain i j where p: "p = (i, j)" by fastforce
    show ?case
      using Cons.IH [of "xs @ [(i * W + j, fd j i)]"] Cons.prems p by (auto simp: enter_exit Let_def split: if_splits)
  qed simp
  from this [of "[]"] assms show ?thesis
    by (simp add: enter_xsks_into_map_def)
qed

lemma enter_fits:
  "\<forall>(i, j) \<in> set (List.product [0..<n] [0..<W]). i * W + j < N \<Longrightarrow> \<exists>xmap. enter_xsks_into_map N n W fd = Some xmap"
proof -
  let ?f = "\<lambda>r (i, j). case r of None \<Rightarrow> None
    | Some xmap \<Rightarrow> (let key = i * W + j in if key < N then Some (xmap @ [(key, fd j i)]) else None)"
  have "\<forall>(i, j) \<in> set ps. i * W + j < N \<Longrightarrow> \<exists>ys. foldl ?f (Some xs) ps = Some ys" for xs ps
    by (induction ps arbitrary: xs) (auto simp: Let_def)
  then show "\<forall>(i, j) \<in> set (List.product [0..<n] [0..<W]). i * W + j < N \<Longrightarrow> ?thesis"
    by (simp add: enter_xsks_into_map_def)
qed

text \<open>The map \<open>xsks\<close> of the program has 48 entries: room for the sockets of 24 workers on two interfaces.\<close>

definition XSKS_ENTRIES :: nat where "XSKS_ENTRIES = 48"

lemma enter_two_interfaces: "(\<exists>xmap. enter_xsks_into_map XSKS_ENTRIES 2 W fd = Some xmap) \<longleftrightarrow> W \<le> 24"
proof
  assume "\<exists>xmap. enter_xsks_into_map XSKS_ENTRIES 2 W fd = Some xmap"
  then have "\<forall>(i, j) \<in> set (List.product [0..<2] [0..<W]). i * W + j < XSKS_ENTRIES"
    using enter_entries by blast
  then have "1 * W + (W - 1) < XSKS_ENTRIES" if "0 < W"
    using that by fastforce
  then show "W \<le> 24"
    by (cases "W = 0") (auto simp: XSKS_ENTRIES_def)
next
  assume "W \<le> 24"
  then show "\<exists>xmap. enter_xsks_into_map XSKS_ENTRIES 2 W fd = Some xmap"
    by (intro enter_fits) (auto simp: XSKS_ENTRIES_def less_2_cases_iff)
qed

lemma map_of_entries:
  assumes "i < n" "j < W" and xmap: "enter_xsks_into_map N n W fd = Some xmap"
  shows "map_of xmap (i * W + j) = Some (fd j i)"
proof -
  note xm = enter_entries [OF xmap, THEN conjunct1]
  have uniq: "i * W + j = i' * W + j' \<longleftrightarrow> i = i' \<and> j = j'" if "j < W" "j' < W" for i i' j j'
  proof
    assume e: "i * W + j = i' * W + j'"
    have "i = (i * W + j) div W" "j = (i * W + j) mod W"
      using that by simp_all
    moreover have "i' = (i' * W + j') div W" "j' = (i' * W + j') mod W"
      using that by simp_all
    ultimately show "i = i' \<and> j = j'" using e by metis
  qed simp
  have "(i * W + j, fd j i) \<in> set xmap"
    using assms(1,2) by (force simp: xm)
  moreover have "v = fd j i" if "(i * W + j, v) \<in> set xmap" for v
    using that uniq assms(2) by (auto simp: xm)
  ultimately show ?thesis
    by (metis map_of_SomeD map_of_eq_None_iff fst_conv image_eqI option.exhaust)
qed

definition v4_tcp :: "nat \<Rightarrow> mem \<Rightarrow> bool" where
  "v4_tcp n m \<longleftrightarrow> 34 \<le> n \<and> ntohs (eth_proto m 0) = ETH_P_IP \<and> ip_protocol m 14 = IPPROTO_TCP"

definition sample_tcp :: mem where
  "sample_tcp = (\<lambda>_. 0)(12 := 8, 23 := 6)"

lemma sample_tcp_v4: "v4_tcp 60 sample_tcp"
  by (simp add: v4_tcp_def sample_tcp_def ld16_def mk16_def bswap16_def byte_def)

text \<open>
  Dispatch on the client side.  With the sockets entered for two interfaces and \<open>W\<close> workers,
  a TCP frame that arrives on the client's interface in queue \<open>q\<close> is redirected to the socket
  of worker \<open>q\<close> on interface 0.
\<close>

theorem client_frames_dispatched:
  assumes "v4_tcp n m" "ifx = CLIENT_R_IF \<or> ifx = ATTACKER_R_IF" "unat q < unat W"
    and "enter_xsks_into_map N 2 (unat W) fd = Some xmap"
  shows "fst (handle_xdp xmap (sw_global W) \<lparr>init = False, cache = g\<rparr> ifx q n m)
     = DispRedirect (fd (unat q) 0)"
  using assms map_of_entries [of 0 2 "unat q" "unat W" N fd xmap]
  by (auto simp: handle_xdp_def v4_tcp_def redirect_map_def sw_global_def Let_def
      CLIENT_R_IF_def ATTACKER_R_IF_def SERVER_R_IF_def)

text \<open>
  C40: dispatch on the server side is off by one.  The key computed for a frame from the server's
  interface in queue \<open>q\<close> is that of the socket of worker \<open>q - 1\<close> on interface 1 or, for
  queue 0, that of the last worker on interface 0; it is never the socket of that queue.  This is for
  every size of the map with which the sockets could be entered.
\<close>

theorem server_frames_misdirected:
  assumes "v4_tcp n m" "unat q < unat W" "unat W \<le> 32" and "enter_xsks_into_map N 2 (unat W) fd = Some xmap"
  shows "fst (handle_xdp xmap (sw_global W) \<lparr>init = False, cache = g\<rparr> SERVER_R_IF q n m)
     = DispRedirect (if q = 0 then fd (unat W - 1) 0 else fd (unat q - 1) 1)"
proof -
  have "W \<noteq> 0"
    using assms(2) by auto
  then have W: "unat (W - 1) = unat W - 1"
    by (simp add: unat_minus_one)
  have k: "unat (q + (W - 1)) = unat q + (unat W - 1)"
    using assms(2,3) W by (simp add: unat_word_ariths)
  have key: "unat q + (unat W - 1) = (if q = 0 then 0 * unat W + (unat W - 1) else 1 * unat W + (unat q - 1))"
    using assms(2) unat_eq_zero [of q] by auto
  show ?thesis
    using assms k key map_of_entries [of 0 2 "unat W - 1" "unat W" N fd xmap]
      map_of_entries [of 1 2 "unat q - 1" "unat W" N fd xmap]
    by (auto simp: handle_xdp_def v4_tcp_def redirect_map_def sw_global_def Let_def SERVER_R_IF_def CLIENT_R_IF_def)
qed

lemma sample_entries: "\<exists>xmap. enter_xsks_into_map XSKS_ENTRIES 2 (unat (4 :: u32)) (\<lambda>w i. (w, i)) = Some xmap"
  by (simp add: enter_two_interfaces)

theorem client_frames_dispatched_witness:
  "fst (handle_xdp (the (enter_xsks_into_map XSKS_ENTRIES 2 4 (\<lambda>w i. (w, i)))) (sw_global 4) \<lparr>init = False, cache = sw_global 0\<rparr>
     CLIENT_R_IF 3 60 sample_tcp) = DispRedirect (3, 0)"
proof -
  obtain xmap where x: "enter_xsks_into_map XSKS_ENTRIES 2 (unat (4 :: u32)) (\<lambda>w i. (w, i)) = Some xmap"
    using sample_entries by blast
  show ?thesis
    using client_frames_dispatched [OF sample_tcp_v4 _ _ x, of CLIENT_R_IF 3] x by simp
qed

theorem server_frames_misdirected_witness:
  "fst (handle_xdp (the (enter_xsks_into_map XSKS_ENTRIES 2 4 (\<lambda>w i. (w, i)))) (sw_global 4) \<lparr>init = False, cache = sw_global 0\<rparr>
     SERVER_R_IF 0 60 sample_tcp) = DispRedirect (3, 0)"
proof -
  obtain xmap where x: "enter_xsks_into_map XSKS_ENTRIES 2 (unat (4 :: u32)) (\<lambda>w i. (w, i)) = Some xmap"
    using sample_entries by blast
  show ?thesis
    using server_frames_misdirected [OF sample_tcp_v4 _ _ x, of 0] x by simp
qed

end
