(* ===== verification/Xsk_Switch.thy ===== *)
theory Xsk_Switch
  imports Xsk_Start Switch_Proofs
begin

text \<open>
  The workers of the switch agent: the packet processor of \<open>switch_agent_user.c\<close> run by the
  workers of \<open>xsknf.c\<close> over two interfaces, with a kernel that follows an arbitrary schedule.
  The laws the framework asks of an application and of the kernel hold for this instance, and
  the properties of the workers are stated here.
\<close>

section \<open>The instance\<close>

definition switch_conf :: "bool \<Rightarrow> bool \<Rightarrow> xsk_conf" where
  "switch_conf p b = \<lparr>num_interfaces = 2, batch_size = 64, opt_poll = p, busy_poll = b,
     owner_shift = init_owner_shift 4096\<rparr>"

definition switch_env ::
    "switch_cfg \<Rightarrow> xsk_conf \<Rightarrow> (nat \<Rightarrow> kernel_action list) \<Rightarrow> (nat \<Rightarrow> bool) \<Rightarrow> (nat \<Rightarrow> bool) \<Rightarrow> (nat \<Rightarrow> bool) \<Rightarrow>
     (bv_error, switch) xsk_env" where
  "switch_env cfg conf sched wake busy ready =
     \<lparr>kern = sched_kern conf sched, needs_wakeup = wake, sendto = (\<lambda>t. if busy t then EAGAIN else SendOk),
      poll_ready = ready, proc = xsknf_packet_processor cfg\<rparr>"

definition switch_worker :: "nat \<Rightarrow> u32 \<Rightarrow> u32 \<Rightarrow> (nat \<Rightarrow> u32) \<Rightarrow> nat \<Rightarrow> switch worker" where
  "switch_worker i f0 f1 rand n =
     \<lparr>wid = i, xsks = init_sockets [f0, f1] 4096, bufs = (\<lambda>_ _. 0), app = sw_init rand n switch0, clock = 0\<rparr>"

text \<open>
  The worker numbers and states in which the packet processor answers: one of the 16 entries of the
  per-worker arrays, and a filter inside its allocation.
\<close>

definition switch_ok :: "nat \<Rightarrow> switch \<Rightarrow> bool" where
  "switch_ok i st \<longleftrightarrow> i < PER_WORKER \<and> bloom_ok (bf st)"

lemma switch_conf_shift: "owner_shift (switch_conf p b) = FRAMES_PER_SOCKET_SHIFT + 12"
  using init_owner_shift_pow [of 12] by (simp add: switch_conf_def)

interpretation sw: xsk_fair "switch_conf p b" "switch_env cfg (switch_conf p b) sched wake busy ready"
    switch_ok for p b cfg sched wake busy ready
proof unfold_locales
  show "kernel_ok (switch_conf p b) (switch_env cfg (switch_conf p b) sched wake busy ready)"
    by (rule sched_kernel_ok) (simp add: switch_env_def)
  show "\<exists>r st' m' len'. proc (switch_env cfg (switch_conf p b) sched wake busy ready) st m len ifx i = Inr (r, st', m', len')
      \<and> switch_ok i st' \<and> (r = -1 \<or> 0 \<le> r \<and> nat r < num_interfaces (switch_conf p b))"
    if "switch_ok i st" for i st m len ifx
    using that processor_fine [of st i cfg m len ifx] by (auto simp: switch_env_def sw_fine_def switch_conf_def switch_ok_def)
  show "length (tx (kern (switch_env cfg (switch_conf p b) sched wake busy ready) t xs ! i)) < length (tx (xs ! i))"
    if "length xs = num_interfaces (switch_conf p b)" "i < num_interfaces (switch_conf p b)" "tx (xs ! i) \<noteq> []"
      "length (ring_all (cq (xs ! i))) < NUM_DESCS" for xs i t
    using that sched_progress [of i xs] by (simp add: switch_env_def)
qed (simp_all add: switch_conf_shift, simp_all add: switch_conf_def switch_env_def)

lemma switch_worker_good:
  "i < PER_WORKER \<Longrightarrow> worker_good (switch_conf p b) switch_ok {#} (switch_worker i f0 f1 rand n)"
  using init_sockets_good [OF switch_conf_shift, of p b "[f0, f1]"]
  by (simp add: worker_good_def switch_worker_def switch_ok_def sw_init_bf switch_conf_def FRAMES_PER_SOCKET_def FRAMES_PER_SOCKET_SHIFT_def)

section \<open>Frames are conserved\<close>

text \<open>
  C11: the workers lose no frame and duplicate none.  From a state in which every UMEM frame is
  in exactly one ring, whatever the kernel and the packet processor do within their contracts
  and however long the loop runs, no worker exits or writes outside its batch arrays: it either
  waits for room in a tx ring or reaches a state in which again every frame is in exactly one
  ring, every fill and rx ring has only frames of its own socket, and \<open>outstanding_tx\<close> counts the
  frames between submission and completion.
\<close>

theorem worker_frames_conserved:
  assumes "0 < num_interfaces conf" "num_interfaces conf \<le> 32" "batch_size conf \<le> 255"
    "FRAMES_PER_SOCKET_SHIFT \<le> owner_shift conf" "kernel_ok conf E" "\<forall>t. sendto E t \<noteq> SendOther"
    "\<forall>i st m len ifx. app_ok i st \<longrightarrow> (\<exists>r st' m' len'. proc E st m len ifx i = Inr (r, st', m', len')
       \<and> app_ok i st' \<and> (r = -1 \<or> 0 \<le> r \<and> nat r < num_interfaces conf))"
    "worker_good conf app_ok {#} w"
  shows "worker_loop t k conf E w = Inl XskSpin
    \<or> (\<exists>w'. worker_loop t k conf E w = Inr w' \<and> frames conf (xsks w') = mset [0..<num_interfaces conf * FRAMES_PER_SOCKET]
        \<and> worker_good conf app_ok {#} w')"
proof -
  have "xsk_world conf E app_ok"
    by unfold_locales (use assms in blast)+
  from xsk_world.worker_loop_good [OF this assms(8), of t k] show ?thesis
    by (auto simp: worker_good_def xinv_def all_frames_def)
qed

text \<open>A worker of the switch agent that gets one SYN in copy mode.\<close>

definition sample_env :: "(bv_error, switch) xsk_env" where
  "sample_env = switch_env cfg0 (switch_conf False True) (\<lambda>_. [Receive 0 256 74]) (\<lambda>_. True) (\<lambda>_. False) (\<lambda>_. True)"

definition sample_worker :: "switch worker" where
  "sample_worker = switch_worker 0 XDP_COPY XDP_ZEROCOPY (\<lambda>_. 7) 1"

theorem worker_frames_conserved_witness:
  "worker_loop 3 5 (switch_conf False True) sample_env sample_worker = Inl XskSpin
    \<or> (\<exists>w'. worker_loop 3 5 (switch_conf False True) sample_env sample_worker = Inr w'
        \<and> frames (switch_conf False True) (xsks w') = mset [0..<num_interfaces (switch_conf False True) * FRAMES_PER_SOCKET]
        \<and> worker_good (switch_conf False True) switch_ok {#} w')"
proof (rule worker_frames_conserved)
  show "\<forall>i st m len ifx. switch_ok i st \<longrightarrow> (\<exists>r st' m' len'. proc sample_env st m len ifx i = Inr (r, st', m', len')
       \<and> switch_ok i st' \<and> (r = -1 \<or> 0 \<le> r \<and> nat r < num_interfaces (switch_conf False True)))"
    unfolding sample_env_def using sw.verdict by blast
  show "kernel_ok (switch_conf False True) sample_env"
    unfolding sample_env_def by (rule sw.kernel)
  show "worker_good (switch_conf False True) switch_ok {#} sample_worker"
    unfolding sample_worker_def by (rule switch_worker_good) simp
qed (simp_all add: switch_conf_shift, simp_all add: switch_conf_def sample_env_def switch_env_def)

text \<open>
  C12: the switch agent's workers are safe.  From start-up, for every schedule of receptions,
  completions and wake-ups and every content of the received frames, each of at most 16 workers, as many
  as the agent's per-worker arrays have room for, never exits, never writes outside its batch arrays,
  the per-worker arrays or the filter's allocation, never finds a fill ring full, and keeps all 8192
  frames of its sockets; the Bloom filter stays well-formed.  (The wait for room in a tx ring may go
  on beyond any bound, \<open>XskSpin\<close>.)
\<close>

theorem switch_workers_safe:
  assumes "i < n" "n \<le> PER_WORKER"
  shows "worker_loop t k (switch_conf p b) (switch_env cfg (switch_conf p b) sched wake busy ready) (switch_worker i f0 f1 rand n)
      \<in> {Inl XskSpin} \<union> Inr ` {w. worker_good (switch_conf p b) switch_ok {#} w}"
  using sw.worker_loop_good [OF switch_worker_good [OF order.strict_trans2 [OF assms]],
      of t k p b cfg sched wake busy ready f0 f1 rand n] by auto

theorem switch_workers_safe_witness:
  "worker_loop 3 5 (switch_conf False True) sample_env sample_worker
      \<in> {Inl XskSpin} \<union> Inr ` {w. worker_good (switch_conf False True) switch_ok {#} w}"
  unfolding sample_env_def sample_worker_def by (rule switch_workers_safe) simp_all

text \<open>
  The bound is needed: for a worker with a higher number that takes a frame of a client from its rx ring
  the application fails, by an access outside the arrays.
\<close>

lemma seventeenth_worker_faults:
  assumes "active cfg (\<lambda>k. bufs w (buffer (xsks w ! 0)) (unat (add_offset_to_addr addr) + k))" "PER_WORKER \<le> wid w"
  shows "run_proc (switch_env cfg conf sched wake busy ready) 0 (addr, len) w = Inl XskExit"
  using assms processor_beyond [OF assms] by (simp add: run_proc_def switch_env_def Let_def del: PER_WORKER_def)

section \<open>Waiting for room in a tx ring\<close>

text \<open>
  C28: waiting for room in the tx ring of an interface ends if the interface is the one being
  served, or if its outstanding frames and the batch together fit the tx and the completion
  ring: with a kernel that completes a transmission per turn while there is room, as many turns
  as the tx ring has entries are enough.
\<close>

theorem tx_wait_terminates:
  assumes "worker_good (switch_conf p b) switch_ok h w" "ifx < 2" "i < 2" "n \<le> NUM_DESCS"
    "i = ifx \<or> outstanding_tx (xsks w ! i) + n \<le> 2 * NUM_DESCS"
  shows "\<exists>w'. wait_tx (Suc (length (tx (xsks w ! i)))) (switch_conf p b)
      (switch_env cfg (switch_conf p b) sched wake busy ready) ifx i n w = Inr w'
    \<and> prod_reserve NUM_DESCS (tx (xsks w' ! i)) n \<and> worker_good (switch_conf p b) switch_ok h w'"
proof -
  have "\<exists>w'. wait_tx (Suc (length (tx (xsks w ! i)))) (switch_conf p b)
      (switch_env cfg (switch_conf p b) sched wake busy ready) ifx i n w = Inr w'
    \<and> worker_good (switch_conf p b) switch_ok h w'"
    by (rule sw.wait_ends [OF assms(1) _ _ assms(4,5) lessI]) (use assms(2,3) in \<open>simp_all add: switch_conf_def\<close>)
  then show ?thesis
    using sw.wait_tx_room by blast
qed

theorem tx_wait_terminates_witness:
  "\<exists>w'. wait_tx (Suc (length (tx (xsks sample_worker ! 1)))) (switch_conf False True) sample_env 0 1 64 sample_worker = Inr w'
    \<and> prod_reserve NUM_DESCS (tx (xsks w' ! 1)) 64 \<and> worker_good (switch_conf False True) switch_ok {#} w'"
  unfolding sample_env_def
proof (rule tx_wait_terminates)
  show "worker_good (switch_conf False True) switch_ok {#} sample_worker"
    unfolding sample_worker_def by (rule switch_worker_good) simp
qed (simp_all add: NUM_DESCS_def sample_worker_def switch_worker_def init_sockets_def xsk_configure_socket_def)


text \<open>
  C29: the wait for another interface may never end.  The loop completes transmissions of the
  interface being served and not of the one whose tx ring is full: once the outstanding frames of
  the other interface and the batch exceed the tx and the completion ring together, no kernel
  and no number of turns makes room.
\<close>

theorem tx_wait_livelock:
  assumes "worker_good (switch_conf p b) switch_ok h w" "ifx < 2" "i < 2" "i \<noteq> ifx"
    "2 * NUM_DESCS < outstanding_tx (xsks w ! i) + n"
  shows "wait_tx k (switch_conf p b) (switch_env cfg (switch_conf p b) sched wake busy ready) ifx i n w = Inl XskSpin"
  by (rule sw.wait_stuck [OF assms(1) _ _ assms(4,5)]) (use assms(2,3) in \<open>simp_all add: switch_conf_def\<close>)

text \<open>
  A worker that holds a frame of interface 0 for interface 1, whose rings hold all other
  frames of interface 0.
\<close>

definition stuck_out :: "u64 list" where
  "stuck_out = tl (fill_addrs 0 4096) @ [hd (fill_addrs 4096 4096)]"

definition stuck_worker :: "switch worker" where
  "stuck_worker = (switch_worker 0 0 0 (\<lambda>_. 7) 1)\<lparr>xsks :=
     [(xsk_configure_socket 0 0 0 4096)\<lparr>fq := []\<rparr>,
      (xsk_configure_socket 0 0 4096 4096)\<lparr>fq := tl (fill_addrs 4096 4096),
        tx := map (\<lambda>a. (a, 60)) (take 2048 stuck_out), cq := \<lparr>cached = drop 2048 stuck_out, fresh = []\<rparr>,
        outstanding_tx := 4096\<rparr>]\<rparr>"

lemma ids_take_drop: "ids conf (take n xs) + ids conf (drop n xs) = ids conf xs"
  by (metis append_take_drop_id ids_simps(2))

lemma all_less_two: "(\<forall>i < 2 :: nat. P i) \<longleftrightarrow> P 0 \<and> P (Suc 0)"
  by (auto simp: less_2_cases_iff)

lemma stuck_worker_good:
  "worker_good (switch_conf p b) switch_ok (ids (switch_conf p b) [hd (fill_addrs 0 4096)]) stuck_worker"
proof -
  let ?c = "switch_conf p b" and ?a = "fill_addrs 0 4096" and ?b = "fill_addrs 4096 4096"
  have len: "length ?a = 4096" "length ?b = 4096"
    by (simp_all add: fill_addrs_def FRAMES_PER_SOCKET_def FRAMES_PER_SOCKET_SHIFT_def)
  then have split: "ids ?c ?a = ids ?c [hd ?a] + ids ?c (tl ?a)" "ids ?c ?b = ids ?c [hd ?b] + ids ?c (tl ?b)"
    by (cases ?a; cases ?b; simp)+
  have out: "length stuck_out = 4096"
    using len by (simp add: stuck_out_def)
  have init: "xinv ?c {#} (init_sockets [0, 0] (2 ^ 12))"
    using init_sockets_good [OF switch_conf_shift, of p b "[0, 0]"]
    by (simp add: switch_conf_def FRAMES_PER_SOCKET_def FRAMES_PER_SOCKET_SHIFT_def)
  have fps: "(of_nat FRAMES_PER_SOCKET :: u32) = 4096"
    by (simp add: FRAMES_PER_SOCKET_def FRAMES_PER_SOCKET_SHIFT_def)
  have all: "all_frames ?c = ids ?c ?a + ids ?c ?b" and own: "owned ?c (Suc 0) ?b"
    using init by (simp_all add: xinv_def init_sockets_def frames_def sock_frames_def xsk_configure_socket_def
        ring_all_def sock_ok_def fps switch_conf_def all_less_two)
  have "owned ?c (Suc 0) (tl ?b)"
    using own len(2) by (cases ?b) simp_all
  moreover have "ids ?c (take 2048 stuck_out) + ids ?c (drop 2048 stuck_out) = ids ?c (tl ?a) + ids ?c [hd ?b]"
    unfolding ids_take_drop by (simp add: stuck_out_def)
  ultimately show ?thesis
    using out all split
    by (simp add: comp_def worker_good_def stuck_worker_def switch_worker_def switch_ok_def sw_init_bf xinv_def frames_def sock_frames_def
        xsk_configure_socket_def ring_all_def sock_ok_def outs_def out_ok_def NUM_DESCS_def switch_conf_def all_less_two)
qed

theorem tx_wait_livelock_witness:
  "wait_tx 1000000 (switch_conf False True) sample_env 0 1 1 stuck_worker = Inl XskSpin"
  unfolding sample_env_def
  by (rule tx_wait_livelock [OF stuck_worker_good])
    (simp_all add: NUM_DESCS_def stuck_worker_def)

section \<open>One interface\<close>

text \<open>
  C31: with one interface the specialised batch routine does the same as the general one, for
  every state in which the frames are where they belong.
\<close>

theorem process_batch_1if_equiv:
  assumes "num_interfaces conf = 1" "batch_size conf \<le> 255"
    "FRAMES_PER_SOCKET_SHIFT \<le> owner_shift conf" "kernel_ok conf E" "\<forall>t. sendto E t \<noteq> SendOther"
    "\<forall>i st m len ifx. app_ok i st \<longrightarrow> (\<exists>r st' m' len'. proc E st m len ifx i = Inr (r, st', m', len')
       \<and> app_ok i st' \<and> (r = -1 \<or> r = 0))"
    "worker_good conf app_ok h w"
  shows "process_batch_1if k conf E w = process_batch k conf E 0 w"
proof -
  have v: "\<exists>r st' m' len'. proc E st m len ifx i = Inr (r, st', m', len') \<and> app_ok i st'
      \<and> (r = -1 \<or> 0 \<le> r \<and> nat r < num_interfaces conf)" if "app_ok i st" for i st m len ifx
    using assms(6) [rule_format, OF that, of m len ifx] assms(1) by fastforce
  have "xsk_world conf E app_ok"
    by (rule xsk_world.intro) (use assms(1-5) v in \<open>simp_all\<close>)
  from xsk_world.process_batch_single [OF this assms(1,7)] show ?thesis .
qed

text \<open>
  C32: with one interface and a kernel that completes a transmission per turn while there is
  room, a worker never gets stuck: every turn of its loop returns, and every frame stays in
  exactly one ring.
\<close>

theorem single_worker_live:
  assumes "num_interfaces conf = 1" "0 < batch_size conf" "batch_size conf \<le> 255"
    "FRAMES_PER_SOCKET_SHIFT \<le> owner_shift conf" "kern E = sched_kern conf sched" "\<forall>t. sendto E t \<noteq> SendOther"
    "\<forall>i st m len ifx. app_ok i st \<longrightarrow> (\<exists>r st' m' len'. proc E st m len ifx i = Inr (r, st', m', len')
       \<and> app_ok i st' \<and> (r = -1 \<or> r = 0))"
    "worker_good conf app_ok {#} w" "NUM_DESCS < k"
  shows "\<exists>w'. worker_loop t k conf E w = Inr w' \<and> worker_good conf app_ok {#} w'"
proof -
  have v: "\<exists>r st' m' len'. proc E st m len ifx i = Inr (r, st', m', len') \<and> app_ok i st'
      \<and> (r = -1 \<or> 0 \<le> r \<and> nat r < num_interfaces conf)" if "app_ok i st" for i st m len ifx
    using assms(7) [rule_format, OF that, of m len ifx] assms(1) by fastforce
  have "xsk_world conf E app_ok"
    by (rule xsk_world.intro) (use assms(1-4,6) v sched_kernel_ok [OF assms(5)] in \<open>simp_all\<close>)
  then have fair: "xsk_fair conf E app_ok"
    by (intro xsk_fair.intro xsk_fair_axioms.intro) (use assms(2,5) sched_progress in auto)
  from xsk_fair.worker_loop_live [OF fair assms(8,1,9)] show ?thesis .
qed

text \<open>The switch agent with its drop option on one interface.\<close>

definition drop_conf :: "nat \<Rightarrow> xsk_conf" where
  "drop_conf n = \<lparr>num_interfaces = 1, batch_size = n, opt_poll = False, busy_poll = False, owner_shift = init_owner_shift 4096\<rparr>"

definition drop_env :: "nat \<Rightarrow> (bv_error, switch) xsk_env" where
  "drop_env n = switch_env (cfg0\<lparr>opt_drop := True\<rparr>) (drop_conf n) (\<lambda>_. [Receive 0 256 74]) (\<lambda>_. True) (\<lambda>_. False) (\<lambda>_. True)"

definition drop_worker :: "switch worker" where
  "drop_worker = (switch_worker 0 0 0 (\<lambda>_. 7) 1)\<lparr>xsks := init_sockets [0] 4096\<rparr>"

lemma drop_conf_shift: "owner_shift (drop_conf n) = FRAMES_PER_SOCKET_SHIFT + 12"
  using init_owner_shift_pow [of 12] by (simp add: drop_conf_def)

lemma drop_verdict: "\<exists>r st' m' len'. proc (drop_env n) st m len ifx w = Inr (r, st', m', len') \<and> True \<and> (r = -1 \<or> r = 0)"
  by (simp add: drop_env_def switch_env_def xsknf_packet_processor_def sw_drop_def)

lemma drop_worker_good: "worker_good (drop_conf n) (\<lambda>_ _. True) {#} drop_worker"
  using init_sockets_good [OF drop_conf_shift, of n "[0]"]
  by (simp add: worker_good_def drop_worker_def drop_conf_def FRAMES_PER_SOCKET_def FRAMES_PER_SOCKET_SHIFT_def)

lemma drop_env_kern: "kern (drop_env n) = sched_kern (drop_conf n) (\<lambda>_. [Receive 0 256 74])"
  by (simp add: drop_env_def switch_env_def)

lemma drop_env_send: "sendto (drop_env n) t \<noteq> SendOther"
  by (simp add: drop_env_def switch_env_def)

theorem process_batch_1if_equiv_witness:
  "process_batch_1if 9 (drop_conf 64) (drop_env 64) drop_worker = process_batch 9 (drop_conf 64) (drop_env 64) 0 drop_worker"
proof (rule process_batch_1if_equiv)
  show "\<forall>i st m len ifx. True \<longrightarrow> (\<exists>r st' m' len'. proc (drop_env 64) st m len ifx i = Inr (r, st', m', len')
       \<and> True \<and> (r = -1 \<or> r = 0))"
    using drop_verdict by blast
  show "kernel_ok (drop_conf 64) (drop_env 64)"
    by (rule sched_kernel_ok [OF drop_env_kern])
  show "\<forall>t. sendto (drop_env 64) t \<noteq> SendOther"
    using drop_env_send by blast
qed (rule drop_worker_good | simp add: drop_conf_shift | simp add: drop_conf_def)+

theorem single_worker_live_witness:
  "\<exists>w'. worker_loop 10 3000 (drop_conf 64) (drop_env 64) drop_worker = Inr w' \<and> worker_good (drop_conf 64) (\<lambda>_ _. True) {#} w'"
proof (rule single_worker_live)
  show "\<forall>i st m len ifx. True \<longrightarrow> (\<exists>r st' m' len'. proc (drop_env 64) st m len ifx i = Inr (r, st', m', len')
       \<and> True \<and> (r = -1 \<or> r = 0))"
    using drop_verdict by blast
  show "kern (drop_env 64) = sched_kern (drop_conf 64) (\<lambda>_. [Receive 0 256 74])"
    by (rule drop_env_kern)
  show "\<forall>t. sendto (drop_env 64) t \<noteq> SendOther"
    using drop_env_send by blast
qed (rule drop_worker_good | simp add: drop_conf_shift | simp add: drop_conf_def NUM_DESCS_def)+

section \<open>The batch counters\<close>

lemma process_pkts_drop_all:
  assumes "\<forall>st m len ifx w. \<exists>st' m' len'. proc E st m len ifx w = Inr (-1, st', m', len')" "256 \<le> batch_size conf"
  shows "\<exists>dr' w'. process_pkts conf E i ds dr ft w = Inr (dr', ft, w') \<and> cnt dr' 0 = cnt dr 0 + of_nat (length ds)
     \<and> xsks w' = xsks w"
proof (induction ds arbitrary: dr w)
  case (Cons d ds)
  obtain len w1 where r: "run_proc E i d w = Inr (-1, len, w1)" "xsks w1 = xsks w"
    using assms(1) [rule_format, of "app w" "\<lambda>k. bufs w (buffer (xsks w ! i)) (unat (add_offset_to_addr (fst d)) + k)" "snd d" i "wid w"]
    by (cases d) (auto simp: run_proc_def Let_def)
  have lt: "\<not> batch_size conf \<le> unat (cnt dr 0)"
    using assms(2) unat_bound [of "cnt dr 0"] by simp
  have "cnt (push 0 (fst d, len) dr) 0 = cnt dr 0 + 1"
    by (simp add: push_def)
  then show ?case
    using Cons.IH [of "push 0 (fst d, len) dr" w1] r lt by (auto simp: add.assoc)
qed simp

text \<open>
  C39: the batch counters have eight bits.  With a batch size of 256 or more, a batch of 256
  received frames that are all to be dropped leaves the counter at zero: the frames are returned
  to no ring and lost.
\<close>

theorem batch_of_256_lost:
  assumes "\<forall>st m len ifx w. \<exists>st' m' len'. proc E st m len ifx w = Inr (-1, st', m', len')" "256 \<le> batch_size conf"
    "i < length (xsks w)" "outstanding_tx (xsks w ! i) = 0" "length (cached (rx (xsks w ! i))) = 256"
  shows "\<exists>w'. process_batch k conf E i w = Inr w' \<and> cached (rx (xsks w' ! i)) = [] \<and> fq (xsks w' ! i) = fq (xsks w ! i)
    \<and> tx (xsks w' ! i) = tx (xsks w ! i) \<and> frames conf (xsks w') + ids conf (map fst (cached (rx (xsks w ! i)))) = frames conf (xsks w)"
proof -
  let ?x = "xsks w ! i" and ?r = "cached (rx (xsks w ! i))"
  let ?rx = "(rx ?x)\<lparr>cached := []\<rparr>"
  let ?w2 = "upd_sock i (\<lambda>x. x\<lparr>rx := ?rx\<rparr>) w"
  have ne: "?r \<noteq> []"
    using assms(5) by auto
  have pk: "cons_peek (batch_size conf) (rx ?x) = (?r, ?rx)"
    using assms(2,5) ne by (simp add: cons_peek_def Let_def)
  obtain dr w3 where w3: "process_pkts conf E i ?r empty_batch empty_batch ?w2 = Inr (dr, empty_batch, w3)"
    "cnt dr 0 = of_nat (length ?r)" "xsks w3 = xsks ?w2"
    using process_pkts_drop_all [OF assms(1,2), of i ?r empty_batch empty_batch ?w2] by auto
  have z: "cnt dr 0 = 0"
    using w3(2) assms(5) by simp
  have tx: "submit_tx k conf E i is empty_batch v = Inr v" for "is" and v
    by (induction "is") simp_all
  let ?w = "upd_sock i (\<lambda>x. x\<lparr>stats := (stats x)\<lparr>rx_npkts := rx_npkts (stats x) + of_nat (length ?r)\<rparr>\<rparr>) w3"
  have res: "process_batch k conf E i w = Inr ?w"
    using assms(4) pk ne w3(1) z tx by (simp add: process_batch_def complete_tx_def submit_drop_def Let_def)
  have sk: "xsks ?w = (xsks w)[i := ?x\<lparr>rx := ?rx, stats := (stats ?x)\<lparr>rx_npkts := rx_npkts (stats ?x) + of_nat (length ?r)\<rparr>\<rparr>]"
    using assms(3) w3(3) by (simp add: upd_sock_def)
  have fr: "frames conf (xsks ?w) + ids conf (map fst ?r) = frames conf (xsks w)"
    unfolding sk by (rule frames_sub [OF assms(3)]) (simp add: sock_frames_def ring_all_def)
  show ?thesis
    using res fr by (intro exI [of _ ?w] conjI) (simp_all add: sk assms(3))
qed

definition full_batch_worker :: "switch worker" where
  "full_batch_worker = drop_worker\<lparr>xsks := [(xsk_configure_socket 0 0 0 4096)\<lparr>fq := drop 256 (fill_addrs 0 4096),
     rx := \<lparr>cached = map (\<lambda>a. (a, 60)) (take 256 (fill_addrs 0 4096)), fresh = []\<rparr>\<rparr>]\<rparr>"

theorem batch_of_256_lost_witness:
  "\<exists>w'. process_batch 9 (drop_conf 256) (drop_env 256) 0 full_batch_worker = Inr w' \<and> cached (rx (xsks w' ! 0)) = []
    \<and> fq (xsks w' ! 0) = fq (xsks full_batch_worker ! 0) \<and> tx (xsks w' ! 0) = tx (xsks full_batch_worker ! 0)
    \<and> frames (drop_conf 256) (xsks w') + ids (drop_conf 256) (map fst (cached (rx (xsks full_batch_worker ! 0))))
      = frames (drop_conf 256) (xsks full_batch_worker)"
proof (rule batch_of_256_lost)
  show "\<forall>st m len ifx w. \<exists>st' m' len'. proc (drop_env 256) st m len ifx w = Inr (-1, st', m', len')"
    by (simp add: drop_env_def switch_env_def xsknf_packet_processor_def sw_drop_def)
qed (simp_all add: full_batch_worker_def xsk_configure_socket_def fill_addrs_def FRAMES_PER_SOCKET_def
    FRAMES_PER_SOCKET_SHIFT_def drop_conf_def)

end
