(* ===== verification/Xsk_Init.thy ===== *)
theory Xsk_Init
  imports Xsk_Config
begin

text \<open>
  The life cycle of the framework: \<open>xsknf_init\<close>, \<open>xsknf_start_workers\<close>, \<open>xsknf_stop_workers\<close> and
  \<open>xsknf_cleanup\<close> of \<open>xsknf.c\<close>, with the routines that attach and remove eBPF programs.  The state
  is what the process holds.  Calls of the operating system and of the libraries succeed or fail
  as \<open>ok\<close> says for the number of the call; \<open>clock\<close> is the value of \<open>time\<close>.  Leaving the program is
  \<open>Exited\<close>, with what it still holds; joining a thread that does not exist and following a null
  pointer are \<open>Undefined\<close>; joining a thread that never ends is \<open>Blocked\<close>.  Whether a worker leaves
  its loop once it is told to stop is \<open>ends\<close>: the loop tests \<open>stop_workers\<close> between two turns only,
  and \<open>Xsk_Switch\<close> shows a worker that never finishes its turn.  What the sockets contain is the
  subject of \<open>Xsk_Worker\<close>.
\<close>

section \<open>Resources and calls\<close>

text \<open>
  The Boolean of a buffer tells the one for sockets in copy mode from the other one.  \<open>EbpfObj\<close> is
  the object with the loaded programs and maps that \<open>bpf_prog_load_xattr\<close> returns; \<open>XdpProg\<close> is the
  attachment of its program to an interface.
\<close>

datatype resource = Ifindexes | WorkersArr | XsksArr nat | Buffer nat bool | Umem nat bool
  | Socket nat nat | Thread nat | EbpfObj | XdpProg nat | Qdisc nat

record life =
  calls :: nat
  held :: "resource multiset"
  egress_ebpf_program :: bool
  stop_workers :: bool

datatype fault = Exited life | Undefined life | Blocked life

type_synonym step = "life \<Rightarrow> fault + life"

record os =
  ok :: "nat \<Rightarrow> bool"
  clock :: "nat \<Rightarrow> u32"
  num_cpus :: nat
  ends :: "nat \<Rightarrow> bool"

fun steps :: "step list \<Rightarrow> step" where
  "steps [] st = Inr st"
| "steps (f # fs) st = (case f st of Inl e \<Rightarrow> Inl e | Inr st \<Rightarrow> steps fs st)"

definition acquire :: "resource \<Rightarrow> step" where
  "acquire r st = Inr (st\<lparr>held := add_mset r (held st)\<rparr>)"

definition release :: "resource \<Rightarrow> step" where
  "release r st = Inr (st\<lparr>held := held st - {#r#}\<rparr>)"

text \<open>A call whose failure is handled by \<open>fail\<close>.\<close>

definition call :: "os \<Rightarrow> (life \<Rightarrow> fault) \<Rightarrow> step" where
  "call os fail st =
     (let st' = st\<lparr>calls := Suc (calls st)\<rparr> in if ok os (calls st) then Inr st' else Inl (fail st'))"

text \<open>Up to \<open>n\<close> calls, the first failure ends the sequence.\<close>

fun attempts :: "os \<Rightarrow> nat \<Rightarrow> life \<Rightarrow> bool \<times> life" where
  "attempts os 0 st = (True, st)"
| "attempts os (Suc n) st =
     (let st' = st\<lparr>calls := Suc (calls st)\<rparr> in if ok os (calls st) then attempts os n st' else (False, st'))"

section \<open>Clean-up\<close>

definition pthread_join :: "os \<Rightarrow> nat \<Rightarrow> step" where
  "pthread_join os i st =
     (if WorkersArr \<notin># held st \<or> Thread i \<notin># held st then Inl (Undefined st)
      else if \<not> ends os i then Inl (Blocked st)
      else release (Thread i) st)"

abbreviation af_xdp :: "xsknf_config \<Rightarrow> bool" where
  "af_xdp c \<equiv> c_working_mode c AND MODE_AF_XDP \<noteq> 0"

abbreviation n_workers :: "xsknf_config \<Rightarrow> nat" where
  "n_workers c \<equiv> unat (c_workers c)"

abbreviation n_ifaces :: "xsknf_config \<Rightarrow> nat" where
  "n_ifaces c \<equiv> length (c_interfaces c)"

definition xsknf_stop_workers :: "os \<Rightarrow> xsknf_config \<Rightarrow> step" where
  "xsknf_stop_workers os c st =
     steps (if af_xdp c then map (pthread_join os) [0..<n_workers c] else []) (st\<lparr>stop_workers := True\<rparr>)"

text \<open>Deleting a socket that was not created does nothing, but its array has to exist.\<close>

definition delete_socket :: "nat \<Rightarrow> nat \<Rightarrow> step" where
  "delete_socket w i st =
     (if WorkersArr \<notin># held st \<or> XsksArr w \<notin># held st then Inl (Undefined st) else release (Socket w i) st)"

definition cleanup_worker :: "xsknf_config \<Rightarrow> nat \<Rightarrow> step list" where
  "cleanup_worker c w = map (delete_socket w) [0..<n_ifaces c]
     @ [release (Umem w False), release (Buffer w False), release (Umem w True), release (Buffer w True), release (XsksArr w)]"

text \<open>The result of removing the program of an interface is ignored.\<close>

definition detach :: "os \<Rightarrow> nat \<Rightarrow> step" where
  "detach os i st =
     (if Ifindexes \<notin># held st then Inl (Undefined st)
      else let (b, st) = attempts os 1 st in if b then release (XdpProg i) st else Inr st)"

text \<open>Sending the request, receiving the answer, reading it; failures are reported and ignored.\<close>

definition del_qdisc :: "os \<Rightarrow> nat \<Rightarrow> step" where
  "del_qdisc os i st = (let (b, st) = attempts os 3 st in if b then release (Qdisc i) st else Inr st)"

definition del_clsact_qdiscs :: "os \<Rightarrow> xsknf_config \<Rightarrow> step" where
  "del_clsact_qdiscs os c st =
     (let (b, st) = attempts os 2 st in if b then steps (map (del_qdisc os) [0..<n_ifaces c]) st else Inr st)"

definition xsknf_cleanup :: "os \<Rightarrow> xsknf_config \<Rightarrow> step" where
  "xsknf_cleanup os c = steps
     ([xsknf_stop_workers os c]
      @ (if af_xdp c then concat (map (cleanup_worker c) [0..<n_workers c]) @ [release WorkersArr] else [])
      @ map (detach os) [0..<n_ifaces c]
      @ [\<lambda>st. if egress_ebpf_program st then del_clsact_qdiscs os c st else Inr st, release Ifindexes])"

definition exit_with_error :: "os \<Rightarrow> xsknf_config \<Rightarrow> life \<Rightarrow> fault" where
  "exit_with_error os c st = (case xsknf_cleanup os c st of Inl e \<Rightarrow> e | Inr st \<Rightarrow> Exited st)"

section \<open>Initialisation\<close>

definition init_umem :: "os \<Rightarrow> xsknf_config \<Rightarrow> nat \<Rightarrow> bool \<Rightarrow> step" where
  "init_umem os c w is_copy st =
     (if Buffer w is_copy \<in># held st then Inr st
      else steps [call os (exit_with_error os c), acquire (Buffer w is_copy),
                  call os (exit_with_error os c), acquire (Umem w is_copy)] st)"

text \<open>
  Reserving the fill ring cannot fail: it has as many entries as a socket has frames, and is
  empty.
\<close>

definition init_socket :: "os \<Rightarrow> xsknf_config \<Rightarrow> nat \<Rightarrow> nat \<times> u32 \<Rightarrow> step list" where
  "init_socket os c w x =
     (let (i, flags) = x; is_copy = (flags AND XDP_COPY \<noteq> 0)
      in [init_umem os c w is_copy, call os (exit_with_error os c), acquire (Socket w i)]
         @ (if c_busy_poll c \<and> \<not> is_copy then replicate 3 (call os (exit_with_error os c)) else []))"

definition socket_flags :: "xsknf_config \<Rightarrow> u32 list" where
  "socket_flags c = map (init_bind_flags (c_xdp_flags c)) (c_bind_flags c)"

definition init_worker :: "os \<Rightarrow> xsknf_config \<Rightarrow> nat \<Rightarrow> step list" where
  "init_worker os c w = [call os (exit_with_error os c), acquire (XsksArr w)]
     @ concat (map (init_socket os c w) (enumerate 0 (socket_flags c)))"

definition init_workers :: "os \<Rightarrow> xsknf_config \<Rightarrow> step list" where
  "init_workers os c = [call os (exit_with_error os c), acquire WorkersArr]
     @ concat (map (init_worker os c) [0..<n_workers c])"

text \<open>
  The two requests for an interface.  The answer to the second one is checked against the
  number of the first.
\<close>

definition load_tc_iface :: "os \<Rightarrow> nat \<Rightarrow> step" where
  "load_tc_iface os i st =
     (let seq = clock os (calls st)
      in case steps [call os Exited, call os Exited, call os Exited, acquire (Qdisc i)] st of
           Inl e \<Rightarrow> Inl e
         | Inr st \<Rightarrow>
             (let nlmsg_seq = clock os (calls st)
              in case steps [call os Exited, call os Exited] st of
                   Inl e \<Rightarrow> Inl e
                 | Inr st \<Rightarrow> if nlmsg_seq \<noteq> seq then Inl (Exited st) else call os Exited st))"

definition load_tc_programs :: "os \<Rightarrow> xsknf_config \<Rightarrow> step list" where
  "load_tc_programs os c = [call os Exited, call os Exited] @ map (load_tc_iface os) [0..<n_ifaces c]"

text \<open>
  The result of looking up the TC program is not tested; \<open>tc\<close> tells whether one is named.  The
  loaded object is handed to the caller and never closed.
\<close>

definition load_ebpf_programs :: "os \<Rightarrow> xsknf_config \<Rightarrow> bool \<Rightarrow> step list" where
  "load_ebpf_programs os c tc = [call os Exited, acquire EbpfObj, call os Exited]
     @ concat (map (\<lambda>i. [call os Exited, acquire (XdpProg i)]) [0..<n_ifaces c])
     @ (if tc then load_tc_programs os c @ [\<lambda>st. Inr (st\<lparr>egress_ebpf_program := True\<rparr>)] else [])"

text \<open>Entering the sockets into the map; without a map there is a warning.\<close>

definition enter_sockets :: "os \<Rightarrow> xsknf_config \<Rightarrow> step" where
  "enter_sockets os c st =
     (let (b, st) = attempts os 1 st
      in if b then steps (replicate (n_ifaces c * n_workers c) (call os Exited)) st else Inr st)"

definition xsknf_init :: "os \<Rightarrow> xsknf_config \<Rightarrow> bool \<Rightarrow> step list" where
  "xsknf_init os c tc = [call os (exit_with_error os c), acquire Ifindexes]
     @ replicate (n_ifaces c) (call os Exited)
     @ (if af_xdp c then init_workers os c else [])
     @ (if c_working_mode c AND MODE_XDP \<noteq> 0
        then load_ebpf_programs os c tc @ (if af_xdp c then [enter_sockets os c] else []) else [])"

section \<open>Starting the workers\<close>

definition enough_cpus :: "os \<Rightarrow> xsknf_config \<Rightarrow> step" where
  "enough_cpus os c st = (if num_cpus os < n_workers c then Inl (exit_with_error os c st) else Inr st)"

definition start_worker :: "os \<Rightarrow> xsknf_config \<Rightarrow> nat \<Rightarrow> step list" where
  "start_worker os c i = [call os (exit_with_error os c), acquire (Thread i), call os (exit_with_error os c)]"

definition xsknf_start_workers :: "os \<Rightarrow> xsknf_config \<Rightarrow> step list" where
  "xsknf_start_workers os c = [\<lambda>st. Inr (st\<lparr>stop_workers := False\<rparr>)]
     @ (if af_xdp c then [call os (exit_with_error os c), enough_cpus os c]
          @ concat (map (start_worker os c) [0..<n_workers c]) else [])"

section \<open>What is held\<close>

lemma steps_append: "steps (xs @ ys) st = (case steps xs st of Inl e \<Rightarrow> Inl e | Inr st \<Rightarrow> steps ys st)"
  by (induction xs arbitrary: st) (auto split: sum.split)

lemma steps_Inr:
  "steps (f # fs) st = Inr st' \<longleftrightarrow> (\<exists>st1. f st = Inr st1 \<and> steps fs st1 = Inr st')"
  "steps (xs @ ys) st = Inr st' \<longleftrightarrow> (\<exists>st1. steps xs st = Inr st1 \<and> steps ys st1 = Inr st')"
  by (auto simp: steps_append split: sum.splits)

lemma acquire_Inr [simp]: "acquire r st = Inr st' \<longleftrightarrow> st' = st\<lparr>held := add_mset r (held st)\<rparr>"
  by (auto simp: acquire_def)

lemma release_Inr [simp]: "release r st = Inr st' \<longleftrightarrow> st' = st\<lparr>held := held st - {#r#}\<rparr>"
  by (auto simp: release_def)

text \<open>Steps that add to what is held, and leave everything else that matters alone.\<close>

definition adds :: "resource multiset \<Rightarrow> step list \<Rightarrow> bool" where
  "adds R fs \<longleftrightarrow> (\<forall>st st'. steps fs st = Inr st' \<longrightarrow> held st' = held st + R \<and> egress_ebpf_program st' = egress_ebpf_program st)"

lemma adds_call [simp]: "adds {#} [call os f]"
  by (simp add: adds_def call_def Let_def)

lemma adds_acquire [simp]: "adds {#r#} [acquire r]"
  by (simp add: adds_def acquire_def)

lemma adds_append: "adds R xs \<Longrightarrow> adds S ys \<Longrightarrow> adds (R + S) (xs @ ys)"
  by (fastforce simp: adds_def steps_Inr)

lemma adds_Cons: "adds R [f] \<Longrightarrow> adds S fs \<Longrightarrow> adds (R + S) (f # fs)"
  using adds_append [of R "[f]" S fs] by simp

lemma adds_Nil [simp]: "adds {#} []"
  by (simp add: adds_def)

lemma adds_concat: "(\<And>x. x \<in> set xs \<Longrightarrow> adds (R x) (g x)) \<Longrightarrow> adds (\<Sum>x\<leftarrow>xs. R x) (concat (map g xs))"
  by (induction xs) (auto intro: adds_append)

lemma adds_map: "(\<And>x. x \<in> set xs \<Longrightarrow> adds (R x) [g x]) \<Longrightarrow> adds (\<Sum>x\<leftarrow>xs. R x) (map g xs)"
  using adds_concat [of xs R "\<lambda>x. [g x]"] by simp

lemma adds_calls: "adds {#} (replicate n (call os f))"
  by (induction n) (use adds_Cons [of "{#}" "call os f" "{#}"] in auto)

definition umem_need :: "nat \<Rightarrow> bool \<Rightarrow> resource multiset \<Rightarrow> resource multiset" where
  "umem_need w b h = (if Buffer w b \<in># h then {#} else {#Buffer w b, Umem w b#})"

lemma init_umem_Inr:
  "init_umem os c w b st = Inr st' \<Longrightarrow> held st' = held st + umem_need w b (held st) \<and> egress_ebpf_program st' = egress_ebpf_program st"
  by (auto simp: init_umem_def umem_need_def acquire_def call_def Let_def split: if_splits)

lemma init_socket_Inr:
  assumes "steps (init_socket os c w (i, f)) st = Inr st'"
  shows "held st' = held st + {#Socket w i#} + umem_need w (f AND XDP_COPY \<noteq> 0) (held st)
    \<and> egress_ebpf_program st' = egress_ebpf_program st"
proof -
  obtain st1 where u: "init_umem os c w (f AND XDP_COPY \<noteq> 0) st = Inr st1" and
    r: "steps ([call os (exit_with_error os c), acquire (Socket w i)] @
      (if c_busy_poll c \<and> \<not> (f AND XDP_COPY \<noteq> 0) then replicate 3 (call os (exit_with_error os c)) else [])) st1 = Inr st'"
    using assms by (simp add: init_socket_def Let_def steps_Inr(1) del: steps.simps) blast
  have "adds ({#} + ({#Socket w i#} + {#})) (call os (exit_with_error os c) # acquire (Socket w i) #
      (if c_busy_poll c \<and> \<not> (f AND XDP_COPY \<noteq> 0) then replicate 3 (call os (exit_with_error os c)) else []))"
    by (intro adds_Cons adds_call adds_acquire) (simp add: adds_calls)
  then show ?thesis
    using init_umem_Inr [OF u] r by (auto simp: adds_def simp del: steps.simps)
qed

abbreviation modes :: "(nat \<times> u32) list \<Rightarrow> bool set" where
  "modes xs \<equiv> (\<lambda>x. snd x AND XDP_COPY \<noteq> 0) ` set xs"

definition umems :: "nat \<Rightarrow> bool set \<Rightarrow> resource multiset \<Rightarrow> resource multiset" where
  "umems w B h = (if False \<in> B then umem_need w False h else {#}) + (if True \<in> B then umem_need w True h else {#})"

lemma init_sockets_Inr:
  assumes "steps (concat (map (init_socket os c w) xs)) st = Inr st'"
  shows "held st' = held st + mset (map (Socket w \<circ> fst) xs) + umems w (modes xs) (held st)
    \<and> egress_ebpf_program st' = egress_ebpf_program st"
  using assms
proof (induction xs arbitrary: st)
  case Nil
  then show ?case by (simp add: umems_def)
next
  case (Cons x xs)
  obtain i f where x: "x = (i, f)" by fastforce
  obtain st1 where 1: "steps (init_socket os c w (i, f)) st = Inr st1" "steps (concat (map (init_socket os c w) xs)) st1 = Inr st'"
    using Cons.prems by (auto simp: steps_Inr x)
  let ?b = "f AND XDP_COPY \<noteq> 0"
  have "umem_need w ?b (held st) + umems w (modes xs) (held st1) = umems w (insert ?b (modes xs)) (held st)"
    using init_socket_Inr [OF 1(1)] by (cases ?b) (auto simp: umems_def umem_need_def)
  then show ?case
    using init_socket_Inr [OF 1(1)] Cons.IH [OF 1(2)] by (auto simp: x ac_simps)
qed

definition worker_res :: "xsknf_config \<Rightarrow> nat \<Rightarrow> resource multiset" where
  "worker_res c w = {#XsksArr w#} + mset (map (Socket w) [0..<length (socket_flags c)])
     + umems w (modes (enumerate 0 (socket_flags c))) {#}"

lemma init_worker_Inr:
  assumes "steps (init_worker os c w) st = Inr st'" "\<And>b. Buffer w b \<notin># held st"
  shows "held st' = held st + worker_res c w \<and> egress_ebpf_program st' = egress_ebpf_program st"
proof -
  let ?st = "st\<lparr>calls := Suc (calls st), held := add_mset (XsksArr w) (held st)\<rparr>"
  have 2: "steps (concat (map (init_socket os c w) (enumerate 0 (socket_flags c)))) ?st = Inr st'"
    using assms(1) by (auto simp: init_worker_def acquire_def call_def Let_def split: if_splits)
  have "umems w B (held ?st) = umems w B {#}" for B
    using assms(2) by (simp add: umems_def umem_need_def)
  then show ?thesis
    using init_sockets_Inr [OF 2] by (simp add: worker_res_def flip: map_map)
qed

lemma worker_res_Buffer: "Buffer v b \<in># worker_res c w \<Longrightarrow> v = w"
  by (auto simp: worker_res_def umems_def umem_need_def split: if_splits)

lemma init_workers_loop:
  assumes "steps (concat (map (init_worker os c) ws)) st = Inr st'" "distinct ws" "\<And>w b. w \<in> set ws \<Longrightarrow> Buffer w b \<notin># held st"
  shows "held st' = held st + (\<Sum>w\<leftarrow>ws. worker_res c w) \<and> egress_ebpf_program st' = egress_ebpf_program st"
  using assms
proof (induction ws arbitrary: st)
  case (Cons w ws)
  obtain st1 where 1: "steps (init_worker os c w) st = Inr st1" "steps (concat (map (init_worker os c) ws)) st1 = Inr st'"
    using Cons.prems(1) by (auto simp: steps_Inr)
  have h: "held st1 = held st + worker_res c w" "egress_ebpf_program st1 = egress_ebpf_program st"
    using init_worker_Inr [OF 1(1)] Cons.prems(3) by simp_all
  have "Buffer v b \<notin># held st1" if "v \<in> set ws" for v b
    using Cons.prems(2,3) that worker_res_Buffer [of v b c w] by (auto simp: h)
  then show ?case
    using Cons.IH [OF 1(2)] Cons.prems(2) h by (simp add: ac_simps)
qed simp

lemma init_workers_Inr:
  assumes "steps (init_workers os c) st = Inr st'" "\<And>w b. Buffer w b \<notin># held st"
  shows "held st' = held st + {#WorkersArr#} + (\<Sum>w\<leftarrow>[0..<n_workers c]. worker_res c w)
    \<and> egress_ebpf_program st' = egress_ebpf_program st"
proof -
  let ?st = "st\<lparr>calls := Suc (calls st), held := add_mset WorkersArr (held st)\<rparr>"
  have "steps (concat (map (init_worker os c) [0..<n_workers c])) ?st = Inr st'"
    using assms(1) by (auto simp: init_workers_def acquire_def call_def Let_def split: if_splits)
  from init_workers_loop [OF this] show ?thesis
    using assms(2) by simp
qed

lemma load_tc_iface_adds: "adds {#Qdisc i#} [load_tc_iface os i]"
  by (auto simp: adds_def load_tc_iface_def call_def acquire_def Let_def split: if_splits)

lemma load_tc_adds: "adds (\<Sum>i\<leftarrow>[0..<n_ifaces c]. {#Qdisc i#}) (load_tc_programs os c)"
proof -
  have "adds ({#} + ({#} + (\<Sum>i\<leftarrow>[0..<n_ifaces c]. {#Qdisc i#})))
      (call os Exited # call os Exited # map (load_tc_iface os) [0..<n_ifaces c])"
    by (intro adds_Cons adds_call adds_map load_tc_iface_adds)
  then show ?thesis by (simp add: load_tc_programs_def)
qed

definition ebpf_res :: "xsknf_config \<Rightarrow> bool \<Rightarrow> resource multiset" where
  "ebpf_res c tc = {#EbpfObj#} + (\<Sum>i\<leftarrow>[0..<n_ifaces c]. {#XdpProg i#}) + (if tc then \<Sum>i\<leftarrow>[0..<n_ifaces c]. {#Qdisc i#} else {#})"

lemma load_ebpf_Inr:
  assumes "steps (load_ebpf_programs os c tc) st = Inr st'"
  shows "held st' = held st + ebpf_res c tc \<and> egress_ebpf_program st' = (egress_ebpf_program st \<or> tc)"
proof -
  let ?a = "[call os Exited, acquire EbpfObj, call os Exited] @ concat (map (\<lambda>i. [call os Exited, acquire (XdpProg i)]) [0..<n_ifaces c])"
  have "adds {#XdpProg i#} [call os Exited, acquire (XdpProg i)]" for i
    using adds_Cons [of "{#}" "call os Exited" "{#XdpProg i#}" "[acquire (XdpProg i)]"] by simp
  then have "adds ({#} + ({#EbpfObj#} + ({#} + (\<Sum>i\<leftarrow>[0..<n_ifaces c]. {#XdpProg i#}))))
      (call os Exited # acquire EbpfObj # call os Exited # concat (map (\<lambda>i. [call os Exited, acquire (XdpProg i)]) [0..<n_ifaces c]))"
    by (intro adds_Cons adds_call adds_acquire adds_concat)
  then have a: "adds ({#EbpfObj#} + (\<Sum>i\<leftarrow>[0..<n_ifaces c]. {#XdpProg i#})) ?a"
    by simp
  obtain st1 where 1: "steps ?a st = Inr st1"
    "steps (if tc then load_tc_programs os c @ [\<lambda>st. Inr (st\<lparr>egress_ebpf_program := True\<rparr>)] else []) st1 = Inr st'"
    using assms by (auto simp: load_ebpf_programs_def steps_Inr(2) simp del: append_Cons)
  have "held st1 = held st + ({#EbpfObj#} + (\<Sum>i\<leftarrow>[0..<n_ifaces c]. {#XdpProg i#}))" "egress_ebpf_program st1 = egress_ebpf_program st"
    using a 1(1) unfolding adds_def by blast+
  moreover have "held st' = held st1 + (if tc then \<Sum>i\<leftarrow>[0..<n_ifaces c]. {#Qdisc i#} else {#})"
    "egress_ebpf_program st' = (egress_ebpf_program st1 \<or> tc)"
    using 1(2) load_tc_adds [of c os] by (auto simp: adds_def steps_Inr(2) split: if_splits)
  ultimately show ?thesis
    by (simp add: ebpf_res_def)
qed

lemma attempts_keeps: "attempts os n st = (b, st') \<Longrightarrow> held st' = held st \<and> egress_ebpf_program st' = egress_ebpf_program st"
  by (induction n arbitrary: st) (auto simp: Let_def split: if_splits)

lemma enter_sockets_adds: "adds {#} [enter_sockets os c]"
  unfolding adds_def
proof (intro allI impI)
  fix st st'
  assume r: "steps [enter_sockets os c] st = Inr st'"
  obtain b st1 where a: "attempts os 1 st = (b, st1)" by fastforce
  have "steps (if b then replicate (n_ifaces c * n_workers c) (call os Exited) else []) st1 = Inr st'"
    using r a by (auto simp: enter_sockets_def split: sum.splits if_splits)
  then have "held st' = held st1 + {#} \<and> egress_ebpf_program st' = egress_ebpf_program st1"
    using adds_calls [of "n_ifaces c * n_workers c" os Exited] adds_Nil by (cases b) (simp_all add: adds_def)
  then show "held st' = held st + {#} \<and> egress_ebpf_program st' = egress_ebpf_program st"
    using attempts_keeps [OF a] by simp
qed

lemma start_workers_Inr:
  assumes "steps (xsknf_start_workers os c) st = Inr st'"
  shows "held st' = held st + (if af_xdp c then \<Sum>i\<leftarrow>[0..<n_workers c]. {#Thread i#} else {#})
    \<and> egress_ebpf_program st' = egress_ebpf_program st"
proof -
  have w: "adds {#Thread i#} (start_worker os c i)" for i
    using adds_Cons [of "{#}" "call os (exit_with_error os c)" _ "[acquire (Thread i), call os (exit_with_error os c)]", OF _ adds_Cons [OF adds_acquire adds_call]]
    by (simp add: start_worker_def)
  have "adds {#} [\<lambda>st. Inr (st\<lparr>stop_workers := False\<rparr>)]" "adds {#} [enough_cpus os c]"
    by (simp_all add: adds_def enough_cpus_def)
  moreover have "adds (\<Sum>i\<leftarrow>[0..<n_workers c]. {#Thread i#}) (concat (map (start_worker os c) [0..<n_workers c]))"
    by (rule adds_concat) (rule w)
  ultimately have "adds ({#} + ({#} + ({#} + (\<Sum>i\<leftarrow>[0..<n_workers c]. {#Thread i#})))) (xsknf_start_workers os c)" if "af_xdp c"
    using that unfolding xsknf_start_workers_def if_P [OF that] append_Cons append_Nil by (intro adds_Cons adds_call)
  moreover have "adds {#} (xsknf_start_workers os c)" if "\<not> af_xdp c"
    using that by (simp add: xsknf_start_workers_def adds_def)
  ultimately show ?thesis
    using assms by (cases "af_xdp c") (simp_all add: adds_def)
qed

text \<open>Everything that a started program holds.\<close>

definition all_res :: "xsknf_config \<Rightarrow> bool \<Rightarrow> resource multiset" where
  "all_res c tc = {#Ifindexes#}
     + (if af_xdp c then {#WorkersArr#} + (\<Sum>w\<leftarrow>[0..<n_workers c]. worker_res c w) + (\<Sum>i\<leftarrow>[0..<n_workers c]. {#Thread i#}) else {#})
     + (if c_working_mode c AND MODE_XDP \<noteq> 0 then ebpf_res c tc else {#})"

lemma started_holds:
  assumes "steps (xsknf_init os c tc @ xsknf_start_workers os c) st = Inr st'" "held st = {#}" "\<not> egress_ebpf_program st"
  shows "held st' = all_res c tc \<and> egress_ebpf_program st' = (tc \<and> c_working_mode c AND MODE_XDP \<noteq> 0)"
proof -
  have "adds ({#} + ({#Ifindexes#} + {#})) (call os (exit_with_error os c) # acquire Ifindexes # replicate (n_ifaces c) (call os Exited))"
    by (intro adds_Cons adds_call adds_acquire adds_calls)
  then have 0: "adds {#Ifindexes#} ([call os (exit_with_error os c), acquire Ifindexes] @ replicate (n_ifaces c) (call os Exited))"
    by simp
  obtain s1 s2 s3 where s: "steps ([call os (exit_with_error os c), acquire Ifindexes] @ replicate (n_ifaces c) (call os Exited)) st = Inr s1"
    "steps (if af_xdp c then init_workers os c else []) s1 = Inr s2"
    "steps (if c_working_mode c AND MODE_XDP \<noteq> 0
        then load_ebpf_programs os c tc @ (if af_xdp c then [enter_sockets os c] else []) else []) s2 = Inr s3"
    "steps (xsknf_start_workers os c) s3 = Inr st'"
    using assms(1) by (auto simp: xsknf_init_def steps_Inr(2) simp del: append_Cons)
  have 1: "held s1 = {#Ifindexes#}" "\<not> egress_ebpf_program s1"
    using 0 s(1) assms(2,3) unfolding adds_def by (metis add_0)+
  have 2: "held s2 = held s1 + (if af_xdp c then {#WorkersArr#} + (\<Sum>w\<leftarrow>[0..<n_workers c]. worker_res c w) else {#})"
    "\<not> egress_ebpf_program s2"
    using s(2) init_workers_Inr [of os c s1 s2] 1 by (auto split: if_splits)
  have e: "held s3 = held s'" "egress_ebpf_program s3 = egress_ebpf_program s'"
    if "steps (if af_xdp c then [enter_sockets os c] else []) s' = Inr s3" for s'
    using that enter_sockets_adds [of os c] by (auto simp: adds_def split: if_splits)
  have 3: "held s3 = held s2 + (if c_working_mode c AND MODE_XDP \<noteq> 0 then ebpf_res c tc else {#})
    \<and> egress_ebpf_program s3 = (tc \<and> c_working_mode c AND MODE_XDP \<noteq> 0)"
  proof (cases "c_working_mode c AND MODE_XDP \<noteq> 0")
    case True
    then obtain s' where "steps (load_ebpf_programs os c tc) s2 = Inr s'"
      "steps (if af_xdp c then [enter_sockets os c] else []) s' = Inr s3"
      using s(3) unfolding if_P [OF True] steps_Inr(2) by blast
    then show ?thesis
      using load_ebpf_Inr [of os c tc s2 s'] e [of s'] 2(2) True by simp
  qed (use s(3) 2(2) in simp)
  show ?thesis
    using start_workers_Inr [OF s(4)] 1 2 3 by (simp add: all_res_def ac_simps)
qed

section \<open>What clean-up releases\<close>

text \<open>Steps that succeed in a state and remove \<open>R\<close> from what is held.\<close>

definition drops :: "resource multiset \<Rightarrow> step list \<Rightarrow> life \<Rightarrow> bool" where
  "drops R fs st \<longleftrightarrow> (\<exists>st'. steps fs st = Inr st' \<and> held st' = held st - R \<and> egress_ebpf_program st' = egress_ebpf_program st
     \<and> calls st' = calls st)"

lemma drops_append:
  assumes "drops R xs st" "\<And>st'. held st' = held st - R \<Longrightarrow> drops S ys st'"
  shows "drops (R + S) (xs @ ys) st"
proof -
  obtain st1 where 1: "steps xs st = Inr st1" "held st1 = held st - R" "egress_ebpf_program st1 = egress_ebpf_program st"
    "calls st1 = calls st"
    using assms(1) by (auto simp: drops_def)
  then obtain st2 where "steps ys st1 = Inr st2" "held st2 = held st1 - S" "egress_ebpf_program st2 = egress_ebpf_program st1"
    "calls st2 = calls st1"
    using assms(2) [OF 1(2)] by (auto simp: drops_def)
  then show ?thesis
    using 1 by (simp add: drops_def steps_append)
qed

lemma drops_Cons:
  "drops R [f] st \<Longrightarrow> (\<And>st'. held st' = held st - R \<Longrightarrow> drops S fs st') \<Longrightarrow> drops (R + S) (f # fs) st"
  using drops_append [of R "[f]" st S fs] by simp

lemma drops_Nil [simp]: "drops {#} [] st"
  by (simp add: drops_def)

lemma drops_release [simp]: "drops {#r#} [release r] st"
  by (simp add: drops_def release_def)

text \<open>A loop of releases, each of which relies on \<open>P\<close> and does not disturb it for the others.\<close>

lemma drops_loop:
  assumes "\<And>x st. x \<in> set xs \<Longrightarrow> P x (held st) \<Longrightarrow> drops (R x) (g x) st"
    and "\<And>x y h. x \<in> set xs \<Longrightarrow> y \<in> set xs \<Longrightarrow> x \<noteq> y \<Longrightarrow> P y h \<Longrightarrow> P y (h - R x)"
    and "distinct xs" "\<And>x. x \<in> set xs \<Longrightarrow> P x (held st)"
  shows "drops (\<Sum>x\<leftarrow>xs. R x) (concat (map g xs)) st"
  using assms
proof (induction xs arbitrary: st)
  case (Cons x xs)
  have P: "P y (held st - R x)" if "y \<in> set xs" for y
    using Cons.prems(2) [of x y] Cons.prems(3,4) that by auto
  have "drops (\<Sum>x\<leftarrow>xs. R x) (concat (map g xs)) st'" if "held st' = held st - R x" for st'
    by (rule Cons.IH) (use Cons.prems P that in auto)
  then show ?case
    using drops_append [of "R x" "g x" st "\<Sum>x\<leftarrow>xs. R x"] Cons.prems by auto
qed simp

lemma diff_keeps: "r \<in># A \<Longrightarrow> r \<notin># B \<Longrightarrow> r \<in># A - B"
  by (simp add: in_diff_count not_in_iff)

lemma drops_joins:
  assumes "WorkersArr \<in># held st" "\<And>i. i < n \<Longrightarrow> Thread i \<in># held st \<and> ends os i"
  shows "drops (\<Sum>i\<leftarrow>[0..<n]. {#Thread i#}) (map (pthread_join os) [0..<n]) st"
proof -
  have "drops {#Thread i#} [pthread_join os i] st" if "WorkersArr \<in># held st \<and> Thread i \<in># held st \<and> ends os i" for i st
    using that by (simp add: drops_def pthread_join_def release_def)
  then have "drops (\<Sum>i\<leftarrow>[0..<n]. {#Thread i#}) (concat (map (\<lambda>i. [pthread_join os i]) [0..<n])) st"
    by (rule drops_loop [where P = "\<lambda>i h. WorkersArr \<in># h \<and> Thread i \<in># h \<and> ends os i"]) (use assms in \<open>auto simp: in_diff_count\<close>)
  then show ?thesis by simp
qed

lemma joins_block:
  assumes "distinct is" "WorkersArr \<in># held st" "\<forall>i \<in> set is. Thread i \<in># held st" "\<exists>i \<in> set is. \<not> ends os i"
  shows "\<exists>s. steps (map (pthread_join os) is) st = Inl (Blocked s)"
  using assms
proof (induction "is" arbitrary: st)
  case (Cons i "is")
  show ?case
  proof (cases "ends os i")
    case True
    then have "\<exists>s. steps (map (pthread_join os) is) (st\<lparr>held := held st - {#Thread i#}\<rparr>) = Inl (Blocked s)"
      by (intro Cons.IH) (use Cons.prems in \<open>auto simp: in_diff_count\<close>)
    moreover have "pthread_join os i st = Inr (st\<lparr>held := held st - {#Thread i#}\<rparr>)"
      using True Cons.prems by (simp add: pthread_join_def release_def)
    ultimately show ?thesis by simp
  qed (use Cons.prems in \<open>simp add: pthread_join_def\<close>)
qed simp

lemma stop_blocks:
  assumes "af_xdp c" "WorkersArr \<in># held st" "\<And>i. i < n_workers c \<Longrightarrow> Thread i \<in># held st" "i < n_workers c" "\<not> ends os i"
  shows "\<exists>s. xsknf_stop_workers os c st = Inl (Blocked s)"
  unfolding xsknf_stop_workers_def if_P [OF assms(1)] by (rule joins_block) (use assms(2-) in auto)

definition worker_rel :: "xsknf_config \<Rightarrow> nat \<Rightarrow> resource multiset" where
  "worker_rel c w = (\<Sum>i\<leftarrow>[0..<n_ifaces c]. {#Socket w i#})
     + {#Umem w False, Buffer w False, Umem w True, Buffer w True, XsksArr w#}"

lemma drops_worker:
  assumes "WorkersArr \<in># held st" "XsksArr w \<in># held st"
  shows "drops (worker_rel c w) (cleanup_worker c w) st"
proof -
  have "drops {#Socket w i#} [delete_socket w i] st" if "WorkersArr \<in># held st \<and> XsksArr w \<in># held st" for i st
    using that by (simp add: drops_def delete_socket_def release_def)
  then have "drops (\<Sum>i\<leftarrow>[0..<n_ifaces c]. {#Socket w i#}) (concat (map (\<lambda>i. [delete_socket w i]) [0..<n_ifaces c])) st"
    by (rule drops_loop [where P = "\<lambda>i h. WorkersArr \<in># h \<and> XsksArr w \<in># h"]) (use assms in \<open>auto simp: in_diff_count\<close>)
  then have 1: "drops (\<Sum>i\<leftarrow>[0..<n_ifaces c]. {#Socket w i#}) (map (delete_socket w) [0..<n_ifaces c]) st"
    by simp
  have 2: "drops ({#Umem w False#} + ({#Buffer w False#} + ({#Umem w True#} + ({#Buffer w True#} + {#XsksArr w#}))))
      [release (Umem w False), release (Buffer w False), release (Umem w True), release (Buffer w True), release (XsksArr w)] st'" for st'
    by (intro drops_Cons drops_release)
  show ?thesis
    using drops_append [OF 1 2] by (simp add: worker_rel_def cleanup_worker_def add_mset_commute)
qed

lemma worker_rel_other:
  "WorkersArr \<notin># worker_rel c w" "v \<noteq> w \<Longrightarrow> XsksArr v \<notin># worker_rel c w" "Ifindexes \<notin># worker_rel c w"
  by (auto simp: worker_rel_def)

lemma drops_workers:
  assumes "WorkersArr \<in># held st" "\<And>w. w < n \<Longrightarrow> XsksArr w \<in># held st"
  shows "drops (\<Sum>w\<leftarrow>[0..<n]. worker_rel c w) (concat (map (cleanup_worker c) [0..<n])) st"
  by (rule drops_loop [where P = "\<lambda>w h. WorkersArr \<in># h \<and> XsksArr w \<in># h"])
    (use assms worker_rel_other in \<open>auto simp: drops_worker in_diff_count not_in_iff\<close>)

lemma attempts_ok: "\<forall>k \<ge> calls st. ok os k \<Longrightarrow> attempts os n st = (True, st\<lparr>calls := calls st + n\<rparr>)"
  by (induction n arbitrary: st) (auto simp: Let_def)

lemma attempts_later: "attempts os n st = (b, st') \<Longrightarrow> calls st \<le> calls st'"
  by (induction n arbitrary: st) (fastforce simp: Let_def split: if_splits)+

lemma diff_disjoint:
  assumes "set_mset A \<inter> set_mset B = {}"
  shows "A - B = A"
proof (rule multiset_eqI)
  fix x
  have "count A x = 0 \<or> count B x = 0"
    using assms by (auto simp: disjoint_iff count_eq_zero_iff)
  then show "count (A - B) x = count A x" by auto
qed

lemma diff_mono: "A \<subseteq># B \<Longrightarrow> A - C \<subseteq># B - C"
  by (simp add: subseteq_mset_def diff_le_mono)

text \<open>
  Steps that call the operating system and ignore failures: in a state with the interface numbers
  they succeed, release at most \<open>R\<close>, and all of it when the calls succeed.
\<close>

definition clears :: "os \<Rightarrow> resource multiset \<Rightarrow> step \<Rightarrow> bool" where
  "clears os R f \<longleftrightarrow> (\<forall>st. Ifindexes \<in># held st \<longrightarrow> (\<exists>st'. f st = Inr st' \<and> held st - R \<subseteq># held st' \<and> held st' \<subseteq># held st
     \<and> egress_ebpf_program st' = egress_ebpf_program st \<and> calls st \<le> calls st'
     \<and> ((\<forall>k \<ge> calls st. ok os k) \<longrightarrow> held st' = held st - R)))"

lemma clearsE:
  assumes "clears os R f" "Ifindexes \<in># held st"
  obtains st' where "f st = Inr st'" "held st - R \<subseteq># held st'" "held st' \<subseteq># held st"
    "egress_ebpf_program st' = egress_ebpf_program st" "calls st \<le> calls st'"
    "(\<forall>k \<ge> calls st. ok os k) \<longrightarrow> held st' = held st - R"
  using assms unfolding clears_def by blast

lemma clears_Nil: "clears os {#} (steps [])"
  by (simp add: clears_def)

lemma clears_bind:
  assumes "clears os R f" "Ifindexes \<notin># R" "clears os S (steps fs)"
  shows "clears os (R + S) (steps (f # fs))"
  unfolding clears_def
proof (intro allI impI)
  fix st :: life assume st: "Ifindexes \<in># held st"
  from assms(1) st obtain s1 where 1: "f st = Inr s1" "held st - R \<subseteq># held s1" "held s1 \<subseteq># held st"
    "egress_ebpf_program s1 = egress_ebpf_program st" "calls st \<le> calls s1" "(\<forall>k \<ge> calls st. ok os k) \<longrightarrow> held s1 = held st - R"
    by (rule clearsE)
  have "Ifindexes \<in># held s1"
    using diff_keeps [OF st assms(2)] 1(2) by (rule mset_subset_eqD [rotated])
  with assms(3) obtain s2 where 2: "steps fs s1 = Inr s2" "held s1 - S \<subseteq># held s2" "held s2 \<subseteq># held s1"
    "egress_ebpf_program s2 = egress_ebpf_program s1" "calls s1 \<le> calls s2" "(\<forall>k \<ge> calls s1. ok os k) \<longrightarrow> held s2 = held s1 - S"
    by (rule clearsE)
  have "held st - (R + S) \<subseteq># held s1 - S"
    using diff_mono [OF 1(2), of S] by simp
  then have "held st - (R + S) \<subseteq># held s2"
    using 2(2) by (rule subset_mset.order_trans)
  moreover have "held s2 \<subseteq># held st"
    using 2(3) 1(3) by (rule subset_mset.order_trans)
  moreover have "held s2 = held st - (R + S)" if "\<forall>k \<ge> calls st. ok os k"
    using that 1(5,6) 2(6) by auto
  ultimately show "\<exists>st'. steps (f # fs) st = Inr st' \<and> held st - (R + S) \<subseteq># held st' \<and> held st' \<subseteq># held st
     \<and> egress_ebpf_program st' = egress_ebpf_program st \<and> calls st \<le> calls st'
     \<and> ((\<forall>k \<ge> calls st. ok os k) \<longrightarrow> held st' = held st - (R + S))"
    using 1(1,4,5) 2(1,4,5) by auto
qed

lemma clears_map:
  "(\<And>i. clears os (R i) (f i)) \<Longrightarrow> (\<And>i. Ifindexes \<notin># R i) \<Longrightarrow> clears os (\<Sum>i\<leftarrow>is. R i) (steps (map f is))"
  by (induction "is") (use clears_Nil clears_bind in auto)

text \<open>A few calls, and when all of them succeed, more steps.\<close>

lemma clears_attempts:
  assumes "clears os R f"
  shows "clears os R (\<lambda>st. let (b, st) = attempts os n st in if b then f st else Inr st)"
  unfolding clears_def
proof (intro allI impI)
  fix st :: life assume st: "Ifindexes \<in># held st"
  obtain b s1 where a: "attempts os n st = (b, s1)" by fastforce
  note k = attempts_keeps [OF a] attempts_later [OF a]
  have t: "b" if "\<forall>k \<ge> calls st. ok os k"
    using attempts_ok [OF that, of n] a by simp
  show "\<exists>st'. (let (b, st) = attempts os n st in if b then f st else Inr st) = Inr st' \<and> held st - R \<subseteq># held st' \<and> held st' \<subseteq># held st
     \<and> egress_ebpf_program st' = egress_ebpf_program st \<and> calls st \<le> calls st'
     \<and> ((\<forall>k \<ge> calls st. ok os k) \<longrightarrow> held st' = held st - R)"
  proof (cases b)
    case True
    have "Ifindexes \<in># held s1"
      using st k by simp
    with assms obtain s2 where "f s1 = Inr s2" "held s1 - R \<subseteq># held s2" "held s2 \<subseteq># held s1"
      "egress_ebpf_program s2 = egress_ebpf_program s1" "calls s1 \<le> calls s2" "(\<forall>k \<ge> calls s1. ok os k) \<longrightarrow> held s2 = held s1 - R"
      by (rule clearsE)
    then show ?thesis
      using a True k by auto
  qed (use a k t in auto)
qed

lemma clears_release: "clears os {#r#} (release r)"
  by (simp add: clears_def release_def)

lemma clears_detach: "clears os {#XdpProg i#} (detach os i)"
  using clears_attempts [OF clears_release [of os "XdpProg i"], of 1]
  by (simp add: clears_def detach_def)

lemma clears_qdiscs: "clears os (\<Sum>i\<leftarrow>[0..<n_ifaces c]. {#Qdisc i#}) (del_clsact_qdiscs os c)"
proof -
  have "clears os {#Qdisc i#} (del_qdisc os i)" for i
    using clears_attempts [OF clears_release [of os "Qdisc i"], of 3] unfolding del_qdisc_def [abs_def] .
  then have "clears os (\<Sum>i\<leftarrow>[0..<n_ifaces c]. {#Qdisc i#}) (steps (map (del_qdisc os) [0..<n_ifaces c]))"
    by (rule clears_map) simp
  then show ?thesis
    unfolding del_clsact_qdiscs_def [abs_def] by (rule clears_attempts)
qed

lemma egress_clears:
  "clears os (if b then \<Sum>i\<leftarrow>[0..<n_ifaces c]. {#Qdisc i#} else {#}) (\<lambda>st. if b then del_clsact_qdiscs os c st else Inr st)"
  using clears_qdiscs by (cases b) (simp_all add: clears_def)

lemma clears_detaches: "clears os (\<Sum>i\<leftarrow>[0..<n]. {#XdpProg i#}) (steps (map (detach os) [0..<n]))"
  by (rule clears_map) (simp_all add: clears_detach)

lemma sum_mset_mono: "(\<And>x. x \<in> set xs \<Longrightarrow> f x \<subseteq># g x) \<Longrightarrow> (\<Sum>x\<leftarrow>xs. f x) \<subseteq># (\<Sum>x\<leftarrow>xs. g x :: 'b multiset)"
  by (induction xs) (auto intro: subset_mset.add_mono)

lemma worker_res_rel:
  assumes "length (c_bind_flags c) = n_ifaces c"
  shows "worker_res c w \<subseteq># worker_rel c w"
proof -
  have "umems w B {#} \<subseteq># {#Umem w False, Buffer w False, Umem w True, Buffer w True#}" for B
    by (auto simp: umems_def umem_need_def add_mset_commute)
  then have "umems w B {#} + {#XsksArr w#} \<subseteq># {#Umem w False, Buffer w False, Umem w True, Buffer w True, XsksArr w#}" for B
    using subset_mset.add_right_mono [of "umems w B {#}" "{#Umem w False, Buffer w False, Umem w True, Buffer w True#}" "{#XsksArr w#}"]
    by (simp add: add_mset_commute)
  moreover have "worker_res c w = (\<Sum>i\<leftarrow>[0..<n_ifaces c]. {#Socket w i#})
      + (umems w (modes (enumerate 0 (socket_flags c))) {#} + {#XsksArr w#})"
    by (simp add: worker_res_def socket_flags_def assms)
  ultimately show ?thesis
    unfolding worker_rel_def by (simp only: subset_mset.add_left_mono)
qed

section \<open>The life cycle\<close>

lemma all_res_elems:
  assumes "af_xdp c"
  shows "Ifindexes \<in># all_res c tc" "WorkersArr \<in># all_res c tc" "i < n_workers c \<Longrightarrow> Thread i \<in># all_res c tc"
    "w < n_workers c \<Longrightarrow> XsksArr w \<in># all_res c tc"
  using assms by (auto simp: all_res_def worker_res_def)

text \<open>What clean-up removes without the help of the operating system.\<close>

definition rel_res :: "xsknf_config \<Rightarrow> resource multiset" where
  "rel_res c = (if af_xdp c then (\<Sum>i\<leftarrow>[0..<n_workers c]. {#Thread i#}) + ((\<Sum>w\<leftarrow>[0..<n_workers c]. worker_rel c w) + {#WorkersArr#}) else {#})"

abbreviation own_steps :: "os \<Rightarrow> xsknf_config \<Rightarrow> step list" where
  "own_steps os c \<equiv> [xsknf_stop_workers os c]
     @ (if af_xdp c then concat (map (cleanup_worker c) [0..<n_workers c]) @ [release WorkersArr] else [])"

lemma rel_res_other: "Ifindexes \<notin># rel_res c" "EbpfObj \<notin># rel_res c" "XdpProg i \<notin># rel_res c" "Qdisc i \<notin># rel_res c"
  by (auto simp: rel_res_def worker_rel_def)

lemma drops_own:
  assumes "af_xdp c \<Longrightarrow> WorkersArr \<in># held st" "\<And>i. af_xdp c \<Longrightarrow> i < n_workers c \<Longrightarrow> Thread i \<in># held st \<and> ends os i"
    and "\<And>w. af_xdp c \<Longrightarrow> w < n_workers c \<Longrightarrow> XsksArr w \<in># held st"
  shows "drops (rel_res c) (own_steps os c) st"
proof (cases "af_xdp c")
  case True
  let ?t = "\<Sum>i\<leftarrow>[0..<n_workers c]. {#Thread i#}"
  have "drops ?t (map (pthread_join os) [0..<n_workers c]) (st\<lparr>stop_workers := True\<rparr>)"
    by (intro drops_joins) (use True assms in simp_all)
  then have t: "drops ?t [xsknf_stop_workers os c] st"
    using True by (auto simp: drops_def xsknf_stop_workers_def)
  have "drops ((\<Sum>w\<leftarrow>[0..<n_workers c]. worker_rel c w) + {#WorkersArr#})
      (concat (map (cleanup_worker c) [0..<n_workers c]) @ [release WorkersArr]) st'" if "held st' = held st - ?t" for st'
  proof -
    have "WorkersArr \<in># held st'" "\<And>w. w < n_workers c \<Longrightarrow> XsksArr w \<in># held st'"
      unfolding that by (rule diff_keeps; use True assms(1,3) in auto)+
    then show ?thesis
      by (intro drops_append drops_workers drops_release)
  qed
  from drops_append [OF t this] show ?thesis
    using True by (simp add: rel_res_def)
qed (simp add: drops_def xsknf_stop_workers_def rel_res_def)

text \<open>What is left to the operating system.\<close>

definition os_res :: "xsknf_config \<Rightarrow> bool \<Rightarrow> resource multiset" where
  "os_res c tc = (if c_working_mode c AND MODE_XDP \<noteq> 0 then ebpf_res c tc else {#})"

lemma all_res_own:
  assumes "length (c_bind_flags c) = n_ifaces c"
  shows "all_res c tc - rel_res c = add_mset Ifindexes (os_res c tc)"
proof -
  let ?o = "if af_xdp c then {#WorkersArr#} + (\<Sum>w\<leftarrow>[0..<n_workers c]. worker_res c w) + (\<Sum>i\<leftarrow>[0..<n_workers c]. {#Thread i#}) else {#}"
  let ?r = "add_mset Ifindexes (os_res c tc)"
  have "(\<Sum>w\<leftarrow>[0..<n_workers c]. worker_res c w) \<subseteq># (\<Sum>w\<leftarrow>[0..<n_workers c]. worker_rel c w)"
    by (rule sum_mset_mono) (rule worker_res_rel [OF assms])
  then have le: "?o \<subseteq># rel_res c"
    by (simp add: rel_res_def add_mset_commute ac_simps subset_mset.add_left_mono)
  have "set_mset ?r \<inter> set_mset (rel_res c) = {}"
    using rel_res_other [where c = c] by (auto simp: os_res_def ebpf_res_def)
  then have "?r - (rel_res c - ?o) = ?r"
    by (intro diff_disjoint) (auto dest: in_diffD)
  moreover have "all_res c tc = ?o + ?r"
    by (simp add: all_res_def os_res_def ac_simps)
  ultimately show ?thesis
    using le by (metis add_diff_cancel_left' diff_diff_add_mset subset_mset.add_diff_inverse)
qed

abbreviation os_steps :: "os \<Rightarrow> xsknf_config \<Rightarrow> step list" where
  "os_steps os c \<equiv> map (detach os) [0..<n_ifaces c]
     @ [\<lambda>st. if egress_ebpf_program st then del_clsact_qdiscs os c st else Inr st, release Ifindexes]"

lemma xsknf_cleanup_split:
  "xsknf_cleanup os c st = (case steps (own_steps os c) st of Inl e \<Rightarrow> Inl e | Inr st \<Rightarrow> steps (os_steps os c) st)"
  unfolding xsknf_cleanup_def steps_append [symmetric] by simp

lemma os_res_cleared:
  "os_res c tc - ((\<Sum>i\<leftarrow>[0..<n_ifaces c]. {#XdpProg i#}) + (if tc \<and> c_working_mode c AND MODE_XDP \<noteq> 0 then \<Sum>i\<leftarrow>[0..<n_ifaces c]. {#Qdisc i#} else {#}))
     = (if c_working_mode c AND MODE_XDP \<noteq> 0 then {#EbpfObj#} else {#})"
  by (auto simp: os_res_def ebpf_res_def)

lemma cleanup_rest:
  assumes "held st = add_mset Ifindexes (os_res c tc)" "egress_ebpf_program st = (tc \<and> c_working_mode c AND MODE_XDP \<noteq> 0)"
  shows "\<exists>st2. steps (os_steps os c) st = Inr st2
    \<and> held st2 \<subseteq># os_res c tc \<and> (EbpfObj \<in># held st2 \<longleftrightarrow> c_working_mode c AND MODE_XDP \<noteq> 0)
    \<and> ((\<forall>k \<ge> calls st. ok os k) \<longrightarrow> held st2 = (if c_working_mode c AND MODE_XDP \<noteq> 0 then {#EbpfObj#} else {#}))"
proof -
  let ?q = "if tc \<and> c_working_mode c AND MODE_XDP \<noteq> 0 then \<Sum>i\<leftarrow>[0..<n_ifaces c]. {#Qdisc i#} else {#}"
  let ?x = "\<Sum>i\<leftarrow>[0..<n_ifaces c]. {#XdpProg i#}"
  let ?e = "if c_working_mode c AND MODE_XDP \<noteq> 0 then {#EbpfObj#} else {#}"
  have i: "Ifindexes \<in># held st" "Ifindexes \<notin># ?x" "Ifindexes \<notin># ?q"
    using assms(1) by auto
  from clears_detaches [of os "n_ifaces c"] i(1) obtain s1 where s1: "steps (map (detach os) [0..<n_ifaces c]) st = Inr s1"
    "held st - ?x \<subseteq># held s1" "held s1 \<subseteq># held st" "egress_ebpf_program s1 = egress_ebpf_program st" "calls st \<le> calls s1"
    "(\<forall>k \<ge> calls st. ok os k) \<longrightarrow> held s1 = held st - ?x"
    by (rule clearsE)
  have "Ifindexes \<in># held s1"
    using diff_keeps [OF i(1,2)] s1(2) by (rule mset_subset_eqD [rotated])
  then obtain s2 where s2: "(if egress_ebpf_program s1 then del_clsact_qdiscs os c s1 else Inr s1) = Inr s2"
    "held s1 - ?q \<subseteq># held s2" "held s2 \<subseteq># held s1" "(\<forall>k \<ge> calls s1. ok os k) \<longrightarrow> held s2 = held s1 - ?q"
    by (rule clearsE [OF egress_clears [of os "tc \<and> c_working_mode c AND MODE_XDP \<noteq> 0" c]]) (use s1(4) assms(2) in simp)
  have r: "steps (os_steps os c) st = Inr (s2\<lparr>held := held s2 - {#Ifindexes#}\<rparr>)"
    using s1(1) s2(1) by (simp add: steps_append release_def)
  have le: "held s2 - {#Ifindexes#} \<subseteq># os_res c tc"
    using subset_mset.order_trans [OF s2(3) s1(3)] assms(1) by (simp add: subset_eq_diff_conv)
  have "held st - ?x - ?q \<subseteq># held s1 - ?q"
    using s1(2) by (rule diff_mono)
  then have ge: "held st - ?x - ?q \<subseteq># held s2"
    using s2(2) by (rule subset_mset.order_trans)
  have x: "held st - ?x - ?q = add_mset Ifindexes ?e"
    using os_res_cleared [of c tc] unfolding assms(1) diff_diff_add_mset [symmetric]
    by (simp only: diff_add_mset_swap [OF i(2)] diff_add_mset_swap [OF i(3)])
  have "EbpfObj \<in># held s2" if "c_working_mode c AND MODE_XDP \<noteq> 0"
    by (rule mset_subset_eqD [OF ge]) (unfold x, use that in simp)
  moreover have "EbpfObj \<notin># held s2 - {#Ifindexes#}" if "\<not> c_working_mode c AND MODE_XDP \<noteq> 0"
    using le that by (auto simp: os_res_def)
  moreover have "held s2 - {#Ifindexes#} = ?e" if "\<forall>k \<ge> calls st. ok os k"
    using that s1(5,6) s2(4) x by auto
  ultimately show ?thesis
    using r le by (auto simp: in_diff_count)
qed

text \<open>
  C22: the life cycle.  After a successful start the process holds exactly what initialisation is
  to acquire.  If a worker does not leave its loop, the clean-up waits for it for ever.  Otherwise
  the clean-up returns; whatever the outcome of its calls, the process then holds no thread, no
  socket, no buffer and no array any more, and the eBPF object, which nobody closes, is still
  loaded.  When the calls of clean-up succeed, that object is all that is left.
\<close>

theorem lifecycle_leaves_object:
  assumes "steps (xsknf_init os c tc @ xsknf_start_workers os c) st = Inr st1" "held st = {#}" "\<not> egress_ebpf_program st"
    and "xsknf_parse_args argv0 opts = Inr c"
  shows "held st1 = all_res c tc
    \<and> (if af_xdp c \<and> (\<exists>i < n_workers c. \<not> ends os i) then \<exists>s. xsknf_cleanup os c st1 = Inl (Blocked s)
       else \<exists>st2. xsknf_cleanup os c st1 = Inr st2
         \<and> held st2 \<subseteq># os_res c tc \<and> (EbpfObj \<in># held st2 \<longleftrightarrow> c_working_mode c AND MODE_XDP \<noteq> 0)
         \<and> ((\<forall>k \<ge> calls st1. ok os k) \<longrightarrow> held st2 = (if c_working_mode c AND MODE_XDP \<noteq> 0 then {#EbpfObj#} else {#})))"
proof -
  note h = started_holds [OF assms(1-3)]
  show ?thesis
  proof (cases "af_xdp c \<and> (\<exists>i < n_workers c. \<not> ends os i)")
    case True
    then have "\<exists>s. xsknf_stop_workers os c st1 = Inl (Blocked s)"
      using stop_blocks [of c st1] h all_res_elems [where c = c and tc = tc] by auto
    then show ?thesis
      using True h by (auto simp: xsknf_cleanup_def)
  next
    case False
    then obtain s1 where s1: "steps (own_steps os c) st1 = Inr s1" "held s1 = held st1 - rel_res c"
      "egress_ebpf_program s1 = egress_ebpf_program st1" "calls s1 = calls st1"
      using drops_own [of c st1 os] h all_res_elems [where c = c and tc = tc] by (auto simp: drops_def)
    have o: "held s1 = add_mset Ifindexes (os_res c tc)"
      using s1(2) h all_res_own parsed_flags [OF assms(4)] by simp
    have "xsknf_cleanup os c st1 = steps (os_steps os c) s1"
      unfolding xsknf_cleanup_split s1(1) by simp
    then show ?thesis
      unfolding if_not_P [OF False] using cleanup_rest [OF o, of os] s1(3,4) h by simp
  qed
qed

section \<open>Success\<close>

definition passes :: "step list \<Rightarrow> bool" where
  "passes fs \<longleftrightarrow> (\<forall>st. \<exists>st'. steps fs st = Inr st')"

lemma passes_append: "passes xs \<Longrightarrow> passes ys \<Longrightarrow> passes (xs @ ys)"
  unfolding passes_def steps_Inr by blast

lemma passes_Cons: "passes [f] \<Longrightarrow> passes fs \<Longrightarrow> passes (f # fs)"
  using passes_append [of "[f]" fs] by simp

lemma passes_basic: "passes []" "passes [acquire r]" "passes [\<lambda>st. Inr (g st)]"
  by (simp_all add: passes_def acquire_def)

lemma passes_loop: "(\<And>x. x \<in> set xs \<Longrightarrow> passes (g x)) \<Longrightarrow> passes (concat (map g xs))"
  by (induction xs) (auto intro: passes_append simp: passes_basic)

lemma passes_map: "(\<And>x. x \<in> set xs \<Longrightarrow> passes [g x]) \<Longrightarrow> passes (map g xs)"
  using passes_loop [of xs "\<lambda>x. [g x]"] by simp

text \<open>
  When every call succeeds, there is a CPU for each worker and the clock does not tick between two
  requests, initialisation and start succeed.
\<close>

lemma start_succeeds:
  assumes "\<forall>k. ok os k" "\<forall>i. clock os i = t" "n_workers c \<le> num_cpus os"
  shows "\<exists>st1. steps (xsknf_init os c tc @ xsknf_start_workers os c) st = Inr st1"
proof -
  have call: "call os f st = Inr (st\<lparr>calls := Suc (calls st)\<rparr>)" for f st
    using assms(1) by (simp add: call_def)
  then have c: "passes [call os f]" "passes (replicate n (call os f))" for f n
    using passes_map [of "replicate n (call os f)" "\<lambda>g. g"] by (auto simp: passes_def)
  have e: "passes [enter_sockets os c]"
    unfolding passes_def
  proof
    fix st
    obtain st' where "steps (replicate (n_ifaces c * n_workers c) (call os Exited)) (st\<lparr>calls := calls st + 1\<rparr>) = Inr st'"
      using c(2) unfolding passes_def by blast
    then show "\<exists>st'. steps [enter_sockets os c] st = Inr st'"
      using attempts_ok [of st os 1] assms(1) by (simp add: enter_sockets_def)
  qed
  have u: "passes [init_umem os c w b]" for w b
    by (simp add: passes_def init_umem_def call acquire_def)
  have t: "passes [load_tc_iface os i]" for i
    using assms(2) by (simp add: passes_def load_tc_iface_def call acquire_def)
  have n: "passes [enough_cpus os c]"
    using assms(3) by (simp add: passes_def enough_cpus_def)
  have "passes (init_socket os c w x)" for w x
    unfolding init_socket_def Let_def case_prod_unfold
    by (intro passes_append passes_Cons [OF u] passes_Cons [OF c(1)] passes_basic) (simp add: c(2) passes_basic)
  then have "passes (init_worker os c w)" for w
    unfolding init_worker_def by (intro passes_append passes_Cons [OF c(1)] passes_basic passes_loop)
  then have w: "passes (init_workers os c)"
    unfolding init_workers_def by (intro passes_append passes_Cons [OF c(1)] passes_basic passes_loop)
  have "passes (load_ebpf_programs os c tc)"
    unfolding load_ebpf_programs_def load_tc_programs_def
    by (auto intro!: passes_append passes_Cons [OF c(1)] passes_Cons [OF passes_basic(2)] passes_loop passes_map t passes_basic c(1))
  then have "passes (xsknf_init os c tc)"
    unfolding xsknf_init_def by (auto intro!: passes_append passes_Cons [OF c(1)] passes_Cons [OF passes_basic(2)] passes_basic c(2) w e)
  moreover have "passes (xsknf_start_workers os c)"
    unfolding xsknf_start_workers_def start_worker_def
    by (auto intro!: passes_append passes_Cons [OF c(1)] passes_Cons [OF passes_basic(2)] passes_Cons [OF passes_basic(3)]
        passes_Cons [OF n] passes_basic passes_loop c(1))
  ultimately show ?thesis
    using passes_append by (simp add: passes_def)
qed

section \<open>Failures\<close>

lemma error_undefined:
  assumes "af_xdp c" "c_workers c \<noteq> 0" "Thread 0 \<notin># held st"
  shows "\<exists>s. exit_with_error os c st = Undefined s"
proof -
  have "[0..<n_workers c] = 0 # [1..<n_workers c]"
    using assms(2) by (simp add: upt_conv_Cons unat_gt_0)
  then show ?thesis
    using assms(1,3) by (simp add: exit_with_error_def xsknf_cleanup_def xsknf_stop_workers_def pthread_join_def)
qed

text \<open>Steps of a process without threads: they fail without having cleaned up.\<close>

definition bare :: "life \<Rightarrow> bool" where
  "bare st \<longleftrightarrow> Thread 0 \<notin># held st \<and> Ifindexes \<in># held st"

fun dirty :: "fault \<Rightarrow> bool" where
  "dirty (Undefined s) = True"
| "dirty (Blocked s) = False"
| "dirty (Exited s) = (Ifindexes \<in># held s)"

definition frail :: "step \<Rightarrow> bool" where
  "frail f \<longleftrightarrow> (\<forall>st. bare st \<longrightarrow> (\<forall>e. f st = Inl e \<longrightarrow> dirty e) \<and> (\<forall>st'. f st = Inr st' \<longrightarrow> bare st'))"

abbreviation fragile :: "step list \<Rightarrow> bool" where
  "fragile fs \<equiv> frail (steps fs)"

lemma fragile_single: "fragile [f] \<longleftrightarrow> frail f"
  by (auto simp: frail_def split: sum.split)

lemma bare_upd [simp]: "bare (st\<lparr>calls := n\<rparr>) = bare st" "bare (st\<lparr>egress_ebpf_program := b\<rparr>) = bare st"
  by (simp_all add: bare_def)

lemma fragile_Nil [simp]: "fragile []"
  by (simp add: frail_def)

lemma frailD:
  "frail f \<Longrightarrow> bare st \<Longrightarrow> f st = Inl e \<Longrightarrow> dirty e"
  "frail f \<Longrightarrow> bare st \<Longrightarrow> f st = Inr st' \<Longrightarrow> bare st'"
  by (simp_all add: frail_def)

lemma frailI:
  "(\<And>st e. bare st \<Longrightarrow> f st = Inl e \<Longrightarrow> dirty e) \<Longrightarrow> (\<And>st st'. bare st \<Longrightarrow> f st = Inr st' \<Longrightarrow> bare st') \<Longrightarrow> frail f"
  unfolding frail_def by blast

lemma frail_bind:
  "frail f \<Longrightarrow> frail g \<Longrightarrow> frail (\<lambda>st. case f st of Inl e \<Rightarrow> Inl e | Inr st \<Rightarrow> g st)"
  by (rule frailI) (auto split: sum.split_asm dest: frailD)

lemma fragile_append: "fragile xs \<Longrightarrow> fragile ys \<Longrightarrow> fragile (xs @ ys)"
  using frail_bind [of "steps xs" "steps ys"] unfolding steps_append [abs_def, symmetric] .

lemma fragile_Cons: "fragile [f] \<Longrightarrow> fragile fs \<Longrightarrow> fragile (f # fs)"
  using fragile_append [of "[f]" fs] by simp

lemma fragile_loop: "(\<And>x. x \<in> set xs \<Longrightarrow> fragile (g x)) \<Longrightarrow> fragile (concat (map g xs))"
  by (induction xs) (auto intro: fragile_append)

lemma fragile_map: "(\<And>x. x \<in> set xs \<Longrightarrow> fragile [g x]) \<Longrightarrow> fragile (map g xs)"
  using fragile_loop [of xs "\<lambda>x. [g x]"] by simp

lemma fragile_acquire: "r \<noteq> Thread 0 \<Longrightarrow> fragile [acquire r]"
  by (simp add: fragile_single frail_def bare_def)  (simp add: acquire_def)

lemma fragile_replicate: "fragile [f] \<Longrightarrow> fragile (replicate n f)"
  using fragile_map [of "replicate n f" "\<lambda>g. g"] by auto

lemma fragile_exit: "fragile [call os Exited]" "fragile (replicate n (call os Exited))"
proof -
  show 1: "fragile [call os Exited]"
    by (auto simp: fragile_single frail_def call_def Let_def) (simp add: bare_def)
  show "fragile (replicate n (call os Exited))"
    by (rule fragile_replicate [OF 1])
qed

lemma fragile_error:
  assumes "af_xdp c" "c_workers c \<noteq> 0"
  shows "fragile [call os (exit_with_error os c)]" "fragile (replicate n (call os (exit_with_error os c)))"
proof -
  show 1: "fragile [call os (exit_with_error os c)]"
  proof -
    have "dirty (exit_with_error os c st)" if "bare st" for st
      using error_undefined [OF assms, of st os] that by (auto simp: bare_def)
    then show ?thesis by (auto simp: fragile_single frail_def call_def Let_def)
  qed
  show "fragile (replicate n (call os (exit_with_error os c)))"
    by (rule fragile_replicate [OF 1])
qed

lemma fragile_attempts:
  assumes "fragile fs"
  shows "frail (\<lambda>st. let (b, st) = attempts os n st in if b then steps fs st else Inr st)"
proof -
  have "bare st1" if "bare st" "attempts os n st = (b, st1)" for st b st1
    using attempts_keeps [OF that(2)] that(1) by (simp add: bare_def)
  with assms show ?thesis
    by (intro frailI) (auto split: prod.split_asm if_splits dest: frailD)
qed

lemma fragile_init_workers:
  assumes "af_xdp c" "c_workers c \<noteq> 0"
  shows "fragile (init_workers os c)"
proof -
  note e = fragile_error [OF assms]
  have u: "fragile [init_umem os c w b]" for w b
  proof -
    have "fragile [call os (exit_with_error os c), acquire (Buffer w b), call os (exit_with_error os c), acquire (Umem w b)]"
      by (intro fragile_Cons [OF e(1)] fragile_Cons [OF fragile_acquire] fragile_acquire) simp_all
    then show ?thesis
      unfolding fragile_single [of "init_umem os c w b"] by (simp add: frail_def init_umem_def del: steps.simps(2))
  qed
  have "fragile (init_socket os c w x)" for w x
    unfolding init_socket_def Let_def case_prod_unfold
    by (intro fragile_append fragile_Cons [OF u] fragile_Cons [OF e(1)] fragile_acquire) (auto intro: e(2))
  then have "fragile (init_worker os c w)" for w
    unfolding init_worker_def by (intro fragile_append fragile_Cons [OF e(1)] fragile_acquire fragile_loop) simp_all
  then show ?thesis
    unfolding init_workers_def by (intro fragile_append fragile_Cons [OF e(1)] fragile_acquire fragile_loop) simp_all
qed

lemma fragile_ebpf: "fragile (load_ebpf_programs os c tc)"
proof -
  have i: "fragile [load_tc_iface os i]" for i
  proof -
    have a: "fragile [call os Exited, call os Exited, call os Exited, acquire (Qdisc i)]" "fragile [call os Exited, call os Exited]"
      by (intro fragile_Cons [OF fragile_exit(1)] fragile_acquire fragile_exit(1), simp)+
    have "dirty (Exited st)" if "bare st" for st
      using that by (simp add: bare_def)
    with a fragile_exit(1) [of os] show ?thesis
      unfolding fragile_single load_tc_iface_def Let_def
      by (intro frailI) (auto simp: fragile_single simp del: steps.simps(2) split: sum.split_asm if_splits dest: frailD)
  qed
  have "fragile [\<lambda>st. Inr (st\<lparr>egress_ebpf_program := True\<rparr>)]"
    by (simp add: fragile_single frail_def)
  then show ?thesis
    unfolding load_ebpf_programs_def load_tc_programs_def
    by (auto intro!: fragile_append fragile_Cons [OF fragile_exit(1)] fragile_Cons [OF fragile_acquire] fragile_acquire fragile_loop fragile_map i fragile_exit(1))
qed

lemma fragile_init:
  assumes "af_xdp c" "c_workers c \<noteq> 0"
  shows "fragile (replicate (n_ifaces c) (call os Exited)
     @ (if af_xdp c then init_workers os c else [])
     @ (if c_working_mode c AND MODE_XDP \<noteq> 0
        then load_ebpf_programs os c tc @ (if af_xdp c then [enter_sockets os c] else []) else []))"
proof -
  have "fragile [enter_sockets os c]"
    unfolding fragile_single enter_sockets_def [abs_def] by (intro fragile_attempts fragile_exit)
  then show ?thesis
    by (auto intro!: fragile_append fragile_exit fragile_init_workers fragile_ebpf assms)
qed

text \<open>
  C23: a failing start.  When initialisation fails on a configuration with AF_XDP sockets, or the
  machine has too few CPUs for the workers, the clean-up that is to follow is never completed:
  the process joins threads it has not created, or leaves with what it has acquired.
\<close>

theorem failed_start_undefined:
  assumes "af_xdp c" "c_workers c \<noteq> 0" "Thread 0 \<notin># held st"
  shows "(\<forall>f. steps (xsknf_init os c tc) st = Inl f \<longrightarrow> dirty f)
    \<and> (num_cpus os < n_workers c \<longrightarrow> (\<exists>s. steps (xsknf_start_workers os c) st = Inl (Undefined s)))"
proof (intro conjI allI impI)
  fix f assume f: "steps (xsknf_init os c tc) st = Inl f"
  let ?st = "st\<lparr>calls := Suc (calls st)\<rparr>"
  show "dirty f"
  proof (cases "ok os (calls st)")
    case True
    then have "steps (replicate (n_ifaces c) (call os Exited)
        @ (if af_xdp c then init_workers os c else [])
        @ (if c_working_mode c AND MODE_XDP \<noteq> 0
           then load_ebpf_programs os c tc @ (if af_xdp c then [enter_sockets os c] else []) else []))
        (?st\<lparr>held := add_mset Ifindexes (held st)\<rparr>) = Inl f"
      using f by (simp add: xsknf_init_def call_def acquire_def)
    then show ?thesis
      by (rule frailD(1) [OF fragile_init [OF assms(1,2)], rotated]) (use assms(3) in \<open>simp add: bare_def\<close>)
  next
    case False
    then show ?thesis
      using f error_undefined [OF assms(1,2), of ?st os] assms(3) by (auto simp: xsknf_init_def call_def)
  qed
next
  assume "num_cpus os < n_workers c"
  then show "\<exists>s. steps (xsknf_start_workers os c) st = Inl (Undefined s)"
    using error_undefined [OF assms(1,2), of "st\<lparr>stop_workers := False, calls := Suc (calls st)\<rparr>" os] assms(1,3)
    by (auto simp: xsknf_start_workers_def call_def enough_cpus_def Let_def)
qed

section \<open>An example\<close>

text \<open>One worker on two interfaces with both kinds of programs, on a machine on which every call succeeds.\<close>

definition sample_os :: "nat \<Rightarrow> os" where
  "sample_os cpus = \<lparr>ok = \<lambda>k. True, clock = \<lambda>_. 7, num_cpus = cpus, ends = \<lambda>_. True\<rparr>"

definition fresh :: life where
  "fresh = \<lparr>calls = 0, held = {#}, egress_ebpf_program = False, stop_workers = False\<rparr>"

definition combined_opts :: "(char \<times> string) list" where
  "combined_opts = [(CHR ''i'', ''eth0:c''), (CHR ''i'', ''eth1''), (CHR ''B'', ''''), (CHR ''M'', ''COMBINED'')]"

definition combined_conf :: xsknf_config where
  "combined_conf = default_conf\<lparr>c_interfaces := [''eth0'', ''eth1''], c_bind_flags := [10, 8], c_working_mode := MODE_COMBINED,
     c_xdp_flags := 5, c_busy_poll := True, c_ebpf_filename := ''agent_kern.o''\<rparr>"

lemma combined_opts_parse: "xsknf_parse_args ''agent'' combined_opts = Inr combined_conf"
  by (simp add: xsknf_parse_args_def combined_opts_def combined_conf_def parse_opt_def parse_iface_def iface_flags_def
      default_conf_def DEFAULT_BIND_FLAGS_def XDP_COPY_def XDP_ZEROCOPY_def XDP_USE_NEED_WAKEUP_def XSKNF_MAX_INTERFACES_def
      XDP_FLAGS_UPDATE_IF_NOEXIST_def XDP_FLAGS_SKB_MODE_def XDP_FLAGS_DRV_MODE_def Let_def)

lemma combined_starts:
  "\<exists>st1. steps (xsknf_init (sample_os 2) combined_conf True @ xsknf_start_workers (sample_os 2) combined_conf) fresh = Inr st1"
  by (rule start_succeeds) (simp_all add: sample_os_def combined_conf_def default_conf_def)

theorem lifecycle_leaves_object_witness:
  "\<exists>st1 st2. steps (xsknf_init (sample_os 2) combined_conf True @ xsknf_start_workers (sample_os 2) combined_conf) fresh = Inr st1
    \<and> xsknf_cleanup (sample_os 2) combined_conf st1 = Inr st2 \<and> held st2 = {#EbpfObj#}"
proof -
  obtain st1 where st1: "steps (xsknf_init (sample_os 2) combined_conf True @ xsknf_start_workers (sample_os 2) combined_conf) fresh = Inr st1"
    using combined_starts by blast
  have "c_working_mode combined_conf AND MODE_XDP \<noteq> 0"
    by (simp add: combined_conf_def MODE_COMBINED_def MODE_XDP_def)
  with lifecycle_leaves_object [OF st1 _ _ combined_opts_parse] st1 show ?thesis
    by (auto simp: fresh_def sample_os_def)
qed

theorem failed_start_undefined_witness:
  "\<exists>s. steps (xsknf_start_workers (sample_os 1) sample_conf) fresh = Inl (Undefined s)"
proof -
  have "af_xdp sample_conf" "c_workers sample_conf \<noteq> 0" "Thread 0 \<notin># held fresh" "num_cpus (sample_os 1) < n_workers sample_conf"
    by (simp_all add: sample_conf_def default_conf_def MODE_AF_XDP_def fresh_def sample_os_def)
  from failed_start_undefined [OF this(1-3), of "sample_os 1"] this(4) show ?thesis by blast
qed

end
