(* ===== verification/Statistics.thy ===== *)
theory Statistics
  imports Complex_Main Xsk_Start Xsk_Config
begin

text \<open>
  The statistics of the framework, \<open>examples/common/statistics.c\<close>: the counters of the sockets,
  their rates since the last call and their totals.  What is printed is a list of rows; their
  layout on the screen is not modelled.  The arithmetic on \<open>double\<close> is a parameter \<open>'d fp\<close>, and
  \<open>exact\<close> is the instance that does not round.
\<close>

section \<open>Counters and rates\<close>

record 'd fp =
  fp_of :: "int \<Rightarrow> 'd"
  fp_add :: "'d \<Rightarrow> 'd \<Rightarrow> 'd"
  fp_mul :: "'d \<Rightarrow> 'd \<Rightarrow> 'd"
  fp_div :: "'d \<Rightarrow> 'd \<Rightarrow> 'd"

definition NSTATS :: nat where "NSTATS = 13"

text \<open>A structure of counters as the array that the casts of the code make of it.\<close>

definition counters :: "xsknf_socket_stats \<Rightarrow> u64 list" where
  "counters s = [rx_npkts s, tx_npkts s, rx_dropped_npkts s, rx_invalid_npkts s, tx_invalid_npkts s, rx_full_npkts s,
     rx_fill_empty_npkts s, tx_empty_npkts s, rx_empty_polls s, fill_fail_polls s, tx_wakeup_sendtos s,
     tx_trigger_sendtos s, opt_polls s]"

definition compute_stats_per_second :: "'d fp \<Rightarrow> u64 list \<Rightarrow> u64 list \<Rightarrow> u64 \<Rightarrow> 'd list" where
  "compute_stats_per_second fp current prev dt =
     map (\<lambda>i. fp_div fp (fp_mul fp (fp_of fp (sint (current ! i - prev ! i))) (fp_of fp 1000000000)) (fp_of fp (sint dt))) [0..<NSTATS]"

definition acc_stats :: "u64 list \<Rightarrow> u64 list \<Rightarrow> u64 list" where
  "acc_stats acc cur = map (\<lambda>i. acc ! i + cur ! i) [0..<NSTATS]"

definition acc_stats_per_second :: "'d fp \<Rightarrow> 'd list \<Rightarrow> 'd list \<Rightarrow> 'd list" where
  "acc_stats_per_second fp acc cur = map (\<lambda>i. fp_add fp (acc ! i) (cur ! i)) [0..<NSTATS]"

section \<open>Output\<close>

type_synonym 'd row = "string \<times> 'd \<times> u64"

definition row :: "'d list \<Rightarrow> u64 list \<Rightarrow> nat \<Rightarrow> string \<Rightarrow> 'd row" where
  "row ps s i name = (name, ps ! i, s ! i)"

definition print_socket_stats :: "u64 list \<Rightarrow> 'd list \<Rightarrow> bool \<Rightarrow> bool \<Rightarrow> 'd row list" where
  "print_socket_stats cur cur_ps extra_stats app_stats =
     [row cur_ps cur 0 ''rx'', row cur_ps cur 1 ''tx'']
     @ (if extra_stats then
          [row cur_ps cur 2 ''rx dropped'', row cur_ps cur 3 ''rx invalid'', row cur_ps cur 4 ''tx invalid'',
           row cur_ps cur 5 ''rx queue full'', row cur_ps cur 6 ''fill ring empty'', row cur_ps cur 7 ''tx ring empty'']
        else [])
     @ (if app_stats then
          [row cur_ps cur 8 ''rx empty polls'', row cur_ps cur 9 ''fill fail polls'', row cur_ps cur 10 ''tx wakeup sendtos'',
           row cur_ps cur 11 ''tx trigger sendtos'', row cur_ps cur 12 ''opt polls'']
        else [])"

text \<open>The line of worker \<open>i\<close> on interface \<open>j\<close>, or of the totals.\<close>

type_synonym 'd report = "((nat \<times> nat) option \<times> 'd row list) list"

record stats_state =
  start_time :: u64
  prev_time :: u64
  old_socket_stats :: "nat \<Rightarrow> nat \<Rightarrow> u64 list"

definition XSKNF_MAX_WORKERS :: nat where "XSKNF_MAX_WORKERS = 32"

definition init_stats :: "u64 \<Rightarrow> stats_state \<Rightarrow> stats_state" where
  "init_stats now s = s\<lparr>start_time := now, prev_time := now\<rparr>"

record ('d, 'st) dump =
  d_state :: stats_state
  d_workers :: "'st worker list"
  d_total :: "u64 list"
  d_total_ps :: "'d list"
  d_out :: "'d report"

datatype stats_error = StatsFault | StatsExit

text \<open>
  One round of the inner loop.  Accesses behind \<open>old_socket_stats\<close> and behind the arrays of
  workers and sockets are faults.
\<close>

definition dump_socket ::
    "'d fp \<Rightarrow> (nat \<Rightarrow> nat \<Rightarrow> getsockopt_t) \<Rightarrow> u64 \<Rightarrow> bool \<Rightarrow> bool \<Rightarrow> nat \<times> nat \<Rightarrow> ('d, 'st) dump \<Rightarrow> stats_error + ('d, 'st) dump" where
  "dump_socket fp getsockopt dt extra_stats app_stats x d =
     (let (i, j) = x
      in if i \<ge> XSKNF_MAX_WORKERS \<or> j \<ge> XSKNF_MAX_WORKERS \<or> i \<ge> length (d_workers d) \<or> j \<ge> length (xsks (d_workers d ! i))
         then Inl StatsFault
         else
           (let (st, w) = xsknf_get_socket_stats (getsockopt i j) j (d_workers d ! i);
                cur = counters st;
                stats_ps = compute_stats_per_second fp cur (old_socket_stats (d_state d) i j) dt;
                old = old_socket_stats (d_state d)
            in Inr \<lparr>d_state = (d_state d)\<lparr>old_socket_stats := old(i := (old i)(j := cur))\<rparr>,
                     d_workers = (d_workers d)[i := w],
                     d_total = acc_stats (d_total d) cur,
                     d_total_ps = acc_stats_per_second fp (d_total_ps d) stats_ps,
                     d_out = d_out d @ [(Some (i, j), print_socket_stats cur stats_ps extra_stats app_stats)]\<rparr>))"

fun dump_sockets ::
    "'d fp \<Rightarrow> (nat \<Rightarrow> nat \<Rightarrow> getsockopt_t) \<Rightarrow> u64 \<Rightarrow> bool \<Rightarrow> bool \<Rightarrow> (nat \<times> nat) list \<Rightarrow> ('d, 'st) dump \<Rightarrow> stats_error + ('d, 'st) dump" where
  "dump_sockets fp g dt ex ap [] d = Inr d"
| "dump_sockets fp g dt ex ap (x # xs) d =
     (case dump_socket fp g dt ex ap x d of Inl e \<Rightarrow> Inl e | Inr d \<Rightarrow> dump_sockets fp g dt ex ap xs d)"

definition socket_ids :: "xsknf_config \<Rightarrow> (nat \<times> nat) list" where
  "socket_ids c = List.product [0..<unat (c_workers c)] [0..<length (c_interfaces c)]"

definition dump_stats ::
    "'d fp \<Rightarrow> (nat \<Rightarrow> nat \<Rightarrow> getsockopt_t) \<Rightarrow> u64 \<Rightarrow> xsknf_config \<Rightarrow> bool \<Rightarrow> bool \<Rightarrow> 'st worker list \<Rightarrow> stats_state \<Rightarrow>
     stats_error + ('d report \<times> 'st worker list \<times> stats_state)" where
  "dump_stats fp getsockopt now c extra_stats app_stats ws s =
     (let dt = now - prev_time s; s = s\<lparr>prev_time := now\<rparr>
      in if c_working_mode c AND MODE_AF_XDP = 0 then Inr ([], ws, s)
         else
           (case dump_sockets fp getsockopt dt extra_stats app_stats (socket_ids c)
                   \<lparr>d_state = s, d_workers = ws, d_total = replicate NSTATS 0, d_total_ps = replicate NSTATS (fp_of fp 0), d_out = []\<rparr> of
              Inl e \<Rightarrow> Inl e
            | Inr d \<Rightarrow> Inr (d_out d @ [(None, print_socket_stats (d_total d) (d_total_ps d) extra_stats app_stats)],
                            d_workers d, d_state d)))"

text \<open>
  The number that \<open>print_stats\<close> writes on \<open>SIGUSR1\<close>.  \<open>fopen\<close> tells whether the file can be opened,
  \<open>lookup\<close> is the element of the map \<open>xdp_stats\<close> of each CPU, if it can be read; when one of them
  fails, the program exits.
\<close>

fun sum_rx :: "(nat \<Rightarrow> nat \<Rightarrow> getsockopt_t) \<Rightarrow> (nat \<times> nat) list \<Rightarrow> u64 \<times> 'st worker list \<Rightarrow> u64 \<times> 'st worker list" where
  "sum_rx g [] x = x"
| "sum_rx g ((i, j) # xs) (total_rx, ws) =
     (let (st, w) = xsknf_get_socket_stats (g i j) j (ws ! i)
      in sum_rx g xs (total_rx + rx_npkts st, ws[i := w]))"

definition print_stats ::
    "(nat \<Rightarrow> nat \<Rightarrow> getsockopt_t) \<Rightarrow> bool \<Rightarrow> u64 list option \<Rightarrow> xsknf_config \<Rightarrow> 'st worker list \<Rightarrow> stats_error + (u64 \<times> 'st worker list)" where
  "print_stats getsockopt fopen lookup c ws =
     (if \<not> fopen then Inl StatsExit
      else if c_working_mode c = MODE_AF_XDP then Inr (sum_rx getsockopt (socket_ids c) (0, ws))
      else if c_working_mode c AND MODE_XDP \<noteq> 0 then
        (case lookup of None \<Rightarrow> Inl StatsExit | Some values \<Rightarrow> Inr (foldl (+) 0 values, ws))
      else Inr (0, ws))"

section \<open>What a call reports\<close>

text \<open>The counters of a socket as the report reads them.\<close>

definition sock :: "(nat \<Rightarrow> nat \<Rightarrow> getsockopt_t) \<Rightarrow> 'st worker list \<Rightarrow> nat \<times> nat \<Rightarrow> u64 list" where
  "sock g ws x = counters (snd (xsk_get_xdp_stats (g (fst x) (snd x)) (stats (xsks (ws ! fst x) ! snd x))))"

definition in_arrays :: "'st worker list \<Rightarrow> nat \<times> nat \<Rightarrow> bool" where
  "in_arrays ws x \<longleftrightarrow> fst x < XSKNF_MAX_WORKERS \<and> snd x < XSKNF_MAX_WORKERS \<and> fst x < length ws \<and> snd x < length (xsks (ws ! fst x))"

definition sock_read :: "(nat \<Rightarrow> nat \<Rightarrow> getsockopt_t) \<Rightarrow> nat \<times> nat \<Rightarrow> 'st worker list \<Rightarrow> 'st worker list" where
  "sock_read g x ws = ws[fst x := snd (xsknf_get_socket_stats (g (fst x) (snd x)) (snd x) (ws ! fst x))]"

lemma get_socket_stats:
  "in_arrays ws x \<Longrightarrow> counters (fst (xsknf_get_socket_stats (g (fst x) (snd x)) (snd x) (ws ! fst x))) = sock g ws x"
  by (simp add: xsknf_get_socket_stats_def sock_def in_arrays_def upd_sock_def Let_def)

lemma sock_read_other:
  "in_arrays (sock_read g x ws) y = in_arrays ws y" "x \<noteq> y \<Longrightarrow> in_arrays ws y \<Longrightarrow> sock g (sock_read g x ws) y = sock g ws y"
  by (cases "fst x = fst y"; auto simp: sock_def in_arrays_def sock_read_def xsknf_get_socket_stats_def upd_sock_def Let_def
      nth_list_update prod_eq_iff)+

definition line :: "'d fp \<Rightarrow> u64 \<Rightarrow> bool \<Rightarrow> bool \<Rightarrow> u64 list \<Rightarrow> u64 list \<Rightarrow> 'd row list" where
  "line fp dt ex ap cur old = print_socket_stats cur (compute_stats_per_second fp cur old dt) ex ap"

lemma dump_socket_eq:
  assumes "in_arrays (d_workers d) x"
  shows "\<exists>ps. dump_socket fp g dt ex ap x d = Inr \<lparr>
    d_state = (d_state d)\<lparr>old_socket_stats := (old_socket_stats (d_state d))
      (fst x := (old_socket_stats (d_state d) (fst x))(snd x := sock g (d_workers d) x))\<rparr>,
    d_workers = sock_read g x (d_workers d), d_total = acc_stats (d_total d) (sock g (d_workers d) x),
    d_total_ps = ps,
    d_out = d_out d @ [(Some x, line fp dt ex ap (sock g (d_workers d) x) (old_socket_stats (d_state d) (fst x) (snd x)))]\<rparr>"
  using assms get_socket_stats [OF assms, of g]
  by (auto simp: dump_socket_def in_arrays_def sock_read_def line_def case_prod_unfold Let_def)

lemma dump_sockets_eq:
  assumes "distinct xs" "\<forall>x \<in> set xs. in_arrays (d_workers d) x"
  shows "\<exists>d'. dump_sockets fp g dt ex ap xs d = Inr d' \<and> prev_time (d_state d') = prev_time (d_state d)
    \<and> old_socket_stats (d_state d') =
        (\<lambda>i j. if (i, j) \<in> set xs then sock g (d_workers d) (i, j) else old_socket_stats (d_state d) i j)
    \<and> d_total d' = foldl acc_stats (d_total d) (map (sock g (d_workers d)) xs)
    \<and> d_out d' = d_out d @ map (\<lambda>x. (Some x, line fp dt ex ap (sock g (d_workers d) x) (old_socket_stats (d_state d) (fst x) (snd x)))) xs"
  using assms
proof (induction xs arbitrary: d)
  case (Cons x xs)
  obtain d1 where d1: "dump_socket fp g dt ex ap x d = Inr d1" "prev_time (d_state d1) = prev_time (d_state d)"
    "old_socket_stats (d_state d1) = (old_socket_stats (d_state d))
      (fst x := (old_socket_stats (d_state d) (fst x))(snd x := sock g (d_workers d) x))"
    "d_workers d1 = sock_read g x (d_workers d)" "d_total d1 = acc_stats (d_total d) (sock g (d_workers d) x)"
    "d_out d1 = d_out d @ [(Some x, line fp dt ex ap (sock g (d_workers d) x) (old_socket_stats (d_state d) (fst x) (snd x)))]"
    using dump_socket_eq [of d x fp g dt ex ap] Cons.prems(2) by auto
  have s: "sock g (d_workers d1) y = sock g (d_workers d) y" "y \<noteq> x" if "y \<in> set xs" for y
    using that Cons.prems sock_read_other(2) [of x y "d_workers d" g] by (auto simp: d1(4))
  have o: "(if (i, j) \<in> set xs then sock g (d_workers d1) (i, j) else old_socket_stats (d_state d1) i j) =
      (if (i, j) \<in> set (x # xs) then sock g (d_workers d) (i, j) else old_socket_stats (d_state d) i j)" for i j
    using s [of "(i, j)"] by (cases x) (auto simp: d1(3))
  have "old_socket_stats (d_state d1) (fst y) (snd y) = old_socket_stats (d_state d) (fst y) (snd y)" if "y \<in> set xs" for y
    using s(2) [OF that] by (auto simp: d1(3) prod_eq_iff)
  then have l: "map (\<lambda>x. (Some x, line fp dt ex ap (sock g (d_workers d1) x) (old_socket_stats (d_state d1) (fst x) (snd x)))) xs =
     map (\<lambda>x. (Some x, line fp dt ex ap (sock g (d_workers d) x) (old_socket_stats (d_state d) (fst x) (snd x)))) xs"
    "map (sock g (d_workers d1)) xs = map (sock g (d_workers d)) xs"
    using s(1) by simp_all
  have "\<forall>y \<in> set xs. in_arrays (d_workers d1) y"
    using Cons.prems(2) by (simp add: d1(4) sock_read_other(1))
  from Cons.IH [OF _ this] Cons.prems(1) show ?case
    unfolding o l by (auto simp: d1(1,2,5,6))
qed simp

text \<open>A configuration, and workers that were set up for it.\<close>

definition fits :: "xsknf_config \<Rightarrow> 'st worker list \<Rightarrow> bool" where
  "fits c ws \<longleftrightarrow> c_working_mode c AND MODE_AF_XDP \<noteq> 0 \<and> unat (c_workers c) \<le> XSKNF_MAX_WORKERS
     \<and> length (c_interfaces c) \<le> XSKNF_MAX_WORKERS \<and> length ws = unat (c_workers c)
     \<and> (\<forall>w \<in> set ws. length (xsks w) = length (c_interfaces c))"

lemma fits_ids: "fits c ws \<Longrightarrow> x \<in> set (socket_ids c) \<Longrightarrow> in_arrays ws x"
  by (cases x) (auto simp: fits_def socket_ids_def in_arrays_def)

lemma dump_stats_eq:
  assumes "fits c ws"
  shows "\<exists>ws' ps s'. dump_stats fp g now c ex ap ws s = Inr (
      map (\<lambda>x. (Some x, line fp (now - prev_time s) ex ap (sock g ws x) (old_socket_stats s (fst x) (snd x)))) (socket_ids c)
        @ [(None, print_socket_stats (foldl acc_stats (replicate NSTATS 0) (map (sock g ws) (socket_ids c))) ps ex ap)], ws', s')
    \<and> prev_time s' = now
    \<and> old_socket_stats s' = (\<lambda>i j. if (i, j) \<in> set (socket_ids c) then sock g ws (i, j) else old_socket_stats s i j)"
proof -
  let ?d = "\<lparr>d_state = s\<lparr>prev_time := now\<rparr>, d_workers = ws, d_total = replicate NSTATS 0, d_total_ps = replicate NSTATS (fp_of fp 0), d_out = []\<rparr>"
  have "distinct (socket_ids c)"
    by (simp add: socket_ids_def distinct_product)
  moreover have "\<forall>x \<in> set (socket_ids c). in_arrays (d_workers ?d) x"
    using fits_ids [OF assms] by simp
  ultimately obtain d' where "dump_sockets fp g (now - prev_time s) ex ap (socket_ids c) ?d = Inr d'"
    "prev_time (d_state d') = now"
    "old_socket_stats (d_state d') = (\<lambda>i j. if (i, j) \<in> set (socket_ids c) then sock g ws (i, j) else old_socket_stats s i j)"
    "d_total d' = foldl acc_stats (replicate NSTATS 0) (map (sock g ws) (socket_ids c))"
    "d_out d' = map (\<lambda>x. (Some x, line fp (now - prev_time s) ex ap (sock g ws x) (old_socket_stats s (fst x) (snd x)))) (socket_ids c)"
    using dump_sockets_eq [of "socket_ids c" ?d fp g "now - prev_time s" ex ap] by (auto cong: if_cong)
  then show ?thesis
    using assms by (auto simp: dump_stats_def fits_def Let_def)
qed

section \<open>Totals and rates\<close>

lemma map_of_lines: "x \<in> set xs \<Longrightarrow> map_of (map (\<lambda>x. (Some x, f x)) xs @ ys) (Some x) = Some (f x)"
  by (induction xs) auto

lemma map_of_total: "map_of (map (\<lambda>x. (Some x, f x)) xs @ [(None, t)]) None = Some t"
  by (induction xs) auto

lemma acc_stats_nth: "k < NSTATS \<Longrightarrow> length t = NSTATS \<Longrightarrow> foldl acc_stats t xs ! k = t ! k + (\<Sum>x\<leftarrow>xs. x ! k)"
  by (induction xs arbitrary: t) (simp_all add: acc_stats_def add.assoc)

lemma print_nth:
  assumes "k < NSTATS"
  shows "snd (print_socket_stats cur ps True True ! k) = (ps ! k, cur ! k)"
proof -
  have "k \<in> {0, 1, 2, 3, 4, 5, 6, 7, 8, 9, 10, 11, 12}"
    using assms by (simp add: NSTATS_def) arith
  then show ?thesis by (auto simp: print_socket_stats_def row_def)
qed

text \<open>
  A report with all rows shows for each socket its thirteen counters and as total their
  sums; no call fails for up to 32 workers.
\<close>

theorem stats_report:
  assumes "fits c ws"
  shows "\<exists>r ws' s'. dump_stats fp g now c True True ws s = Inr (r, ws', s')
    \<and> (\<forall>x \<in> set (socket_ids c). \<exists>rows. map_of r (Some x) = Some rows \<and> (\<forall>k < NSTATS. snd (snd (rows ! k)) = sock g ws x ! k))
    \<and> (\<exists>rows. map_of r None = Some rows \<and> (\<forall>k < NSTATS. snd (snd (rows ! k)) = (\<Sum>x\<leftarrow>socket_ids c. sock g ws x ! k)))"
proof -
  obtain ws' ps s' where "dump_stats fp g now c True True ws s = Inr (
      map (\<lambda>x. (Some x, line fp (now - prev_time s) True True (sock g ws x) (old_socket_stats s (fst x) (snd x)))) (socket_ids c)
        @ [(None, print_socket_stats (foldl acc_stats (replicate NSTATS 0) (map (sock g ws) (socket_ids c))) ps True True)], ws', s')"
    using dump_stats_eq [OF assms, of fp g now True True s] by blast
  then show ?thesis
    by (auto simp: map_of_lines map_of_total line_def print_nth acc_stats_nth o_def simp del: map_of_append)
qed

definition exact :: "rat fp" where
  "exact = \<lparr>fp_of = of_int, fp_add = (+), fp_mul = (*), fp_div = (/)\<rparr>"

text \<open>Calls one after the other, at times and with workers that are given; reports with the time since the last call.\<close>

fun dump_run ::
    "'d fp \<Rightarrow> (nat \<Rightarrow> nat \<Rightarrow> getsockopt_t) \<Rightarrow> xsknf_config \<Rightarrow> (u64 \<times> 'st worker list) list \<Rightarrow> stats_state \<Rightarrow>
     stats_error + (u64 \<times> 'd report) list" where
  "dump_run fp g c [] s = Inr []"
| "dump_run fp g c ((now, ws) # xs) s =
     (case dump_stats fp g now c True True ws s of
        Inl e \<Rightarrow> Inl e
      | Inr (r, _, s') \<Rightarrow>
          (case dump_run fp g c xs s' of Inl e \<Rightarrow> Inl e | Inr rs \<Rightarrow> Inr ((now - prev_time s, r) # rs)))"

text \<open>Time passes and the counter grows from call to call, by less than half its range.\<close>

fun steady :: "(nat \<Rightarrow> nat \<Rightarrow> getsockopt_t) \<Rightarrow> nat \<times> nat \<Rightarrow> nat \<Rightarrow> (u64 \<times> 'st worker list) list \<Rightarrow> u64 \<Rightarrow> u64 \<Rightarrow> bool" where
  "steady g x k [] t n = True"
| "steady g x k ((now, ws) # xs) t n =
     (t < now \<and> unat now - unat t < 2 ^ 63 \<and> n \<le> sock g ws x ! k \<and> unat (sock g ws x ! k) - unat n < 2 ^ 63
      \<and> steady g x k xs now (sock g ws x ! k))"

fun last_count :: "(nat \<Rightarrow> nat \<Rightarrow> getsockopt_t) \<Rightarrow> nat \<times> nat \<Rightarrow> nat \<Rightarrow> (u64 \<times> 'st worker list) list \<Rightarrow> u64 \<Rightarrow> u64" where
  "last_count g x k [] n = n"
| "last_count g x k ((now, ws) # xs) n = last_count g x k xs (sock g ws x ! k)"

definition rate :: "nat \<times> nat \<Rightarrow> nat \<Rightarrow> rat report \<Rightarrow> rat" where
  "rate x k r = fst (snd (the (map_of r (Some x)) ! k))"

text \<open>A word as a number, without and with sign.\<close>

definition val :: "u64 \<Rightarrow> rat" where
  "val w = of_nat (unat w)"

definition sval :: "u64 \<Rightarrow> rat" where
  "sval w = of_int (sint w)"

lemma sval_diff:
  assumes "a \<le> b" "unat b - unat a < 2 ^ 63"
  shows "sval (b - a) = val b - val a"
proof -
  have u: "unat (b - a) = unat b - unat a"
    using assms(1) by (simp add: unat_sub)
  then have "uint (b - a) < 2 ^ 63"
    using assms(2) by (simp add: uint_nat)
  moreover have "- (2 ^ 63) \<le> uint (b - a)"
    by (rule order_trans [of _ 0]) simp_all
  ultimately have "signed_take_bit 63 (uint (b - a)) = uint (b - a)"
    by (intro signed_take_bit_int_eq_self)
  then have "sint (b - a) = int (unat (b - a))"
    by (simp add: sint_uint)
  then show ?thesis
    using u assms(1) by (simp only: sval_def val_def of_int_of_nat_eq of_nat_diff word_le_nat_alt)
qed

lemma rate_exact:
  assumes "k < NSTATS" "t < now" "unat now - unat t < 2 ^ 63" "old ! k \<le> cur ! k" "unat (cur ! k) - unat (old ! k) < 2 ^ 63"
  shows "compute_stats_per_second exact cur old (now - t) ! k * sval (now - t) / 1000000000 = val (cur ! k) - val (old ! k)"
proof -
  have r: "compute_stats_per_second exact cur old (now - t) ! k = sval (cur ! k - old ! k) * 1000000000 / sval (now - t)"
    using assms(1) by (simp add: compute_stats_per_second_def exact_def sval_def)
  have "val t < val now"
    using assms(2) by (simp only: val_def of_nat_less_iff word_less_nat_alt)
  then show ?thesis
    using assms(2-5) by (simp add: r sval_diff)
qed

text \<open>
  C21: the rates tell what was counted.  Over any number of calls at increasing times the rates
  of a counter, each times the time it covers, add up to the growth of the counter, in
  arithmetic that does not round.
\<close>

theorem stats_rates_telescope:
  assumes "\<forall>(now, ws) \<in> set xs. fits c ws" "x \<in> set (socket_ids c)" "k < NSTATS"
    and "steady g x k xs (prev_time s) (old_socket_stats s (fst x) (snd x) ! k)"
  shows "\<exists>rs. dump_run exact g c xs s = Inr rs
    \<and> (\<Sum>(dt, r)\<leftarrow>rs. rate x k r * sval dt / 1000000000) =
        val (last_count g x k xs (old_socket_stats s (fst x) (snd x) ! k)) - val (old_socket_stats s (fst x) (snd x) ! k)"
  using assms(1,4)
proof (induction xs arbitrary: s)
  case (Cons y xs)
  obtain now ws where y: "y = (now, ws)" by fastforce
  let ?l = "\<lambda>x. line exact (now - prev_time s) True True (sock g ws x) (old_socket_stats s (fst x) (snd x))"
  obtain ws' t s' where d: "dump_stats exact g now c True True ws s = Inr (map (\<lambda>x. (Some x, ?l x)) (socket_ids c) @ [(None, t)], ws', s')"
    "prev_time s' = now" "old_socket_stats s' (fst x) (snd x) = sock g ws x"
    using dump_stats_eq [of c ws exact g now True True s] Cons.prems(1) assms(2) y by fastforce
  have st: "steady g x k xs (prev_time s') (old_socket_stats s' (fst x) (snd x) ! k)"
    using Cons.prems(2) y d(2,3) by simp
  have "rate x k (map (\<lambda>x. (Some x, ?l x)) (socket_ids c) @ [(None, t)]) * sval (now - prev_time s) / 1000000000
      = val (sock g ws x ! k) - val (old_socket_stats s (fst x) (snd x) ! k)"
    using Cons.prems(2) rate_exact [OF assms(3), of "prev_time s" now] y assms(3)
    by (simp add: rate_def map_of_lines [OF assms(2)] line_def print_nth del: map_of_append)
  with Cons.IH [OF _ st] Cons.prems(1) d(3) show ?case
    by (auto simp: y d(1) diff_divide_distrib)
qed simp

section \<open>The number in the file, and too many workers\<close>

lemma sum_rx_eq:
  "distinct xs \<Longrightarrow> \<forall>x \<in> set xs. in_arrays ws x \<Longrightarrow> fst (sum_rx g xs (t, ws)) = t + (\<Sum>x\<leftarrow>xs. sock g ws x ! 0)"
proof (induction xs arbitrary: t ws)
  case (Cons x xs)
  let ?r = "xsknf_get_socket_stats (g (fst x) (snd x)) (snd x) (ws ! fst x)"
  have "(\<Sum>y\<leftarrow>xs. sock g (sock_read g x ws) y ! 0) = (\<Sum>y\<leftarrow>xs. sock g ws y ! 0)"
  proof (rule arg_cong [where f = sum_list], rule map_cong [OF refl])
    fix y assume "y \<in> set xs"
    then have "sock g (sock_read g x ws) y = sock g ws y"
      using Cons.prems by (intro sock_read_other(2)) auto
    then show "sock g (sock_read g x ws) y ! 0 = sock g ws y ! 0" by simp
  qed
  moreover have "rx_npkts (fst ?r) = sock g ws x ! 0"
    unfolding get_socket_stats [of ws x g, symmetric, OF Cons.prems(2) [rule_format, OF list.set_intros(1)]]
    by (simp add: counters_def)
  moreover have "fst (sum_rx g (x # xs) (t, ws)) = fst (sum_rx g xs (t + rx_npkts (fst ?r), sock_read g x ws))"
    by (cases x) (simp add: case_prod_unfold sock_read_def Let_def)
  ultimately show ?case
    using Cons.IH [of "sock_read g x ws"] Cons.prems by (simp add: sock_read_other(1) add.assoc)
qed simp

text \<open>
  With AF_XDP alone the number written on a signal is the sum of the received packets; as soon
  as XDP takes part it is the sum of the map \<open>xdp_stats\<close>, whatever the sockets have received.
\<close>

theorem print_stats_total:
  assumes "fits c ws"
  shows "(c_working_mode c = MODE_AF_XDP \<longrightarrow> (\<exists>ws'. print_stats g True lookup c ws = Inr (\<Sum>x\<leftarrow>socket_ids c. sock g ws x ! 0, ws')))
    \<and> (c_working_mode c = MODE_COMBINED \<longrightarrow> print_stats g True (Some vs) c ws = Inr (foldl (+) 0 vs, ws))"
proof -
  have "distinct (socket_ids c)"
    by (simp add: socket_ids_def distinct_product)
  then show ?thesis
    using sum_rx_eq [of "socket_ids c" ws g 0] fits_ids [OF assms]
    by (auto simp: print_stats_def MODE_AF_XDP_def MODE_XDP_def MODE_COMBINED_def prod_eq_iff)
qed

lemma dump_sockets_bound: "dump_sockets fp g dt ex ap xs d = Inr d' \<Longrightarrow> x \<in> set xs \<Longrightarrow> fst x < XSKNF_MAX_WORKERS"
  by (induction xs arbitrary: d) (auto simp: dump_socket_def Let_def split: sum.split_asm if_splits prod.splits)

text \<open>With more than 32 workers the first report writes behind the array of old counters.\<close>

theorem stats_too_many_workers:
  fixes fp :: "'d fp" and ws :: "'st worker list"
  assumes "c_working_mode c AND MODE_AF_XDP \<noteq> 0" "c_interfaces c \<noteq> []" "XSKNF_MAX_WORKERS < unat (c_workers c)"
  shows "dump_stats fp g now c ex ap ws s = Inl StatsFault"
proof -
  have "(XSKNF_MAX_WORKERS, 0) \<in> set (socket_ids c)"
    using assms(2,3) by (simp add: socket_ids_def)
  moreover have "dump_sockets fp g dt ex ap xs d = Inl e \<Longrightarrow> e = StatsFault" for dt xs e and d :: "('d, 'st) dump"
    by (induction xs arbitrary: d) (auto simp: dump_socket_def Let_def split: sum.split_asm if_splits prod.splits)
  moreover have "dump_sockets fp g dt ex ap (socket_ids c) d \<noteq> Inr d'" for dt d' and d :: "('d, 'st) dump"
    using dump_sockets_bound [of fp g dt ex ap "socket_ids c" d d'] calculation(1) by fastforce
  ultimately have "dump_sockets fp g dt ex ap (socket_ids c) d = Inl StatsFault" for dt and d :: "('d, 'st) dump"
    by (metis sum.exhaust)
  then show ?thesis
    using assms(1) by (simp add: dump_stats_def)
qed

section \<open>An example\<close>

definition stats_conf :: xsknf_config where
  "stats_conf = default_conf\<lparr>c_interfaces := [''eth0''], c_bind_flags := [8]\<rparr>"

definition counted :: "u64 \<Rightarrow> unit worker list" where
  "counted n = [\<lparr>wid = 0, xsks = [(xsk_configure_socket 8 0 0 4096)\<lparr>stats := no_stats\<lparr>rx_npkts := n\<rparr>\<rparr>],
     bufs = \<lambda>_ _. 0, app = (), clock = 0\<rparr>]"

definition no_getsockopt :: "nat \<Rightarrow> nat \<Rightarrow> getsockopt_t" where
  "no_getsockopt i j len = Inl EINVAL"

definition stats0 :: stats_state where
  "stats0 = \<lparr>start_time = 0, prev_time = 0, old_socket_stats = \<lambda>_ _. replicate NSTATS 0\<rparr>"

lemma sample_counted:
  "fits stats_conf (counted n)" "socket_ids stats_conf = [(0, 0)]" "sock no_getsockopt (counted n) (0, 0) ! 0 = n"
  by (simp_all add: fits_def stats_conf_def default_conf_def counted_def MODE_AF_XDP_def XSKNF_MAX_WORKERS_def socket_ids_def
      sock_def xsk_get_xdp_stats_def no_getsockopt_def counters_def)

theorem stats_report_witness:
  "\<exists>r ws' s' rows. dump_stats exact no_getsockopt 1000 stats_conf True True (counted 5) stats0 = Inr (r, ws', s')
    \<and> map_of r None = Some rows \<and> snd (snd (rows ! 0)) = 5"
  using stats_report [OF sample_counted(1), of exact no_getsockopt 1000 5 stats0]
  by (force simp: sample_counted NSTATS_def)

theorem stats_rates_telescope_witness:
  "\<exists>rs. dump_run exact no_getsockopt stats_conf [(1000, counted 5), (3000, counted 25)] stats0 = Inr rs
    \<and> (\<Sum>(dt, r)\<leftarrow>rs. rate (0, 0) 0 r * sval dt / 1000000000) = 25"
  using stats_rates_telescope [of "[(1000, counted 5), (3000, counted 25)]" stats_conf "(0, 0)" 0 no_getsockopt stats0]
  by (simp add: sample_counted NSTATS_def stats0_def val_def)

end
