(* ===== verification/Preload.thy ===== *)
theory Preload
  imports Sc_Server Xsk_Config
begin

text \<open>
  The program that fills the connection table of a server agent with random flows,
  \<open>server_in_user.c\<close>; the copies in \<open>examples/htscookie\<close> and \<open>examples/smartcookie\<close> differ only in
  the name of the table.  The two static arrays are byte memories, \<open>rand\<close> is a sequence of numbers,
  and the table takes from the arrays as many bytes per element as its own key and value have.
\<close>

section \<open>The program\<close>

definition MAX_ENTRY :: nat where "MAX_ENTRY = 1000000"
definition sizeof_key :: nat where "sizeof_key = 12"

datatype preload_error = BadUsage | TooMany | NoTable | KeysOverflow | BatchOverread

text \<open>
  \<open>memcpy (&(keys[i]) + (j*4), &temp, 4)\<close>: the offset counts keys, not bytes.  A write behind the
  array is an error.
\<close>

definition put_key :: "nat \<Rightarrow> nat \<Rightarrow> u32 \<Rightarrow> mem \<Rightarrow> preload_error + mem" where
  "put_key i j temp keys =
     (let p = sizeof_key * (i + j * 4)
      in if p + 4 > sizeof_key * MAX_ENTRY then Inl KeysOverflow else Inr (st32 keys p temp))"

fun put_words :: "(nat \<Rightarrow> u32) \<Rightarrow> nat \<Rightarrow> nat \<Rightarrow> mem \<Rightarrow> preload_error + mem" where
  "put_words rand i 0 keys = Inr keys"
| "put_words rand i (Suc j) keys =
     (case put_words rand i j keys of Inl e \<Rightarrow> Inl e | Inr keys \<Rightarrow> put_key i j (rand (3 * i + j)) keys)"

definition put_val :: "nat \<Rightarrow> mem \<Rightarrow> mem" where
  "put_val i vals = st32 (st32 vals (8 * i + 4) 1) (8 * i) 15"

fun fill_arrays :: "(nat \<Rightarrow> u32) \<Rightarrow> nat \<Rightarrow> preload_error + mem \<times> mem" where
  "fill_arrays rand 0 = Inr (\<lambda>_. 0, \<lambda>_. 0)"
| "fill_arrays rand (Suc i) =
     (case fill_arrays rand i of
        Inl e \<Rightarrow> Inl e
      | Inr (keys, vals) \<Rightarrow>
          (case put_words rand i 3 keys of Inl e \<Rightarrow> Inl e | Inr keys \<Rightarrow> Inr (keys, put_val i vals)))"

text \<open>The number of flows with the arrays; a negative number is handed to the kernel as a huge one.\<close>

definition preload :: "(nat \<Rightarrow> u32) \<Rightarrow> string list \<Rightarrow> int \<Rightarrow> preload_error + nat \<times> mem \<times> mem" where
  "preload rand argv fd =
     (if length argv \<noteq> 2 then Inl BadUsage
      else
        (let connection_num = sint (atoi (argv ! 1))
         in if connection_num > int MAX_ENTRY then Inl TooMany
            else if fd < 0 then Inl NoTable
            else if connection_num < 0 then Inl BatchOverread
            else
              (case fill_arrays rand (nat connection_num) of
                 Inl e \<Rightarrow> Inl e
               | Inr (keys, vals) \<Rightarrow> Inr (nat connection_num, keys, vals))))"

section \<open>What the tables get\<close>

definition batch_key :: "mem \<Rightarrow> nat \<Rightarrow> map_key_t" where
  "batch_key keys k = (let p = sizeof_key * k
     in \<lparr>src_ip = ld32 keys p, dst_ip = ld32 keys (p + 4), src_port = ld16 keys (p + 8), dst_port = ld16 keys (p + 10)\<rparr>)"

text \<open>The values of \<open>smartcookie\<close> have 8 bytes, those of \<open>htscookie\<close> 24.\<close>

definition sc_batch_val :: "mem \<Rightarrow> nat \<Rightarrow> sc_val" where
  "sc_batch_val vals k = \<lparr>sc_ts_val_s = ld32 vals (8 * k), sc_delta = ld32 vals (8 * k + 4)\<rparr>"

definition hts_batch_val :: "mem \<Rightarrow> nat \<Rightarrow> map_val_t" where
  "hts_batch_val vals k =
     \<lparr>hybrid_cookie = ld32 vals (24 * k), hash_cookie = ld32 vals (24 * k + 4), cur_hash_seed = ld32 vals (24 * k + 8),
      ts_val_s = ld32 vals (24 * k + 12), delta = ld32 vals (24 * k + 16), cur_cookie_head = ld32 vals (24 * k + 20)\<rparr>"

section \<open>Keys\<close>

lemma put_words_3:
  "put_words rand i 3 keys =
     (if i + 8 < MAX_ENTRY
      then Inr (st32 (st32 (st32 keys (12 * i) (rand (3 * i))) (12 * i + 48) (rand (3 * i + 1))) (12 * i + 96) (rand (3 * i + 2)))
      else Inl KeysOverflow)"
  by (auto simp: numeral_3_eq_3 put_key_def sizeof_key_def MAX_ENTRY_def Let_def algebra_simps)

definition key_word :: "mem \<Rightarrow> nat \<Rightarrow> u32" where
  "key_word keys k = ld32 keys (12 * k)"

definition tail_zero :: "mem \<Rightarrow> bool" where
  "tail_zero keys \<longleftrightarrow> (\<forall>k r. 4 \<le> r \<longrightarrow> r < 12 \<longrightarrow> keys (12 * k + r) = 0)"

lemma st32_elsewhere: "a < p \<or> p + 4 \<le> a \<Longrightarrow> st32 m p v a = m a"
  by (auto simp: st32_def)

lemma st32_key:
  "key_word (st32 keys (12 * q) v) k = (if k = q then v else key_word keys k)" "tail_zero keys \<Longrightarrow> tail_zero (st32 keys (12 * q) v)"
proof -
  have o: "st32 keys (12 * q) v (12 * k + r) = keys (12 * k + r)" if "k \<noteq> q" "r < 12" for k r
    using that by (intro st32_elsewhere) arith
  have "ld32 (st32 keys (12 * q) v) (12 * k) = ld32 keys (12 * k)" if "k \<noteq> q"
    using o [OF that, of 0] o [OF that, of 1] o [OF that, of 2] o [OF that, of 3] by (simp add: ld32_def)
  then show "key_word (st32 keys (12 * q) v) k = (if k = q then v else key_word keys k)"
    by (simp add: key_word_def mem_simps)
  show "tail_zero (st32 keys (12 * q) v)" if "tail_zero keys"
    unfolding tail_zero_def
  proof (intro allI impI)
    fix k r :: nat assume r: "4 \<le> r" "r < 12"
    have "st32 keys (12 * q) v (12 * k + r) = keys (12 * k + r)"
      using r by (intro st32_elsewhere) arith
    then show "st32 keys (12 * q) v (12 * k + r) = 0"
      using that r by (simp add: tail_zero_def)
  qed
qed

lemma fill_arrays_keys:
  assumes "fill_arrays rand n = Inr (keys, vals)"
  shows "tail_zero keys \<and> (\<forall>k < n. key_word keys k = rand (3 * k))"
  using assms
proof (induction n arbitrary: keys vals)
  case (Suc n)
  obtain keys0 vals0 where f: "fill_arrays rand n = Inr (keys0, vals0)"
    "keys = st32 (st32 (st32 keys0 (12 * n) (rand (3 * n))) (12 * (n + 4)) (rand (3 * n + 1))) (12 * (n + 8)) (rand (3 * n + 2))"
    using Suc.prems by (auto simp: put_words_3 add.commute split: sum.splits if_splits)
  have "tail_zero keys"
    unfolding f(2) using Suc.IH [OF f(1)] by (intro st32_key(2)) blast
  moreover have "key_word keys k = (if k = n then rand (3 * n) else key_word keys0 k)" if "k < n + 4" for k
    unfolding f(2) st32_key(1) using that by simp
  ultimately show ?case
    using Suc.IH [OF f(1)] by (simp add: less_Suc_eq)
qed (simp add: tail_zero_def)

lemma fill_arrays_total: "n + 8 \<le> MAX_ENTRY \<Longrightarrow> \<exists>keys vals. fill_arrays rand n = Inr (keys, vals)"
  by (induction n) (auto simp: put_words_3)

lemma fill_arrays_overflow: "MAX_ENTRY < n + 8 \<Longrightarrow> fill_arrays rand n = Inl KeysOverflow"
proof (induction n)
  case (Suc n)
  then show ?case
    using fill_arrays_total [of n rand] by (cases "MAX_ENTRY < n + 8") (auto simp: put_words_3)
qed (simp add: MAX_ENTRY_def)

section \<open>Values\<close>

lemma put_val_word: "ld32 (put_val i vals) (4 * q) = (if q = 2 * i then 15 else if q = 2 * i + 1 then 1 else ld32 vals (4 * q))"
proof -
  have o: "ld32 (st32 m (4 * p) v) (4 * q) = (if q = p then v else ld32 m (4 * q))" for m p v
  proof (cases "q = p")
    case False
    then have "st32 m (4 * p) v (4 * q + r) = m (4 * q + r)" if "r < 4" for r
      using that by (intro st32_elsewhere) arith
    from this [of 0] this [of 1] this [of 2] this [of 3] False show ?thesis
      by (simp add: ld32_def)
  qed (simp add: mem_simps)
  have e: "8 * i + 4 = 4 * (2 * i + 1)" "8 * i = 4 * (2 * i)"
    by simp_all
  show ?thesis
    unfolding put_val_def e(1) unfolding e(2) o by auto
qed

lemma fill_arrays_vals:
  assumes "fill_arrays rand n = Inr (keys, vals)"
  shows "ld32 vals (4 * q) = (if q < 2 * n then if even q then 15 else 1 else 0)"
  using assms
proof (induction n arbitrary: keys vals)
  case 0
  then show ?case by (auto simp: ld32_def mk32_def)
next
  case (Suc n)
  obtain keys0 vals0 where f: "fill_arrays rand n = Inr (keys0, vals0)" "vals = put_val n vals0"
    using Suc.prems by (auto split: sum.splits)
  then show ?case
    using Suc.IH [OF f(1)] by (auto simp: put_val_word)
qed

section \<open>Results\<close>

text \<open>
  What is entered.  For up to 999,992 flows the program succeeds, and every key has a random
  source address, but destination address and both ports zero: no key is that of a TCP
  connection to a host.  In the table of \<open>smartcookie\<close> the values are the ones meant; in that of
  \<open>htscookie\<close>, whose values are three times as long, the first third of the keys get the numbers
  of three values in the wrong fields and the others, as far as the array reaches, nothing but
  zeros.
\<close>

theorem preload_entries:
  assumes "sint (atoi arg) = int n" "n + 8 \<le> MAX_ENTRY" "0 \<le> fd"
  shows "\<exists>keys vals. preload rand [argv0, arg] fd = Inr (n, keys, vals)
    \<and> (\<forall>k < n. batch_key keys k = \<lparr>src_ip = rand (3 * k), dst_ip = 0, src_port = 0, dst_port = 0\<rparr>
              \<and> sc_batch_val vals k = \<lparr>sc_ts_val_s = 15, sc_delta = 1\<rparr>)
    \<and> (\<forall>k. 3 * k + 3 \<le> n \<longrightarrow> hts_batch_val vals k = \<lparr>hybrid_cookie = 15, hash_cookie = 1, cur_hash_seed = 15, ts_val_s = 1, delta = 15, cur_cookie_head = 1\<rparr>)
    \<and> (\<forall>k. n \<le> 3 * k \<and> 3 * k + 3 \<le> MAX_ENTRY \<longrightarrow> hts_batch_val vals k = map_val_zero)"
proof -
  obtain keys vals where f: "fill_arrays rand n = Inr (keys, vals)"
    using fill_arrays_total [OF assms(2)] by blast
  note k = fill_arrays_keys [OF f] and v = fill_arrays_vals [OF f]
  have "batch_key keys k = \<lparr>src_ip = rand (3 * k), dst_ip = 0, src_port = 0, dst_port = 0\<rparr>" if "k < n" for k
  proof -
    have z: "keys (12 * k + r) = 0" if "4 \<le> r" "r < 12" for r
      using k that by (simp add: tail_zero_def)
    show ?thesis
      using k \<open>k < n\<close> z [of 4] z [of 5] z [of 6] z [of 7] z [of 8] z [of 9] z [of 10] z [of 11]
      by (simp add: batch_key_def sizeof_key_def key_word_def ld32_def [of _ "4 + 12 * k"] ld16_def mk32_def mk16_def Let_def add.commute)
  qed
  moreover have "sc_batch_val vals k = \<lparr>sc_ts_val_s = 15, sc_delta = 1\<rparr>" if "k < n" for k
    using v [of "2 * k"] v [of "2 * k + 1"] that by (simp add: sc_batch_val_def add.commute)
  moreover have "3 * k + 3 \<le> n \<Longrightarrow> hts_batch_val vals k = \<lparr>hybrid_cookie = 15, hash_cookie = 1, cur_hash_seed = 15, ts_val_s = 1, delta = 15, cur_cookie_head = 1\<rparr>"
    "n \<le> 3 * k \<Longrightarrow> hts_batch_val vals k = map_val_zero" for k
    using v [of "6 * k"] v [of "6 * k + 1"] v [of "6 * k + 2"] v [of "6 * k + 3"] v [of "6 * k + 4"] v [of "6 * k + 5"]
    by (auto simp: hts_batch_val_def map_val_zero_def add.commute)
  moreover have "preload rand [argv0, arg] fd = Inr (n, keys, vals)"
    using assms f by (simp add: preload_def)
  ultimately show ?thesis by blast
qed

text \<open>The last numbers of flows that the program accepts make it write behind the array of keys.\<close>

theorem preload_overflow:
  assumes "sint (atoi arg) = int n" "n \<le> MAX_ENTRY" "MAX_ENTRY < n + 8" "0 \<le> fd"
  shows "preload rand [argv0, arg] fd = Inl KeysOverflow"
  using assms fill_arrays_overflow [OF assms(3), of rand] by (simp add: preload_def)

theorem preload_entries_witness:
  "\<exists>keys vals. preload (\<lambda>i. of_nat i) [''server_in'', ''9''] 3 = Inr (9, keys, vals)
    \<and> batch_key keys 8 = \<lparr>src_ip = 24, dst_ip = 0, src_port = 0, dst_port = 0\<rparr> \<and> hts_batch_val vals 8 = map_val_zero"
proof -
  have "sint (atoi ''9'') = int 9"
    by (simp add: atoi_def strtol10_def is_space_def)
  moreover have "9 + 8 \<le> MAX_ENTRY"
    by (simp add: MAX_ENTRY_def)
  ultimately obtain keys vals where "preload (\<lambda>i. of_nat i) [''server_in'', ''9''] 3 = Inr (9, keys, vals)"
    and k: "\<forall>k < 9. batch_key keys k = \<lparr>src_ip = of_nat (3 * k), dst_ip = 0, src_port = 0, dst_port = 0\<rparr>
      \<and> sc_batch_val vals k = \<lparr>sc_ts_val_s = 15, sc_delta = 1\<rparr>"
    and v: "\<forall>k. 9 \<le> 3 * k \<and> 3 * k + 3 \<le> MAX_ENTRY \<longrightarrow> hts_batch_val vals k = map_val_zero"
    using preload_entries [of "''9''" 9 3 "\<lambda>i. of_nat i" "''server_in''"] by auto
  then show ?thesis
    using v [rule_format, of 8] by (auto simp: MAX_ENTRY_def)
qed

theorem preload_overflow_witness: "preload (\<lambda>_. 7) [''server_in'', ''1000000''] 3 = Inl KeysOverflow"
proof -
  have "sint (atoi ''1000000'') = int 1000000"
    by (simp add: atoi_def strtol10_def is_space_def)
  from preload_overflow [OF this, of 3] show ?thesis
    by (simp add: MAX_ENTRY_def)
qed

end
