(* ===== verification/Test_Client.thy ===== *)
theory Test_Client
  imports EC_Prelude
begin

text \<open>
  The HTTP client of \<open>src/test/client.c\<close>, which connects again when the switch agent has reset its
  first connection.  The answers of the operating system are lists, consumed call by call; a
  list that ends stands for a call that does not return, and the result is then \<open>None\<close>.
  \<open>keeps\<close> tells what \<open>errno\<close> is after the calls of \<open>printf\<close>, \<open>sleep\<close> and a successful \<open>connect\<close>.
\<close>

section \<open>The client\<close>

type_synonym errno = nat

definition ECONNRESET :: errno where "ECONNRESET = 104"

datatype answer = Ok nat | Err errno

record client_os =
  connects :: "answer list"
  writes :: "answer list"
  reads :: "answer list"
  errno :: errno

datatype outcome = Returned int | ExitedProg int

definition request_template :: "string \<Rightarrow> string" where
  "request_template host = ''GET / HTTP/1.1'' @ [CHR 0x0D, CHR 0x0A] @ ''Host: '' @ host @ [CHR 0x0D, CHR 0x0A, CHR 0x0D, CHR 0x0A]"

definition request_len :: nat where
  "request_len = length (request_template ''10.19.0.3'')"

fun write_loop :: "answer list \<Rightarrow> nat \<Rightarrow> (errno + answer list) option" where
  "write_loop as sent =
     (if request_len \<le> sent then Some (Inr as)
      else (case as of [] \<Rightarrow> None | Err e # _ \<Rightarrow> Some (Inl e) | Ok n # as \<Rightarrow> write_loop as (sent + n)))"

text \<open>\<open>errno\<close> is set only by a call that fails.\<close>

fun read_loop :: "answer list \<Rightarrow> errno \<Rightarrow> (answer list \<times> errno) option" where
  "read_loop [] e = None"
| "read_loop (Ok n # as) e = (if n = 0 then Some (as, e) else read_loop as e)"
| "read_loop (Err e' # as) e = Some (as, e')"

definition sendReq :: "client_os \<Rightarrow> (outcome + bool \<times> client_os) option" where
  "sendReq s =
     (case write_loop (writes s) 0 of
        None \<Rightarrow> None
      | Some (Inl e) \<Rightarrow> Some (Inl (ExitedProg (- 1)))
      | Some (Inr as) \<Rightarrow>
          (case read_loop (reads s) (errno s) of
             None \<Rightarrow> None
           | Some (bs, e) \<Rightarrow> Some (Inr (e = ECONNRESET, s\<lparr>writes := as, reads := bs, errno := e\<rparr>))))"

text \<open>The loop of \<open>main\<close>, one round per \<open>connect\<close>.\<close>

fun connect_loop :: "(errno \<Rightarrow> errno) \<Rightarrow> answer list \<Rightarrow> client_os \<Rightarrow> outcome option" where
  "connect_loop keeps [] s = None"
| "connect_loop keeps (Err e # cs) s = Some (Returned (- 1))"
| "connect_loop keeps (Ok n # cs) s =
     (case sendReq (s\<lparr>errno := keeps (errno s)\<rparr>) of
        None \<Rightarrow> None
      | Some (Inl r) \<Rightarrow> Some r
      | Some (Inr (again, s)) \<Rightarrow> if again then connect_loop keeps cs s else Some (Returned 0))"

definition client_main :: "(errno \<Rightarrow> errno) \<Rightarrow> bool \<Rightarrow> client_os \<Rightarrow> outcome option" where
  "client_main keeps socket_ok s =
     (if \<not> socket_ok then Some (Returned (- 1)) else connect_loop keeps (connects s) s)"

section \<open>Behaviour\<close>

declare write_loop.simps [simp del]

lemma write_loop_all: "request_len \<le> n \<Longrightarrow> write_loop (Ok n # as) 0 = Some (Inr as)"
  by (simp add: write_loop.simps [of _ 0] write_loop.simps [of _ n] request_len_def request_template_def)

lemma read_loop_errno: "read_loop as e = Some (bs, e') \<Longrightarrow> e' = e \<or> Err e' \<in> set as"
  by (induction as e rule: read_loop.induct) (auto split: if_splits)

lemma read_loop_rest: "read_loop as e = Some (bs, e') \<Longrightarrow> set bs \<subseteq> set as"
  by (induction as e rule: read_loop.induct) (auto split: if_splits)

lemma sendReq_errno:
  assumes "sendReq s = Some (Inr (again, s'))"
  shows "again = (errno s' = ECONNRESET)" "errno s' = errno s \<or> Err (errno s') \<in> set (reads s)" "set (reads s') \<subseteq> set (reads s)"
  using assms read_loop_errno read_loop_rest
  by (fastforce simp: sendReq_def split: option.split_asm sum.split_asm prod.split_asm)+

text \<open>The first response without a reset ends the client with success.\<close>

lemma first_answer: "errno s = 0 \<Longrightarrow> keeps 0 = 0 \<Longrightarrow> connects s = Ok c # cs \<Longrightarrow> writes s = Ok n # ws \<Longrightarrow> request_len \<le> n \<Longrightarrow>
    read_loop (reads s) 0 = Some (rs, 0) \<Longrightarrow> client_main keeps True s = Some (Returned 0)"
  by (simp add: client_main_def sendReq_def write_loop_all ECONNRESET_def)

lemma reset_sticks:
  assumes "errno s = ECONNRESET" "keeps ECONNRESET = ECONNRESET" "\<forall>e. Err e \<in> set (reads s) \<longrightarrow> e = ECONNRESET"
  shows "connect_loop keeps cs s \<noteq> Some (Returned 0)"
  using assms
proof (induction keeps cs s rule: connect_loop.induct)
  case (3 keeps n cs s)
  show ?case
  proof (cases "sendReq (s\<lparr>errno := keeps (errno s)\<rparr>)")
    case (Some x)
    show ?thesis
    proof (cases x)
      case (Inl r)
      then show ?thesis
        using Some by (auto simp: sendReq_def split: option.split_asm sum.split_asm prod.split_asm)
    next
      case (Inr y)
      obtain again s' where y: "y = (again, s')" by fastforce
      note q = sendReq_errno [OF Some [unfolded Inr y]]
      have e: "errno s' = ECONNRESET" "\<forall>e. Err e \<in> set (reads s') \<longrightarrow> e = ECONNRESET"
        using q 3(2-4) by auto
      then show ?thesis
        using 3(1) [OF Some Inr y [symmetric]] 3(3) q(1) Some Inr y by simp
    qed
  qed simp
qed simp_all

text \<open>
  A client whose first connection was reset does not end with success, although its second
  connection delivers the whole response: \<open>errno\<close> still says that the connection was reset, the
  client connects once more, and the connected socket refuses.  Only a read that fails in another
  way can end the loop with success.
\<close>

theorem client_after_reset:
  assumes "keeps ECONNRESET = ECONNRESET" "connects s = Ok c # cs" "writes s = Ok n # ws" "reads s = Err ECONNRESET # rs" "request_len \<le> n"
  shows "((\<forall>e. Err e \<in> set rs \<longrightarrow> e = ECONNRESET) \<longrightarrow> client_main keeps True s \<noteq> Some (Returned 0))
    \<and> (cs = [Ok c', Err e'] \<longrightarrow> ws = [Ok n'] \<longrightarrow> request_len \<le> n' \<longrightarrow> read_loop rs ECONNRESET = Some (us, ECONNRESET) \<longrightarrow>
        client_main keeps True s = Some (Returned (- 1)))"
proof -
  let ?s = "s\<lparr>writes := ws, reads := rs, errno := ECONNRESET\<rparr>"
  have "client_main keeps True s = connect_loop keeps cs ?s"
    using assms by (simp add: client_main_def sendReq_def write_loop_all)
  moreover have "connect_loop keeps cs ?s = Some (Returned (- 1))"
    if "cs = [Ok c', Err e']" "ws = [Ok n']" "request_len \<le> n'" "read_loop rs ECONNRESET = Some (us, ECONNRESET)"
    using that assms(1) by (simp add: sendReq_def write_loop_all)
  ultimately show ?thesis
    using reset_sticks [of ?s keeps cs] assms(1) by simp
qed

theorem client_after_reset_witness:
  "client_main (\<lambda>e. e) True \<lparr>connects = [Ok 0, Ok 0, Err 106], writes = [Ok 35, Ok 35], reads = [Err 104, Ok 500, Ok 0], errno = 0\<rparr>
    = Some (Returned (- 1))"
  using client_after_reset [of "\<lambda>e. e" "\<lparr>connects = [Ok 0, Ok 0, Err 106], writes = [Ok 35, Ok 35], reads = [Err 104, Ok 500, Ok 0], errno = 0\<rparr>"
      0 "[Ok 0, Err 106]" 35 "[Ok 35]" "[Ok 500, Ok 0]" 0 106 35 "[]"]
  by (simp add: ECONNRESET_def request_len_def request_template_def)

end
