(* ===== verification/Bloom_Race.thy ===== *)
theory Bloom_Race
  imports Bloom "HOL-Library.Multiset" "HOL-Library.Disjoint_Sets"
begin

text \<open>
  Several workers insert into one Bloom filter.  The switch agents hold their filter in a global
  variable, every worker thread calls \<open>bloom_filter_put\<close> on it and no lock is taken.  The
  statement \<open>*byte |= mask\<close> of \<open>bit_vect_set\<close> and \<open>num_items++\<close> of \<open>bloom_filter_put\<close> are each a load
  followed by a store, so a run is an interleaving of these micro-steps.  This theory models one
  micro-step of a worker as an executable function, all interleavings as a step relation, and
  shows what the filter still guarantees and what it loses compared with the sequential
  insertions of \<open>Bloom\<close>.
\<close>

section \<open>Micro-steps of an insertion\<close>

text \<open>
  Where a worker stands in \<open>bloom_filter_put\<close>: outside of it, before the next hash function, with
  the word of bit \<open>idx\<close> in a register, after the store of that word, and with \<open>num_items\<close> in a
  register.  The last argument holds the hash functions still to come.
\<close>

datatype put_pc =
    PutIdle
  | PutNext "u8 list" "(u8 list \<Rightarrow> u32) list"
  | PutLoaded "u8 list" nat u32 "(u8 list \<Rightarrow> u32) list"
  | PutStored "u8 list" "(u8 list \<Rightarrow> u32) list"
  | PutCounted "u8 list" nat "(u8 list \<Rightarrow> u32) list"

record put_worker =
  pc :: put_pc
  queue :: "u8 list list"
  finished :: "u8 list list"

definition put_worker_new :: "u8 list list \<Rightarrow> put_worker" where
  "put_worker_new ds = \<lparr>pc = PutIdle, queue = ds, finished = []\<rparr>"

text \<open>One micro-step; \<open>None\<close> when the worker has nothing left to insert.\<close>

definition put_micro :: "put_worker \<Rightarrow> bloom_filter \<Rightarrow> (bv_error + put_worker \<times> bloom_filter) option" where
  "put_micro w flt =
     (case pc w of
        PutIdle \<Rightarrow>
          (case queue w of
             [] \<Rightarrow> None
           | d # ds \<Rightarrow> Some (Inr (w\<lparr>pc := PutNext d (hash_functions flt), queue := ds\<rparr>, flt)))
      | PutNext d [] \<Rightarrow> Some (Inr (w\<lparr>pc := PutIdle, finished := d # finished w\<rparr>, flt))
      | PutNext d (f # fs) \<Rightarrow>
          (if bit_size (vect flt) = 0 then Some (Inl BvFault)
           else
             (let bit_idx = unat (f d) mod bit_size (vect flt);
                  chunk_offset = bit_idx div 32
              in if bit_idx \<ge> bit_size (vect flt) then Some (Inl BvExit)
                 else if chunk_offset \<ge> length (words (vect flt)) then Some (Inl BvFault)
                 else Some (Inr (w\<lparr>pc := PutLoaded d bit_idx (words (vect flt) ! chunk_offset) fs\<rparr>, flt))))
      | PutLoaded d bit_idx x fs \<Rightarrow>
          (let bit_offset = unat ((of_nat bit_idx :: u64) AND 31)
           in Some (Inr (w\<lparr>pc := PutStored d fs\<rparr>,
                flt\<lparr>vect := (vect flt)\<lparr>words := (words (vect flt))[bit_idx div 32 := x OR push_bit bit_offset 1]\<rparr>\<rparr>)))
      | PutStored d fs \<Rightarrow> Some (Inr (w\<lparr>pc := PutCounted d (num_items flt) fs\<rparr>, flt))
      | PutCounted d n fs \<Rightarrow> Some (Inr (w\<lparr>pc := PutNext d fs\<rparr>, flt\<lparr>num_items := n + 1\<rparr>)))"

type_synonym put_state = "put_worker list \<times> bloom_filter"

inductive put_step :: "put_state \<Rightarrow> put_state \<Rightarrow> bool" where
  micro: "i < length ws \<Longrightarrow> put_micro (ws ! i) flt = Some (Inr (w', flt')) \<Longrightarrow>
     put_step (ws, flt) (ws[i := w'], flt')"

inductive_cases put_stepE: "put_step (ws, flt) s'"

text \<open>A schedule names, step by step, the worker that moves.\<close>

fun put_sched :: "nat list \<Rightarrow> put_state \<Rightarrow> put_state option" where
  "put_sched [] s = Some s"
| "put_sched (i # is) (ws, flt) =
     (if i < length ws then
        (case put_micro (ws ! i) flt of
           Some (Inr (w', flt')) \<Rightarrow> put_sched is (ws[i := w'], flt')
         | _ \<Rightarrow> None)
      else None)"

definition put_done :: "put_state \<Rightarrow> bool" where
  "put_done s \<longleftrightarrow> (\<forall>w \<in> set (fst s). pc w = PutIdle \<and> queue w = [])"

lemma put_sched_reach: "put_sched is s = Some s' \<Longrightarrow> put_step\<^sup>*\<^sup>* s s'"
proof (induction "is" s rule: put_sched.induct)
  case (2 i "is" ws flt)
  then show ?case
    by (fastforce split: if_splits option.splits sum.splits intro: micro converse_rtranclp_into_rtranclp)
qed simp

lemma put_reach_sched: "put_step\<^sup>*\<^sup>* s s' \<Longrightarrow> \<exists>is. put_sched is s = Some s'"
proof (induction rule: converse_rtranclp_induct)
  case base
  show ?case by (rule exI [of _ "[]"]) simp
next
  case (step s t)
  from step.IH obtain "is" where "put_sched is t = Some s'" by blast
  with step.hyps(1) show ?case
  proof cases
    case (micro i ws flt w' flt')
    then show ?thesis
      using \<open>put_sched is t = Some s'\<close> by (intro exI [of _ "i # is"]) simp
  qed
qed

section \<open>The bits of a word held in a register\<close>

definition wbits :: "nat \<Rightarrow> nat \<Rightarrow> u32 \<Rightarrow> nat set" where
  "wbits n c x = {i. i < n \<and> i div 32 = c \<and> bit x (i mod 32)}"

definition in_word :: "nat \<Rightarrow> nat set" where
  "in_word c = {i. i div 32 = c}"

lemma ones_bit: "bv_ok v \<Longrightarrow> bv.ones v = {i. i < bit_size v \<and> bit (words v ! (i div 32)) (i mod 32)}"
  by (auto simp: bv.ones_def bit_vect_get_eq)

lemma wbits_load: "bv_ok v \<Longrightarrow> wbits (bit_size v) c (words v ! c) = bv.ones v \<inter> in_word c"
  by (auto simp: wbits_def in_word_def ones_bit)

definition store_word :: "bit_vect \<Rightarrow> nat \<Rightarrow> u32 \<Rightarrow> bit_vect" where
  "store_word v i x = v\<lparr>words := (words v)[i div 32 := x OR push_bit (i mod 32) 1]\<rparr>"

lemma store_word_simps [simp]:
  "bit_size (store_word v i x) = bit_size v" "bv_ok (store_word v i x) = bv_ok v"
  by (simp_all add: store_word_def bv_ok_def)

lemma same_word_index: "j div 32 = i div 32 \<Longrightarrow> (j mod 32 = i mod 32) = (j = (i :: nat))"
  by (metis div_mult_mod_eq)

lemma ones_store:
  assumes "bv_ok v" "i < bit_size v"
  shows "bv.ones (store_word v i x) =
    insert i (wbits (bit_size v) (i div 32) x \<union> (bv.ones v - in_word (i div 32)))"
proof -
  have l: "i div 32 < length (words v)" using assms by (auto simp: bv_ok_def)
  have "bit (words (store_word v i x) ! (j div 32)) (j mod 32) =
     (if j div 32 = i div 32 then bit x (j mod 32) \<or> j = i else bit (words v ! (j div 32)) (j mod 32))" for j
    using l same_word_index [of j i] by (auto simp: store_word_def bit_simps)
  then show ?thesis
    using assms by (auto simp: ones_bit wbits_def in_word_def)
qed

section \<open>What every step keeps\<close>

lemma put_micro_store:
  assumes "pc w = PutLoaded d i x fs" "i < 2 ^ 64"
  shows "put_micro w flt = Some (Inr (w\<lparr>pc := PutStored d fs\<rparr>, flt\<lparr>vect := store_word (vect flt) i x\<rparr>))"
  using assms by (simp add: put_micro_def store_word_def bit_offset_mod)

lemma put_micro_load:
  assumes "pc w = PutNext d (f # fs)" "bloom_ok flt"
  defines "i \<equiv> unat (f d) mod bit_size (vect flt)"
  shows "put_micro w flt = Some (Inr (w\<lparr>pc := PutLoaded d i (words (vect flt) ! (i div 32)) fs\<rparr>, flt))"
proof -
  have "i < bit_size (vect flt)" using assms(2) by (simp add: bloom_ok_def i_def)
  moreover from this have "i div 32 < length (words (vect flt))"
    using assms(2) by (auto simp: bloom_ok_def bv_ok_def)
  ultimately show ?thesis
    using assms by (simp add: put_micro_def Let_def)
qed

text \<open>A worker in a step: the position fits the filter.\<close>

definition pc_ok :: "bloom_filter \<Rightarrow> put_pc \<Rightarrow> bool" where
  "pc_ok flt p = (case p of PutLoaded d i x fs \<Rightarrow> i < bit_size (vect flt) | _ \<Rightarrow> True)"

definition put_state_ok :: "put_state \<Rightarrow> bool" where
  "put_state_ok s \<longleftrightarrow> bloom_ok (snd s) \<and> (\<forall>w \<in> set (fst s). pc_ok (snd s) (pc w))"

text \<open>
  The step of one worker, by position: the six transitions of \<open>put_micro\<close> on a well-formed
  filter.
\<close>

lemma put_micro_cases:
  assumes "put_micro w flt = Some (Inr (w', flt'))" "bloom_ok flt" "pc_ok flt (pc w)"
  obtains
    (start) d ds where "pc w = PutIdle" "queue w = d # ds" "flt' = flt"
      "w' = w\<lparr>pc := PutNext d (hash_functions flt), queue := ds\<rparr>"
  | (stop) d where "pc w = PutNext d []" "flt' = flt" "w' = w\<lparr>pc := PutIdle, finished := d # finished w\<rparr>"
  | (load) d f fs i where "pc w = PutNext d (f # fs)" "flt' = flt" "i = unat (f d) mod bit_size (vect flt)"
      "i < bit_size (vect flt)" "w' = w\<lparr>pc := PutLoaded d i (words (vect flt) ! (i div 32)) fs\<rparr>"
  | (store) d i x fs where "pc w = PutLoaded d i x fs" "i < bit_size (vect flt)"
      "flt' = flt\<lparr>vect := store_word (vect flt) i x\<rparr>" "w' = w\<lparr>pc := PutStored d fs\<rparr>"
  | (count) d fs where "pc w = PutStored d fs" "flt' = flt" "w' = w\<lparr>pc := PutCounted d (num_items flt) fs\<rparr>"
  | (add) d n fs where "pc w = PutCounted d n fs" "flt' = flt\<lparr>num_items := n + 1\<rparr>" "w' = w\<lparr>pc := PutNext d fs\<rparr>"
proof (cases "pc w")
  case PutIdle
  then show ?thesis
    using assms(1) that(1) by (auto simp: put_micro_def split: list.splits)
next
  case (PutNext d fs)
  show ?thesis
  proof (cases fs)
    case Nil
    then show ?thesis
      using assms(1) PutNext that(2) by (auto simp: put_micro_def)
  next
    case (Cons f fs')
    have "unat (f d) mod bit_size (vect flt) < bit_size (vect flt)"
      using assms(2) by (simp add: bloom_ok_def)
    then show ?thesis
      using assms(1,2) PutNext Cons put_micro_load [of w d f fs' flt] that(3) [of d f fs' "unat (f d) mod bit_size (vect flt)"]
      by auto
  qed
next
  case (PutLoaded d i x fs)
  then have i: "i < bit_size (vect flt)" using assms(3) by (simp add: pc_ok_def)
  then have "i < 2 ^ 64" using assms(2) by (simp add: bloom_ok_def bv_ok_def)
  then show ?thesis
    using assms(1) PutLoaded i put_micro_store [of w d i x fs flt] that(4) by simp
qed (use assms(1) that(5,6) in \<open>auto simp: put_micro_def\<close>)

lemma put_micro_keeps:
  assumes "put_micro w flt = Some (Inr (w', flt'))" "bloom_ok flt" "pc_ok flt (pc w)"
  shows "bloom_ok flt' \<and> pc_ok flt' (pc w') \<and> hash_functions flt' = hash_functions flt
    \<and> bit_size (vect flt') = bit_size (vect flt)"
  using assms(2,3) by - (rule put_micro_cases [OF assms]; auto simp: bloom_ok_def pc_ok_def)

lemma pc_ok_cong: "bit_size (vect flt') = bit_size (vect flt) \<Longrightarrow> pc_ok flt' = pc_ok flt"
  by (rule ext) (simp add: pc_ok_def split: put_pc.splits)

lemma put_step_keeps:
  assumes "put_step s s'" "put_state_ok s"
  shows "put_state_ok s' \<and> hash_functions (snd s') = hash_functions (snd s)
    \<and> bit_size (vect (snd s')) = bit_size (vect (snd s)) \<and> length (fst s') = length (fst s)"
  using assms
proof cases
  case (micro i ws flt w' flt')
  have "bloom_ok flt" "pc_ok flt (pc (ws ! i))"
    using assms(2) micro by (auto simp: put_state_ok_def)
  from put_micro_keeps [OF micro(4) this] show ?thesis
    using assms(2) micro pc_ok_cong [of flt' flt]
    by (auto simp: put_state_ok_def dest!: set_update_subset_insert [THEN subsetD])
qed

lemma put_reach_keeps:
  assumes "put_step\<^sup>*\<^sup>* s s'" "put_state_ok s"
  shows "put_state_ok s' \<and> hash_functions (snd s') = hash_functions (snd s)
    \<and> bit_size (vect (snd s')) = bit_size (vect (snd s)) \<and> length (fst s') = length (fst s)"
  using assms by (induction rule: rtranclp_induct) (auto dest: put_step_keeps)

lemma put_state_ok_new: "bloom_ok flt \<Longrightarrow> put_state_ok (map put_worker_new qs, flt)"
  by (auto simp: put_state_ok_def put_worker_new_def pc_ok_def)

section \<open>Every schedule ends\<close>

fun pc_left :: "put_pc \<Rightarrow> nat" where
  "pc_left PutIdle = 0"
| "pc_left (PutNext d fs) = 4 * length fs + 1"
| "pc_left (PutLoaded d i x fs) = 4 * length fs + 4"
| "pc_left (PutStored d fs) = 4 * length fs + 3"
| "pc_left (PutCounted d n fs) = 4 * length fs + 2"

definition put_left :: "nat \<Rightarrow> put_worker \<Rightarrow> nat" where
  "put_left k w = length (queue w) * (4 * k + 2) + pc_left (pc w)"

definition puts_left :: "put_state \<Rightarrow> nat" where
  "puts_left s = sum_list (map (put_left (length (hash_functions (snd s)))) (fst s))"

lemma put_micro_left:
  assumes "put_micro w flt = Some (Inr (w', flt'))" "bloom_ok flt" "pc_ok flt (pc w)"
  shows "put_left (length (hash_functions flt)) w = Suc (put_left (length (hash_functions flt)) w')"
  by (rule put_micro_cases [OF assms]) (simp_all add: put_left_def)

lemma put_step_left:
  assumes "put_step s s'" "put_state_ok s"
  shows "puts_left s = Suc (puts_left s')"
  using assms
proof cases
  case (micro i ws flt w' flt')
  have ok: "bloom_ok flt" "pc_ok flt (pc (ws ! i))"
    using assms(2) micro by (auto simp: put_state_ok_def)
  let ?g = "put_left (length (hash_functions flt))"
  have "?g (ws ! i) \<le> sum_list (map ?g ws)"
    using micro(3) by (intro member_le_sum_list) auto
  then show ?thesis
    using micro put_micro_left [OF micro(4) ok] put_micro_keeps [OF micro(4) ok]
    by (simp add: puts_left_def map_update sum_list_update)
qed

lemma put_micro_progress:
  assumes "bloom_ok flt" "pc_ok flt (pc w)"
  shows "put_micro w flt = None \<and> pc w = PutIdle \<and> queue w = []
    \<or> (\<exists>w' flt'. put_micro w flt = Some (Inr (w', flt')))"
proof (cases "pc w")
  case (PutNext d fs)
  then show ?thesis
    using put_micro_load [of w d _ _ flt] assms(1) by (cases fs) (auto simp: put_micro_def)
qed (auto simp: put_micro_def Let_def split: list.splits)

lemma put_step_progress:
  assumes "put_state_ok s" "\<not> put_done s"
  shows "\<exists>s'. put_step s s'"
proof -
  obtain ws flt where s: "s = (ws, flt)" by force
  obtain i where i: "i < length ws" "\<not> (pc (ws ! i) = PutIdle \<and> queue (ws ! i) = [])"
    using assms(2) s by (auto simp: put_done_def in_set_conv_nth)
  then show ?thesis
    using put_micro_progress [of flt "ws ! i"] assms(1) s
    by (fastforce simp: put_state_ok_def intro: micro)
qed

lemma puts_complete: "put_state_ok s \<Longrightarrow> \<exists>s'. put_step\<^sup>*\<^sup>* s s' \<and> put_done s'"
proof (induction "puts_left s" arbitrary: s rule: less_induct)
  case less
  show ?case
  proof (cases "put_done s")
    case False
    then obtain t where t: "put_step s t" using put_step_progress [OF less.prems] by blast
    then have "put_state_ok t" "puts_left t < puts_left s"
      using put_step_keeps put_step_left less.prems by auto
    then show ?thesis
      using less.hyps [of t] t by (blast intro: converse_rtranclp_into_rtranclp)
  qed blast
qed

lemma put_done_left: "put_done s \<Longrightarrow> puts_left s = 0"
  by (auto simp: put_done_def puts_left_def put_left_def)

lemma puts_left_new: "puts_left (map put_worker_new qs, flt) = length (concat qs) * (4 * length (hash_functions flt) + 2)"
  by (induction qs) (simp_all add: puts_left_def put_left_def put_worker_new_def algebra_simps)

text \<open>
  On a well-formed filter no interleaving of insertions blocks, fails or runs forever: with
  \<open>k\<close> hash functions and \<open>m\<close> buffers in all queues, every schedule of \<open>m * (4 * k + 2)\<close> steps ends with all
  insertions complete, and as long as they are not, some worker can move.
\<close>

theorem concurrent_puts_end:
  assumes "bloom_ok flt" "(put_step ^^ n) (map put_worker_new qs, flt) s"
  shows "n \<le> length (concat qs) * (4 * length (hash_functions flt) + 2)
    \<and> (put_done s \<longleftrightarrow> n = length (concat qs) * (4 * length (hash_functions flt) + 2))
    \<and> (\<not> put_done s \<longrightarrow> (\<exists>s'. put_step s s'))"
proof -
  have "put_state_ok s \<and> puts_left (map put_worker_new qs, flt) = n + puts_left s"
    using assms(2)
  proof (induction n arbitrary: s)
    case (Suc n)
    then show ?case by (fastforce dest: put_step_keeps put_step_left)
  qed (use put_state_ok_new [OF assms(1)] in auto)
  moreover from this have "puts_left s = 0 \<Longrightarrow> put_done s"
    using put_step_progress put_step_left by fastforce
  ultimately show ?thesis
    using put_done_left [of s] put_step_progress [of s] by (auto simp: puts_left_new)
qed

section \<open>No bit comes from nowhere\<close>

text \<open>
  The bits a position may still set, the register included, stay within a set \<open>A\<close> of allowed bits.
\<close>

definition pc_within :: "nat set \<Rightarrow> nat \<Rightarrow> put_pc \<Rightarrow> bool" where
  "pc_within A n p =
     (case p of
        PutIdle \<Rightarrow> True
      | PutNext d fs \<Rightarrow> slots fs d n \<subseteq> A
      | PutLoaded d i x fs \<Rightarrow> insert i (wbits n (i div 32) x \<union> slots fs d n) \<subseteq> A
      | PutStored d fs \<Rightarrow> slots fs d n \<subseteq> A
      | PutCounted d k fs \<Rightarrow> slots fs d n \<subseteq> A)"

definition worker_within :: "nat set \<Rightarrow> bloom_filter \<Rightarrow> put_worker \<Rightarrow> bool" where
  "worker_within A flt w \<longleftrightarrow> pc_within A (bit_size (vect flt)) (pc w)
     \<and> (\<forall>d \<in> set (queue w). slots (hash_functions flt) d (bit_size (vect flt)) \<subseteq> A)"

definition puts_within :: "nat set \<Rightarrow> put_state \<Rightarrow> bool" where
  "puts_within A s \<longleftrightarrow> bv.ones (vect (snd s)) \<subseteq> A \<and> (\<forall>w \<in> set (fst s). worker_within A (snd s) w)"

lemma slots_Cons: "slots (f # fs) d n = insert (unat (f d) mod n) (slots fs d n)"
  by (simp add: slots_def)

lemma slots_Nil: "slots [] d n = {}"
  by (simp add: slots_def)

lemmas slots_simps = slots_Cons slots_Nil

lemma put_micro_within:
  assumes "put_micro w flt = Some (Inr (w', flt'))" "bloom_ok flt" "pc_ok flt (pc w)"
    and "bv.ones (vect flt) \<subseteq> A" "worker_within A flt w"
  shows "bv.ones (vect flt') \<subseteq> A \<and> worker_within A flt' w'"
proof -
  have bv: "bv_ok (vect flt)" using assms(2) by (simp add: bloom_ok_def)
  show ?thesis
    using assms(4,5)
    by - (rule put_micro_cases [OF assms(1-3)];
      auto simp: worker_within_def pc_within_def slots_simps wbits_load [OF bv] ones_store [OF bv])
qed

lemma put_step_within:
  assumes "put_step s s'" "put_state_ok s" "puts_within A s"
  shows "puts_within A s'"
  using assms(1)
proof cases
  case (micro i ws flt w' flt')
  have ok: "bloom_ok flt" "pc_ok flt (pc (ws ! i))"
    using assms(2) micro by (auto simp: put_state_ok_def)
  have "bv.ones (vect flt) \<subseteq> A" "worker_within A flt (ws ! i)"
    using assms(3) micro by (simp_all add: puts_within_def)
  note m = put_micro_within [OF micro(4) ok this] put_micro_keeps [OF micro(4) ok]
  then have "worker_within A flt' w = worker_within A flt w" for w
    by (simp add: worker_within_def)
  then show ?thesis
    using m assms(3) micro by (auto simp: puts_within_def dest!: set_update_subset_insert [THEN subsetD])
qed

lemma put_reach_within:
  assumes "put_step\<^sup>*\<^sup>* s s'" "put_state_ok s" "puts_within A s"
  shows "puts_within A s'"
  using assms by (induction rule: rtranclp_induct) (auto dest: put_reach_keeps put_step_within)

definition put_slots :: "bloom_filter \<Rightarrow> u8 list list \<Rightarrow> nat set" where
  "put_slots flt ds = (\<Union>d \<in> set ds. slots (hash_functions flt) d (bit_size (vect flt)))"

lemma puts_within_new:
  "puts_within (bv.ones (vect flt) \<union> put_slots flt (concat qs)) (map put_worker_new qs, flt)"
  by (auto simp: puts_within_def worker_within_def put_worker_new_def pc_within_def put_slots_def)

lemma put_reach_ones:
  assumes "bloom_ok flt" "put_step\<^sup>*\<^sup>* (map put_worker_new qs, flt) (ws, flt')"
  shows "bloom_ok flt' \<and> hash_functions flt' = hash_functions flt \<and> bit_size (vect flt') = bit_size (vect flt)
    \<and> bv.ones (vect flt') \<subseteq> bv.ones (vect flt) \<union> put_slots flt (concat qs)"
  using put_reach_within [OF assms(2) put_state_ok_new [OF assms(1)] puts_within_new]
    put_reach_keeps [OF assms(2) put_state_ok_new [OF assms(1)]]
  by (auto simp: puts_within_def put_state_ok_def)

section \<open>Insertions that share no word\<close>

text \<open>
  \<open>buf_words\<close> are the words that the bits of a buffer lie in.  If the buffers of different workers share no
  word, what a worker holds in a register is still the word in memory, no store loses a bit, and
  the bits set so far are exactly those the positions say.
\<close>

definition buf_words :: "bloom_filter \<Rightarrow> u8 list list \<Rightarrow> nat set" where
  "buf_words flt ds = (\<lambda>i. i div 32) ` put_slots flt ds"

definition put_part :: "nat set \<Rightarrow> (u8 list \<Rightarrow> u32) list \<Rightarrow> nat \<Rightarrow> nat set \<Rightarrow> u8 list \<Rightarrow> (u8 list \<Rightarrow> u32) list \<Rightarrow> bool" where
  "put_part S hs n C d fs \<longleftrightarrow>
     slots fs d n \<subseteq> slots hs d n \<and> (\<lambda>i. i div 32) ` slots hs d n \<subseteq> C \<and> slots hs d n \<subseteq> S \<union> slots fs d n"

definition pc_set :: "nat set \<Rightarrow> (u8 list \<Rightarrow> u32) list \<Rightarrow> nat \<Rightarrow> nat set \<Rightarrow> put_pc \<Rightarrow> bool" where
  "pc_set S hs n C p =
     (case p of
        PutIdle \<Rightarrow> True
      | PutNext d fs \<Rightarrow> put_part S hs n C d fs
      | PutLoaded d i x fs \<Rightarrow> put_part (insert i S) hs n C d fs \<and> i \<in> slots hs d n
           \<and> wbits n (i div 32) x = S \<inter> in_word (i div 32)
      | PutStored d fs \<Rightarrow> put_part S hs n C d fs
      | PutCounted d k fs \<Rightarrow> put_part S hs n C d fs)"

definition worker_set :: "bloom_filter \<Rightarrow> nat set \<Rightarrow> put_worker \<Rightarrow> bool" where
  "worker_set flt C w \<longleftrightarrow>
     pc_set (bv.ones (vect flt)) (hash_functions flt) (bit_size (vect flt)) C (pc w)
     \<and> (\<forall>d \<in> set (queue w). (\<lambda>i. i div 32) ` slots (hash_functions flt) d (bit_size (vect flt)) \<subseteq> C)
     \<and> (\<forall>d \<in> set (finished w). slots (hash_functions flt) d (bit_size (vect flt)) \<subseteq> bv.ones (vect flt))"

text \<open>The moving worker: it only adds bits, all in its own words.\<close>

lemma put_micro_set:
  assumes "put_micro w flt = Some (Inr (w', flt'))" "bloom_ok flt" "pc_ok flt (pc w)" "worker_set flt C w"
  shows "worker_set flt' C w' \<and> bv.ones (vect flt) \<subseteq> bv.ones (vect flt')
    \<and> (\<lambda>i. i div 32) ` (bv.ones (vect flt') - bv.ones (vect flt)) \<subseteq> C"
proof -
  have bv: "bv_ok (vect flt)" using assms(2) by (simp add: bloom_ok_def)
  show ?thesis
    using assms(4)
    by - (rule put_micro_cases [OF assms(1-3)];
      auto simp: worker_set_def pc_set_def put_part_def slots_simps wbits_load [OF bv] ones_store [OF bv])
qed

text \<open>The others: bits added outside their words leave them as they are.\<close>

lemma put_part_mono: "put_part S hs n C d fs \<Longrightarrow> S \<subseteq> T \<Longrightarrow> put_part T hs n C d fs"
  by (auto simp: put_part_def)

lemma pc_set_mono:
  assumes "pc_set S hs n C p" "S \<subseteq> T" "\<And>c. c \<in> C \<Longrightarrow> T \<inter> in_word c = S \<inter> in_word c"
  shows "pc_set T hs n C p"
proof (cases p)
  case (PutLoaded d i x fs)
  then have "i div 32 \<in> C" using assms(1) by (auto simp: pc_set_def put_part_def)
  then show ?thesis
    using assms PutLoaded put_part_mono [OF _ insert_mono [OF assms(2)]] by (simp add: pc_set_def)
qed (use assms(1,2) in \<open>auto simp: pc_set_def intro: put_part_mono\<close>)

lemma worker_set_other:
  assumes "worker_set flt C w" "hash_functions flt' = hash_functions flt" "bit_size (vect flt') = bit_size (vect flt)"
    and "bv.ones (vect flt) \<subseteq> bv.ones (vect flt')" "(\<lambda>i. i div 32) ` (bv.ones (vect flt') - bv.ones (vect flt)) \<subseteq> D"
    and "C \<inter> D = {}"
  shows "worker_set flt' C w"
proof -
  have "bv.ones (vect flt') \<inter> in_word c = bv.ones (vect flt) \<inter> in_word c" if "c \<in> C" for c
    using that assms(4-6) by (fastforce simp: in_word_def)
  then show ?thesis
    using assms(1-4) by (simp add: worker_set_def) (blast intro: pc_set_mono)
qed

text \<open>The invariant: every worker keeps to its own words \<open>C i\<close>.\<close>

definition puts_set :: "(nat \<Rightarrow> nat set) \<Rightarrow> put_state \<Rightarrow> bool" where
  "puts_set C s \<longleftrightarrow> (\<forall>i < length (fst s). worker_set (snd s) (C i) (fst s ! i))"

lemma put_step_set:
  assumes "put_step s s'" "put_state_ok s" "puts_set C s" "disjoint_family_on C {..<length (fst s)}"
  shows "puts_set C s' \<and> bv.ones (vect (snd s)) \<subseteq> bv.ones (vect (snd s'))"
  using assms(1)
proof cases
  case (micro i ws flt w' flt')
  have ok: "bloom_ok flt" "pc_ok flt (pc (ws ! i))"
    using assms(2) micro by (auto simp: put_state_ok_def)
  have i: "worker_set flt (C i) (ws ! i)"
    using assms(3) micro by (simp add: puts_set_def)
  note m = put_micro_set [OF micro(4) ok i] put_micro_keeps [OF micro(4) ok]
  have "worker_set flt' (C j) (ws ! j)" if "j < length ws" "j \<noteq> i" for j
  proof (rule worker_set_other [where D = "C i"])
    show "worker_set flt (C j) (ws ! j)"
      using assms(3) micro(1) that(1) by (simp add: puts_set_def)
    show "C j \<inter> C i = {}"
      using assms(4) micro(1,3) that by (auto simp: disjoint_family_on_def)
  qed (use m in auto)
  then show ?thesis
    using m micro by (simp add: puts_set_def nth_list_update)
qed

lemma put_reach_set:
  assumes "put_step\<^sup>*\<^sup>* s s'" "put_state_ok s" "puts_set C s" "disjoint_family_on C {..<length (fst s)}"
  shows "puts_set C s' \<and> bv.ones (vect (snd s)) \<subseteq> bv.ones (vect (snd s'))"
  using assms(1)
proof (induction rule: rtranclp_induct)
  case (step t u)
  then show ?case
    using put_reach_keeps [OF step.hyps(1) assms(2)] assms(4) put_step_set [OF step.hyps(2)] by auto
qed (use assms(3) in simp)

lemma puts_set_new:
  "puts_set (\<lambda>i. buf_words flt (qs ! i)) (map put_worker_new qs, flt)"
  by (auto simp: puts_set_def worker_set_def put_worker_new_def pc_set_def buf_words_def put_slots_def)

text \<open>Every buffer a worker was given is queued, in progress or finished.\<close>

fun pc_buf :: "put_pc \<Rightarrow> u8 list list" where
  "pc_buf PutIdle = []"
| "pc_buf (PutNext d fs) = [d]"
| "pc_buf (PutLoaded d i x fs) = [d]"
| "pc_buf (PutStored d fs) = [d]"
| "pc_buf (PutCounted d n fs) = [d]"

definition put_bufs :: "put_worker \<Rightarrow> u8 list multiset" where
  "put_bufs w = mset (queue w) + mset (pc_buf (pc w)) + mset (finished w)"

lemma put_step_bufs:
  assumes "put_step s s'" "put_state_ok s"
  shows "map put_bufs (fst s') = map put_bufs (fst s)"
  using assms(1)
proof cases
  case (micro i ws flt w' flt')
  have ok: "bloom_ok flt" "pc_ok flt (pc (ws ! i))"
    using assms(2) micro by (auto simp: put_state_ok_def)
  have "put_bufs w' = put_bufs (ws ! i)"
    by (rule put_micro_cases [OF micro(4) ok]) (simp_all add: put_bufs_def)
  then show ?thesis
    using micro by (simp add: map_update list_update_same_conv)
qed

lemma put_reach_bufs:
  "put_step\<^sup>*\<^sup>* s s' \<Longrightarrow> put_state_ok s \<Longrightarrow> map put_bufs (fst s') = map put_bufs (fst s)"
  by (induction rule: rtranclp_induct) (auto dest: put_reach_keeps put_step_bufs)

lemma put_done_finished:
  assumes "put_step\<^sup>*\<^sup>* (map put_worker_new qs, flt) s" "bloom_ok flt" "put_done s" "i < length qs"
  shows "mset (finished (fst s ! i)) = mset (qs ! i)"
proof -
  have m: "map put_bufs (fst s) = map put_bufs (map put_worker_new qs)"
    using put_reach_bufs [OF assms(1) put_state_ok_new [OF assms(2)]] by simp
  then have l: "length (fst s) = length qs" by (metis length_map)
  have "put_bufs (fst s ! i) = mset (qs ! i)"
    using arg_cong [OF m, of "\<lambda>l. l ! i"] l assms(4) by (simp add: put_bufs_def put_worker_new_def)
  then show ?thesis
    using assms(3,4) l by (auto simp: put_bufs_def put_done_def)
qed

lemma put_all_ones:
  assumes "bloom_ok flt"
  shows "\<exists>flt'. bloom.put_all flt ds = Inr flt' \<and> bloom_ok flt' \<and> hash_functions flt' = hash_functions flt
    \<and> bit_size (vect flt') = bit_size (vect flt) \<and> bv.ones (vect flt') = bv.ones (vect flt) \<union> put_slots flt ds"
  using assms
proof (induction ds arbitrary: flt)
  case (Cons d ds)
  obtain f1 where f1: "bloom_filter_put flt d = Inr f1" "bloom_ok f1" "hash_functions f1 = hash_functions flt"
    "bit_size (vect f1) = bit_size (vect flt)"
    "bv.ones (vect f1) = bv.ones (vect flt) \<union> slots (hash_functions flt) d (bit_size (vect flt))"
    using bloom_put_ones [OF Cons.prems, of d] by blast
  from Cons.IH [OF f1(2)] f1 show ?case
    by (auto simp: put_slots_def)
qed (simp add: put_slots_def)

lemma puts_race_free:
  assumes "bloom_ok flt" "put_step\<^sup>*\<^sup>* (map put_worker_new qs, flt) (ws, flt')"
    and "disjoint_family_on (\<lambda>i. buf_words flt (qs ! i)) {..<length qs}" "i < length qs" "d \<in> set (finished (ws ! i))"
  shows "slots (hash_functions flt) d (bit_size (vect flt)) \<subseteq> bv.ones (vect flt')"
proof -
  have "puts_set (\<lambda>i. buf_words flt (qs ! i)) (ws, flt')"
    using put_reach_set [OF assms(2) put_state_ok_new [OF assms(1)] puts_set_new] assms(3) by simp
  moreover have "length ws = length qs" "hash_functions flt' = hash_functions flt" "bit_size (vect flt') = bit_size (vect flt)"
    using put_reach_keeps [OF assms(2) put_state_ok_new [OF assms(1)]] by simp_all
  ultimately show ?thesis
    using assms(4,5) by (simp add: puts_set_def worker_set_def)
qed

lemma puts_new_complete:
  "bloom_ok flt \<Longrightarrow> \<exists>ws flt'. put_step\<^sup>*\<^sup>* (map put_worker_new qs, flt) (ws, flt') \<and> put_done (ws, flt')"
  using puts_complete [OF put_state_ok_new] by (metis surj_pair)

text \<open>
  Three flows to 10.18.0.4:80 in the filter of the switch agents: from 10.18.0.3, ports 40000 and
  40001, and from 10.18.0.12, port 16374.
\<close>

definition switch_bf :: bloom_filter where
  "switch_bf = bloom_filter_new 3145728 [djb2, sdbm, mm2]"

definition flow_a :: "u8 list" where "flow_a = [10, 18, 0, 3, 10, 18, 0, 4, 156, 64, 0, 80]"
definition flow_b :: "u8 list" where "flow_b = [10, 18, 0, 3, 10, 18, 0, 4, 156, 65, 0, 80]"
definition flow_c :: "u8 list" where "flow_c = [10, 18, 0, 12, 10, 18, 0, 4, 63, 246, 0, 80]"

lemma switch_bf_simps:
  "bloom_ok switch_bf" "hash_functions switch_bf = [djb2, sdbm, mm2]" "bit_size (vect switch_bf) = 3145728"
  "bv.ones (vect switch_bf) = {}"
  using bloom_new_ok [of 3145728 "[djb2, sdbm, mm2]"] bv_ones_new [of 3145728]
  by (simp_all add: switch_bf_def bloom_filter_new_def) (simp add: bit_vect_new_def Let_def)

lemma flow_djb2: "djb2 flow_a = 2766671856" "djb2 flow_b = 2766672945" "djb2 flow_c = 3172470770"
  by (simp_all add: djb2_def DJB2_INIT_def flow_a_def flow_b_def flow_c_def djb2_step)

lemma flow_sdbm: "sdbm flow_a = 707899403" "sdbm flow_b = 716160908" "sdbm flow_c = 146706023"
  by (simp_all add: sdbm_def flow_a_def flow_b_def flow_c_def sdbm_step)

lemma flow_mm2: "mm2 flow_a = 125866100" "mm2 flow_b = 304446566" "mm2 flow_c = 2009879797"
  by (simp_all add: mm2_def flow_a_def flow_b_def flow_c_def mk32_def)

lemmas flow_hashes = flow_djb2 flow_sdbm flow_mm2

lemma slots_flows:
  "slots [djb2, sdbm, mm2] flow_a 3145728 = {1576944, 110603, 36980}"
  "slots [djb2, sdbm, mm2] flow_b 3145728 = {1578033, 2080652, 2456678}"
  "slots [djb2, sdbm, mm2] flow_c 3145728 = {1576946, 2002535, 2905333}"
  by (simp_all add: slots_def flow_hashes)

text \<open>
  C38: race-free insertions are serialisable.  Let several workers insert their buffers into a
  well-formed filter, in any interleaving of the loads and stores, and let no word of the bit vector hold bits of
  buffers of two different workers.  When all insertions are complete, every buffer tests as
  after inserting them one after the other; and while they run, a buffer whose insertion is
  complete tests positive, whatever the other workers do.
\<close>

theorem puts_serialisable:
  assumes "bloom_ok flt" "put_step\<^sup>*\<^sup>* (map put_worker_new qs, flt) (ws, flt')"
    and "disjoint_family_on (\<lambda>i. buf_words flt (qs ! i)) {..<length qs}"
  shows "(\<forall>i < length qs. \<forall>d \<in> set (finished (ws ! i)). bloom_filter_test flt' d = Inr True)
    \<and> (put_done (ws, flt') \<longrightarrow>
         (\<exists>flt1. bloom.put_all flt (concat qs) = Inr flt1 \<and> (\<forall>d. bloom_filter_test flt' d = bloom_filter_test flt1 d)))"
proof -
  note r = put_reach_ones [OF assms(1,2)]
  obtain flt1 where f1: "bloom.put_all flt (concat qs) = Inr flt1" "bloom_ok flt1" "hash_functions flt1 = hash_functions flt"
    "bit_size (vect flt1) = bit_size (vect flt)" "bv.ones (vect flt1) = bv.ones (vect flt) \<union> put_slots flt (concat qs)"
    using put_all_ones [OF assms(1)] by blast
  have "bv.ones (vect flt') = bv.ones (vect flt1)" if fin: "put_done (ws, flt')"
  proof -
    have "slots (hash_functions flt) d (bit_size (vect flt)) \<subseteq> bv.ones (vect flt')" if "d \<in> set (concat qs)" for d
    proof -
      obtain i where i: "i < length qs" "d \<in> set (qs ! i)"
        using \<open>d \<in> set (concat qs)\<close> by (auto simp: in_set_conv_nth [of _ qs])
      then show ?thesis
        using puts_race_free [OF assms i(1), of d] put_done_finished [OF assms(2,1) fin i(1)]
        by (metis fst_conv mset_eq_setD)
    qed
    then show ?thesis
      using r f1(5) put_reach_set [OF assms(2) put_state_ok_new [OF assms(1)] puts_set_new] assms(3) by (auto simp: put_slots_def)
  qed
  then show ?thesis
    using puts_race_free [OF assms] r f1 by (auto simp: bloom_test_ones)
qed

theorem puts_serialisable_witness:
  "\<exists>ws flt' flt1. put_step\<^sup>*\<^sup>* (map put_worker_new [[flow_a], [flow_b]], switch_bf) (ws, flt') \<and> put_done (ws, flt')
    \<and> bloom.put_all switch_bf [flow_a, flow_b] = Inr flt1 \<and> bloom_filter_test flt' flow_a = bloom_filter_test flt1 flow_a"
proof -
  obtain ws flt' where run: "put_step\<^sup>*\<^sup>* (map put_worker_new [[flow_a], [flow_b]], switch_bf) (ws, flt')" "put_done (ws, flt')"
    using puts_new_complete [OF switch_bf_simps(1)] by blast
  have "disjoint_family_on (\<lambda>i. buf_words switch_bf ([[flow_a], [flow_b]] ! i)) {..<length [[flow_a], [flow_b]]}"
    by (auto simp: disjoint_family_on_def buf_words_def put_slots_def switch_bf_simps slots_flows less_Suc_eq)
  from puts_serialisable [OF switch_bf_simps(1) run(1) this] run show ?thesis
    by (simp del: bloom.put_all.simps) blast
qed

section \<open>Insertions that share a word\<close>

lemma stale_store: "S \<inter> W \<union> (S \<inter> W \<union> (S - W) - W) = S"
  by auto

text \<open>The schedule in which both workers load the word before either stores it.\<close>

lemma overlapping_stores:
  fixes flt :: bloom_filter
  defines "n \<equiv> bit_size (vect flt)"
  assumes "bloom_ok flt" "hash_functions flt = f # fs"
    and "unat (f d1) mod n div 32 = unat (f d2) mod n div 32"
  shows "\<exists>flt'. put_sched [0, 0, 1, 1, 0, 1] (map put_worker_new [[d1], [d2]], flt) =
      Some ([\<lparr>pc = PutStored d1 fs, queue = [], finished = []\<rparr>, \<lparr>pc = PutStored d2 fs, queue = [], finished = []\<rparr>], flt')
    \<and> bit_size (vect flt') = n \<and> bloom_ok flt' \<and> hash_functions flt' = f # fs
    \<and> bv.ones (vect flt') = insert (unat (f d2) mod n) (bv.ones (vect flt))"
proof -
  define i1 i2 where i: "i1 = unat (f d1) mod n" "i2 = unat (f d2) mod n"
  define x where "x = words (vect flt) ! (i1 div 32)"
  have bv: "bv_ok (vect flt)" and n: "0 < n" using assms(2) by (simp_all add: bloom_ok_def n_def)
  have lt: "i1 < n" "i2 < n" using n by (simp_all add: i)
  have big: "i1 < 2 ^ 64" "i2 < 2 ^ 64" using lt bv by (auto simp: bv_ok_def n_def)
  let ?f1 = "flt\<lparr>vect := store_word (vect flt) i1 x\<rparr>"
  let ?f2 = "flt\<lparr>vect := store_word (store_word (vect flt) i1 x) i2 x\<rparr>"
  let ?w = "\<lambda>p q. \<lparr>pc = p, queue = q, finished = []\<rparr> :: put_worker"
  have start: "put_micro (?w PutIdle [d]) flt = Some (Inr (?w (PutNext d (f # fs)) [], flt))" for d
    using assms(3) by (simp add: put_micro_def)
  have load: "put_micro (?w (PutNext d (f # fs)) []) flt = Some (Inr (?w (PutLoaded d j x fs) [], flt))"
    if "j = unat (f d) mod n" "j div 32 = i1 div 32" for d j
    using put_micro_load [OF _ assms(2), of "?w (PutNext d (f # fs)) []" d f fs] that by (simp add: n_def x_def)
  have store: "put_micro (?w (PutLoaded d j x fs) []) g = Some (Inr (?w (PutStored d fs) [], g\<lparr>vect := store_word (vect g) j x\<rparr>))"
    if "j < 2 ^ 64" for d j g
    using put_micro_store [of "?w (PutLoaded d j x fs) []" d j x fs g] that by simp
  have sched: "put_sched [0, 0, 1, 1, 0, 1] (map put_worker_new [[d1], [d2]], flt) =
      Some ([?w (PutStored d1 fs) [], ?w (PutStored d2 fs) []], ?f2)"
    using start load [OF i(1)] load [OF i(2)] store big assms(4) i by (simp add: put_worker_new_def)
  have x: "wbits n (i1 div 32) x = bv.ones (vect flt) \<inter> in_word (i1 div 32)"
    using wbits_load [OF bv] by (simp add: n_def x_def)
  have "bv.ones (vect ?f2) = insert i2 (bv.ones (vect flt))"
  proof -
    have c: "i2 div 32 = i1 div 32" using assms(4) by (simp add: i)
    have "bv.ones (store_word (vect flt) i1 x) =
        insert i1 (wbits n (i1 div 32) x \<union> (bv.ones (vect flt) - in_word (i1 div 32)))"
      using ones_store [OF bv, of i1 x] lt(1) by (simp add: n_def)
    moreover have "bv.ones (vect ?f2) =
        insert i2 (wbits n (i1 div 32) x \<union> (bv.ones (store_word (vect flt) i1 x) - in_word (i1 div 32)))"
      using ones_store [of "store_word (vect flt) i1 x" i2 x] bv lt(2) c by (simp add: n_def)
    moreover have "i1 \<in> in_word (i1 div 32)" by (simp add: in_word_def)
    ultimately show ?thesis using x by (simp add: stale_store)
  qed
  moreover have "bloom_ok ?f2" "bit_size (vect ?f2) = n" "hash_functions ?f2 = f # fs"
    using assms(2,3) by (simp_all add: bloom_ok_def n_def)
  ultimately show ?thesis
    using sched i(2) by (intro exI [of _ ?f2]) simp
qed

text \<open>
  C20: two workers that insert at the same time can lose an insertion.  Let the first hash function send two buffers
  to different bits of the same word, and let the first buffer's bit be neither set already nor selected by
  any other hash function of the two buffers.  Then there is a schedule of the two insertions, both complete, after which the
  first buffer tests negative, although \<open>bloom_filter_put\<close> has returned for it; one after
  the other, it would test positive.
\<close>

theorem put_lost_update:
  fixes flt :: bloom_filter
  defines "n \<equiv> bit_size (vect flt)"
  assumes "bloom_ok flt" "hash_functions flt = f # fs"
    and "unat (f d1) mod n div 32 = unat (f d2) mod n div 32"
    and "unat (f d1) mod n \<notin> bv.ones (vect flt) \<union> slots (f # fs) d2 n \<union> slots fs d1 n"
  shows "\<exists>ws flt'. put_step\<^sup>*\<^sup>* (map put_worker_new [[d1], [d2]], flt) (ws, flt') \<and> put_done (ws, flt')
    \<and> finished (ws ! 0) = [d1] \<and> bloom_filter_test flt' d1 = Inr False"
proof -
  let ?s0 = "(map put_worker_new [[d1], [d2]], flt)"
  obtain f2 where sched: "put_sched [0, 0, 1, 1, 0, 1] ?s0 =
      Some ([\<lparr>pc = PutStored d1 fs, queue = [], finished = []\<rparr>, \<lparr>pc = PutStored d2 fs, queue = [], finished = []\<rparr>], f2)"
      (is "_ = Some ?s6")
    and f2: "bit_size (vect f2) = n" "bloom_ok f2" "hash_functions f2 = f # fs"
      "bv.ones (vect f2) = insert (unat (f d2) mod n) (bv.ones (vect flt))"
    using overlapping_stores [OF assms(2,3)] assms(4) unfolding n_def by blast
  define A where "A = bv.ones (vect f2) \<union> slots fs d1 n \<union> slots fs d2 n"
  have ok: "put_state_ok ?s6" using f2(2) by (simp add: put_state_ok_def pc_ok_def)
  have "puts_within A ?s6"
    using f2(1) by (auto simp: puts_within_def worker_within_def pc_within_def A_def)
  moreover obtain ws flt' where run: "put_step\<^sup>*\<^sup>* ?s6 (ws, flt')" "put_done (ws, flt')"
    using puts_complete [OF ok] by (metis surj_pair)
  ultimately have "bv.ones (vect flt') \<subseteq> A"
    using put_reach_within [OF run(1) ok] by (simp add: puts_within_def)
  moreover have "unat (f d1) mod n \<notin> A" using assms(5) f2(4) by (simp add: A_def slots_Cons)
  moreover have "bloom_ok flt'" "hash_functions flt' = f # fs" "bit_size (vect flt') = n"
    using put_reach_keeps [OF run(1) ok] f2 by (simp_all add: put_state_ok_def)
  ultimately have "bloom_filter_test flt' d1 = Inr False"
    by (auto simp: bloom_test_ones slots_Cons)
  moreover have reach: "put_step\<^sup>*\<^sup>* ?s0 (ws, flt')"
    using put_sched_reach [OF sched] run(1) by simp
  moreover have "finished (ws ! 0) = [d1]"
    using put_done_finished [OF reach assms(2) run(2), of 0] by simp
  ultimately show ?thesis using run(2) by blast
qed

theorem put_lost_update_witness:
  "\<exists>ws flt'. put_step\<^sup>*\<^sup>* (map put_worker_new [[flow_a], [flow_c]], switch_bf) (ws, flt') \<and> put_done (ws, flt')
    \<and> finished (ws ! 0) = [flow_a] \<and> bloom_filter_test flt' flow_a = Inr False"
  by (rule put_lost_update [OF switch_bf_simps(1,2)])
    (simp_all add: switch_bf_simps slots_flows flow_hashes slots_simps)

end
