(* ===== verification/Timeit.thy ===== *)
theory Timeit
  imports EC_Prelude "HOL-Library.Multiset"
begin

text \<open>
  The timing harness \<open>timeit\<close> of \<open>examples/common/timeit.c\<close> and its copy in
  \<open>examples/htscookie/test.c\<close>.  Each of 100 warm-up rounds and \<open>NUM_TIMINGS\<close> measured rounds fills the
  input with random bytes, calls the hash \<open>ITERATIONS\<close> times between two readings of the cycle
  counter and, if measured, stores the time per call; the result is the middle one of the sorted
  times.  Parameters: the sequence of random numbers, the two registers of each reading of the
  counter, the hash as a function on the output buffer, and the conversion \<open>(double)timer / ITERATIONS\<close>
  into a linear order (the finite doubles).  The allocations are taken to succeed.
\<close>

section \<open>timeit.c\<close>

definition NUM_TIMINGS :: nat where "NUM_TIMINGS = 10000"
definition ITERATIONS :: nat where "ITERATIONS = 10000"

definition compareDouble :: "'d::linorder \<Rightarrow> 'd \<Rightarrow> int" where
  "compareDouble xx yy = (if xx < yy then - 1 else if xx > yy then 1 else 0)"

definition startTimer :: "u32 \<Rightarrow> u32 \<Rightarrow> u64" where
  "startTimer a d = ucast a OR push_bit 32 (ucast d)"

definition endTimer :: "u32 \<Rightarrow> u32 \<Rightarrow> u64" where
  "endTimer a d = ucast a OR push_bit 32 (ucast d)"

text \<open>
  \<open>qsort\<close> of the C library, as an insertion sort on the comparison function; that the order among equal elements does
  not matter is shown below.
\<close>

fun qinsert :: "('a \<Rightarrow> 'a \<Rightarrow> int) \<Rightarrow> 'a \<Rightarrow> 'a list \<Rightarrow> 'a list" where
  "qinsert cmp x [] = [x]"
| "qinsert cmp x (y # ys) = (if cmp x y \<le> 0 then x # y # ys else y # qinsert cmp x ys)"

definition qsort :: "('a \<Rightarrow> 'a \<Rightarrow> int) \<Rightarrow> 'a list \<Rightarrow> 'a list" where
  "qsort cmp xs = foldr (qinsert cmp) xs []"

text \<open>What the harness reads from its environment.\<close>

record 'd clock =
  rnd :: "nat \<Rightarrow> u32"
  tsc_start :: "int \<Rightarrow> u32 \<times> u32"
  tsc_end :: "int \<Rightarrow> u32 \<times> u32"
  per_call :: "u64 \<Rightarrow> 'd"

record 'd timing =
  rnd_pos :: nat
  inbuf :: "u8 list"
  outbuf :: "u8 list"
  timer :: u64
  timings :: "'d list"

type_synonym hash_fun = "u8 list \<Rightarrow> u8 list \<Rightarrow> nat \<Rightarrow> nat \<Rightarrow> u8 list"

definition timeit_round :: "'d clock \<Rightarrow> hash_fun \<Rightarrow> nat \<Rightarrow> nat \<Rightarrow> int \<Rightarrow> 'd timing \<Rightarrow> 'd timing" where
  "timeit_round ck func inlen outlen i st =
     (let input = map (\<lambda>j. ucast (rnd ck (rnd_pos st + j) AND 0xff)) [0..<inlen];
          t0 = startTimer (fst (tsc_start ck i)) (snd (tsc_start ck i));
          output = ((\<lambda>out. func out input outlen inlen) ^^ ITERATIONS) (outbuf st);
          t = endTimer (fst (tsc_end ck i)) (snd (tsc_end ck i)) - t0;
          st = st\<lparr>rnd_pos := rnd_pos st + inlen, inbuf := input, outbuf := output, timer := t\<rparr>
      in if 0 \<le> i \<and> i < int NUM_TIMINGS then st\<lparr>timings := (timings st)[nat i := per_call ck t]\<rparr> else st)"

function timeit_loop :: "'d clock \<Rightarrow> hash_fun \<Rightarrow> nat \<Rightarrow> nat \<Rightarrow> int \<Rightarrow> 'd timing \<Rightarrow> 'd timing" where
  "timeit_loop ck func inlen outlen i st =
     (if i < int NUM_TIMINGS then timeit_loop ck func inlen outlen (i + 1) (timeit_round ck func inlen outlen i st)
      else st)"
  by auto

termination
  by (relation "measure (\<lambda>(ck, func, inlen, outlen, i, st). nat (int NUM_TIMINGS - i))") auto

declare timeit_loop.simps [simp del]

text \<open>\<open>mem\<close> holds what the fresh stack array and the two allocations contain.\<close>

definition timeit_run :: "'d clock \<Rightarrow> hash_fun \<Rightarrow> nat \<Rightarrow> nat \<Rightarrow> 'd timing \<Rightarrow> 'd timing" where
  "timeit_run ck func inlen outlen mem =
     timeit_loop ck func inlen outlen (- 100) (mem\<lparr>rnd_pos := 0, timer := 0\<rparr>)"

definition timeit :: "'d::linorder clock \<Rightarrow> hash_fun \<Rightarrow> nat \<Rightarrow> nat \<Rightarrow> 'd timing \<Rightarrow> 'd" where
  "timeit ck func inlen outlen mem =
     qsort compareDouble (timings (timeit_run ck func inlen outlen mem)) ! (NUM_TIMINGS div 2)"

section \<open>The copy of test.c\<close>

text \<open>It returns the same value and prints another: the pair of the two.\<close>

definition timeit_printing :: "'d::linorder clock \<Rightarrow> hash_fun \<Rightarrow> nat \<Rightarrow> nat \<Rightarrow> 'd timing \<Rightarrow> 'd \<times> 'd" where
  "timeit_printing ck func inlen outlen mem =
     (let st = timeit_run ck func inlen outlen mem;
          sorted = qsort compareDouble (timings st);
          midian = per_call ck (timer st)
      in (midian, sorted ! (NUM_TIMINGS div 2)))"

section \<open>Sorting\<close>

lemma qinsert_insort: "qinsert compareDouble x ys = insort x ys"
  by (induction ys) (auto simp: compareDouble_def)

lemma qsort_sort: "qsort compareDouble xs = sort xs"
  unfolding qsort_def by (induction xs) (simp_all add: qinsert_insort)

lemma compareDouble_le: "compareDouble x y \<le> 0 \<longleftrightarrow> x \<le> y"
  by (auto simp: compareDouble_def)

text \<open>Any sorting procedure with the documented contract of \<open>qsort\<close> returns this list.\<close>

lemma qsort_unique:
  assumes "mset ys = mset xs" "sorted_wrt (\<lambda>x y. compareDouble x y \<le> 0) ys"
  shows "ys = qsort compareDouble xs"
  using assms by (simp add: qsort_sort compareDouble_le properties_for_sort)

section \<open>The counter\<close>

lemma timer_registers: "startTimer (ucast t) (ucast (drop_bit 32 t)) = t" "endTimer (ucast t) (ucast (drop_bit 32 t)) = t"
  by (rule bit_word_eqI; auto simp: startTimer_def endTimer_def bit_simps)+

section \<open>The result is the median of the measured rounds\<close>

definition elapsed :: "'d clock \<Rightarrow> int \<Rightarrow> u64" where
  "elapsed ck i = endTimer (fst (tsc_end ck i)) (snd (tsc_end ck i)) - startTimer (fst (tsc_start ck i)) (snd (tsc_start ck i))"

definition measured :: "'d clock \<Rightarrow> 'd list" where
  "measured ck = map (\<lambda>i. per_call ck (elapsed ck (int i))) [0..<NUM_TIMINGS]"

lemma round_simps:
  "timer (timeit_round ck func inlen outlen i st) = elapsed ck i"
  "timings (timeit_round ck func inlen outlen i st) =
     (if 0 \<le> i \<and> i < int NUM_TIMINGS then (timings st)[nat i := per_call ck (elapsed ck i)] else timings st)"
  by (simp_all add: timeit_round_def elapsed_def Let_def)

lemma timeit_loop_timings:
  assumes "length (timings st) = NUM_TIMINGS" "- 100 \<le> i" "i \<le> int NUM_TIMINGS"
  shows "timings (timeit_loop ck func inlen outlen i st) = take (nat i) (timings st) @ drop (nat i) (measured ck)"
  using assms
proof (induction ck func inlen outlen i st rule: timeit_loop.induct)
  case (1 ck func inlen outlen i st)
  show ?case
  proof (cases "i < int NUM_TIMINGS")
    case lt: True
    let ?st = "timeit_round ck func inlen outlen i st"
    have IH: "timings (timeit_loop ck func inlen outlen i st) =
        take (nat (i + 1)) (timings ?st) @ drop (nat (i + 1)) (measured ck)"
      using 1 lt by (subst timeit_loop.simps) (simp add: round_simps)
    show ?thesis
    proof (cases "0 \<le> i")
      case True
      then have "nat (i + 1) = Suc (nat i)" "nat i < NUM_TIMINGS" using lt by auto
      then show ?thesis
        using IH 1(2) lt True
        by (simp add: round_simps take_Suc_conv_app_nth measured_def Cons_nth_drop_Suc [symmetric])
    next
      case False
      then have "nat (i + 1) = 0" "nat i = 0" by auto
      then show ?thesis using IH by simp
    qed
  next
    case False
    then have "nat i = NUM_TIMINGS" using 1(4) by simp
    then show ?thesis
      using 1(2) False by (subst timeit_loop.simps) (simp add: measured_def)
  qed
qed

lemma timeit_loop_timer:
  "i < int NUM_TIMINGS \<Longrightarrow> timer (timeit_loop ck func inlen outlen i st) = elapsed ck (int NUM_TIMINGS - 1)"
proof (induction ck func inlen outlen i st rule: timeit_loop.induct)
  case (1 ck func inlen outlen i st)
  show ?case
  proof (cases "i + 1 < int NUM_TIMINGS")
    case True
    then show ?thesis
      using 1 by (subst timeit_loop.simps) simp
  next
    case False
    then have i: "i = int NUM_TIMINGS - 1" using 1(2) by simp
    show ?thesis
      by (subst timeit_loop.simps, subst timeit_loop.simps) (simp add: i round_simps)
  qed
qed

lemma timeit_run_simps:
  assumes "length (timings mem) = NUM_TIMINGS"
  shows "timings (timeit_run ck func inlen outlen mem) = measured ck"
    "timer (timeit_run ck func inlen outlen mem) = elapsed ck (int NUM_TIMINGS - 1)"
  using assms by (simp_all add: timeit_run_def timeit_loop_timings timeit_loop_timer)

lemma sorted_rank:
  assumes "sorted ys" "k < length ys"
  shows "k + 1 \<le> length (filter (\<lambda>t. t \<le> ys ! k) ys)" "length ys - k \<le> length (filter (\<lambda>t. ys ! k \<le> t) ys)"
proof -
  have "filter (\<lambda>t. t \<le> ys ! k) (take (k + 1) ys) = take (k + 1) ys"
    using assms by (auto simp: filter_id_conv in_set_conv_nth sorted_iff_nth_mono)
  then have "length (filter (\<lambda>t. t \<le> ys ! k) (take (k + 1) ys)) = k + 1"
    using assms by simp
  moreover have "length (filter (\<lambda>t. t \<le> ys ! k) ys) =
      length (filter (\<lambda>t. t \<le> ys ! k) (take (k + 1) ys)) + length (filter (\<lambda>t. t \<le> ys ! k) (drop (k + 1) ys))"
    by (metis append_take_drop_id filter_append length_append)
  ultimately show "k + 1 \<le> length (filter (\<lambda>t. t \<le> ys ! k) ys)" by simp
  have "filter (\<lambda>t. ys ! k \<le> t) (drop k ys) = drop k ys"
    using assms by (auto simp: filter_id_conv in_set_conv_nth sorted_iff_nth_mono)
  then have "length (filter (\<lambda>t. ys ! k \<le> t) (drop k ys)) = length ys - k"
    using assms by simp
  moreover have "length (filter (\<lambda>t. ys ! k \<le> t) ys) =
      length (filter (\<lambda>t. ys ! k \<le> t) (take k ys)) + length (filter (\<lambda>t. ys ! k \<le> t) (drop k ys))"
    by (metis append_take_drop_id filter_append length_append)
  ultimately show "length ys - k \<le> length (filter (\<lambda>t. ys ! k \<le> t) ys)" by simp
qed

lemma length_filter_sort: "length (filter P (sort xs)) = length (filter P xs)"
  by (metis filter_sort length_sort)

lemma median_rank:
  assumes "length xs = NUM_TIMINGS"
  shows "NUM_TIMINGS \<le> 2 * length (filter (\<lambda>t. t \<le> sort xs ! (NUM_TIMINGS div 2)) xs)"
    "NUM_TIMINGS \<le> 2 * length (filter (\<lambda>t. sort xs ! (NUM_TIMINGS div 2) \<le> t) xs)"
proof -
  have "NUM_TIMINGS div 2 < length (sort xs)" using assms by (simp add: NUM_TIMINGS_def)
  note r = sorted_rank [OF sorted_sort this, unfolded length_filter_sort length_sort assms]
  show "NUM_TIMINGS \<le> 2 * length (filter (\<lambda>t. t \<le> sort xs ! (NUM_TIMINGS div 2)) xs)"
    using r(1) by (simp add: NUM_TIMINGS_def)
  show "NUM_TIMINGS \<le> 2 * length (filter (\<lambda>t. sort xs ! (NUM_TIMINGS div 2) \<le> t) xs)"
    using r(2) by (simp add: NUM_TIMINGS_def)
qed

text \<open>
  The value \<open>timeit\<close> returns is a median of the measured rounds: at least half of them took at most
  that long, at least half at least that long, whatever the warm-up rounds took, the buffers
  held before and the hash computes.
\<close>

theorem timeit_median:
  fixes ck :: "'d::linorder clock" and func inlen outlen
  assumes "length (timings mem) = NUM_TIMINGS"
  defines "r \<equiv> timeit ck func inlen outlen mem"
  shows "r \<in> set (measured ck) \<and> NUM_TIMINGS \<le> 2 * length (filter (\<lambda>t. t \<le> r) (measured ck))
    \<and> NUM_TIMINGS \<le> 2 * length (filter (\<lambda>t. r \<le> t) (measured ck))"
proof -
  have r: "r = sort (measured ck) ! (NUM_TIMINGS div 2)"
    using assms by (simp add: r_def timeit_def timeit_run_simps qsort_sort)
  have l: "length (measured ck) = NUM_TIMINGS" by (simp add: measured_def)
  then have "NUM_TIMINGS div 2 < length (sort (measured ck))" by (simp add: NUM_TIMINGS_def)
  then have "r \<in> set (measured ck)" unfolding r by (metis nth_mem set_sort)
  then show ?thesis
    using median_rank [OF l] r by simp
qed

text \<open>
  The copy in \<open>test.c\<close> returns the same median, but the number it prints as the ``median'' is the
  time of the last round alone: with every round but the last taking \<open>a\<close> and the last taking \<open>b\<close>, it returns
  \<open>a\<close> and prints \<open>b\<close>.
\<close>

theorem printed_is_last_round:
  fixes ck :: "'d::linorder clock"
  assumes "length (timings mem) = NUM_TIMINGS"
    and "\<forall>i < NUM_TIMINGS. per_call ck (elapsed ck (int i)) = (if i = NUM_TIMINGS - 1 then b else a)"
  shows "timeit_printing ck func inlen outlen mem = (b, a)"
proof -
  have n: "NUM_TIMINGS = Suc (NUM_TIMINGS - 1)" by (simp add: NUM_TIMINGS_def)
  have m: "measured ck = replicate (NUM_TIMINGS - 1) a @ [b]"
    unfolding measured_def by (rule nth_equalityI) (use assms(2) n in \<open>auto simp: nth_append\<close>)
  let ?s = "sort (measured ck)"
  have "?s ! (NUM_TIMINGS div 2) = a"
  proof -
    have "?s = (if a \<le> b then replicate (NUM_TIMINGS - 1) a @ [b] else b # replicate (NUM_TIMINGS - 1) a)"
      by (rule properties_for_sort) (auto simp: m sorted_append)
    then show ?thesis
      by (auto simp: nth_append nth_Cons' NUM_TIMINGS_def)
  qed
  moreover have "per_call ck (elapsed ck (int NUM_TIMINGS - 1)) = b"
    using assms(2) [rule_format, of "NUM_TIMINGS - 1"] by (simp add: NUM_TIMINGS_def)
  ultimately show ?thesis
    using assms(1) by (simp add: timeit_printing_def timeit_run_simps qsort_sort Let_def)
qed

theorem timeit_median_witness:
  "timeit \<lparr>rnd = \<lambda>_. 0, tsc_start = \<lambda>_. (0, 0), tsc_end = \<lambda>i. (of_int i, 0), per_call = unat\<rparr> (\<lambda>out _ _ _. out) 4 4
      \<lparr>rnd_pos = 0, inbuf = [], outbuf = [], timer = 0, timings = replicate NUM_TIMINGS 0\<rparr>
     \<in> set (measured \<lparr>rnd = \<lambda>_. 0, tsc_start = \<lambda>_. (0, 0), tsc_end = \<lambda>i. (of_int i, 0), per_call = unat\<rparr>)"
  by (rule timeit_median [THEN conjunct1]) simp

theorem printed_is_last_round_witness:
  "timeit_printing \<lparr>rnd = \<lambda>_. 0, tsc_start = \<lambda>_. (0, 0), tsc_end = \<lambda>i. (if i = 9999 then 7 else 3, 0), per_call = unat\<rparr>
      (\<lambda>out _ _ _. out) 4 4 \<lparr>rnd_pos = 0, inbuf = [], outbuf = [], timer = 0, timings = replicate NUM_TIMINGS 0\<rparr> = (7, 3)"
  by (rule printed_is_last_round)
    (auto simp: elapsed_def startTimer_def endTimer_def NUM_TIMINGS_def)

end
