(* ===== verification/Hex_Dump.thy ===== *)
theory Hex_Dump
  imports EC_Prelude
begin

text \<open>
  \<open>hex_dump\<close> of \<open>examples/common/utils.c\<close>, which prints a packet in lines of 32 bytes: the bytes in hexadecimal,
  padding, and the visible characters.  The model is the text it prints.  The stack buffer that
  is printed before every line is never written in the code; its contents are a parameter.
\<close>

section \<open>The formats of printf\<close>

fun dec :: "nat \<Rightarrow> string" where
  "dec n = (if n < 10 then [char_of (48 + n)] else dec (n div 10) @ [char_of (48 + n mod 10)])"

declare dec.simps [simp del]

definition hex1 :: "nat \<Rightarrow> char" where
  "hex1 n = (if n < 10 then char_of (48 + n) else char_of (55 + n))"

definition hex2 :: "u8 \<Rightarrow> string" where
  "hex2 b = [hex1 (unat b div 16), hex1 (unat b mod 16)]"

definition visible :: "u8 \<Rightarrow> char" where
  "visible c = (if c < 33 \<or> c = 255 then char_of (0x2E :: nat) else char_of (unat c))"

section \<open>utils.c\<close>

definition line_size :: nat where "line_size = 32"

text \<open>The number of steps to the next multiple of the line size.\<close>

definition to_line :: "nat \<Rightarrow> nat" where
  "to_line i = (if i mod line_size = 0 then 0 else line_size - i mod line_size)"

lemma to_line_Suc: "i mod line_size \<noteq> 0 \<Longrightarrow> to_line i = Suc (to_line (Suc i))"
  by (auto simp: to_line_def mod_Suc line_size_def)

function pad :: "nat \<Rightarrow> string" where
  "pad i = (if i mod line_size \<noteq> 0 then ''__ '' @ pad (i + 1) else '''')"
  by auto

termination
  by (relation "measure to_line") (simp_all add: to_line_Suc)

declare pad.simps [simp del]

text \<open>\<open>line\<close> holds the bytes between the two pointers, \<open>i\<close> counts the bytes printed.\<close>

fun hex_loop :: "string \<Rightarrow> u8 list \<Rightarrow> u8 list \<Rightarrow> nat \<Rightarrow> string" where
  "hex_loop buf line [] i = ''''"
| "hex_loop buf line (b # bs) i =
     (let line = line @ [b]; i = i + 1
      in hex2 b @ '' '' @
         (if i mod line_size = 0 \<or> (bs = [] \<and> i mod line_size \<noteq> 0) then
            (if bs = [] then pad i else '''') @ '' | '' @ map visible line @ ''\<newline>''
            @ (if bs \<noteq> [] then buf @ '' | '' else '''') @ hex_loop buf [] bs i
          else hex_loop buf line bs i))"

definition hex_dump :: "string \<Rightarrow> u8 list \<Rightarrow> string" where
  "hex_dump buf pkt =
     ''length = '' @ dec (length pkt) @ ''\<newline>'' @ buf @ '' | '' @ hex_loop buf [] pkt 0 @ ''\<newline>''"

section \<open>The layout\<close>

fun chunks :: "'a list \<Rightarrow> 'a list list" where
  "chunks [] = []"
| "chunks (x # xs) = take line_size (x # xs) # chunks (drop (line_size - 1) xs)"

definition dump_line :: "u8 list \<Rightarrow> string" where
  "dump_line c = concat (map (\<lambda>b. hex2 b @ '' '') c) @ concat (replicate (line_size - length c) ''__ '')
     @ '' | '' @ map visible c @ ''\<newline>''"

fun dump_lines :: "string \<Rightarrow> u8 list list \<Rightarrow> string" where
  "dump_lines buf [] = ''''"
| "dump_lines buf [c] = dump_line c"
| "dump_lines buf (c # cs) = dump_line c @ buf @ '' | '' @ dump_lines buf cs"

lemma pad_eq: "pad i = concat (replicate (to_line i) ''__ '')"
proof (induction i rule: pad.induct)
  case (1 i)
  then show ?case
    by (subst pad.simps) (simp add: to_line_Suc, simp add: to_line_def)
qed

lemma chunks_short: "xs \<noteq> [] \<Longrightarrow> length xs \<le> line_size \<Longrightarrow> chunks xs = [xs]"
  by (cases xs) (auto simp: line_size_def)

lemma chunks_long: "length xs = line_size \<Longrightarrow> chunks (xs @ ys) = xs # chunks ys"
  by (cases xs) (auto simp: line_size_def)

lemma dump_lines_Cons: "dump_lines buf (c # cs) = dump_line c @ (if cs = [] then '''' else buf @ '' | '' @ dump_lines buf cs)"
  by (cases cs) simp_all

definition cells :: "u8 list \<Rightarrow> string" where
  "cells c = concat (map (\<lambda>b. hex2 b @ '' '') c)"

text \<open>The loop, entered with \<open>line\<close> already printed, prints the rest of the lines.\<close>

lemma hex_loop_lines:
  assumes "i mod line_size = length line" "length line < line_size" "bs \<noteq> []"
  shows "cells line @ hex_loop buf line bs i = dump_lines buf (chunks (line @ bs))"
  using assms
proof (induction buf line bs i rule: hex_loop.induct)
  case (2 buf line b bs i)
  have c: "cells (line @ [b]) = cells line @ hex2 b @ '' ''" by (simp add: cells_def)
  have len: "Suc i mod line_size = (if length (line @ [b]) = line_size then 0 else length (line @ [b]))"
    using "2.prems" by (auto simp: mod_Suc)
  consider (full) "length (line @ [b]) = line_size" "bs \<noteq> []" | (last) "bs = []"
    | (mid) "length (line @ [b]) < line_size" "bs \<noteq> []"
    using "2.prems" by fastforce
  then show ?case
  proof cases
    case full
    then have "cells [] @ hex_loop buf [] bs (i + 1) = dump_lines buf (chunks bs)"
      using "2.IH"(1) [of "line @ [b]" "i + 1"] len by (simp add: line_size_def)
    moreover have "chunks bs \<noteq> []" using full(2) by (cases bs) simp_all
    ultimately show ?thesis
      using full chunks_long [OF full(1), of bs] len c
      by (simp add: dump_lines_Cons dump_line_def cells_def)
  next
    case last
    have "to_line (Suc i) = line_size - length (line @ [b])"
      using len "2.prems"(2) by (simp add: to_line_def)
    then show ?thesis
      using last chunks_short [of "line @ [b]"] "2.prems"(2) c
      by (cases "Suc i mod line_size = 0") (simp_all add: dump_line_def cells_def pad_eq Let_def)
  next
    case mid
    then have "cells (line @ [b]) @ hex_loop buf (line @ [b]) bs (i + 1) = dump_lines buf (chunks ((line @ [b]) @ bs))"
      using "2.IH"(2) [of "line @ [b]" "i + 1"] len by simp
    then show ?thesis
      using mid c len by simp
  qed
qed simp

text \<open>The text printed is one line per 32 bytes, the last one padded to the same width.\<close>

lemma hex_dump_layout:
  "hex_dump buf bs = ''length = '' @ dec (length bs) @ ''\<newline>'' @ buf @ '' | '' @ dump_lines buf (chunks bs) @ ''\<newline>''"
  using hex_loop_lines [of 0 "[]" bs buf] by (cases bs) (simp_all add: hex_dump_def cells_def line_size_def)

section \<open>Reading a dump back\<close>

definition unhex1 :: "char \<Rightarrow> nat" where
  "unhex1 c = (if of_char c < (65 :: nat) then of_char c - 48 else of_char c - 55)"

text \<open>\<open>n\<close> cells of a line: the bytes and the rest of the text.\<close>

fun uncells :: "nat \<Rightarrow> string \<Rightarrow> u8 list \<times> string" where
  "uncells (Suc n) (x # y # z # s) =
     (case uncells n s of (bs, r) \<Rightarrow> (if x = CHR ''_'' then bs else of_nat (16 * unhex1 x + unhex1 y) # bs, r))"
| "uncells n s = ([], s)"

text \<open>
  The lines, each after a prefix of \<open>k\<close> characters, as long as more than the final newline is left.  The first
  argument bounds their number.
\<close>

fun unlines :: "nat \<Rightarrow> nat \<Rightarrow> string \<Rightarrow> u8 list" where
  "unlines (Suc n) k s =
     (if length s \<le> 1 then []
      else case uncells line_size (drop k s) of (bs, r) \<Rightarrow> bs @ unlines n k (drop (length bs + 4) r))"
| "unlines 0 k s = []"

definition undump :: "nat \<Rightarrow> string \<Rightarrow> u8 list" where
  "undump k s = unlines (length s) (k + 3) (tl (dropWhile (\<lambda>c. c \<noteq> CHR ''\<newline>'') s))"

lemma hex1_simps: "n < 16 \<Longrightarrow> unhex1 (hex1 n) = n" "n < 16 \<Longrightarrow> hex1 n \<noteq> CHR ''_''"
proof -
  assume n: "n < 16"
  then have o: "of_char (hex1 n) = (if n < 10 then 48 + n else 55 + n)"
    by (simp add: hex1_def of_char_of)
  then show "unhex1 (hex1 n) = n" by (simp add: unhex1_def)
  have "of_char (hex1 n) \<noteq> (95 :: nat)" using o n by simp
  then show "hex1 n \<noteq> CHR ''_''" by auto
qed

lemma uncells_cells:
  "length c \<le> n \<Longrightarrow>
     uncells n (cells c @ concat (replicate (n - length c) ''__ '') @ r) = (c, r)"
proof (induction c arbitrary: n)
  case Nil
  show ?case
  proof (induction n)
    case (Suc n)
    then show ?case by (simp add: cells_def)
  qed (cases r; simp add: cells_def)
next
  case (Cons b c)
  then obtain m where m: "n = Suc m" by (cases n) auto
  have "unat b < 256" using unsigned_less [of b, where 'a = nat] by simp
  then have d: "unat b div 16 < 16" by (simp add: div_less_iff_less_mult)
  then have "of_nat (16 * unhex1 (hex1 (unat b div 16)) + unhex1 (hex1 (unat b mod 16))) = b"
    by (simp only: hex1_simps mod_less_divisor zero_less_numeral mult_div_mod_eq of_nat_unat ucast_id)
  moreover have "hex1 (unat b div 16) \<noteq> CHR ''_''"
    using d by (rule hex1_simps)
  ultimately show ?case
    using Cons.IH [of m] Cons.prems m by (simp add: cells_def hex2_def)
qed

lemma uncells_line:
  "length c \<le> line_size \<Longrightarrow> uncells line_size (dump_line c @ r) = (c, '' | '' @ map visible c @ ''\<newline>'' @ r)"
  using uncells_cells [of c line_size "'' | '' @ map visible c @ ''\<newline>'' @ r"] by (simp add: dump_line_def cells_def)

lemma drop_line: "drop (length c + 4) ('' | '' @ map visible c @ ''\<newline>'' @ r) = r"
  by (simp add: eval_nat_numeral)

lemma drop_prefix: "drop (length buf + 3) (buf @ '' | '' @ r) = r"
  by (simp add: eval_nat_numeral)

lemma unlines_end: "unlines n k ''\<newline>'' = []"
  by (cases n) simp_all

lemma unlines_dump:
  assumes "\<forall>c \<in> set cs. length c \<le> line_size" "length cs < n" "cs \<noteq> []"
  shows "unlines n (length buf + 3) (buf @ '' | '' @ dump_lines buf cs @ ''\<newline>'') = concat cs"
  using assms
proof (induction cs arbitrary: n)
  case (Cons c cs)
  then obtain m where m: "n = Suc m" by (cases n) auto
  define r where "r = (if cs = [] then ''\<newline>'' else buf @ '' | '' @ dump_lines buf cs @ ''\<newline>'')"
  have "dump_lines buf (c # cs) @ ''\<newline>'' = dump_line c @ r"
    by (simp add: dump_lines_Cons r_def)
  moreover have "unlines m (length buf + 3) r = concat cs"
    using Cons.IH [of m] Cons.prems m by (simp add: r_def unlines_end)
  ultimately show ?case
    using m Cons.prems(1) uncells_line [of c r] drop_line [of c r] drop_prefix [of buf "dump_line c @ r"]
    by (simp del: drop_append)
qed simp

lemma concat_chunks: "concat (chunks xs) = xs"
proof (induction xs rule: chunks.induct)
  case (2 x xs)
  then show ?case by (simp add: line_size_def)
qed simp

lemma length_chunks: "c \<in> set (chunks xs) \<Longrightarrow> length c \<le> line_size" "length (chunks xs) \<le> length xs"
proof (induction xs rule: chunks.induct)
  case (2 x xs)
  {
    case 1
    then show ?case using "2.IH"(1) by (auto simp: line_size_def)
  next
    case 2
    then show ?case using "2.IH"(2) by (simp add: line_size_def)
  }
qed simp_all

lemma dec_digits: "CHR ''\<newline>'' \<notin> set (dec n)"
proof (induction n rule: dec.induct)
  case (1 n)
  have "char_of (48 + k) \<noteq> CHR ''\<newline>''" if "k < 10" for k :: nat
  proof
    assume "char_of (48 + k) = CHR ''\<newline>''"
    then have "of_char (char_of (48 + k) :: char) = (10 :: nat)" by simp
    then show False using that by simp
  qed
  then show ?case
    using 1 by (subst dec.simps) (simp add: eq_commute)
qed

text \<open>
  A dump can be read back.  From the text printed for a packet and the number of characters
  of the prefix, the packet is recovered byte by byte: the two-digit cells, the padding of the
  last line and the column of characters never get in each other's way.
\<close>

theorem hex_dump_roundtrip: "undump (length buf) (hex_dump buf bs) = bs"
proof -
  let ?l = "buf @ '' | '' @ dump_lines buf (chunks bs) @ ''\<newline>''"
  have "dropWhile (\<lambda>c. c \<noteq> CHR ''\<newline>'') (''length = '' @ dec (length bs) @ ''\<newline>'' @ ?l) = ''\<newline>'' @ ?l"
    using dec_digits [of "length bs"] by (subst append_assoc [symmetric], subst dropWhile_append2) auto
  then have u: "undump (length buf) (hex_dump buf bs) = unlines (length (hex_dump buf bs)) (length buf + 3) ?l"
    by (simp add: undump_def hex_dump_layout)
  show ?thesis
  proof (cases "bs = []")
    case True
    have "unlines (Suc (Suc n)) (length buf + 3) (buf @ '' | '' @ ''\<newline>'') = []" for n
      using drop_prefix [of buf "''\<newline>''"] by (simp add: line_size_def eval_nat_numeral del: drop_append)
    moreover have "length (hex_dump buf bs) = Suc (Suc (length (hex_dump buf bs) - 2))"
      by (simp add: hex_dump_layout)
    ultimately show ?thesis
      using u True by (metis append_Nil chunks.simps(1) dump_lines.simps(1))
  next
    case False
    then have "chunks bs \<noteq> []" by (cases bs) simp_all
    moreover have "length (chunks bs) < length (hex_dump buf bs)"
    proof -
      have "length cs \<le> length (dump_lines buf cs)" for cs
        by (induction cs) (simp_all add: dump_lines_Cons dump_line_def)
      from this [of "chunks bs"] show ?thesis by (simp add: hex_dump_layout)
    qed
    moreover have "\<forall>c \<in> set (chunks bs). length c \<le> line_size"
      using length_chunks(1) by blast
    ultimately have "unlines (length (hex_dump buf bs)) (length buf + 3) ?l = concat (chunks bs)"
      by (intro unlines_dump)
    then show ?thesis
      unfolding u concat_chunks .
  qed
qed

end
