(* ===== verification/Hash_Variants.thy ===== *)
theory Hash_Variants
  imports Hashes Hsiphash
begin

text \<open>
  The 64-bit hashes of \<open>examples/common/fnv.c\<close> and the benchmark version of the cookie hash,
  \<open>examples/common/hsiphash.c\<close>.  The FNV hashes of both widths are shown to be steps that can be
  undone, so that buffers that differ in one byte have different hashes.
\<close>

section \<open>fnv.c, 64 bits\<close>

definition FNV_64_PRIME :: u64 where "FNV_64_PRIME = 0x100000001b3"

definition fnv_mult_64 :: "u64 \<Rightarrow> u64" where
  "fnv_mult_64 hval = hval + (push_bit 1 hval + push_bit 4 hval + push_bit 5 hval
     + push_bit 7 hval + push_bit 8 hval + push_bit 40 hval)"

fun fnv_64_buf :: "u8 list \<Rightarrow> u64 \<Rightarrow> u64" where
  "fnv_64_buf [] hval = hval"
| "fnv_64_buf (b # bs) hval = fnv_64_buf bs (fnv_mult_64 hval XOR ucast b)"

fun fnv_64_str :: "u8 list \<Rightarrow> u64 \<Rightarrow> u64" where
  "fnv_64_str [] hval = hval"
| "fnv_64_str (b # bs) hval = (if b = 0 then hval else fnv_64_str bs (fnv_mult_64 hval XOR ucast b))"

fun fnv_64a_buf :: "u8 list \<Rightarrow> u64 \<Rightarrow> u64" where
  "fnv_64a_buf [] hval = hval"
| "fnv_64a_buf (b # bs) hval = fnv_64a_buf bs (fnv_mult_64 (hval XOR ucast b))"

fun fnv_64a_str :: "u8 list \<Rightarrow> u64 \<Rightarrow> u64" where
  "fnv_64a_str [] hval = hval"
| "fnv_64a_str (b # bs) hval = (if b = 0 then hval else fnv_64a_str bs (fnv_mult_64 (hval XOR ucast b)))"

section \<open>hsiphash.c\<close>

text \<open>The keys are the first two bytes of the input, which is the message as well.\<close>

definition hsiphash_perf :: "mem \<Rightarrow> nat \<Rightarrow> u32" where
  "hsiphash_perf m in_p =
     (let key0 = ucast (m in_p); key1 = ucast (m (in_p + 1));
          v0 = c0 XOR key0; v1 = c1 XOR key1; v2 = c2 XOR key0; v3 = c3 XOR key1;
          v3 = v3 XOR ntohl (ld32 m in_p);
          (v0, v1, v2, v3) = SIPROUND (v0, v1, v2, v3);
          (v0, v1, v2, v3) = SIPROUND (v0, v1, v2, v3);
          v0 = v0 XOR ntohl (ld32 m in_p);
          v3 = v3 XOR ntohl (ld32 m (in_p + 4));
          (v0, v1, v2, v3) = SIPROUND (v0, v1, v2, v3);
          (v0, v1, v2, v3) = SIPROUND (v0, v1, v2, v3);
          v0 = v0 XOR ntohl (ld32 m (in_p + 4));
          v3 = v3 XOR ntohl (ld32 m (in_p + 8));
          (v0, v1, v2, v3) = SIPROUND (v0, v1, v2, v3);
          (v0, v1, v2, v3) = SIPROUND (v0, v1, v2, v3);
          v0 = v0 XOR ntohl (ld32 m (in_p + 8));
          v3 = v3 XOR ntohl (ld32 m (in_p + 12));
          (v0, v1, v2, v3) = SIPROUND (v0, v1, v2, v3);
          (v0, v1, v2, v3) = SIPROUND (v0, v1, v2, v3);
          v0 = v0 XOR ntohl (ld32 m (in_p + 12));
          v2 = v2 XOR 0xFF;
          (v0, v1, v2, v3) = SIPROUND (v0, v1, v2, v3);
          (v0, v1, v2, v3) = SIPROUND (v0, v1, v2, v3);
          (v0, v1, v2, v3) = SIPROUND (v0, v1, v2, v3);
          (v0, v1, v2, v3) = SIPROUND (v0, v1, v2, v3)
      in (v0 XOR v1) XOR (v2 XOR v3))"

section \<open>Hashes made of reversible steps\<close>

locale byte_hash =
  fixes hash :: "u8 list \<Rightarrow> 'h \<Rightarrow> 'h" and mix :: "'h \<Rightarrow> u8 \<Rightarrow> 'h"
  assumes hash_Nil: "hash [] h = h"
    and hash_Cons: "hash (b # bs) h = hash bs (mix h b)"
    and mix_state: "mix h b = mix h' b \<Longrightarrow> h = h'"
    and mix_byte: "mix h b = mix h b' \<Longrightarrow> b = b'"
begin

lemma hash_append: "hash (xs @ ys) h = hash ys (hash xs h)"
  by (induction xs arbitrary: h) (simp_all add: hash_Nil hash_Cons)

lemma hash_inj: "hash bs h = hash bs h' \<Longrightarrow> h = h'"
  by (induction bs arbitrary: h h') (auto simp: hash_Nil hash_Cons dest: mix_state)

lemma one_byte: "hash (xs @ b # ys) h = hash (xs @ b' # ys) h \<longleftrightarrow> b = b'"
  by (auto simp: hash_append hash_Cons dest!: hash_inj mix_byte)

end

lemma fnv_mult_64_eq: "fnv_mult_64 h = FNV_64_PRIME * h"
  by (simp add: fnv_mult_64_def FNV_64_PRIME_def push_bit_eq_mult algebra_simps)

text \<open>Multiplication by either prime has an inverse.\<close>

lemma fnv_primes: "0x359c449b * 0x01000193 = (1 :: u32)" "0xce965057aff6957b * FNV_64_PRIME = (1 :: u64)"
  by (simp_all add: FNV_64_PRIME_def)

lemma fnv_mult_inv: "0x359c449b * fnv_mult h = h" "0xce965057aff6957b * fnv_mult_64 k = k"
  by (simp_all only: fnv_mult_eq fnv_mult_64_eq mult.assoc [symmetric] fnv_primes mult_1)

lemma fnv_mult_inj [dest!]: "fnv_mult h = fnv_mult h' \<Longrightarrow> h = h'" "fnv_mult_64 k = fnv_mult_64 k' \<Longrightarrow> k = k'"
  by (metis fnv_mult_inv(1), metis fnv_mult_inv(2))

lemma xor_word_inj:
  "(h :: 'a::len word) XOR c = h' XOR c \<longleftrightarrow> h = h'" "(h :: 'a word) XOR c = h XOR c' \<longleftrightarrow> c = c'"
  by (metis xor.assoc xor_self_eq xor.right_neutral, metis xor.assoc xor_self_eq xor.left_neutral)

lemma ucast_byte_back: "(ucast (ucast b :: u32) :: u8) = b" "(ucast (ucast b :: u64) :: u8) = b"
  by (rule bit_word_eqI, simp add: bit_simps)+

lemma ucast_byte_inj: "(ucast (b :: u8) :: u32) = ucast b' \<longleftrightarrow> b = b'" "(ucast b :: u64) = ucast b' \<longleftrightarrow> b = b'"
  by (metis ucast_byte_back(1), metis ucast_byte_back(2))

interpretation fnv1_32: byte_hash fnv_32_buf "\<lambda>h b. fnv_mult h XOR ucast b"
  by unfold_locales (auto simp: xor_word_inj ucast_byte_inj)

interpretation fnv1a_32: byte_hash fnv_32a_buf "\<lambda>h b. fnv_mult (h XOR ucast b)"
  by unfold_locales (auto simp: xor_word_inj ucast_byte_inj)

interpretation fnv1_64: byte_hash fnv_64_buf "\<lambda>h b. fnv_mult_64 h XOR ucast b"
  by unfold_locales (auto simp: xor_word_inj ucast_byte_inj)

interpretation fnv1a_64: byte_hash fnv_64a_buf "\<lambda>h b. fnv_mult_64 (h XOR ucast b)"
  by unfold_locales (auto simp: xor_word_inj ucast_byte_inj)

text \<open>
  Changing one byte of a buffer changes its FNV hash, at either width and in either order
  of multiplication and exclusive or, whatever the seed.
\<close>

theorem fnv_one_byte:
  "(fnv_32_buf (xs @ b # ys) h = fnv_32_buf (xs @ b' # ys) h \<longleftrightarrow> b = b')
   \<and> (fnv_32a_buf (xs @ b # ys) h = fnv_32a_buf (xs @ b' # ys) h \<longleftrightarrow> b = b')
   \<and> (fnv_64_buf (xs @ b # ys) k = fnv_64_buf (xs @ b' # ys) k \<longleftrightarrow> b = b')
   \<and> (fnv_64a_buf (xs @ b # ys) k = fnv_64a_buf (xs @ b' # ys) k \<longleftrightarrow> b = b')"
  by (simp only: fnv1_32.one_byte fnv1a_32.one_byte fnv1_64.one_byte fnv1a_64.one_byte simp_thms)

section \<open>Reference versions\<close>

text \<open>The branches of \<open>fnv.c\<close> that multiply by the prime, and the strings before their final zero.\<close>

theorem fnv_64_correct:
  "fnv_64_buf bs k = foldl (\<lambda>hval b. (FNV_64_PRIME * hval) XOR ucast b) k bs
   \<and> fnv_64a_buf bs k = foldl (\<lambda>hval b. FNV_64_PRIME * (hval XOR ucast b)) k bs
   \<and> fnv_64_str bs k = fnv_64_buf (takeWhile (\<lambda>b. b \<noteq> 0) bs) k
   \<and> fnv_64a_str bs k = fnv_64a_buf (takeWhile (\<lambda>b. b \<noteq> 0) bs) k"
  by (induction bs arbitrary: k) (simp_all add: fnv_mult_64_eq)

text \<open>The benchmark version is the scheme of the agents on four words of the input.\<close>

theorem hsiphash_perf_scheme:
  "hsiphash_perf m p = hsip (ucast (m p)) (ucast (m (p + 1)))
     [ntohl (ld32 m p), ntohl (ld32 m (p + 4)), ntohl (ld32 m (p + 8)), ntohl (ld32 m (p + 12))]"
  by (simp only: hsiphash_perf_def hsip_def Let_def case_prod_unfold hsip_absorb_def hsip_final_def
      fold_simps fst_conv snd_conv prod.collapse)

end
