(* ===== verification/Hash_Bench.thy ===== *)
theory Hash_Bench
  imports Hash_Variants
begin

text \<open>
  The hash functions that only the benchmark \<open>examples/htscookie/test.c\<close> has, and its measurement of
  collisions, \<open>hash_distribution\<close>.  The SipHash of the benchmark is compared with the definition
  of SipHash-2-4 on padded words.
\<close>

section \<open>siphash24\<close>

type_synonym sip64 = "u64 \<times> u64 \<times> u64 \<times> u64"

definition ROTATE :: "u64 \<Rightarrow> nat \<Rightarrow> u64" where
  "ROTATE x b = push_bit b x OR drop_bit (64 - b) x"

definition HALF_ROUND :: "nat \<Rightarrow> nat \<Rightarrow> sip64 \<Rightarrow> sip64" where
  "HALF_ROUND s t = (\<lambda>(a, b, c, d).
     let a = a + b; c = c + d; b = ROTATE b s XOR a; d = ROTATE d t XOR c; a = ROTATE a 32 in (a, b, c, d))"

definition DOUBLE_ROUND :: "sip64 \<Rightarrow> sip64" where
  "DOUBLE_ROUND = (\<lambda>(v0, v1, v2, v3).
     let (v0, v1, v2, v3) = HALF_ROUND 13 16 (v0, v1, v2, v3);
         (v2, v1, v0, v3) = HALF_ROUND 17 21 (v2, v1, v0, v3);
         (v0, v1, v2, v3) = HALF_ROUND 13 16 (v0, v1, v2, v3);
         (v2, v1, v0, v3) = HALF_ROUND 17 21 (v2, v1, v0, v3)
     in (v0, v1, v2, v3))"

definition le64 :: "u8 list \<Rightarrow> u64" where
  "le64 b = mk64 (mk32 (b ! 0) (b ! 1) (b ! 2) (b ! 3)) (mk32 (b ! 4) (b ! 5) (b ! 6) (b ! 7))"

text \<open>The loop over whole words, and the bytes it leaves.\<close>

fun siphash_loop :: "u8 list \<Rightarrow> sip64 \<Rightarrow> sip64 \<times> u8 list" where
  "siphash_loop m v =
     (if 8 \<le> length m then
        (let mi = le64 (take 8 m); (v0, v1, v2, v3) = v; (v0, v1, v2, v3) = DOUBLE_ROUND (v0, v1, v2, v3 XOR mi)
         in siphash_loop (drop 8 m) (v0 XOR mi, v1, v2, v3))
      else (v, m))"

text \<open>The bytes that are left, with the cases of the switch falling through.\<close>

definition siphash_tail :: "u8 list \<Rightarrow> u64" where
  "siphash_tail m =
     (let n = length m; pt = replicate 8 0;
          pt = (if n = 7 then pt[6 := m ! 6] else pt);
          pt = (if n = 7 \<or> n = 6 then pt[5 := m ! 5] else pt);
          pt = (if n = 7 \<or> n = 6 \<or> n = 5 then pt[4 := m ! 4] else pt);
          pt = (if n = 7 \<or> n = 6 \<or> n = 5 \<or> n = 4 then pt[0 := m ! 0, 1 := m ! 1, 2 := m ! 2, 3 := m ! 3] else pt);
          pt = (if n = 3 then pt[2 := m ! 2] else pt);
          pt = (if n = 3 \<or> n = 2 then pt[1 := m ! 1] else pt);
          pt = (if n = 3 \<or> n = 2 \<or> n = 1 then pt[0 := m ! 0] else pt)
      in le64 pt)"

definition siphash24 :: "u8 list \<Rightarrow> u32 \<Rightarrow> u64" where
  "siphash24 src key =
     (let k0 = 0x77859091aff27184; k1 = 0x8192471092ffca12;
          b = push_bit 56 (of_nat (length src));
          ((v0, v1, v2, v3), m) = siphash_loop src
            (k0 XOR 0x736f6d6570736575, k1 XOR 0x646f72616e646f6d, k0 XOR 0x6c7967656e657261, k1 XOR 0x7465646279746573);
          b = b OR siphash_tail m;
          v3 = v3 XOR b;
          (v0, v1, v2, v3) = DOUBLE_ROUND (v0, v1, v2, v3);
          v0 = v0 XOR b; v2 = v2 XOR 0xff;
          (v0, v1, v2, v3) = DOUBLE_ROUND (v0, v1, v2, v3);
          (v0, v1, v2, v3) = DOUBLE_ROUND (v0, v1, v2, v3)
      in (v0 XOR v1) XOR (v2 XOR v3))"

section \<open>djb2 and sdbm on 64 bits\<close>

fun djb2_ul :: "u8 list \<Rightarrow> u64 \<Rightarrow> u64" where
  "djb2_ul [] hash = hash"
| "djb2_ul (c # cs) hash = djb2_ul cs ((push_bit 5 hash + hash) + ucast c)"

fun djb2a_ul :: "u8 list \<Rightarrow> u64 \<Rightarrow> u64" where
  "djb2a_ul [] hash = hash"
| "djb2a_ul (c # cs) hash = djb2a_ul cs ((push_bit 5 hash + hash) XOR ucast c)"

fun sdbm_ul :: "u8 list \<Rightarrow> u64 \<Rightarrow> u64" where
  "sdbm_ul [] hash = hash"
| "sdbm_ul (c # cs) hash = sdbm_ul cs (ucast c + push_bit 6 hash + push_bit 16 hash - hash)"

text \<open>Addition and subtraction bind stronger than the exclusive or.\<close>

fun sdbma_ul :: "u8 list \<Rightarrow> u64 \<Rightarrow> u64" where
  "sdbma_ul [] hash = hash"
| "sdbma_ul (c # cs) hash = sdbma_ul cs ((ucast c + push_bit 6 hash) XOR (push_bit 16 hash - hash))"

section \<open>hash_distribution\<close>

datatype modes = MSB16 | LSB16 | XOR_MODE

definition reduce :: "modes \<Rightarrow> u32 \<Rightarrow> u32" where
  "reduce m h = (case m of XOR_MODE \<Rightarrow> drop_bit 16 h XOR (h AND 0xffff) | LSB16 \<Rightarrow> h AND 0xffff | MSB16 \<Rightarrow> drop_bit 16 h)"

type_synonym dist = "(u32 \<Rightarrow> u32) \<times> u64 \<times> u64"

text \<open>The array is indexed by reduced hashes; \<open>cnt\<close> counts first hits, \<open>cnt2\<close> the others.\<close>

definition hit :: "u32 \<Rightarrow> dist \<Rightarrow> dist" where
  "hit h = (\<lambda>(array, cnt, cnt2).
     if array h = 0 then (array(h := array h + 1), cnt + 1, cnt2) else (array(h := array h + 1), cnt, cnt2 + 1))"

fun dist_keys :: "modes \<Rightarrow> (u8 list \<Rightarrow> u32 \<Rightarrow> u32) \<Rightarrow> u32 \<Rightarrow> u32 \<Rightarrow> nat \<Rightarrow> dist \<Rightarrow> dist" where
  "dist_keys m func ms seed 0 d = d"
| "dist_keys m func ms seed (Suc j) d = hit (reduce m (func (bytes32 (ms + of_nat j)) seed)) (dist_keys m func ms seed j d)"

fun dist_rounds :: "modes \<Rightarrow> (u8 list \<Rightarrow> u32 \<Rightarrow> u32) \<Rightarrow> (u32 \<times> u32) list \<Rightarrow> u64 \<times> u64 \<Rightarrow> u64 \<times> u64" where
  "dist_rounds m func [] c = c"
| "dist_rounds m func ((ms, seed) # xs) (cnt, cnt2) =
     (let (_, cnt, cnt2) = dist_keys m func ms seed 65536 (\<lambda>_. 0, cnt, cnt2) in dist_rounds m func xs (cnt, cnt2))"

definition hash_distribution :: "(u8 list \<Rightarrow> u32 \<Rightarrow> u32) \<Rightarrow> (u32 \<times> u32) list \<Rightarrow> (modes \<times> u64 \<times> u64) list" where
  "hash_distribution func rounds = map (\<lambda>m. (m, dist_rounds m func rounds (0, 0))) [MSB16, LSB16, XOR_MODE]"

section \<open>SipHash-2-4\<close>

definition sipround :: "sip64 \<Rightarrow> sip64" where
  "sipround = (\<lambda>(v0, v1, v2, v3).
     let v0 = v0 + v1; v1 = word_rotl 13 v1; v1 = v1 XOR v0; v0 = word_rotl 32 v0;
         v2 = v2 + v3; v3 = word_rotl 16 v3; v3 = v3 XOR v2;
         v0 = v0 + v3; v3 = word_rotl 21 v3; v3 = v3 XOR v0;
         v2 = v2 + v1; v1 = word_rotl 17 v1; v1 = v1 XOR v2; v2 = word_rotl 32 v2
     in (v0, v1, v2, v3))"

definition compress :: "u64 \<Rightarrow> sip64 \<Rightarrow> sip64" where
  "compress mi = (\<lambda>(v0, v1, v2, v3).
     case (sipround ^^ 2) (v0, v1, v2, v3 XOR mi) of (v0, v1, v2, v3) \<Rightarrow> (v0 XOR mi, v1, v2, v3))"

text \<open>The words of a message of length \<open>n\<close>; the last one ends with the length.\<close>

fun sip_words :: "nat \<Rightarrow> u8 list \<Rightarrow> u64 list" where
  "sip_words n m =
     (if 8 \<le> length m then le64 (take 8 m) # sip_words n (drop 8 m)
      else [le64 (m @ replicate (7 - length m) 0 @ [of_nat n])])"

definition siphash_2_4 :: "u64 \<Rightarrow> u64 \<Rightarrow> u8 list \<Rightarrow> u64" where
  "siphash_2_4 k0 k1 m =
     (case fold compress (sip_words (length m) m)
        (k0 XOR 0x736f6d6570736575, k1 XOR 0x646f72616e646f6d, k0 XOR 0x6c7967656e657261, k1 XOR 0x7465646279746573) of
        (v0, v1, v2, v3) \<Rightarrow>
          (case (sipround ^^ 4) (v0, v1, v2 XOR 0xff, v3) of (v0, v1, v2, v3) \<Rightarrow> v0 XOR v1 XOR v2 XOR v3))"

lemma ROTATE_eq:
  assumes "b < 64"
  shows "ROTATE x b = word_rotl b x"
proof (rule bit_word_eqI)
  fix n assume "n < LENGTH(64)"
  then have n: "n < 64" by simp
  have "(n + 64 - b) mod 64 = (if b \<le> n then n - b else n + 64 - b)"
  proof (cases "b \<le> n")
    case True
    then have e: "n + 64 - b = (n - b) + 64" by simp
    show ?thesis
      unfolding e mod_add_self2 using n True by (simp only: if_True mod_less)
  qed (use assms in simp)
  then show "bit (ROTATE x b) n = bit (word_rotl b x) n"
    using assms n by (auto simp: ROTATE_def bit_simps add.commute dest: bit_imp_le_length)
qed

lemma DOUBLE_ROUND_eq: "DOUBLE_ROUND v = sipround (sipround v)"
  by (cases v) (simp add: DOUBLE_ROUND_def HALF_ROUND_def sipround_def Let_def ROTATE_eq)

declare siphash_loop.simps [simp del] sip_words.simps [simp del]

lemma compress_eq: "compress mi (v0, v1, v2, v3) = (case DOUBLE_ROUND (v0, v1, v2, v3 XOR mi) of (v0, v1, v2, v3) \<Rightarrow> (v0 XOR mi, v1, v2, v3))"
  by (simp add: compress_def DOUBLE_ROUND_eq numeral_2_eq_2)

lemma siphash_loop_eq:
  "siphash_loop m v = (v', r) \<Longrightarrow> length r < 8 \<and> fold compress (sip_words n m) v = compress (le64 (r @ replicate (7 - length r) 0 @ [of_nat n])) v'"
proof (induction m v rule: siphash_loop.induct)
  case (1 m v)
  show ?case
  proof (cases "8 \<le> length m")
    case True
    let ?mi = "le64 (take 8 m)"
    obtain v0 v1 v2 v3 where v: "v = (v0, v1, v2, v3)" by (cases v)
    obtain w0 w1 w2 w3 where w: "DOUBLE_ROUND (v0, v1, v2, v3 XOR ?mi) = (w0, w1, w2, w3)" by (cases "DOUBLE_ROUND (v0, v1, v2, v3 XOR ?mi)")
    have "siphash_loop (drop 8 m) (w0 XOR ?mi, w1, w2, w3) = (v', r)"
      using 1(2) True by (simp add: siphash_loop.simps [of m] v w)
    then show ?thesis
      using 1(1) [OF True refl refl v [symmetric] refl refl w [symmetric] refl refl refl] True
      by (simp add: sip_words.simps [of n m] v compress_eq w)
  next
    case False
    then have "r = m" "v' = v"
      using 1(2) by (simp_all add: siphash_loop.simps [of m])
    then show ?thesis
      using False by (simp add: sip_words.simps [of n m])
  qed
qed

lemma siphash_tail_eq:
  assumes "length m < 8"
  shows "siphash_tail m = le64 (m @ replicate (8 - length m) 0)"
proof -
  consider "m = []" | a where "m = [a]" | a b where "m = [a, b]" | a b c where "m = [a, b, c]" | a b c d where "m = [a, b, c, d]"
    | a b c d e where "m = [a, b, c, d, e]" | a b c d e f where "m = [a, b, c, d, e, f]" | a b c d e f g where "m = [a, b, c, d, e, f, g]"
    using assms by (cases m rule: list.exhaust; auto simp: less_Suc_eq length_Suc_conv numeral_eq_Suc)
  then show ?thesis
    by cases (simp_all add: siphash_tail_def numeral_eq_Suc)
qed

lemma unat_ucast_u64: "unat (ucast (x :: u8) :: u64) = unat x" "unat (ucast (y :: u32) :: u64) = unat y"
  by (simp_all add: unsigned_ucast_eq take_bit_nat_eq_self unsigned_less [THEN order_less_le_trans])

lemma ucast_mk32_top: "(ucast (mk32 a b c x) :: u64) = ucast (mk32 a b c 0) + push_bit 24 (ucast x)"
proof (rule word_unat_eq_iff [THEN iffD2])
  have "unat (push_bit 24 (ucast x :: u64)) = 0x1000000 * unat x"
    using unat_u8_less [of x] by (simp add: push_bit_eq_mult unat_word_ariths unat_ucast_u64)
  then show "unat (ucast (mk32 a b c x) :: u64) = unat (ucast (mk32 a b c 0) + push_bit 24 (ucast x) :: u64)"
    using unat_u8_less [of x] unat_u8_less [of a] unat_u8_less [of b] unat_u8_less [of c]
    by (simp add: unat_word_ariths unat_ucast_u64 unat_mk32)
qed

lemma le64_zero_bits:
  assumes "length p = 7" "bit (le64 (p @ [0])) k"
  shows "k < 56"
proof -
  have "unat (le64 (p @ [0])) < 2 ^ 56"
    using assms(1) unat_u8_less [of "p ! 4"] unat_u8_less [of "p ! 5"] unat_u8_less [of "p ! 6"] unat_u32_less [of "mk32 (p ! 0) (p ! 1) (p ! 2) (p ! 3)"]
    by (simp add: le64_def nth_append mk64_def unat_word_ariths unat_ucast_u64 unat_mk32 [of _ _ _ 0])
  then have "take_bit 56 (unat (le64 (p @ [0]))) = unat (le64 (p @ [0]))"
    by (simp add: take_bit_nat_eq_self)
  moreover have "bit (unat (le64 (p @ [0]))) k"
    using assms(2) by (simp add: bit_unsigned_iff)
  ultimately show ?thesis
    by (metis bit_take_bit_iff)
qed

lemma le64_top: "length p = 7 \<Longrightarrow> le64 (p @ [x]) = le64 (p @ [0]) + push_bit 56 (ucast x)"
  by (simp add: le64_def nth_append mk64_def ucast_mk32_top [of "p ! 4" "p ! 5" "p ! 6" x] push_bit_eq_mult algebra_simps)

lemma push_bit_length: "push_bit 56 (of_nat n :: u64) = push_bit 56 (ucast (of_nat n :: u8))"
  by (rule bit_word_eqI) (auto simp: bit_simps)

lemma le64_or: "length p = 7 \<Longrightarrow> le64 (p @ [0]) + push_bit 56 y = push_bit 56 y OR le64 (p @ [0])"
  by (subst add.commute, rule disjunctive_add_eq_or, rule bit_eqI) (auto simp: bit_simps dest: le64_zero_bits)

lemma le64_length:
  assumes "length m < 8"
  shows "le64 (m @ replicate (7 - length m) 0 @ [of_nat n]) = push_bit 56 (of_nat n) OR le64 (m @ replicate (8 - length m) 0)"
proof -
  let ?p = "m @ replicate (7 - length m) 0"
  have p: "length ?p = 7" "m @ replicate (8 - length m) 0 = ?p @ [0]"
    using assms by (simp_all add: replicate_append_same Suc_diff_le flip: replicate_Suc)
  then show ?thesis
    using le64_top [OF p(1), of "of_nat n"] le64_or [OF p(1)] by (simp add: push_bit_length)
qed

text \<open>
  \<open>siphash24\<close> of the benchmark is SipHash-2-4 under the two keys that it contains; its argument
  \<open>key\<close> has no influence.
\<close>

theorem siphash24_correct: "siphash24 src key = siphash_2_4 0x77859091aff27184 0x8192471092ffca12 src"
proof -
  let ?v = "(0x77859091aff27184 XOR 0x736f6d6570736575, 0x8192471092ffca12 XOR 0x646f72616e646f6d,
    0x77859091aff27184 XOR 0x6c7967656e657261, 0x8192471092ffca12 XOR 0x7465646279746573) :: sip64"
  obtain v m where l: "siphash_loop src ?v = (v, m)" by fastforce
  obtain v0 v1 v2 v3 where v: "v = (v0, v1, v2, v3)" by (cases v)
  let ?b = "push_bit 56 (of_nat (length src)) OR siphash_tail m"
  have w: "length m < 8" "fold compress (sip_words (length src) src) ?v = compress ?b v"
    using siphash_loop_eq [OF l, of "length src"] by (auto simp: le64_length siphash_tail_eq)
  have 4: "(sipround ^^ 4) u = DOUBLE_ROUND (DOUBLE_ROUND u)" for u
    by (simp add: DOUBLE_ROUND_eq numeral_eq_Suc)
  show ?thesis
    unfolding siphash24_def siphash_2_4_def Let_def l w(2) v compress_eq 4 prod.case
    by (simp add: case_prod_unfold xor.assoc)
qed

section \<open>Truncation\<close>

lemma ucast_ring:
  "(ucast (a + b :: u64) :: u32) = ucast a + ucast b" "(ucast (a - b :: u64) :: u32) = ucast a - ucast b"
  "(ucast (push_bit n a :: u64) :: u32) = push_bit n (ucast a)" "(ucast (ucast (c :: u8) :: u64) :: u32) = ucast c"
proof -
  have u: "uint (ucast x :: u32) = uint x mod 4294967296" for x :: u64
    by (simp add: unsigned_ucast_eq take_bit_eq_mod)
  show "(ucast (a + b) :: u32) = ucast a + ucast b" "(ucast (a - b) :: u32) = ucast a - ucast b"
    by (simp_all add: word_uint_eq_iff u uint_word_ariths mod_mod_cancel mod_simps)
  show "(ucast (push_bit n a) :: u32) = push_bit n (ucast a)" "(ucast (ucast c :: u64) :: u32) = ucast c"
    by (rule bit_word_eqI, force simp: bit_simps)+
qed

text \<open>What the benchmark keeps of its 64-bit sums is what the agents compute with 32 bits.\<close>

theorem bench_truncates: "ucast (djb2_ul cs h) = djb2_loop cs (ucast h) \<and> ucast (sdbm_ul cs h) = sdbm_loop cs (ucast h)"
proof
  show "ucast (djb2_ul cs h) = djb2_loop cs (ucast h)"
    by (induction cs h rule: djb2_ul.induct) (simp_all add: ucast_ring)
  show "ucast (sdbm_ul cs h) = sdbm_loop cs (ucast h)"
    by (induction cs h rule: sdbm_ul.induct) (simp_all add: ucast_ring)
qed

section \<open>What the measurement counts\<close>

lemma reduce_less: "unat (reduce m h) < 65536"
proof -
  have "h AND 0xffff = take_bit 16 h"
    by (simp add: take_bit_eq_mask mask_eq_exp_minus_1)
  then have "reduce m h = take_bit 16 (reduce m h)"
    by (cases m; intro bit_word_eqI) (auto simp: reduce_def bit_simps dest: bit_imp_le_length)
  then have "unat (reduce m h) = take_bit 16 (unat (reduce m h))"
    by (metis unsigned_take_bit_eq)
  also have "\<dots> < 2 ^ 16"
    by (rule take_bit_nat_less_exp)
  finally show ?thesis by simp
qed

lemma of_nat_zero: "c < 2 ^ 32 \<Longrightarrow> (of_nat c :: u32) = 0 \<longleftrightarrow> c = 0"
  by (auto simp: word_of_nat_eq_0_iff dest: dvd_imp_le)

definition keyed :: "modes \<Rightarrow> (u8 list \<Rightarrow> u32 \<Rightarrow> u32) \<Rightarrow> u32 \<Rightarrow> u32 \<Rightarrow> nat \<Rightarrow> u32" where
  "keyed m func ms seed j = reduce m (func (bytes32 (ms + of_nat j)) seed)"

definition distinct_hashes :: "modes \<Rightarrow> (u8 list \<Rightarrow> u32 \<Rightarrow> u32) \<Rightarrow> nat \<Rightarrow> u32 \<times> u32 \<Rightarrow> nat" where
  "distinct_hashes m func n x = card (keyed m func (fst x) (snd x) ` {..<n})"

lemma dist_keys_eq:
  assumes "n \<le> 65536"
  shows "dist_keys m func ms seed n (\<lambda>_. 0, c, d) =
    (\<lambda>h. of_nat (card {j. j < n \<and> keyed m func ms seed j = h}), c + of_nat (distinct_hashes m func n (ms, seed)),
     d + of_nat (n - distinct_hashes m func n (ms, seed)))"
  using assms
proof (induction n)
  case (Suc n)
  let ?k = "keyed m func ms seed"
  let ?A = "\<lambda>h. {j. j < n \<and> ?k j = h}"
  have fin: "finite (?A h)" for h by simp
  have card_A: "card (?A h) \<le> n" for h
    using card_mono [of "{..<n}" "?A h"] by auto
  have zero: "(of_nat (card (?A h)) :: u32) = 0 \<longleftrightarrow> h \<notin> ?k ` {..<n}" for h
  proof -
    have "card (?A h) < 2 ^ 32"
      using card_A [of h] Suc.prems by simp
    then have "(of_nat (card (?A h)) :: u32) = 0 \<longleftrightarrow> card (?A h) = 0"
      by (rule of_nat_zero)
    also have "\<dots> \<longleftrightarrow> ?A h = {}" by simp
    also have "\<dots> \<longleftrightarrow> h \<notin> ?k ` {..<n}" by auto
    finally show ?thesis .
  qed
  have new: "{j. j < Suc n \<and> ?k j = h} = (if h = ?k n then insert n (?A h) else ?A h)" for h
    by (auto simp: less_Suc_eq)
  have arr: "(\<lambda>h. of_nat (card {j. j < Suc n \<and> ?k j = h})) = (\<lambda>h. of_nat (card (?A h)) :: u32)(?k n := of_nat (card (?A (?k n))) + 1)"
    by (rule ext) (simp add: new fin)
  have img: "?k ` {..<Suc n} = insert (?k n) (?k ` {..<n})"
    by (simp add: lessThan_Suc)
  have le: "distinct_hashes m func n (ms, seed) \<le> n"
    using card_image_le [of "{..<n}" ?k] by (simp add: distinct_hashes_def)
  show ?case
    using Suc.IH Suc.prems le
    by (auto simp: hit_def arr zero img distinct_hashes_def keyed_def [symmetric] card_insert_if Suc_diff_le add.assoc)
qed (simp add: distinct_hashes_def)

lemma dist_rounds_eq:
  "dist_rounds m func xs (c, d) = (c + of_nat (\<Sum>x\<leftarrow>xs. distinct_hashes m func 65536 x),
     d + of_nat (\<Sum>x\<leftarrow>xs. 65536 - distinct_hashes m func 65536 x))"
  by (induction xs arbitrary: c d) (auto simp: dist_keys_eq add.assoc)

text \<open>
  For each way to reduce a hash to 16 bits the measurement counts, over all rounds, the
  different reduced hashes of the 65,536 keys that share their upper half, and the keys that are
  left; every reduced hash is an index of its array.
\<close>

theorem hash_distribution_counts:
  "hash_distribution func rounds = map (\<lambda>m. (m, of_nat (\<Sum>x\<leftarrow>rounds. distinct_hashes m func 65536 x),
     of_nat (\<Sum>x\<leftarrow>rounds. 65536 - distinct_hashes m func 65536 x))) [MSB16, LSB16, XOR_MODE]
   \<and> (\<forall>m h. unat (reduce m h) < 65536)"
  by (simp add: hash_distribution_def dist_rounds_eq reduce_less)

end
