(* ===== verification/Hash_Timing.thy ===== *)
theory Hash_Timing
  imports Hash_Bench Hash_Variants Crc32 Haraka Csum
begin

text \<open>
  The functions that \<open>timeit\<close> calls: the wrappers of \<open>examples/htscookie/perf.c\<close> and of
  \<open>examples/htscookie/test.c\<close>, each of which hashes an input buffer and stores the hash in an output buffer, the two
  SipHash variants of \<open>test.c\<close> that take an input of any length, and the two experiments \<open>graph\<close> and
  \<open>test\<close> of that file.
\<close>

section \<open>perf.c\<close>

definition mm2_perf :: "mem \<Rightarrow> nat \<Rightarrow> nat \<Rightarrow> nat \<Rightarrow> mem" where
  "mm2_perf m out in_p inlen = st32 m out (MurmurHash2 (rd_bytes m in_p inlen) 0)"

text \<open>The input is an IP header of 20 bytes and a TCP segment, whose checksum field is cleared.\<close>

definition tcp_cksum_perf :: "mem \<Rightarrow> nat \<Rightarrow> nat \<Rightarrow> nat \<Rightarrow> mem" where
  "tcp_cksum_perf m out in_p inlen = (let (m, cksum) = cksumTcp m in_p (in_p + 20) in st16 m out cksum)"

definition hsiphash_perf_store :: "mem \<Rightarrow> nat \<Rightarrow> nat \<Rightarrow> nat \<Rightarrow> mem" where
  "hsiphash_perf_store m out in_p inlen = st32 m out (hsiphash_perf m in_p)"

section \<open>test.c: hashes with a seed\<close>

definition djb2_perf :: "u8 list \<Rightarrow> u32 \<Rightarrow> u32" where "djb2_perf key seed = ucast (djb2_ul key (ucast seed))"
definition djb2a_perf :: "u8 list \<Rightarrow> u32 \<Rightarrow> u32" where "djb2a_perf key seed = ucast (djb2a_ul key (ucast seed))"
definition sdbm_perf :: "u8 list \<Rightarrow> u32 \<Rightarrow> u32" where "sdbm_perf key seed = ucast (sdbm_ul key (ucast seed))"
definition sdbma_perf :: "u8 list \<Rightarrow> u32 \<Rightarrow> u32" where "sdbma_perf key seed = ucast (sdbma_ul key (ucast seed))"
definition fnv1_perf :: "u8 list \<Rightarrow> u32 \<Rightarrow> u32" where "fnv1_perf key seed = fnv_32_buf key seed"
definition fnv1a_perf :: "u8 list \<Rightarrow> u32 \<Rightarrow> u32" where "fnv1a_perf key seed = fnv_32a_buf key seed"
definition crc_perf :: "u8 list \<Rightarrow> u32 \<Rightarrow> u32" where "crc_perf key seed = xcrc32 key seed"
definition siphash24_perf :: "u8 list \<Rightarrow> u32 \<Rightarrow> u32" where "siphash24_perf key seed = ucast (siphash24 key seed)"

section \<open>test.c: the functions that are timed\<close>

text \<open>
  \<open>crc_perf_time\<close> hashes the variable that holds the pointer, not the input; beyond its 8 bytes the read
  is out of bounds.
\<close>

definition crc_perf_time :: "mem \<Rightarrow> nat \<Rightarrow> nat \<Rightarrow> nat \<Rightarrow> mem option" where
  "crc_perf_time m out in_p inlen =
     (let var = bytes32 (of_nat in_p) @ bytes32 (of_nat (in_p div 2 ^ 32))
      in if inlen \<le> length var then Some (st32 m out (xcrc32 (take inlen var) 0xffff)) else None)"

definition mm2_perf_time :: "mem \<Rightarrow> nat \<Rightarrow> nat \<Rightarrow> nat \<Rightarrow> mem" where
  "mm2_perf_time m out in_p inlen = st32 m out (MurmurHash2 (rd_bytes m in_p inlen) 0)"
definition mm3_perf_time :: "mem \<Rightarrow> nat \<Rightarrow> nat \<Rightarrow> nat \<Rightarrow> mem" where
  "mm3_perf_time m out in_p inlen = st32 m out (murmurhash3 (rd_bytes m in_p inlen) 0)"
definition djb2_perf_time :: "mem \<Rightarrow> nat \<Rightarrow> nat \<Rightarrow> nat \<Rightarrow> mem" where
  "djb2_perf_time m out in_p inlen = st32 m out (djb2_perf (rd_bytes m in_p inlen) 0)"
definition djb2a_perf_time :: "mem \<Rightarrow> nat \<Rightarrow> nat \<Rightarrow> nat \<Rightarrow> mem" where
  "djb2a_perf_time m out in_p inlen = st32 m out (djb2a_perf (rd_bytes m in_p inlen) 0)"
definition sdbm_perf_time :: "mem \<Rightarrow> nat \<Rightarrow> nat \<Rightarrow> nat \<Rightarrow> mem" where
  "sdbm_perf_time m out in_p inlen = st32 m out (sdbm_perf (rd_bytes m in_p inlen) 0)"
definition sdbma_perf_time :: "mem \<Rightarrow> nat \<Rightarrow> nat \<Rightarrow> nat \<Rightarrow> mem" where
  "sdbma_perf_time m out in_p inlen = st32 m out (sdbma_perf (rd_bytes m in_p inlen) 0)"
definition fnv1_perf_time :: "mem \<Rightarrow> nat \<Rightarrow> nat \<Rightarrow> nat \<Rightarrow> mem" where
  "fnv1_perf_time m out in_p inlen = st32 m out (fnv1_perf (rd_bytes m in_p inlen) 0)"
definition fnv1a_perf_time :: "mem \<Rightarrow> nat \<Rightarrow> nat \<Rightarrow> nat \<Rightarrow> mem" where
  "fnv1a_perf_time m out in_p inlen = st32 m out (fnv1a_perf (rd_bytes m in_p inlen) 0)"
definition siphash24_perf_time :: "mem \<Rightarrow> nat \<Rightarrow> nat \<Rightarrow> nat \<Rightarrow> mem" where
  "siphash24_perf_time m out in_p inlen = st32 m out (siphash24_perf (rd_bytes m in_p inlen) 0)"

text \<open>The loops over the words of the input: one round per word, or two.\<close>

fun hsiphash13_words :: "mem \<Rightarrow> nat \<Rightarrow> nat \<Rightarrow> sip \<Rightarrow> sip" where
  "hsiphash13_words m ptr 0 s = s"
| "hsiphash13_words m ptr (Suc n) (v0, v1, v2, v3) =
     (let v3 = v3 XOR ld32 m ptr;
          (v0, v1, v2, v3) = SIPROUND (v0, v1, v2, v3);
          v0 = v0 XOR ld32 m ptr
      in hsiphash13_words m (ptr + 4) n (v0, v1, v2, v3))"

definition hsiphash13_perf_time :: "mem \<Rightarrow> nat \<Rightarrow> nat \<Rightarrow> nat \<Rightarrow> mem" where
  "hsiphash13_perf_time m out in_p inlen =
     (let key0 = ucast (m in_p); key1 = ucast (m (in_p + 1));
          v0 = c0 XOR key0; v1 = c1 XOR key1; v2 = c2 XOR key0; v3 = c3 XOR key1;
          (v0, v1, v2, v3) = hsiphash13_words m in_p (inlen div 4) (v0, v1, v2, v3);
          v2 = v2 XOR 0xFF;
          (v0, v1, v2, v3) = SIPROUND (v0, v1, v2, v3);
          (v0, v1, v2, v3) = SIPROUND (v0, v1, v2, v3);
          (v0, v1, v2, v3) = SIPROUND (v0, v1, v2, v3);
          hash = (v0 XOR v1) XOR (v2 XOR v3)
      in st32 m out hash)"

fun hsiphash_words :: "mem \<Rightarrow> nat \<Rightarrow> nat \<Rightarrow> sip \<Rightarrow> sip" where
  "hsiphash_words m ptr 0 s = s"
| "hsiphash_words m ptr (Suc n) (v0, v1, v2, v3) =
     (let v3 = v3 XOR ld32 m ptr;
          (v0, v1, v2, v3) = SIPROUND (v0, v1, v2, v3);
          (v0, v1, v2, v3) = SIPROUND (v0, v1, v2, v3);
          v0 = v0 XOR ld32 m ptr
      in hsiphash_words m (ptr + 4) n (v0, v1, v2, v3))"

definition hsiphash_perf_time :: "mem \<Rightarrow> nat \<Rightarrow> nat \<Rightarrow> nat \<Rightarrow> mem" where
  "hsiphash_perf_time m out in_p inlen =
     (let key0 = ucast (m in_p); key1 = ucast (m (in_p + 1));
          v0 = c0 XOR key0; v1 = c1 XOR key1; v2 = c2 XOR key0; v3 = c3 XOR key1;
          (v0, v1, v2, v3) = hsiphash_words m in_p (inlen div 4) (v0, v1, v2, v3);
          v2 = v2 XOR 0xFF;
          (v0, v1, v2, v3) = SIPROUND (v0, v1, v2, v3);
          (v0, v1, v2, v3) = SIPROUND (v0, v1, v2, v3);
          (v0, v1, v2, v3) = SIPROUND (v0, v1, v2, v3);
          (v0, v1, v2, v3) = SIPROUND (v0, v1, v2, v3);
          hash = (v0 XOR v1) XOR (v2 XOR v3)
      in st32 m out hash)"

section \<open>test.c: the two experiments\<close>

text \<open>\<open>graph\<close> prints the upper half of the CRC of 65536 keys with random upper halves.\<close>

definition graph_crc :: "u32 \<Rightarrow> u32 list" where
  "graph_crc rand =
     (let ms16bit = rand AND 0xffff0000
      in map (\<lambda>i. drop_bit 16 (crc_perf (bytes32 (of_nat i OR ms16bit)) 2)) [0..<65536])"

text \<open>
  \<open>test\<close> looks for other salts under which a target keeps its 16-bit hash and reports the
  addresses that collide with it there.  The buffer holds the salt and the address in its first
  two words.
\<close>

definition salted :: "(m128 \<Rightarrow> m128 \<Rightarrow> m128) \<Rightarrow> u32 \<Rightarrow> u32 \<Rightarrow> u32" where
  "salted aesenc addr salt =
     (let ret = haraka256 aesenc ((salt, addr, 0, 0), (0, 0, 0, 0))
      in drop_bit 16 ret XOR (ret AND 0xffff))"

fun test_addrs :: "(m128 \<Rightarrow> m128 \<Rightarrow> m128) \<Rightarrow> u32 \<Rightarrow> u32 \<Rightarrow> nat list \<Rightarrow> nat \<Rightarrow> (nat \<times> nat \<times> u32) list" where
  "test_addrs aesenc ret r_salt [] c = []"
| "test_addrs aesenc ret r_salt (i # is) c =
     (if salted aesenc (of_nat i) r_salt = ret then (c + 1, i, r_salt) # test_addrs aesenc ret r_salt is (c + 1)
      else test_addrs aesenc ret r_salt is c)"

fun test_salts :: "(m128 \<Rightarrow> m128 \<Rightarrow> m128) \<Rightarrow> u32 \<Rightarrow> u32 \<Rightarrow> nat list \<Rightarrow> (nat \<times> nat \<times> u32) list" where
  "test_salts aesenc target ret [] = []"
| "test_salts aesenc target ret (r # rs) =
     (if salted aesenc target (of_nat r) = ret then test_addrs aesenc ret (of_nat r) [0..<10] 0 else [])
     @ test_salts aesenc target ret rs"

definition test_search :: "(m128 \<Rightarrow> m128 \<Rightarrow> m128) \<Rightarrow> u32 \<Rightarrow> (nat \<times> nat \<times> u32) list" where
  "test_search aesenc salt =
     (let target = 0x1234; ret = salted aesenc target salt
      in test_salts aesenc target ret [0..<2 ^ 32 - 1])"

section \<open>One scheme for both variants\<close>

definition hsip_cd :: "nat \<Rightarrow> nat \<Rightarrow> u32 \<Rightarrow> u32 \<Rightarrow> u32 list \<Rightarrow> u32" where
  "hsip_cd c d k0 k1 msgs =
     (let (v0, v1, v2, v3) = fold (\<lambda>w (v0, v1, v2, v3).
             case (SIPROUND ^^ c) (v0, v1, v2, v3 XOR w) of (v0, v1, v2, v3) \<Rightarrow> (v0 XOR w, v1, v2, v3))
           msgs (c0 XOR k0, c1 XOR k1, c2 XOR k0, c3 XOR k1);
          (v0, v1, v2, v3) = (SIPROUND ^^ d) (v0, v1, v2 XOR 0xFF, v3)
      in (v0 XOR v1) XOR (v2 XOR v3))"

lemma hsip_cd_agents: "hsip_cd 2 4 k0 k1 msgs = hsip k0 k1 msgs"
proof -
  have "hsip_absorb = (\<lambda>w (v0, v1, v2, v3).
      case (SIPROUND ^^ 2) (v0, v1, v2, v3 XOR w) of (v0, v1, v2, v3) \<Rightarrow> (v0 XOR w, v1, v2, v3))"
    by (intro ext) (simp add: hsip_absorb_def numeral_2_eq_2 case_prod_unfold del: SIPROUND.simps)
  then have "hsip_cd 2 4 k0 k1 msgs =
      (let (v0, v1, v2, v3) = fold hsip_absorb msgs (c0 XOR k0, c1 XOR k1, c2 XOR k0, c3 XOR k1);
          (v0, v1, v2, v3) = (SIPROUND ^^ 4) (v0, v1, v2 XOR 0xFF, v3)
      in (v0 XOR v1) XOR (v2 XOR v3))"
    by (simp only: hsip_cd_def)
  then show ?thesis
    by (simp add: hsip_def hsip_final_def numeral_eq_Suc Let_def case_prod_unfold del: SIPROUND.simps)
qed

definition in_words :: "mem \<Rightarrow> nat \<Rightarrow> nat \<Rightarrow> u32 list" where
  "in_words m p n = map (\<lambda>i. ld32 m (p + 4 * i)) [0..<n]"

lemma in_words_Suc: "in_words m p (Suc n) = ld32 m p # in_words m (p + 4) n"
  by (simp add: in_words_def upt_conv_Cons map_Suc_upt [symmetric] del: upt_Suc) (simp add: comp_def algebra_simps)

lemma hsiphash13_words_eq:
  "hsiphash13_words m p n s = fold (\<lambda>w (v0, v1, v2, v3).
     case (SIPROUND ^^ 1) (v0, v1, v2, v3 XOR w) of (v0, v1, v2, v3) \<Rightarrow> (v0 XOR w, v1, v2, v3)) (in_words m p n) s"
proof (induction n arbitrary: p s)
  case (Suc n)
  then show ?case
    by (cases s) (simp add: in_words_Suc Let_def case_prod_unfold del: SIPROUND.simps)
qed (simp add: in_words_def)

lemma hsiphash_words_eq: "hsiphash_words m p n s = fold hsip_absorb (in_words m p n) s"
proof (induction n arbitrary: p s)
  case (Suc n)
  then show ?case
    by (cases s) (simp add: in_words_Suc hsip_absorb_def Let_def case_prod_unfold del: SIPROUND.simps)
qed (simp add: in_words_def)

text \<open>
  The two timed variants are the keyed scheme of the agents with 2 and 4 and with 1 and 3 rounds,
  over the whole words of the input in host byte order, keyed by its first two bytes.  A rest of up to three bytes
  does not enter.
\<close>

theorem hsiphash_variants:
  "hsiphash_perf_time m out p n = st32 m out (hsip (ucast (m p)) (ucast (m (p + 1))) (in_words m p (n div 4)))
   \<and> hsiphash13_perf_time m out p n = st32 m out (hsip_cd 1 3 (ucast (m p)) (ucast (m (p + 1))) (in_words m p (n div 4)))"
proof
  show "hsiphash_perf_time m out p n = st32 m out (hsip (ucast (m p)) (ucast (m (p + 1))) (in_words m p (n div 4)))"
    by (simp only: hsiphash_perf_time_def hsip_def hsip_final_def hsiphash_words_eq Let_def case_prod_unfold
        fst_conv snd_conv prod.collapse)
  show "hsiphash13_perf_time m out p n = st32 m out (hsip_cd 1 3 (ucast (m p)) (ucast (m (p + 1))) (in_words m p (n div 4)))"
    by (simp only: hsiphash13_perf_time_def hsip_cd_def hsiphash13_words_eq Let_def case_prod_unfold
        fst_conv snd_conv prod.collapse numeral_3_eq_3 funpow.simps o_apply id_apply)
qed

text \<open>The timed CRC depends on where the input lies and not on what it holds.\<close>

theorem crc_perf_time_ignores_input:
  assumes "inlen \<le> 8"
  shows "\<exists>h. \<forall>m. crc_perf_time m out p inlen = Some (st32 m out h)"
  using assms by (auto simp: crc_perf_time_def Let_def)

section \<open>The search reports exactly the collisions\<close>

lemma test_addrs_iff:
  "(\<exists>k. (k, i, s) \<in> set (test_addrs aesenc ret r xs c)) \<longleftrightarrow> i \<in> set xs \<and> s = r \<and> salted aesenc (of_nat i) r = ret"
  by (induction aesenc ret r xs c rule: test_addrs.induct) auto

lemma test_salts_iff:
  "(\<exists>k. (k, i, s) \<in> set (test_salts aesenc target ret rs)) \<longleftrightarrow>
     (\<exists>r \<in> set rs. s = of_nat r \<and> salted aesenc target s = ret \<and> i < 10 \<and> salted aesenc (of_nat i) s = ret)"
proof (induction rs)
  case (Cons r rs)
  have "(\<exists>k. (k, i, s) \<in> set (test_salts aesenc target ret (r # rs))) \<longleftrightarrow>
      (salted aesenc target (of_nat r) = ret \<and> (\<exists>k. (k, i, s) \<in> set (test_addrs aesenc ret (of_nat r) [0..<10] 0)))
      \<or> (\<exists>k. (k, i, s) \<in> set (test_salts aesenc target ret rs))"
    by (auto simp del: upt.simps upt_Suc)
  then show ?case
    unfolding Cons.IH test_addrs_iff by auto
qed simp

text \<open>
  \<open>test\<close> reports address \<open>i\<close> with salt \<open>s\<close> exactly if the salt is not the largest one, the address is
  one of the ten, and both the target and the address have the hash of the target under the original salt.
\<close>

theorem test_search_exact:
  "(\<exists>k. (k, i, s) \<in> set (test_search aesenc salt)) \<longleftrightarrow>
     s \<noteq> - 1 \<and> i < 10 \<and> salted aesenc 0x1234 s = salted aesenc 0x1234 salt
     \<and> salted aesenc (of_nat i) s = salted aesenc 0x1234 salt"
proof -
  have "(\<exists>r \<in> set [0..<2 ^ 32 - 1]. s = of_nat r) \<longleftrightarrow> s \<noteq> - 1"
  proof
    assume s: "s \<noteq> - 1"
    have "s = - 1" if "unat s = 2 ^ 32 - 1"
    proof -
      have "s = of_nat (unat s)" by simp
      then show ?thesis unfolding that by simp
    qed
    with s have "unat s < 2 ^ 32 - 1"
      using unsigned_less [of s, where 'a = nat] by fastforce
    then show "\<exists>r \<in> set [0..<2 ^ 32 - 1]. s = of_nat r"
      by (intro bexI [of _ "unat s"]) auto
  next
    assume "\<exists>r \<in> set [0..<2 ^ 32 - 1]. s = of_nat r"
    then obtain r where r: "r < 2 ^ 32 - 1" "s = of_nat r" by auto
    then have "unat s = r" by (simp add: unat_of_nat)
    moreover have "unat (- 1 :: u32) = 2 ^ 32 - 1"
      by (simp add: unsigned_minus_1_eq_mask mask_eq_exp_minus_1)
    ultimately show "s \<noteq> - 1" using r(1) by auto
  qed
  then show ?thesis
    unfolding test_search_def Let_def test_salts_iff by blast
qed

end
