(* ===== verification/Spec2Isabelle.thy ===== *)
theory Spec2Isabelle
  imports Client_Agent Sc_Start Crc32 Khashmap Xsk_Ring Xsk_Dispatch Xsk_Switch Xsk_Init
    Statistics Preload Test_Client Bloom_Race Timeit Hex_Dump Hash_Timing
begin

text \<open>
  Verification of EdgeCookie, a mitigation of TCP SYN and ACK floods.

  \<^bold>\<open>The program.\<close>  Two agents share the work of a TCP handshake.  The switch agent
  (\<open>src/examples/htscookie/switch_agent_user.c\<close>) sits on the path to the server.  It answers the
  SYN of an unknown client with a SYN cookie, checks the cookie of the client's ACK, resets the
  client once, remembers it in a Bloom filter and lets it through from then on; every later ACK
  has to echo a hybrid cookie in its time stamp.  The server agent consists of two eBPF programs
  on the server host (\<open>server_in_kern.c\<close> at the XDP hook, \<open>server_en_kern.c\<close> at the TC hook) that
  replay the handshake towards the server, translate sequence numbers and time stamps of both
  directions, hand out the hybrid cookies and, when too many unknown ACKs arrive, change a hash
  seed and announce it to the switch agent.  The switch agent is a packet processor that the
  workers of the framework \<open>src/src/xsknf.c\<close> call for each frame; the workers own AF_XDP sockets,
  and an XDP program (\<open>switch_agent_kern.c\<close>) hands frames to these sockets.  The routines of
  \<open>src/examples/common\<close> (checksums, option parsers, hashes, bit vector, Bloom filter, hash map)
  serve both.  The client agent (\<open>client_in_kern.c\<close>, \<open>client_en_kern.c\<close>) carries the hybrid cookies
  for hosts whose TCP does not.  \<open>src/examples/smartcookie\<close> is another variant of the protocol on
  the same framework: its switch agent tags the ACK that carries the cookie, and its server agent
  opens the connection on the tag or on the cookie.

  \<^bold>\<open>Modelling conventions.\<close>  A frame is a byte memory \<open>mem\<close> with a length or a \<open>data_end\<close>;
  header fields are loads and stores at offsets, in the byte order of the hosts.  Integers are
  words of the width they have in C.  A struct is a record, an enumeration a datatype, globals
  and pinned maps are one record per process, handlers map state and frame to a verdict, a new
  state and a new frame.  Failures (leaving the program, an access outside an object, a loop that
  does not end) are values of sum and option types.  In particular the arrays with an entry per
  worker have 16 entries (\<open>PER_WORKER\<close>), and using one for a higher worker number, which the code
  does not check, is the value \<open>BvFault\<close>; so theorems on a worker ask for a number below 16.  Code outside of the repository is a
  parameter: BPF maps and helpers are operations of a record whose documented laws are the
  locales of \<open>Bpf_Env\<close>, interpreted there on a bounded hash table and on a reference checksum;
  the AES instruction is a function argument of \<open>Haraka\<close>; the kernel's side of the sockets is a
  function of time and sockets, constrained by \<open>kernel_ok\<close> and interpreted on kernels that follow
  an arbitrary schedule; \<open>getopt_long\<close> and \<open>getsockopt\<close> are given by their results.

  \<^bold>\<open>Theories.\<close>
  \<^item> \<open>EC_Prelude\<close>, \<open>Packet\<close>: words, memory, the arithmetic modulo 65535, header layouts, and the
    collections of simplification rules used throughout.
  \<^item> \<open>Csum\<close> (\<open>csum.c\<close>, \<open>server.h\<close>): every checksum routine computes in the arithmetic modulo 65535;
    recomputed and incrementally updated checksums are accepted by a receiver.  The locales
    \<open>csum_update\<close>, \<open>oc_accumulator\<close> and \<open>bpf_csum\<close> are the contract of incremental updates.
  \<^item> \<open>Tcp_Options\<close> (\<open>timestamp.c\<close>, \<open>server.h\<close>): both parsers of the time stamp option, and their
    agreement.  \<open>Samples\<close>: concrete frames for the witnesses.
  \<^item> \<open>Hsiphash\<close>, \<open>Cookies\<close>, \<open>Haraka\<close>, \<open>Hashes\<close>, \<open>Crc32\<close>, \<open>Jhash\<close>: the hash functions and the
    layout of the cookies; the copies in different agents agree, the table-driven CRC is the
    polynomial division, the versions of the Jenkins hash agree.  \<open>Hash_Variants\<close>: the 64-bit
    FNV hashes and the benchmark version of the cookie hash; locale \<open>byte_hash\<close> gives that a
    changed byte changes each FNV hash.  \<open>Hash_Bench\<close> (\<open>test.c\<close>): the SipHash of the benchmark
    is SipHash-2-4, and what its measurement of collisions counts.  \<open>Hash_Timing\<close> (\<open>perf.c\<close>,
    \<open>test.c\<close>): the functions that are timed, the SipHash variants as instances of one scheme, and the search for
    colliding salts, which reports all of them but those of the largest salt.
  \<^item> \<open>Bloom\<close> (\<open>bitutil.c\<close>, \<open>bloom.c\<close>): locales \<open>bit_array\<close> and \<open>approx_set\<close>; which buffers test
    positive, exactly.
  \<^item> \<open>Bloom_Race\<close>: several workers insert into one filter; the loads and stores of \<open>bloom_filter_put\<close> are
    micro-steps, an interleaving is a run of a step relation or a schedule, and \<open>put_left\<close> counts
    the steps to come.  Every schedule ends; no bit is set that no buffer selects; insertions that share no word
    of the bit vector are serialisable; insertions that do can be lost.
  \<^item> \<open>Hlist\<close>, \<open>Khashmap\<close> (\<open>list_nulls.h\<close>, \<open>khashmap.c\<close>): chains in an explicit heap; the hash map
    refines a finite map (locale \<open>table\<close>) as long as no more elements are inserted than it has
    slots, and writes behind its allocation afterwards.
  \<^item> \<open>Bpf_Env\<close>, \<open>Server_In\<close>, \<open>Server_En\<close>, \<open>Server_Agent\<close>: the two programs of the server agent on
    every branch, then the agent as a state machine whose events are packets of either
    direction.  Memory safety, the translation of each packet kind, valid checksums, stability
    and isolation of flows, and the hand-over of a connection: \<open>renumber\<close> says of every event,
    retransmitted SYN-ACKs and repeated opening ACKs included, what it does to the offset between the
    two numberings; with one SYN-ACK the offset is the right one, a retransmitted one shifts it.
  \<^item> \<open>Switch_Agent\<close>, \<open>Switch_Proofs\<close>, \<open>Switch_Flow\<close>, \<open>Switch_Csum\<close>, \<open>Switch_Gate\<close>: the packet
    processor of the switch agent; on one of 16 workers it never fails, answers SYNs without keeping
    state, accepts the cookies it issued and drops ACKs that claim to answer others.
  \<^item> \<open>Deployment\<close>: both agents and the announcements between them, as a labelled step relation: the
    label of a step names the entries of the seed tables that it damages (a frame of the server with
    ECE set that is no announcement, an announcement that is lost, overtaken or carries IP options)
    and repairs.  Outside the damaged entries the tables stay synchronised, so that the cookies the
    server agent makes on the SYN path and on refreshing an entry pass the switch agent.
  \<^item> \<open>Switch_Start\<close>: the switch agent as a process: command line, addresses, start-up, and the
    main loop as a step relation that interleaves the main thread with frames and passing time.
    Addresses are read as they are written, a started agent never fails and routes by them, and
    old cookies are accepted for as long as the server agent announced, also when longer periods are
    announced meanwhile, with two exceptions that are theorems: periods of 999 ms and more, and an
    announcement during a nap.
  \<^item> \<open>Client_Agent\<close>: both programs of the client agent; the connection table refines a map from
    flows to the SYN's time stamp and the last cookie (locale \<open>simulation\<close> of the prelude), the
    cookie that arrived last goes out again, and the echo the host sees never changes.
  \<^item> \<open>Sc_Server\<close>, \<open>Sc_Flow\<close>, \<open>Sc_Switch\<close>, \<open>Sc_Deploy\<close>: the server agent and the switch agent of
    \<open>smartcookie\<close> and the two together.  The table of flows refines its specification, sequence
    numbers are translated in both directions by the offset that \<open>sc_renumber\<close> computes from the
    packets seen, a cookie that the switch agent issued opens its flow, a wrong one is stopped by one
    of the two agents unless the filter has a false positive and the client has set ECE, and the
    packet processor fails exactly on the segments on which it dereferences a null pointer.  \<open>Sc_Start\<close> adds the command line and the
    start-up: the start always succeeds, and such a segment stops every agent so started.
  \<^item> \<open>Xsk_Worker\<close>, \<open>Xsk_Proofs\<close>, \<open>Xsk_Live\<close>, \<open>Xsk_Start\<close>, \<open>Xsk_Switch\<close> (\<open>xsknf.c\<close>): the worker
    loop, with the rings as lists.  Locale \<open>xsk_world\<close> is what the framework relies on, for the
    kernel and for the packet processor; in it no frame is lost or duplicated and nothing is
    written outside an array.  Locale \<open>xsk_fair\<close> adds a kernel that transmits; in it the waiting
    loops end.  Both are interpreted on the switch agent's packet processor.  Two limits are
    theorems as well: a waiting loop that never ends, and batches of 256 frames.
  \<^item> \<open>Xsk_Ring\<close> (\<open>xsk.h\<close>): the rings in memory refine the lists of the worker model.
  \<^item> \<open>Xsk_Config\<close>, \<open>Xsk_Dispatch\<close>: options, start-up, and the keys under which the XDP program
    finds the sockets.  A 33rd interface, which the parser writes behind its arrays, is \<open>ConfFault\<close>, and
    the theorem on the parser says on which command lines exactly; a socket whose key does not fit
    the map of 48 entries ends the program.
  \<^item> \<open>Xsk_Init\<close> (\<open>xsknf.c\<close>): initialisation, loading and attaching of programs, start and stop of
    the workers and clean-up as sequences of steps on the multiset of what the process holds,
    with a result for each system call and for each worker whether it leaves its loop.  A start that
    succeeds is undone by clean-up but for the eBPF object, if all workers end; the clean-up after a
    start that fails is not carried out.
  \<^item> \<open>Statistics\<close> (\<open>statistics.c\<close>): the reports; totals are sums, rates times time are the growth
    of the counters, and a 33rd worker is written behind the array of old counters.
  \<^item> \<open>Timeit\<close> (\<open>timeit.c\<close>, \<open>test.c\<close>): the timing harness returns a median of the measured rounds; its copy
    prints the last round instead.  \<open>Hex_Dump\<close> (\<open>utils.c\<close>): the layout of a dump, and that the packet can be read back.
  \<^item> \<open>Preload\<close> (\<open>server_in_user.c\<close>), \<open>Test_Client\<close> (\<open>test/client.c\<close>): the program that fills the
    connection tables, and the client that connects again after a reset; both do something
    else than they mean to, which the theorems state.

  \<^bold>\<open>Bounds and fuel.\<close>  The waiting loops \<open>wait_tx\<close> and \<open>wait_tx_1if\<close> take fuel and give the
  error \<open>XskSpin\<close> when it runs out; \<open>tx_wait_terminates\<close> and \<open>single_worker_live\<close> give an amount
  that is enough, \<open>tx_wait_livelock\<close> shows a state in which none is.  Batches have at most 255
  frames and there are at most 32 interfaces where theorems say so: these are the sizes of the
  8-bit counters and of the arrays of the code.  The walk through a chain, \<open>hlist_find\<close>, has
  the value \<open>None\<close> if it does not end; under the invariant of the hash map it returns.  All other
  loops are total functions.

  A few counters are natural numbers where C has unsigned types: \<open>outstanding_tx\<close>, which the worker
  invariant bounds by the frames of a socket; \<open>num_items\<close> of the Bloom filter, which nothing reads;
  and the slots of the hash map, whose addresses wrap only for keys and values of gigabytes.

  \<^bold>\<open>Not modelled.\<close>  The contents of netlink messages and eBPF objects: loading and attaching are
  calls that succeed or fail.  The layout of printed statistics; the arithmetic on doubles;
  \<open>xdp-tools\<close> but for the ring functions, which is third-party code.  Signals: a nap of
  the main loop is not interrupted, and the loop is left when the model's run ends.  Concurrent accesses of several workers are modelled for the
  Bloom filter, under sequentially consistent memory; to the other tables of the switch agent
  they are not: there a frame is processed atomically, and the main loop reads
  \<open>change_key_duration\<close> once per round.  The switch agent of \<open>smartcookie\<close> enters its random flows
  after the workers have started; in the model it does so before the first frame.
\<close>

end
